(* ===== verification/Prelude.thy ===== *)
theory Prelude
  imports Main "HOL-Library.Word"
begin

text \<open>
  Generic vocabulary of the development: the outcomes of a C++ expression (a value or the kind
  of undefined behaviour it runs into), machine integers as \<open>int\<close> with explicit range checks,
  raw memory as lists of cells that may be uninitialised, and the big-endian wire encoding of
  32-bit words.  Nothing here is specific to one component.
\<close>

named_theorems res_simps \<open>evaluation of the result combinators\<close>
named_theorems mem_simps \<open>reads over writes of raw memory\<close>

section \<open>Outcomes: a value or a fault\<close>

text \<open>
  A fault is an operation for which the C++ standard gives no meaning (an access through a null
  pointer, outside an allocation or to a deleted object, an integer read of bytes that were never
  written, a signed overflow, a division by zero, \<open>memcpy\<close> on overlapping regions, unsynchronised access to
  the data of another thread).  The program
  has no exceptions of its own, so every other failure is an ordinary return value.
\<close>

datatype fault =
    Null_deref
  | Out_of_bounds
  | Uninit_read
  | Use_after_free
  | Signed_overflow
  | Div_by_zero
  | Overlapping_copy
  | Data_race

type_synonym 'a res = "fault + 'a"

definition bind_res :: "'a res \<Rightarrow> ('a \<Rightarrow> 'b res) \<Rightarrow> 'b res" where
  "bind_res r f = (case r of Inl e \<Rightarrow> Inl e | Inr x \<Rightarrow> f x)"

lemma bind_res_simps [simp, res_simps]:
  "bind_res (Inl e) f = Inl e"
  "bind_res (Inr x) f = f x"
  by (simp_all add: bind_res_def)

lemma bind_res_Inr_iff [res_simps]:
  "bind_res r f = Inr y \<longleftrightarrow> (\<exists>x. r = Inr x \<and> f x = Inr y)"
  by (simp add: bind_res_def split: sum.splits)

lemma bind_res_Inl_iff [res_simps]:
  "bind_res r f = Inl e \<longleftrightarrow> r = Inl e \<or> (\<exists>x. r = Inr x \<and> f x = Inl e)"
  by (auto simp add: bind_res_def split: sum.splits)

lemma bind_res_cong [fundef_cong]:
  "r = r' \<Longrightarrow> (\<And>x. r' = Inr x \<Longrightarrow> f x = f' x) \<Longrightarrow> bind_res r f = bind_res r' f'"
  by (simp add: bind_res_def split: sum.splits)

lemma bind_res_assoc: "bind_res (bind_res r f) g = bind_res r (\<lambda>x. bind_res (f x) g)"
  by (simp add: bind_res_def split: sum.splits)

text \<open>A pointer is an option (\<open>None\<close> is \<open>NULL\<close>); objects live in a heap of addresses.\<close>

definition deref :: "'a option \<Rightarrow> 'a res" where
  "deref p = (case p of None \<Rightarrow> Inl Null_deref | Some x \<Rightarrow> Inr x)"

lemma deref_simps [simp, res_simps]: "deref None = Inl Null_deref" "deref (Some x) = Inr x"
  by (simp_all add: deref_def)

definition heap_get :: "(nat \<rightharpoonup> 'a) \<Rightarrow> nat \<Rightarrow> 'a res" where
  "heap_get h a = (case h a of None \<Rightarrow> Inl Use_after_free | Some x \<Rightarrow> Inr x)"

lemma heap_get_simps [simp]:
  "h a = None \<Longrightarrow> heap_get h a = Inl Use_after_free"
  "h a = Some x \<Longrightarrow> heap_get h a = Inr x"
  by (simp_all add: heap_get_def)

lemma heap_get_Inr_iff: "heap_get h a = Inr x \<longleftrightarrow> h a = Some x"
  by (simp add: heap_get_def split: option.splits)

text \<open>
  A computation that may also run forever: \<open>None\<close> is divergence, \<open>Some\<close> an outcome.
\<close>

type_synonym 'a run = "'a res option"

definition bind_run :: "'a run \<Rightarrow> ('a \<Rightarrow> 'b run) \<Rightarrow> 'b run" where
  "bind_run m f = (case m of None \<Rightarrow> None | Some (Inl e) \<Rightarrow> Some (Inl e) | Some (Inr x) \<Rightarrow> f x)"

lemma bind_run_simps [simp, res_simps]:
  "bind_run None f = None"
  "bind_run (Some (Inl e)) f = Some (Inl e)"
  "bind_run (Some (Inr x)) f = f x"
  by (simp_all add: bind_run_def)

lemma bind_run_Inr_iff [res_simps]:
  "bind_run m f = Some (Inr y) \<longleftrightarrow> (\<exists>x. m = Some (Inr x) \<and> f x = Some (Inr y))"
  by (simp add: bind_run_def split: option.splits sum.splits)

section \<open>Machine integers\<close>

text \<open>
  \<open>INT32\<close> and \<open>INT64\<close> values are \<open>int\<close>s; every addition, subtraction and multiplication of the
  source goes through a range check, since signed overflow has no meaning in C++.
\<close>

definition in_i32 :: "int \<Rightarrow> bool" where
  "in_i32 x \<longleftrightarrow> - 2147483648 \<le> x \<and> x \<le> 2147483647"

definition in_i64 :: "int \<Rightarrow> bool" where
  "in_i64 x \<longleftrightarrow> - 9223372036854775808 \<le> x \<and> x \<le> 9223372036854775807"

definition i32 :: "int \<Rightarrow> int res" where
  "i32 x = (if in_i32 x then Inr x else Inl Signed_overflow)"

definition i64 :: "int \<Rightarrow> int res" where
  "i64 x = (if in_i64 x then Inr x else Inl Signed_overflow)"

lemma i32_simps [simp, res_simps]:
  "in_i32 x \<Longrightarrow> i32 x = Inr x"
  "\<not> in_i32 x \<Longrightarrow> i32 x = Inl Signed_overflow"
  by (simp_all add: i32_def)

lemma i64_simps [simp, res_simps]:
  "in_i64 x \<Longrightarrow> i64 x = Inr x"
  "\<not> in_i64 x \<Longrightarrow> i64 x = Inl Signed_overflow"
  by (simp_all add: i64_def)

lemma i32_Inr_iff [res_simps]: "i32 x = Inr y \<longleftrightarrow> in_i32 x \<and> y = x"
  by (auto simp: i32_def)

lemma i64_Inr_iff [res_simps]: "i64 x = Inr y \<longleftrightarrow> in_i64 x \<and> y = x"
  by (auto simp: i64_def)

text \<open>Integer division and remainder of C++ truncate towards zero and trap on a zero divisor.\<close>

definition c_div :: "int \<Rightarrow> int \<Rightarrow> int res" where
  "c_div a b = (if b = 0 then Inl Div_by_zero else Inr (sgn a * sgn b * (\<bar>a\<bar> div \<bar>b\<bar>)))"

definition c_mod :: "int \<Rightarrow> int \<Rightarrow> int res" where
  "c_mod a b = (if b = 0 then Inl Div_by_zero else Inr (sgn a * (\<bar>a\<bar> mod \<bar>b\<bar>)))"

lemma c_div_nonneg: "0 \<le> a \<Longrightarrow> 0 < b \<Longrightarrow> c_div a b = Inr (a div b)"
  by (cases "a = 0") (simp_all add: c_div_def)

lemma c_mod_nonneg: "0 \<le> a \<Longrightarrow> 0 < b \<Longrightarrow> c_mod a b = Inr (a mod b)"
  by (cases "a = 0") (simp_all add: c_mod_def)

section \<open>Raw memory\<close>

text \<open>
  A cell is a byte or \<open>None\<close> for a byte that was allocated and never written (\<open>new char[n]\<close> does
  not initialise).  \<open>memcpy\<close> copies indeterminate bytes unchanged, an integer read of one is a
  fault.  Offsets and counts are the source's signed integers; a negative count is the huge
  \<open>size_t\<close> it converts to and so never in bounds.
\<close>

type_synonym byte = "8 word"
type_synonym cell = "byte option"
type_synonym mem = "cell list"

definition fresh_mem :: "int \<Rightarrow> mem" where
  "fresh_mem n = replicate (nat n) None"

definition poke :: "'a list \<Rightarrow> nat \<Rightarrow> 'a list \<Rightarrow> 'a list" where
  "poke m p cs = take p m @ cs @ drop (p + length cs) m"

definition mem_load :: "mem \<Rightarrow> int \<Rightarrow> int \<Rightarrow> cell list res" where
  "mem_load m p n =
     (if 0 \<le> p \<and> 0 \<le> n \<and> p + n \<le> int (length m)
      then Inr (take (nat n) (drop (nat p) m)) else Inl Out_of_bounds)"

definition mem_store :: "mem \<Rightarrow> int \<Rightarrow> cell list \<Rightarrow> mem res" where
  "mem_store m p cs =
     (if 0 \<le> p \<and> p + int (length cs) \<le> int (length m)
      then Inr (poke m (nat p) cs) else Inl Out_of_bounds)"

lemma length_fresh_mem [simp]: "length (fresh_mem n) = nat n"
  by (simp add: fresh_mem_def)

lemma length_poke [simp, mem_simps]: "p + length cs \<le> length m \<Longrightarrow> length (poke m p cs) = length m"
  by (simp add: poke_def)

lemma nth_poke:
  "p + length cs \<le> length m \<Longrightarrow> i < length m \<Longrightarrow>
   poke m p cs ! i = (if p \<le> i \<and> i < p + length cs then cs ! (i - p) else m ! i)"
  by (auto simp: poke_def nth_append)

lemma take_drop_poke_same [simp, mem_simps]:
  "p + length cs \<le> length m \<Longrightarrow> take (length cs) (drop p (poke m p cs)) = cs"
  by (simp add: poke_def)

lemma take_poke_before [mem_simps]:
  "n \<le> p \<Longrightarrow> p + length cs \<le> length m \<Longrightarrow> take n (poke m p cs) = take n m"
  by (rule nth_equalityI) (auto simp: nth_poke)

lemma drop_poke_after [mem_simps]:
  "p + length cs \<le> n \<Longrightarrow> n \<le> length m \<Longrightarrow> drop n (poke m p cs) = drop n m"
  by (rule nth_equalityI) (auto simp: nth_poke)

lemma take_poke_upto [mem_simps]:
  "p + length cs \<le> length m \<Longrightarrow> take (p + length cs) (poke m p cs) = take p m @ cs"
  by (simp add: poke_def)

lemma poke_0 [mem_simps]: "poke m 0 cs = cs @ drop (length cs) m"
  by (simp add: poke_def)

lemma poke_Nil [simp]: "poke m p [] = m"
  by (simp add: poke_def)

lemma mem_load_Inr_iff:
  "mem_load m p n = Inr cs \<longleftrightarrow>
   0 \<le> p \<and> 0 \<le> n \<and> p + n \<le> int (length m) \<and> cs = take (nat n) (drop (nat p) m)"
  by (auto simp: mem_load_def)

lemma mem_store_Inr_iff:
  "mem_store m p cs = Inr m' \<longleftrightarrow>
   0 \<le> p \<and> p + int (length cs) \<le> int (length m) \<and> m' = poke m (nat p) cs"
  by (auto simp: mem_store_def)

lemma mem_load_ok [simp, mem_simps]:
  "0 \<le> p \<Longrightarrow> 0 \<le> n \<Longrightarrow> p + n \<le> int (length m) \<Longrightarrow>
   mem_load m p n = Inr (take (nat n) (drop (nat p) m))"
  by (simp add: mem_load_def)

lemma mem_store_ok [simp, mem_simps]:
  "0 \<le> p \<Longrightarrow> p + int (length cs) \<le> int (length m) \<Longrightarrow>
   mem_store m p cs = Inr (poke m (nat p) cs)"
  by (simp add: mem_store_def)

text \<open>
  \<open>memcpy\<close> inside one buffer: ISO C leaves it undefined when the two regions overlap.  The flag
  \<open>ov\<close> says what the platform does then: \<open>False\<close> is the standard (a fault), \<open>True\<close> a C library
  whose \<open>memcpy\<close> behaves as \<open>memmove\<close>.
\<close>

definition mem_move :: "bool \<Rightarrow> mem \<Rightarrow> int \<Rightarrow> int \<Rightarrow> int \<Rightarrow> mem res" where
  "mem_move ov m dst src n =
     bind_res (mem_load m src n) (\<lambda>cs.
       if \<not> ov \<and> 0 < n \<and> \<bar>dst - src\<bar> < n then Inl Overlapping_copy
       else mem_store m dst cs)"

section \<open>Big-endian words\<close>

text \<open>
  \<open>htonl\<close> followed by a byte copy leaves the four bytes of the word in memory most significant
  byte first, on hosts of either endianness; \<open>ntohl\<close> of four bytes read back is its inverse.
\<close>

definition be32 :: "32 word \<Rightarrow> byte list" where
  "be32 w = [ucast (drop_bit 24 w), ucast (drop_bit 16 w), ucast (drop_bit 8 w), ucast w]"

definition un_be32 :: "byte \<Rightarrow> byte \<Rightarrow> byte \<Rightarrow> byte \<Rightarrow> 32 word" where
  "un_be32 a b c d =
     or (push_bit 24 (ucast a)) (or (push_bit 16 (ucast b)) (or (push_bit 8 (ucast c)) (ucast d)))"

definition be16 :: "16 word \<Rightarrow> byte list" where
  "be16 w = [ucast (drop_bit 8 w), ucast w]"

definition un_be16 :: "byte \<Rightarrow> byte \<Rightarrow> 16 word" where
  "un_be16 a b = or (push_bit 8 (ucast a)) (ucast b)"

definition read_be32 :: "cell list \<Rightarrow> 32 word res" where
  "read_be32 cs =
     (case cs of [Some a, Some b, Some c, Some d] \<Rightarrow> Inr (un_be32 a b c d) | _ \<Rightarrow> Inl Uninit_read)"

definition read_be16 :: "cell list \<Rightarrow> 16 word res" where
  "read_be16 cs = (case cs of [Some a, Some b] \<Rightarrow> Inr (un_be16 a b) | _ \<Rightarrow> Inl Uninit_read)"

lemma length_be32 [simp]: "length (be32 w) = 4"
  by (simp add: be32_def)

lemma length_be16 [simp]: "length (be16 w) = 2"
  by (simp add: be16_def)

lemma un_be32_be32:
  "un_be32 (ucast (drop_bit 24 w)) (ucast (drop_bit 16 w)) (ucast (drop_bit 8 w)) (ucast w) = w"
proof (rule bit_word_eqI)
  fix n :: nat
  assume "n < LENGTH(32)"
  then consider "n < 8" | "8 \<le> n \<and> n < 16" | "16 \<le> n \<and> n < 24" | "24 \<le> n \<and> n < 32"
    by fastforce
  then show "bit (un_be32 (ucast (drop_bit 24 w)) (ucast (drop_bit 16 w)) (ucast (drop_bit 8 w))
      (ucast w)) n \<longleftrightarrow> bit w n"
    by cases (auto simp add: un_be32_def bit_simps)
qed

text \<open>The two high bytes of a word, read back as a word of their own: its high half, never negative.\<close>

lemma sint_high_half:
  fixes w :: "32 word"
  shows "sint (un_be32 0 0 (ucast (drop_bit 24 w)) (ucast (drop_bit 16 w))) = uint w div 2 ^ 16"
proof -
  have "un_be32 0 0 (ucast (drop_bit 24 w)) (ucast (drop_bit 16 w)) = drop_bit 16 w"
  proof (rule bit_word_eqI)
    fix n :: nat
    assume "n < LENGTH(32)"
    then consider "n < 8" | "8 \<le> n \<and> n < 16" | "16 \<le> n \<and> n < 32" by fastforce
    then show "bit (un_be32 0 0 (ucast (drop_bit 24 w)) (ucast (drop_bit 16 w))) n \<longleftrightarrow>
        bit (drop_bit 16 w) n"
      by cases (auto simp add: un_be32_def bit_simps dest: bit_imp_le_length)
  qed
  moreover have "uint w < 2 ^ 32" by (rule order_less_le_trans [OF uint_lt2p]) simp
  moreover have "uint (drop_bit 16 w) = uint w div 2 ^ 16"
    using uint_div [of w "2 ^ 16"] by (simp add: drop_bit_eq_div)
  moreover have "signed_take_bit 31 (uint w div 2 ^ 16) = uint w div 2 ^ 16"
  proof (rule signed_take_bit_int_eq_self)
    have "0 \<le> uint w div 2 ^ 16" by (rule pos_imp_zdiv_nonneg_iff [THEN iffD2]) simp_all
    then show "- (2 ^ 31) \<le> uint w div 2 ^ 16" by simp
    show "uint w div 2 ^ 16 < 2 ^ 31"
      using \<open>uint w < 2 ^ 32\<close> by (simp add: div_less_iff_less_mult)
  qed
  ultimately show ?thesis
    by (simp add: sint_uint)
qed

lemma un_be16_be16: "un_be16 (ucast (drop_bit 8 w)) (ucast w) = w"
  by (rule bit_word_eqI) (auto simp: un_be16_def bit_simps)

lemma read_be32_be32 [simp]: "read_be32 (map Some (be32 w)) = Inr w"
  by (simp add: read_be32_def be32_def un_be32_be32)

lemma read_be16_be16 [simp]: "read_be16 (map Some (be16 w)) = Inr w"
  by (simp add: read_be16_def be16_def un_be16_be16)

lemma sint_word_of_int32 [simp]: "in_i32 x \<Longrightarrow> sint (word_of_int x :: 32 word) = x"
  by (simp add: in_i32_def signed_of_int signed_take_bit_int_eq_self)

lemma in_i32_sint [simp]: "in_i32 (sint (w :: 32 word))"
  using sint_greater_eq [of w] sint_less [of w] by (simp add: in_i32_def)

end
