(* ===== verification/DeviceInfo.thy ===== *)
theory DeviceInfo
  imports Prelude
begin

text \<open>
  A connection of an epoll thread: \<open>DEVICE_INFO\<close> of \<open>oryx/DeviceInfo.h\<close>, with its receive and
  send buffers of 4096 bytes and their begin/end cursors.  The two buffers are managed by the same
  code twice (\<open>clear_Recv_buff\<close>, \<open>clear_Send_buff\<close>); the locale \<open>io_window\<close> states that code once
  and is interpreted for each.  Log calls have no effect on this state and are left out.
\<close>

section \<open>Data\<close>

datatype DEVICE_TYPE =
    DEVICE_UNKNOWN
  | DEVICE_SERVER_INTERNAL
  | DEVICE_SERVER_EXTERNAL
  | DEVICE_CLIENT_INTERNAL
  | DEVICE_CLIENT_EXTERNAL
  | DEVICE_MAX

record sockaddr_in =
  sin_family :: int
  sin_port :: "16 word"
  sin_addr :: "32 word"

definition MAX_RECV_BUFFER_LEN :: int where [simp]: "MAX_RECV_BUFFER_LEN = 4096"
definition MAX_SEND_BUFFER_LEN :: int where [simp]: "MAX_SEND_BUFFER_LEN = 4096"

record DEVICE_INFO =
  fd :: int
  session_id :: int
  device_type :: DEVICE_TYPE
  recv_buffer :: mem
  recv_begin :: int
  recv_end :: int
  send_buffer :: mem
  send_begin :: int
  send_end :: int
  sock_addr :: sockaddr_in

text \<open>
  The constructor sets the type and the four cursors; descriptor, session and address keep the
  indeterminate values of the storage (\<open>indet\<close>) until \<open>addDevice\<close> assigns them.
\<close>

definition new_DEVICE_INFO :: "int \<Rightarrow> DEVICE_TYPE \<Rightarrow> DEVICE_INFO" where
  "new_DEVICE_INFO indet deviceType =
     \<lparr>fd = indet, session_id = indet, device_type = deviceType,
      recv_buffer = fresh_mem MAX_RECV_BUFFER_LEN, recv_begin = 0, recv_end = 0,
      send_buffer = fresh_mem MAX_SEND_BUFFER_LEN, send_begin = 0, send_end = 0,
      sock_addr = \<lparr>sin_family = indet, sin_port = 0, sin_addr = 0\<rparr>\<rparr>"

fun getClientDeviceType :: "DEVICE_TYPE \<Rightarrow> DEVICE_TYPE" where
  "getClientDeviceType DEVICE_UNKNOWN = DEVICE_UNKNOWN"
| "getClientDeviceType DEVICE_SERVER_INTERNAL = DEVICE_CLIENT_INTERNAL"
| "getClientDeviceType DEVICE_SERVER_EXTERNAL = DEVICE_CLIENT_EXTERNAL"
| "getClientDeviceType DEVICE_CLIENT_INTERNAL = DEVICE_UNKNOWN"
| "getClientDeviceType DEVICE_CLIENT_EXTERNAL = DEVICE_UNKNOWN"
| "getClientDeviceType DEVICE_MAX = DEVICE_UNKNOWN"

section \<open>Operations\<close>

text \<open>
  The flag \<open>ov\<close> is the platform's \<open>memcpy\<close> on overlapping regions (see \<open>mem_move\<close>): the moved
  region overlaps its destination whenever more bytes are pending than were consumed.
\<close>

definition clear_Recv_buff :: "bool \<Rightarrow> DEVICE_INFO \<Rightarrow> DEVICE_INFO res" where
  "clear_Recv_buff ov d =
     (if recv_begin d > 0 then
        if recv_end d = recv_begin d then Inr (d\<lparr>recv_end := 0, recv_begin := 0\<rparr>)
        else if recv_end d > recv_begin d then
          bind_res (mem_move ov (recv_buffer d) 0 (recv_begin d) (recv_end d - recv_begin d)) (\<lambda>m.
            Inr (d\<lparr>recv_buffer := m, recv_end := recv_end d - recv_begin d, recv_begin := 0\<rparr>))
        else Inr (d\<lparr>recv_end := 0, recv_begin := 0\<rparr>)
      else Inr d)"

definition clear_Send_buff :: "bool \<Rightarrow> DEVICE_INFO \<Rightarrow> DEVICE_INFO res" where
  "clear_Send_buff ov d =
     (if send_begin d > 0 then
        if send_end d = send_begin d then Inr (d\<lparr>send_end := 0, send_begin := 0\<rparr>)
        else if send_end d > send_begin d then
          bind_res (mem_move ov (send_buffer d) 0 (send_begin d) (send_end d - send_begin d)) (\<lambda>m.
            Inr (d\<lparr>send_buffer := m, send_end := send_end d - send_begin d, send_begin := 0\<rparr>))
        else Inr (d\<lparr>send_end := 0, send_begin := 0\<rparr>)
      else Inr d)"

text \<open>\<open>write(data, size)\<close>: the frame is a 4-byte big-endian total length and the data.\<close>

definition DEVICE_INFO_write ::
    "bool \<Rightarrow> DEVICE_INFO \<Rightarrow> mem option \<Rightarrow> int \<Rightarrow> (DEVICE_INFO \<times> int) res" where
  "DEVICE_INFO_write ov d src sz =
     (case src of
        None \<Rightarrow> Inr (d, 0)
      | Some s \<Rightarrow>
          if sz = 0 then Inr (d, 0)
          else bind_res (clear_Send_buff ov d) (\<lambda>d.
               bind_res (i32 (MAX_SEND_BUFFER_LEN - send_end d)) (\<lambda>room.
               bind_res (i32 (sz + 4)) (\<lambda>onlineSize.
               if room < onlineSize then Inr (d, 0)
               else
                 bind_res (mem_store (send_buffer d) (send_end d)
                             (map Some (be32 (word_of_int onlineSize)))) (\<lambda>m.
                 bind_res (mem_load s 0 sz) (\<lambda>cs.
                 bind_res (mem_store m (send_end d + 4) cs) (\<lambda>m.
                 Inr (d\<lparr>send_buffer := m, send_end := send_end d + 4 + sz\<rparr>, sz))))))))"

section \<open>Buffers with a window of pending bytes\<close>

definition window :: "mem \<Rightarrow> int \<Rightarrow> int \<Rightarrow> mem" where
  "window m lo hi = take (nat (hi - lo)) (drop (nat lo) m)"

definition window_ok :: "mem \<Rightarrow> int \<Rightarrow> int \<Rightarrow> bool" where
  "window_ok m lo hi \<longleftrightarrow> length m = 4096 \<and> 0 \<le> lo \<and> lo \<le> hi \<and> hi \<le> 4096"

lemma window_okE:
  assumes "window_ok m lo hi"
  obtains a b where "lo = int a" "hi = int b" "a \<le> b" "b \<le> 4096" "length m = 4096"
proof (rule that)
  show "lo = int (nat lo)" "hi = int (nat hi)" "nat lo \<le> nat hi" "nat hi \<le> 4096"
    "length m = 4096"
    using assms by (auto simp: window_ok_def)
qed

lemma length_window: "window_ok m lo hi \<Longrightarrow> length (window m lo hi) = nat (hi - lo)"
  by (erule window_okE) (simp add: window_def)

lemma int_length_window: "window_ok m lo hi \<Longrightarrow> int (length (window m lo hi)) = hi - lo"
  by (erule window_okE) (simp add: window_def)

lemma window_append:
  assumes "window_ok m lo hi" and "hi + int (length cs) \<le> 4096"
  shows "window (poke m (nat hi) cs) lo (hi + int (length cs)) = window m lo hi @ cs"
proof -
  from assms(1) obtain a b where ab: "lo = int a" "hi = int b" "a \<le> b" "length m = 4096"
    by (rule window_okE)
  have b: "b + length cs \<le> length m" using ab assms(2) by simp
  have "take (b + length cs - a) (drop a (poke m b cs)) = drop a (take (b + length cs) (poke m b cs))"
    by (simp add: drop_take)
  also have "\<dots> = drop a (take b m) @ cs"
    using ab b by (simp add: take_poke_upto)
  also have "\<dots> = take (b - a) (drop a m) @ cs" by (simp add: drop_take)
  finally show ?thesis using ab(1,2,3) by (simp add: window_def nat_diff_distrib nat_add_distrib)
qed

lemma window_ok_append:
  "window_ok m lo hi \<Longrightarrow> hi + int (length cs) \<le> 4096 \<Longrightarrow>
   window_ok (poke m (nat hi) cs) lo (hi + int (length cs))"
  by (erule window_okE) (simp add: window_ok_def)

lemma window_drop:
  "window_ok m lo hi \<Longrightarrow> 0 \<le> n \<Longrightarrow> n \<le> hi - lo \<Longrightarrow>
   window m (lo + n) hi = drop (nat n) (window m lo hi)"
  by (erule window_okE) (simp add: window_def drop_take nat_add_distrib nat_diff_distrib add.commute)

lemma window_take:
  "window_ok m lo hi \<Longrightarrow> 0 \<le> n \<Longrightarrow> n \<le> hi - lo \<Longrightarrow>
   take (nat n) (drop (nat lo) m) = take (nat n) (window m lo hi)"
  by (erule window_okE) (simp add: window_def min_absorb1)

text \<open>
  The interface of a buffer with a window: access to the buffer and its cursors, and the
  compaction routine.  The laws are the field laws and the code of the compaction; the lemmas say
  what it does to the pending bytes, on either platform.
\<close>

locale io_window =
  fixes buf :: "'d \<Rightarrow> mem" and lo :: "'d \<Rightarrow> int" and hi :: "'d \<Rightarrow> int"
    and upd :: "mem \<Rightarrow> int \<Rightarrow> int \<Rightarrow> 'd \<Rightarrow> 'd"
    and compact :: "bool \<Rightarrow> 'd \<Rightarrow> 'd res"
  assumes buf_upd: "buf (upd m a b d) = m"
    and lo_upd: "lo (upd m a b d) = a"
    and hi_upd: "hi (upd m a b d) = b"
    and upd_same: "upd (buf d) (lo d) (hi d) d = d"
    and compact_eq: "compact ov d =
      (if lo d > 0 then
         if hi d = lo d then Inr (upd (buf d) 0 0 d)
         else if hi d > lo d then
           bind_res (mem_move ov (buf d) 0 (lo d) (hi d - lo d)) (\<lambda>m. Inr (upd m 0 (hi d - lo d) d))
         else Inr (upd (buf d) 0 0 d)
       else Inr d)"
begin

lemmas upd_simps = buf_upd lo_upd hi_upd

lemma compact_ok:
  assumes ok: "window_ok (buf d) (lo d) (hi d)"
    and plat: "ov \<or> lo d = 0 \<or> hi d - lo d \<le> lo d"
  obtains m where "compact ov d = Inr (upd m 0 (hi d - lo d) d)"
    "window_ok m 0 (hi d - lo d)" "window m 0 (hi d - lo d) = window (buf d) (lo d) (hi d)"
proof (cases "lo d > 0 \<and> hi d > lo d")
  case True
  let ?cs = "take (nat (hi d - lo d)) (drop (nat (lo d)) (buf d))"
  have len: "length ?cs = nat (hi d - lo d)"
    using length_window [OF ok] by (simp add: window_def)
  have "mem_load (buf d) (lo d) (hi d - lo d) = Inr ?cs"
    using ok by (simp add: window_ok_def)
  moreover have "mem_store (buf d) 0 ?cs = Inr (poke (buf d) 0 ?cs)"
    using ok len by (intro mem_store_ok [where p = 0, simplified]) (simp add: window_ok_def)
  ultimately have "mem_move ov (buf d) 0 (lo d) (hi d - lo d) = Inr (poke (buf d) 0 ?cs)"
    using plat True by (auto simp: mem_move_def)
  then have eq: "compact ov d = Inr (upd (poke (buf d) 0 ?cs) 0 (hi d - lo d) d)"
    using True by (simp add: compact_eq)
  have "window (poke (buf d) 0 ?cs) 0 (hi d - lo d) = ?cs"
    using len by (simp add: window_def poke_0)
  moreover have "window_ok (poke (buf d) 0 ?cs) 0 (hi d - lo d)"
    using ok len by (simp add: window_ok_def)
  ultimately show ?thesis using that eq by (simp add: window_def)
next
  case False
  have "compact ov d = Inr (upd (buf d) 0 (hi d - lo d) d)"
    using False ok upd_same [of d] by (auto simp: compact_eq window_ok_def not_less)
  moreover have "window (buf d) 0 (hi d - lo d) = window (buf d) (lo d) (hi d)"
    using False ok by (auto simp: window_def window_ok_def not_less)
  ultimately show ?thesis using that ok by (auto simp: window_ok_def)
qed

lemma compact_overlap:
  assumes "window_ok (buf d) (lo d) (hi d)" and "0 < lo d" "lo d < hi d - lo d"
  shows "compact False d = Inl Overlapping_copy"
  using assms by (simp add: compact_eq mem_move_def window_ok_def)

end

interpretation recv_win: io_window recv_buffer recv_begin recv_end
    "\<lambda>m a b d. d\<lparr>recv_buffer := m, recv_end := b, recv_begin := a\<rparr>" clear_Recv_buff
  by unfold_locales (simp_all add: clear_Recv_buff_def)

interpretation send_win: io_window send_buffer send_begin send_end
    "\<lambda>m a b d. d\<lparr>send_buffer := m, send_end := b, send_begin := a\<rparr>" clear_Send_buff
  by unfold_locales (simp_all add: clear_Send_buff_def)

section \<open>The connection invariant\<close>

definition device_inv :: "DEVICE_INFO \<Rightarrow> bool" where
  "device_inv d \<longleftrightarrow> window_ok (recv_buffer d) (recv_begin d) (recv_end d) \<and>
     window_ok (send_buffer d) (send_begin d) (send_end d)"

definition recv_pending :: "DEVICE_INFO \<Rightarrow> mem" where
  "recv_pending d = window (recv_buffer d) (recv_begin d) (recv_end d)"

definition send_pending :: "DEVICE_INFO \<Rightarrow> mem" where
  "send_pending d = window (send_buffer d) (send_begin d) (send_end d)"

text \<open>Everything but one of the two buffers is the same.\<close>

definition same_identity :: "DEVICE_INFO \<Rightarrow> DEVICE_INFO \<Rightarrow> bool" where
  "same_identity d d' \<longleftrightarrow> fd d' = fd d \<and> session_id d' = session_id d \<and>
     device_type d' = device_type d \<and> sock_addr d' = sock_addr d"

lemma same_identity_refl [simp]: "same_identity d d"
  by (simp add: same_identity_def)

lemma same_identity_trans: "same_identity a b \<Longrightarrow> same_identity b c \<Longrightarrow> same_identity a c"
  by (simp add: same_identity_def)

lemma device_inv_new: "device_inv (new_DEVICE_INFO x t)"
  by (simp add: device_inv_def new_DEVICE_INFO_def window_ok_def)

lemma pending_new [simp]:
  "recv_pending (new_DEVICE_INFO x t) = []" "send_pending (new_DEVICE_INFO x t) = []"
  by (simp_all add: recv_pending_def send_pending_def new_DEVICE_INFO_def window_def)

lemma length_pending:
  "device_inv d \<Longrightarrow> int (length (recv_pending d)) = recv_end d - recv_begin d"
  "device_inv d \<Longrightarrow> int (length (send_pending d)) = send_end d - send_begin d"
  by (simp_all add: device_inv_def recv_pending_def send_pending_def int_length_window)

lemma device_inv_bounds:
  assumes "device_inv d"
  shows "0 \<le> recv_begin d" "recv_begin d \<le> recv_end d" "recv_end d \<le> 4096"
    "0 \<le> send_begin d" "send_begin d \<le> send_end d" "send_end d \<le> 4096"
    "length (recv_buffer d) = 4096" "length (send_buffer d) = 4096"
  using assms by (auto simp: device_inv_def window_ok_def)

lemma clear_Recv_ok:
  assumes "device_inv d" and "ov \<or> recv_begin d = 0 \<or> recv_end d - recv_begin d \<le> recv_begin d"
  obtains d' where "clear_Recv_buff ov d = Inr d'" "device_inv d'" "recv_begin d' = 0"
    "recv_end d' = recv_end d - recv_begin d" "recv_pending d' = recv_pending d"
    "send_pending d' = send_pending d" "same_identity d d'"
proof -
  from assms(1) have w: "window_ok (recv_buffer d) (recv_begin d) (recv_end d)"
    by (simp add: device_inv_def)
  from recv_win.compact_ok [OF w assms(2)] obtain m where "clear_Recv_buff ov d =
      Inr (d\<lparr>recv_buffer := m, recv_end := recv_end d - recv_begin d, recv_begin := 0\<rparr>)"
    "window_ok m 0 (recv_end d - recv_begin d)"
    "window m 0 (recv_end d - recv_begin d) = window (recv_buffer d) (recv_begin d) (recv_end d)"
    by blast
  with that assms(1) show ?thesis
    by (simp add: device_inv_def recv_pending_def send_pending_def same_identity_def)
qed

lemma clear_Send_ok:
  assumes "device_inv d" and "ov \<or> send_begin d = 0 \<or> send_end d - send_begin d \<le> send_begin d"
  obtains d' where "clear_Send_buff ov d = Inr d'" "device_inv d'" "send_begin d' = 0"
    "send_end d' = send_end d - send_begin d" "send_pending d' = send_pending d"
    "recv_pending d' = recv_pending d" "same_identity d d'"
proof -
  from assms(1) have w: "window_ok (send_buffer d) (send_begin d) (send_end d)"
    by (simp add: device_inv_def)
  from send_win.compact_ok [OF w assms(2)] obtain m where "clear_Send_buff ov d =
      Inr (d\<lparr>send_buffer := m, send_end := send_end d - send_begin d, send_begin := 0\<rparr>)"
    "window_ok m 0 (send_end d - send_begin d)"
    "window m 0 (send_end d - send_begin d) = window (send_buffer d) (send_begin d) (send_end d)"
    by blast
  with that assms(1) show ?thesis
    by (simp add: device_inv_def recv_pending_def send_pending_def same_identity_def)
qed

lemma clear_Recv_overlap:
  "device_inv d \<Longrightarrow> 0 < recv_begin d \<Longrightarrow> recv_begin d < recv_end d - recv_begin d \<Longrightarrow>
   clear_Recv_buff False d = Inl Overlapping_copy"
  by (rule recv_win.compact_overlap) (simp_all add: device_inv_def)

lemma clear_Send_overlap:
  "device_inv d \<Longrightarrow> 0 < send_begin d \<Longrightarrow> send_begin d < send_end d - send_begin d \<Longrightarrow>
   clear_Send_buff False d = Inl Overlapping_copy"
  by (rule send_win.compact_overlap) (simp_all add: device_inv_def)

lemma DEVICE_INFO_write_ok:
  assumes inv: "device_inv d" and s: "s \<noteq> []" "int (length s) \<le> 2147483643"
  obtains d' n where "DEVICE_INFO_write True d (Some s) (int (length s)) = Inr (d', n)"
    "device_inv d'" "recv_pending d' = recv_pending d" "same_identity d d'"
    "if length (send_pending d) + 4 + length s \<le> 4096
     then n = int (length s) \<and> send_pending d' = send_pending d @
            map Some (be32 (word_of_int (int (length s) + 4))) @ s
     else n = 0 \<and> send_pending d' = send_pending d"
proof -
  let ?n = "int (length s)"
  let ?hd = "map Some (be32 (word_of_int (?n + 4)))"
  from clear_Send_ok [OF inv, of True] obtain e where
    e: "clear_Send_buff True d = Inr e" "device_inv e" "send_begin e = 0"
      "send_end e = send_end d - send_begin d" "send_pending e = send_pending d"
      "recv_pending e = recv_pending d" "same_identity d e" by auto
  have len: "int (length (send_pending d)) = send_end e"
    using length_pending(2) [OF inv] e(4) by simp
  have i: "in_i32 (4096 - send_end e)" "in_i32 (?n + 4)"
    using device_inv_bounds [OF e(2)] s by (auto simp: in_i32_def)
  show ?thesis
  proof (cases "length (send_pending d) + 4 + length s \<le> 4096")
    case False
    then have "DEVICE_INFO_write True d (Some s) ?n = Inr (e, 0)"
      using e(1) i s len by (simp add: DEVICE_INFO_write_def)
    then show ?thesis using that e False by simp
  next
    case True
    let ?m1 = "poke (send_buffer e) (nat (send_end e)) ?hd"
    let ?m2 = "poke ?m1 (nat (send_end e + 4)) s"
    let ?e = "e\<lparr>send_buffer := ?m2, send_end := send_end e + 4 + ?n\<rparr>"
    have room: "send_end e + 4 + ?n \<le> 4096" using True len by simp
    have w: "window_ok (send_buffer e) (send_begin e) (send_end e)"
      using e(2) by (simp add: device_inv_def)
    have w1: "window_ok ?m1 (send_begin e) (send_end e + 4)"
      using window_ok_append [OF w, of ?hd] room by simp
    have p1: "window ?m1 (send_begin e) (send_end e + 4) = send_pending e @ ?hd"
      using window_append [OF w, of ?hd] room by (simp add: send_pending_def)
    have w2: "window_ok ?m2 (send_begin e) (send_end e + 4 + ?n)"
      using window_ok_append [OF w1, of s] room by simp
    have p2: "window ?m2 (send_begin e) (send_end e + 4 + ?n) = send_pending e @ ?hd @ s"
      using window_append [OF w1, of s] room p1 by simp
    have st1: "mem_store (send_buffer e) (send_end e) ?hd = Inr ?m1"
      using w room by (intro mem_store_ok) (auto simp: window_ok_def)
    have st2: "mem_store ?m1 (send_end e + 4) s = Inr ?m2"
      using w1 room by (intro mem_store_ok) (auto simp: window_ok_def)
    have eq: "DEVICE_INFO_write True d (Some s) ?n = Inr (?e, ?n)"
      using e(1) i s room st1 st2 by (simp add: DEVICE_INFO_write_def)
    show ?thesis
    proof (rule that [OF eq])
      show "device_inv ?e" using e(2) w2 by (simp add: device_inv_def)
      show "recv_pending ?e = recv_pending d" using e(6) by (simp add: recv_pending_def)
      show "same_identity d ?e" using e(7) by (simp add: same_identity_def)
      show "if length (send_pending d) + 4 + length s \<le> 4096
         then ?n = ?n \<and> send_pending ?e = send_pending d @ ?hd @ s
         else ?n = 0 \<and> send_pending ?e = send_pending d"
        using True p2 e(5) by (simp add: send_pending_def)
    qed
  qed
qed

section \<open>Properties\<close>

text \<open>
  Compaction of the receive and the send buffer.  On a well-formed connection the only way
  \<open>clear_Recv_buff\<close> (\<open>clear_Send_buff\<close>) can go wrong is the overlapping \<open>memcpy\<close>, which happens
  exactly when some bytes were consumed and more than that many are pending (unless the platform's
  \<open>memcpy\<close> tolerates it).  Otherwise the pending bytes of both directions are the same bytes in the
  same order, and the window starts at offset 0.
\<close>

theorem compaction_outcome:
  assumes "device_inv d"
  shows "(if \<not> ov \<and> 0 < recv_begin d \<and> recv_begin d < recv_end d - recv_begin d
          then clear_Recv_buff ov d = Inl Overlapping_copy
          else \<exists>d'. clear_Recv_buff ov d = Inr d' \<and> device_inv d' \<and> recv_begin d' = 0 \<and>
                 recv_pending d' = recv_pending d \<and> send_pending d' = send_pending d) \<and>
         (if \<not> ov \<and> 0 < send_begin d \<and> send_begin d < send_end d - send_begin d
          then clear_Send_buff ov d = Inl Overlapping_copy
          else \<exists>d'. clear_Send_buff ov d = Inr d' \<and> device_inv d' \<and> send_begin d' = 0 \<and>
                 send_pending d' = send_pending d \<and> recv_pending d' = recv_pending d)"
proof (rule conjI)
  show "if \<not> ov \<and> 0 < recv_begin d \<and> recv_begin d < recv_end d - recv_begin d
          then clear_Recv_buff ov d = Inl Overlapping_copy
          else \<exists>d'. clear_Recv_buff ov d = Inr d' \<and> device_inv d' \<and> recv_begin d' = 0 \<and>
                 recv_pending d' = recv_pending d \<and> send_pending d' = send_pending d"
  proof (cases "\<not> ov \<and> 0 < recv_begin d \<and> recv_begin d < recv_end d - recv_begin d")
    case False
    then have "ov \<or> recv_begin d = 0 \<or> recv_end d - recv_begin d \<le> recv_begin d"
      using device_inv_bounds(1) [OF assms] by linarith
    from clear_Recv_ok [OF assms this] False show ?thesis by metis
  qed (use clear_Recv_overlap [OF assms] in auto)
  show "if \<not> ov \<and> 0 < send_begin d \<and> send_begin d < send_end d - send_begin d
          then clear_Send_buff ov d = Inl Overlapping_copy
          else \<exists>d'. clear_Send_buff ov d = Inr d' \<and> device_inv d' \<and> send_begin d' = 0 \<and>
                 send_pending d' = send_pending d \<and> recv_pending d' = recv_pending d"
  proof (cases "\<not> ov \<and> 0 < send_begin d \<and> send_begin d < send_end d - send_begin d")
    case False
    then have "ov \<or> send_begin d = 0 \<or> send_end d - send_begin d \<le> send_begin d"
      using device_inv_bounds(4) [OF assms] by linarith
    from clear_Send_ok [OF assms this] False show ?thesis by metis
  qed (use clear_Send_overlap [OF assms] in auto)
qed

theorem compaction_outcome_witness:
  "clear_Recv_buff False ((new_DEVICE_INFO 3 DEVICE_CLIENT_EXTERNAL)
     \<lparr>recv_begin := 14, recv_end := 40\<rparr>) = Inl Overlapping_copy"
proof -
  have "device_inv ((new_DEVICE_INFO 3 DEVICE_CLIENT_EXTERNAL)\<lparr>recv_begin := 14, recv_end := 40\<rparr>)"
    by (simp add: device_inv_def new_DEVICE_INFO_def window_ok_def)
  from compaction_outcome [OF this, of False] show ?thesis by simp
qed



end
