(* ===== verification/Task.thy ===== *)
theory Task
  imports DeviceInfo
begin

text \<open>
  The tasks exchanged between the main thread and the epoll threads: \<open>oryx/task.h\<close> and the classes
  under \<open>task/\<close>.  A queue node is a pointer to a task and the four function pointers of its class;
  the class determines the pointers, so a node is a value of the datatype \<open>task\<close>, whose
  constructors are the classes with their fields (the thread id of the base class first).
\<close>

datatype TASK_TYPE =
    TASK_TYPE_NONE
  | TASK_TYPE_LISTENER
  | TASK_TYPE_CLIENTCONN
  | TASK_TYPE_CLIENTCONN_INSERT
  | TASK_TYPE_CLIENTCONN_DELETE
  | TASK_TYPE_CLIENTCONN_ONCLOSE
  | TASK_TYPE_CLIENTCONN_PACKET
  | TASK_TYPE_SEND_PACKET

text \<open>
  Fields: thread id, then for a listener and a new connection the descriptor, type and address
  (and the session id for an insertion), for the others the session id, and for the two packet
  tasks the size and the data pointer.
\<close>

datatype task =
    task_listener int int DEVICE_TYPE sockaddr_in
  | task_clientConn int int DEVICE_TYPE sockaddr_in
  | task_clientConnInsert int int DEVICE_TYPE int sockaddr_in
  | task_clientConnOnClose int int
  | task_clientConnDelete int int
  | task_clientConnPacket int int int "mem option"
  | task_sendPacket int int int "mem option"

fun getTaskType :: "task \<Rightarrow> TASK_TYPE" where
  "getTaskType (task_listener _ _ _ _) = TASK_TYPE_LISTENER"
| "getTaskType (task_clientConn _ _ _ _) = TASK_TYPE_CLIENTCONN"
| "getTaskType (task_clientConnInsert _ _ _ _ _) = TASK_TYPE_CLIENTCONN_INSERT"
| "getTaskType (task_clientConnOnClose _ _) = TASK_TYPE_CLIENTCONN_ONCLOSE"
| "getTaskType (task_clientConnDelete _ _) = TASK_TYPE_CLIENTCONN_DELETE"
| "getTaskType (task_clientConnPacket _ _ _ _) = TASK_TYPE_CLIENTCONN_PACKET"
| "getTaskType (task_sendPacket _ _ _ _) = TASK_TYPE_SEND_PACKET"

fun getTaskThreadID :: "task \<Rightarrow> int" where
  "getTaskThreadID (task_listener t _ _ _) = t"
| "getTaskThreadID (task_clientConn t _ _ _) = t"
| "getTaskThreadID (task_clientConnInsert t _ _ _ _) = t"
| "getTaskThreadID (task_clientConnOnClose t _) = t"
| "getTaskThreadID (task_clientConnDelete t _) = t"
| "getTaskThreadID (task_clientConnPacket t _ _ _) = t"
| "getTaskThreadID (task_sendPacket t _ _ _) = t"

section \<open>Constructors\<close>

text \<open>The classes whose constructor fixes some fields: \<open>Task(0)\<close>, session 0, no data yet.\<close>

definition new_task_listener :: "int \<Rightarrow> DEVICE_TYPE \<Rightarrow> sockaddr_in \<Rightarrow> task" where
  "new_task_listener lfd deviceType addr = task_listener 0 lfd deviceType addr"

definition new_task_clientConn :: "int \<Rightarrow> int \<Rightarrow> DEVICE_TYPE \<Rightarrow> sockaddr_in \<Rightarrow> task" where
  "new_task_clientConn threadID clientFD deviceType addr =
     task_clientConn threadID clientFD deviceType addr"

definition new_task_clientConnInsert :: "int \<Rightarrow> DEVICE_TYPE \<Rightarrow> sockaddr_in \<Rightarrow> task" where
  "new_task_clientConnInsert clientFD deviceType addr =
     task_clientConnInsert 0 clientFD deviceType 0 addr"

definition new_task_clientConnOnClose :: "int \<Rightarrow> int \<Rightarrow> task" where
  "new_task_clientConnOnClose threadID sessionID = task_clientConnOnClose threadID sessionID"

definition new_task_clientConnDelete :: "int \<Rightarrow> int \<Rightarrow> task" where
  "new_task_clientConnDelete threadID sessionID = task_clientConnDelete threadID sessionID"

definition new_task_clientConnPacket :: "int \<Rightarrow> int \<Rightarrow> task" where
  "new_task_clientConnPacket threadID sessionID = task_clientConnPacket threadID sessionID 0 None"

definition new_task_sendPacket :: "int \<Rightarrow> int \<Rightarrow> task" where
  "new_task_sendPacket threadID sessionID = task_sendPacket threadID sessionID 0 None"

section \<open>Payloads\<close>

text \<open>
  \<open>task_clientConnPacket::InitData\<close> copies the bytes into an allocation of \<open>size + 1\<close> and
  terminates it; \<open>task_sendPacket::InitData\<close> allocates only \<open>size\<close> bytes and writes the terminator
  all the same.
\<close>

definition clientConnPacket_InitData :: "mem option \<Rightarrow> int \<Rightarrow> task \<Rightarrow> task res" where
  "clientConnPacket_InitData src sz t =
     (case t of
        task_clientConnPacket th s n0 d0 \<Rightarrow>
          (case src of
             None \<Rightarrow> Inr t
           | Some m \<Rightarrow>
               if sz > 0 then
                 bind_res (i32 (sz + 1)) (\<lambda>n.
                 bind_res (mem_load m 0 sz) (\<lambda>cs.
                 bind_res (mem_store (fresh_mem n) 0 cs) (\<lambda>b.
                 bind_res (mem_store b sz [Some 0]) (\<lambda>b.
                 Inr (task_clientConnPacket th s sz (Some b))))))
               else Inr t)
      | _ \<Rightarrow> Inr t)"

definition sendPacket_InitData :: "mem option \<Rightarrow> int \<Rightarrow> task \<Rightarrow> (task \<times> bool) res" where
  "sendPacket_InitData src sz t =
     (case t of
        task_sendPacket th s n0 d0 \<Rightarrow>
          (case src of
             None \<Rightarrow> Inr (t, False)
           | Some m \<Rightarrow>
               if sz \<le> 0 \<or> sz > MAX_SEND_BUFFER_LEN then Inr (t, False)
               else
                 bind_res (mem_load m 0 sz) (\<lambda>cs.
                 bind_res (mem_store (fresh_mem sz) 0 cs) (\<lambda>b.
                 bind_res (mem_store b sz [Some 0]) (\<lambda>b.
                 Inr (task_sendPacket th s sz (Some b), True)))))
      | _ \<Rightarrow> Inr (t, False))"

section \<open>Release\<close>

text \<open>
  The allocations a task owns (itself, and its data), and those that \<open>on_free\<close> releases after the
  task has completed.
\<close>

datatype block = Block_task | Block_data

fun owned_blocks :: "task \<Rightarrow> block list" where
  "owned_blocks (task_clientConnPacket _ _ _ (Some _)) = [Block_data, Block_task]"
| "owned_blocks (task_sendPacket _ _ _ (Some _)) = [Block_data, Block_task]"
| "owned_blocks _ = [Block_task]"

definition task_listener_on_free :: "task \<Rightarrow> block list" where
  "task_listener_on_free t = [Block_task]"

definition task_clientConn_on_free :: "task \<Rightarrow> block list" where
  "task_clientConn_on_free t = [Block_task]"

definition task_clientConnInsert_on_free :: "task \<Rightarrow> block list" where
  "task_clientConnInsert_on_free t = [Block_task]"

definition task_clientConnOnClose_on_free :: "task \<Rightarrow> block list" where
  "task_clientConnOnClose_on_free t = [Block_task]"

definition task_clientConnDelete_on_free :: "task \<Rightarrow> block list" where
  "task_clientConnDelete_on_free t = [Block_task]"

definition task_clientConnPacket_on_free :: "task \<Rightarrow> block list" where
  "task_clientConnPacket_on_free t =
     (case t of task_clientConnPacket _ _ _ (Some _) \<Rightarrow> [Block_data] | _ \<Rightarrow> []) @ [Block_task]"

definition task_sendPacket_on_free :: "task \<Rightarrow> block list" where
  "task_sendPacket_on_free t = [Block_task]"

text \<open>\<open>Task::OnComplete\<close>: every \<open>on_main_call\<close> is empty, then \<open>on_free\<close> of the class.\<close>

definition OnComplete :: "task \<Rightarrow> block list" where
  "OnComplete t =
     (case getTaskType t of
        TASK_TYPE_LISTENER \<Rightarrow> task_listener_on_free t
      | TASK_TYPE_CLIENTCONN \<Rightarrow> task_clientConn_on_free t
      | TASK_TYPE_CLIENTCONN_INSERT \<Rightarrow> task_clientConnInsert_on_free t
      | TASK_TYPE_CLIENTCONN_ONCLOSE \<Rightarrow> task_clientConnOnClose_on_free t
      | TASK_TYPE_CLIENTCONN_DELETE \<Rightarrow> task_clientConnDelete_on_free t
      | TASK_TYPE_CLIENTCONN_PACKET \<Rightarrow> task_clientConnPacket_on_free t
      | TASK_TYPE_SEND_PACKET \<Rightarrow> task_sendPacket_on_free t
      | TASK_TYPE_NONE \<Rightarrow> [])"

lemmas on_free_defs = task_listener_on_free_def task_clientConn_on_free_def
  task_clientConnInsert_on_free_def task_clientConnOnClose_on_free_def
  task_clientConnDelete_on_free_def task_clientConnPacket_on_free_def task_sendPacket_on_free_def

section \<open>Tasks for the main thread\<close>

text \<open>
  The tasks that epoll threads send: connections, closings, and packets with their data, of at most the size of the receive buffer.
\<close>

definition main_task :: "task \<Rightarrow> bool" where
  "main_task t \<longleftrightarrow>
     (case t of
        task_clientConn _ _ _ _ \<Rightarrow> True
      | task_clientConnOnClose _ _ \<Rightarrow> True
      | task_clientConnPacket _ _ n (Some d) \<Rightarrow>
          0 \<le> n \<and> n \<le> 4096 \<and> n \<le> int (length d) \<and> None \<notin> set (take (nat n) d)
      | _ \<Rightarrow> False)"

section \<open>Lemmas\<close>

lemma clientConnPacket_InitData_ok:
  assumes "0 < n" "n \<le> 2147483646" "n \<le> int (length m)"
  shows "clientConnPacket_InitData (Some m) n (new_task_clientConnPacket th s) =
    Inr (task_clientConnPacket th s n (Some (take (nat n) m @ [Some 0])))"
proof -
  define k where "k = nat n"
  have k: "n = int k" "0 < k" "k \<le> length m" using assms by (simp_all add: k_def)
  have l: "length (take k m) = k" using k by simp
  have "poke (fresh_mem (int k + 1)) 0 (take k m) = take k m @ [None]"
    using l by (simp add: poke_0 fresh_mem_def nat_add_distrib del: replicate_Suc) simp
  moreover have "poke (take k m @ [None]) k [Some 0] = take k m @ [Some 0]"
    using l by (simp add: poke_def)
  moreover have "in_i32 (int k + 1)" using assms(2) k(1) by (simp add: in_i32_def)
  ultimately show ?thesis
    using k l by (simp add: clientConnPacket_InitData_def new_task_clientConnPacket_def)
qed

lemma sendPacket_InitData_cases:
  assumes "n \<le> int (length m)"
  shows "sendPacket_InitData (Some m) n (new_task_sendPacket th s) =
      (if 1 \<le> n \<and> n \<le> 4096 then Inl Out_of_bounds else Inr (new_task_sendPacket th s, False))"
proof (cases "1 \<le> n \<and> n \<le> 4096")
  case True
  then have "mem_store (fresh_mem n) 0 (take (nat n) m) = Inr (poke (fresh_mem n) 0 (take (nat n) m))"
    using assms by (intro mem_store_ok [where p = 0, simplified]) simp
  moreover have "length (poke (fresh_mem n) 0 (take (nat n) m)) = nat n"
    using assms True by simp
  ultimately show ?thesis
    using True assms by (simp add: sendPacket_InitData_def new_task_sendPacket_def mem_store_def)
next
  case False
  then show ?thesis
    by (auto simp: sendPacket_InitData_def new_task_sendPacket_def)
qed

section \<open>Properties\<close>

text \<open>
  The payload of an outgoing packet.  \<open>task_sendPacket::InitData\<close> rejects the null pointer and
  sizes outside \<open>1..4096\<close> without touching the task; for every size it accepts it writes the
  terminating zero one byte past its allocation.
\<close>

theorem send_init_data_overruns:
  assumes "n \<le> int (length m)"
  shows "sendPacket_InitData None n (new_task_sendPacket th s) = Inr (new_task_sendPacket th s, False) \<and>
    sendPacket_InitData (Some m) n (new_task_sendPacket th s) =
      (if 1 \<le> n \<and> n \<le> 4096 then Inl Out_of_bounds else Inr (new_task_sendPacket th s, False))"
  using sendPacket_InitData_cases [OF assms]
  by (simp add: sendPacket_InitData_def [of None] new_task_sendPacket_def)

theorem send_init_data_overruns_witness:
  "sendPacket_InitData (Some [Some 1, Some 2]) 2 (new_task_sendPacket 9 5) = Inl Out_of_bounds"
  using send_init_data_overruns [of 2 "[Some 1, Some 2]" 9 5] by simp

text \<open>
  Which allocations completion releases.  \<open>OnComplete\<close> frees everything a task owns, except
  that a \<open>task_sendPacket\<close> with data never frees its data.
\<close>

theorem completion_releases:
  "OnComplete t = owned_blocks t \<longleftrightarrow> \<not> (\<exists>th s n m. t = task_sendPacket th s n (Some m))"
proof (cases t)
  case (task_clientConnPacket th s n d)
  then show ?thesis by (cases d) (simp_all add: OnComplete_def on_free_defs)
next
  case (task_sendPacket th s n d)
  then show ?thesis by (cases d) (simp_all add: OnComplete_def on_free_defs)
qed (simp_all add: OnComplete_def on_free_defs)

end
