(* ===== verification/SpscQueue.thy ===== *)
theory SpscQueue
  imports Prelude
begin

text \<open>
  The single-producer single-consumer queue of \<open>oryx/spsc_queue.h\<close>: a boost lock-free ring of fixed
  capacity and, on the producer's side, a vector that takes what the ring cannot hold.  The ring is
  not part of the repository: it is a record of its operations, a parameter \<open>B\<close> of every definition
  here; what the code relies on is the locale \<open>boost_ring\<close> (boost documents \<open>push\<close> as failing
  exactly when the ring is full and \<open>pop\<close> as failing exactly when it is empty).  The interface that
  the threads use is the locale \<open>fifo\<close>; every ring gives one (\<open>sublocale\<close>).
\<close>

section \<open>The ring, a parameter\<close>

record ('q, 'a) boost =
  ring_empty :: 'q
  ring_push :: "'q \<Rightarrow> 'a \<Rightarrow> 'q \<times> bool"
  ring_pop :: "'q \<Rightarrow> 'q \<times> 'a option"

locale boost_ring =
  fixes B :: "('q, 'a) boost" and elems :: "'q \<Rightarrow> 'a list" and cap :: nat
  assumes ring_init: "elems (ring_empty B) = []"
    and ring_push_room: "length (elems r) < cap \<Longrightarrow>
          snd (ring_push B r x) \<and> elems (fst (ring_push B r x)) = elems r @ [x]"
    and ring_push_full: "cap \<le> length (elems r) \<Longrightarrow>
          \<not> snd (ring_push B r x) \<and> elems (fst (ring_push B r x)) = elems r"
    and ring_pop_none: "elems r = [] \<Longrightarrow> snd (ring_pop B r) = None \<and> elems (fst (ring_pop B r)) = []"
    and ring_pop_some: "elems r = x # xs \<Longrightarrow>
          snd (ring_pop B r) = Some x \<and> elems (fst (ring_pop B r)) = xs"

section \<open>The queue\<close>

record ('q, 'a) spsc_queue =
  m_cache :: "'a list"
  m_queue :: 'q

definition new_spsc_queue :: "('q, 'a) boost \<Rightarrow> ('q, 'a) spsc_queue" where
  "new_spsc_queue B = \<lparr>m_cache = [], m_queue = ring_empty B\<rparr>"

text \<open>The loop of \<open>checkCache\<close>: move the oldest cached element until the ring refuses one.\<close>

fun checkCache_loop :: "('q, 'a) boost \<Rightarrow> 'a list \<Rightarrow> 'q \<Rightarrow> int \<Rightarrow> 'a list \<times> 'q \<times> int" where
  "checkCache_loop B [] r n = ([], r, n)"
| "checkCache_loop B (x # xs) r n =
     (case ring_push B r x of
        (r', True) \<Rightarrow> checkCache_loop B xs r' (n + 1)
      | (r', False) \<Rightarrow> (x # xs, r', n))"

definition checkCache :: "('q, 'a) boost \<Rightarrow> ('q, 'a) spsc_queue \<Rightarrow> ('q, 'a) spsc_queue \<times> int" where
  "checkCache B q =
     (case checkCache_loop B (m_cache q) (m_queue q) 0 of
        (c, r, n) \<Rightarrow> (q\<lparr>m_cache := c, m_queue := r\<rparr>, n))"

definition push :: "('q, 'a) boost \<Rightarrow> ('q, 'a) spsc_queue \<Rightarrow> 'a \<Rightarrow> ('q, 'a) spsc_queue" where
  "push B q x =
     (let q1 = (if length (m_cache q) > 0 then q\<lparr>m_cache := m_cache q @ [x]\<rparr>
                else case ring_push B (m_queue q) x of
                       (r, True) \<Rightarrow> q\<lparr>m_queue := r\<rparr>
                     | (r, False) \<Rightarrow> q\<lparr>m_queue := r, m_cache := m_cache q @ [x]\<rparr>)
      in fst (checkCache B q1))"

definition pop :: "('q, 'a) boost \<Rightarrow> ('q, 'a) spsc_queue \<Rightarrow> ('q, 'a) spsc_queue \<times> 'a option" where
  "pop B q = (case ring_pop B (m_queue q) of (r, x) \<Rightarrow> (q\<lparr>m_queue := r\<rparr>, x))"

text \<open>What is queued, oldest first: the ring, then the cache.\<close>

definition contents :: "('q \<Rightarrow> 'a list) \<Rightarrow> ('q, 'a) spsc_queue \<Rightarrow> 'a list" where
  "contents elems q = elems (m_queue q) @ m_cache q"

section \<open>The interface of a queue\<close>

text \<open>
  Producer operations \<open>enq\<close> and \<open>flush\<close>, consumer operation \<open>deq\<close>.  A failed \<open>deq\<close> leaves the queue
  as it is, and after a flush it does not fail unless the queue is empty.
\<close>

datatype 'a queue_op = Enq 'a | Deq | Flush

locale fifo =
  fixes enq :: "'s \<Rightarrow> 'a \<Rightarrow> 's" and deq :: "'s \<Rightarrow> 's \<times> 'a option" and flush :: "'s \<Rightarrow> 's"
    and list_of :: "'s \<Rightarrow> 'a list"
  assumes enq_list: "list_of (enq s x) = list_of s @ [x]"
    and flush_list: "list_of (flush s) = list_of s"
    and deq_some: "deq s = (s', Some x) \<Longrightarrow> list_of s = x # list_of s'"
    and deq_none: "deq s = (s', None) \<Longrightarrow> list_of s' = list_of s"
    and deq_flushed: "list_of s \<noteq> [] \<Longrightarrow> snd (deq (flush s)) \<noteq> None"
begin

lemma enq_foldl: "list_of (foldl enq s xs) = list_of s @ xs"
  by (induction xs arbitrary: s) (simp_all add: enq_list)

lemma deq_after_flush: "list_of s = x # xs \<Longrightarrow> \<exists>s'. deq (flush s) = (s', Some x) \<and> list_of s' = xs"
  using deq_flushed [of s] deq_some [of "flush s"] flush_list [of s]
  by (cases "deq (flush s)") fastforce

lemma deq_empty: "list_of s = [] \<Longrightarrow> snd (deq s) = None"
  using deq_some [of s] by (cases "deq s"; cases "snd (deq s)") auto

end

text \<open>A run of operations in any interleaving of the two sides, with the dequeued elements.\<close>

fun spsc_step :: "('q, 'a) boost \<Rightarrow> 'a queue_op \<Rightarrow> ('q, 'a) spsc_queue \<times> 'a list \<Rightarrow>
    ('q, 'a) spsc_queue \<times> 'a list" where
  "spsc_step B (Enq x) (q, out) = (push B q x, out)"
| "spsc_step B Flush (q, out) = (fst (checkCache B q), out)"
| "spsc_step B Deq (q, out) =
     (case pop B q of (q', None) \<Rightarrow> (q', out) | (q', Some x) \<Rightarrow> (q', out @ [x]))"

definition spsc_run :: "('q, 'a) boost \<Rightarrow> 'a queue_op list \<Rightarrow> ('q, 'a) spsc_queue \<Rightarrow>
    ('q, 'a) spsc_queue \<times> 'a list" where
  "spsc_run B ops q = fold (spsc_step B) ops (q, [])"

fun enqueued :: "'a queue_op list \<Rightarrow> 'a list" where
  "enqueued [] = []"
| "enqueued (Enq x # ops) = x # enqueued ops"
| "enqueued (_ # ops) = enqueued ops"

section \<open>Every ring makes the queue a FIFO\<close>

context boost_ring
begin

lemma ring_push_cases:
  "ring_push B r x = (r', ok) \<Longrightarrow>
   (ok \<and> length (elems r) < cap \<and> elems r' = elems r @ [x]) \<or>
   (\<not> ok \<and> cap \<le> length (elems r) \<and> elems r' = elems r)"
  using ring_push_room [of r x] ring_push_full [of r x] by (cases "length (elems r) < cap") auto

lemma checkCache_loop_contents:
  "checkCache_loop B c r n = (c', r', n') \<Longrightarrow>
   elems r' @ c' = elems r @ c \<and> n' = n + int (length c) - int (length c') \<and>
   (c' \<noteq> [] \<longrightarrow> cap \<le> length (elems r'))"
proof (induction c arbitrary: r n)
  case Nil
  then show ?case by simp
next
  case (Cons x xs)
  obtain r1 ok where p: "ring_push B r x = (r1, ok)" by fastforce
  show ?case
  proof (cases ok)
    case True
    with Cons.prems p have "checkCache_loop B xs r1 (n + 1) = (c', r', n')" by simp
    from Cons.IH [OF this] show ?thesis using ring_push_cases [OF p] True by auto
  next
    case False
    with Cons.prems p have "c' = x # xs" "r' = r1" "n' = n" by simp_all
    then show ?thesis using ring_push_cases [OF p] False by auto
  qed
qed

lemma checkCache_contents [simp]: "contents elems (fst (checkCache B q)) = contents elems q"
proof -
  obtain c r n where "checkCache_loop B (m_cache q) (m_queue q) 0 = (c, r, n)"
    by (metis prod_cases3)
  with checkCache_loop_contents [OF this] show ?thesis
    by (simp add: checkCache_def contents_def)
qed

lemma push_contents: "contents elems (push B q x) = contents elems q @ [x]"
  using ring_push_cases [of "m_queue q" x]
  by (auto simp: push_def Let_def contents_def [of elems q] split: prod.splits bool.splits)
    (auto simp: contents_def)

lemma pop_some: "pop B q = (q', Some x) \<Longrightarrow> contents elems q = x # contents elems q'"
  using ring_pop_none [of "m_queue q"] ring_pop_some [of "m_queue q"]
  by (cases "elems (m_queue q)") (auto simp: pop_def contents_def split: prod.splits)

lemma pop_none: "pop B q = (q', None) \<Longrightarrow> contents elems q' = contents elems q"
  using ring_pop_none [of "m_queue q"] ring_pop_some [of "m_queue q"]
  by (cases "elems (m_queue q)") (auto simp: pop_def contents_def split: prod.splits)

lemma pop_nonempty_ring: "elems (m_queue q) = x # xs \<Longrightarrow> snd (pop B q) = Some x"
  using ring_pop_some [of "m_queue q" x xs] by (auto simp: pop_def split: prod.splits)

lemma pop_empty_ring:
  "elems (m_queue q) = [] \<Longrightarrow>
   \<exists>q'. pop B q = (q', None) \<and> elems (m_queue q') = [] \<and> m_cache q' = m_cache q"
  using ring_pop_none [of "m_queue q"] by (cases "ring_pop B (m_queue q)") (auto simp: pop_def)

lemma pop_cons_ring:
  "elems (m_queue q) = x # xs \<Longrightarrow>
   \<exists>q'. pop B q = (q', Some x) \<and> elems (m_queue q') = xs \<and> m_cache q' = m_cache q"
  using ring_pop_some [of "m_queue q" x xs]
  by (cases "ring_pop B (m_queue q)") (auto simp: pop_def)

lemma pop_none_ring: "pop B q = (q', None) \<Longrightarrow> elems (m_queue q') = []"
  using pop_empty_ring [of q] pop_cons_ring [of q] by (cases "elems (m_queue q)") fastforce+

lemma checkCache_ready:
  assumes "0 < cap" and "contents elems q \<noteq> []"
  shows "elems (m_queue (fst (checkCache B q))) \<noteq> []"
proof -
  obtain c r n where l: "checkCache_loop B (m_cache q) (m_queue q) 0 = (c, r, n)"
    by (metis prod_cases3)
  from checkCache_loop_contents [OF l] have "elems r @ c \<noteq> []" "c \<noteq> [] \<longrightarrow> cap \<le> length (elems r)"
    using assms(2) by (simp_all add: contents_def)
  then have "elems r \<noteq> []" using assms(1) by auto
  then show ?thesis using l by (simp add: checkCache_def)
qed

end

locale boost_ring_nonempty = boost_ring +
  assumes cap_pos: "0 < cap"

sublocale boost_ring_nonempty \<subseteq> spsc: fifo "push B" "pop B" "\<lambda>q. fst (checkCache B q)" "contents elems"
proof unfold_locales
  show "contents elems (push B s x) = contents elems s @ [x]" for s x by (rule push_contents)
  show "contents elems (fst (checkCache B s)) = contents elems s" for s by simp
  show "pop B s = (s', Some x) \<Longrightarrow> contents elems s = x # contents elems s'" for s s' x
    by (rule pop_some)
  show "pop B s = (s', None) \<Longrightarrow> contents elems s' = contents elems s" for s s' by (rule pop_none)
  show "contents elems s \<noteq> [] \<Longrightarrow> snd (pop B (fst (checkCache B s))) \<noteq> None" for s
    using checkCache_ready [OF cap_pos, of s] pop_nonempty_ring
    by (cases "elems (m_queue (fst (checkCache B s)))") auto
qed

context boost_ring_nonempty
begin

lemmas spsc_is_fifo = spsc.fifo_axioms

end

text \<open>
  A ring that behaves as documented: the list of its elements, refused beyond the capacity.  The
  threads' queues have capacity \<open>MAX_SPSC_QUEUE_SIZE\<close>.
\<close>

definition list_ring :: "nat \<Rightarrow> ('a list, 'a) boost" where
  "list_ring cap =
     \<lparr>ring_empty = [],
      ring_push = (\<lambda>r x. if length r < cap then (r @ [x], True) else (r, False)),
      ring_pop = (\<lambda>r. case r of [] \<Rightarrow> ([], None) | x # xs \<Rightarrow> (xs, Some x))\<rparr>"

definition MAX_SPSC_QUEUE_SIZE :: nat where [simp]: "MAX_SPSC_QUEUE_SIZE = 40960"

lemma list_ring_boost: "boost_ring (list_ring n) (\<lambda>r. r) n"
  by unfold_locales (auto simp: list_ring_def)

lemma list_ring_ok: "0 < n \<Longrightarrow> boost_ring_nonempty (list_ring n) (\<lambda>r. r) n"
  by unfold_locales (auto simp: list_ring_def)

interpretation task_ring: boost_ring_nonempty "list_ring MAX_SPSC_QUEUE_SIZE" "\<lambda>r. r" MAX_SPSC_QUEUE_SIZE
  by (rule list_ring_ok) simp

section \<open>Properties\<close>

lemma spsc_step_contents:
  assumes R: "boost_ring B elems cap" and s: "spsc_step B a (q, out) = (q', out')"
  shows "out' @ contents elems q' = out @ contents elems q @ enqueued [a]"
proof (cases a)
  case (Enq x)
  with s boost_ring.push_contents [OF R, of q x] show ?thesis by auto
next
  case Flush
  with s boost_ring.checkCache_contents [OF R, of q] show ?thesis by auto
next
  case Deq
  obtain q1 r where "pop B q = (q1, r)" by fastforce
  with s Deq boost_ring.pop_some [OF R, of q] boost_ring.pop_none [OF R, of q] show ?thesis
    by (cases r) auto
qed

lemma enqueued_Cons: "enqueued (a # ops) = enqueued [a] @ enqueued ops"
  by (cases a) simp_all

lemma spsc_fold_contents:
  assumes R: "boost_ring B elems cap"
  shows "fold (spsc_step B) ops (q, out) = (q', out') \<Longrightarrow>
    out' @ contents elems q' = out @ contents elems q @ enqueued ops"
proof (induction ops arbitrary: q out)
  case Nil
  then show ?case by simp
next
  case (Cons a ops)
  obtain q1 out1 where s: "spsc_step B a (q, out) = (q1, out1)" by fastforce
  with Cons.prems have "fold (spsc_step B) ops (q1, out1) = (q', out')" by simp
  from Cons.IH [OF this] spsc_step_contents [OF R s] show ?case
    by (simp add: enqueued_Cons [of a ops])
qed

text \<open>
  C6: the queue is a lossless FIFO.  For every ring with boost's documented behaviour and every
  interleaving of pushes, pops and cache flushes, the popped elements followed by what is still
  queued (ring, then cache) are exactly the initial contents followed by the pushed elements, in
  order: nothing is lost, duplicated or reordered, although a full ring diverts pushes to the cache.
\<close>

theorem spsc_lossless_fifo:
  assumes "boost_ring B elems cap"
  shows "snd (spsc_run B ops q) @ contents elems (fst (spsc_run B ops q)) =
         contents elems q @ enqueued ops"
  using spsc_fold_contents [OF assms, of ops q "[]"]
  by (cases "spsc_run B ops q") (simp add: spsc_run_def)

theorem spsc_lossless_fifo_witness:
  "snd (spsc_run (list_ring 1) [Enq 1, Enq 2, Enq 3, Deq, Deq, Flush, Deq] (new_spsc_queue (list_ring 1)))
     = [1, 2::int]"
  using spsc_lossless_fifo [OF list_ring_boost, of 1 "[Enq 1, Enq 2, Enq 3, Deq, Deq, Flush, Deq]"
      "new_spsc_queue (list_ring 1)"]
  by (simp add: spsc_run_def new_spsc_queue_def list_ring_def push_def pop_def checkCache_def
        Let_def contents_def)

text \<open>
  C34: the cache cannot starve the consumer.  After the producer's \<open>checkCache\<close> (which \<open>update_main\<close>
  and \<open>update_thread\<close> call in every round), a pop on a queue that holds anything, in the ring or in
  the cache, returns its oldest element.
\<close>

theorem spsc_flush_then_pop:
  assumes "boost_ring_nonempty B elems cap" and "contents elems q = x # xs"
  shows "\<exists>q'. pop B (fst (checkCache B q)) = (q', Some x) \<and> contents elems q' = xs"
proof -
  from assms(1) have "fifo (push B) (pop B) (\<lambda>q. fst (checkCache B q)) (contents elems)"
    by (rule boost_ring_nonempty.spsc_is_fifo)
  from fifo.deq_after_flush [OF this assms(2)] show ?thesis .
qed

theorem spsc_flush_then_pop_witness:
  "\<exists>q'. pop (list_ring 1) (fst (checkCache (list_ring 1)
      \<lparr>m_cache = [5::int], m_queue = []\<rparr>)) = (q', Some 5) \<and> contents (\<lambda>r. r) q' = []"
proof -
  have "contents (\<lambda>r. r) \<lparr>m_cache = [5::int], m_queue = []\<rparr> = [5]" by (simp add: contents_def)
  from spsc_flush_then_pop [OF list_ring_ok this] show ?thesis by simp
qed

end
