(* ===== verification/Platform.thy ===== *)
theory Platform
  imports Task SpscQueue "HOL-Library.Multiset"
begin

text \<open>
  Everything the server calls that is not in the repository, as one record \<open>env\<close> that the
  definitions take as their argument \<open>E\<close>: the boost ring, the behaviour of \<open>memcpy\<close> on overlapping
  regions, the value of uninitialised scalars, the iteration order of an \<open>unordered_map\<close> (a function of
  its keys in the order of insertion), and the system calls, each a function of an operating
  system state of unspecified type \<open>'o\<close>.  The locales at the end state what the proofs rely on.
\<close>

datatype errno = EAGAIN | EWOULDBLOCK | EINTR | EOTHER int

text \<open>
  \<open>recv\<close> returns the number of bytes it stored at its buffer argument: here the bytes themselves,
  so that an empty list is the result 0.  \<open>send\<close> returns a count.
\<close>

datatype recv_result = Recv_bytes "byte list" | Recv_error errno
datatype send_result = Send_count int | Send_error errno

record epoll_event =
  ev_fd :: int
  ev_events :: int

text \<open>The fields of \<open>struct tm\<close> that are read.\<close>

record tm =
  tm_year :: int
  tm_mon :: int
  tm_mday :: int
  tm_hour :: int
  tm_min :: int
  tm_sec :: int

record ('o, 'q) env =
  ring :: "('q, task) boost"
  memcpy_overlap :: bool
  indet :: int
  unordered :: "int list \<Rightarrow> int list"
  os_fcntl_getfl :: "'o \<Rightarrow> int \<Rightarrow> 'o \<times> int"
  os_fcntl_setfl :: "'o \<Rightarrow> int \<Rightarrow> int \<Rightarrow> 'o \<times> int"
  os_epoll_create :: "'o \<Rightarrow> int \<Rightarrow> 'o \<times> int"
  os_epoll_add :: "'o \<Rightarrow> int \<Rightarrow> int \<Rightarrow> int \<Rightarrow> 'o \<times> int"
  os_epoll_del :: "'o \<Rightarrow> int \<Rightarrow> int \<Rightarrow> 'o \<times> int"
  os_epoll_wait :: "'o \<Rightarrow> int \<Rightarrow> int \<Rightarrow> 'o \<times> int \<times> epoll_event list"
  os_close :: "'o \<Rightarrow> int \<Rightarrow> 'o"
  os_accept :: "'o \<Rightarrow> int \<Rightarrow> 'o \<times> int \<times> sockaddr_in"
  os_recv :: "'o \<Rightarrow> int \<Rightarrow> int \<Rightarrow> 'o \<times> recv_result"
  os_send :: "'o \<Rightarrow> int \<Rightarrow> cell list \<Rightarrow> 'o \<times> send_result"
  os_pthread_create :: "'o \<Rightarrow> 'o \<times> int option"
  os_time :: "'o \<Rightarrow> 'o \<times> int"
  os_gettimeofday :: "'o \<Rightarrow> 'o \<times> int \<times> int"
  os_usleep :: "'o \<Rightarrow> int \<Rightarrow> 'o"
  os_socket :: "'o \<Rightarrow> 'o \<times> int"
  os_reuseaddr :: "'o \<Rightarrow> int \<Rightarrow> 'o \<times> int"
  os_bind :: "'o \<Rightarrow> int \<Rightarrow> sockaddr_in \<Rightarrow> 'o \<times> int"
  os_listen :: "'o \<Rightarrow> int \<Rightarrow> int \<Rightarrow> 'o \<times> int"
  inet_addr :: "string \<Rightarrow> 32 word"
  htons :: "16 word \<Rightarrow> 16 word"
  os_localtime :: "int \<Rightarrow> tm"
  os_fopen :: "'o \<Rightarrow> string \<Rightarrow> 'o \<times> int option"
  os_fputs :: "'o \<Rightarrow> int \<Rightarrow> string \<Rightarrow> 'o"
  os_fclose :: "'o \<Rightarrow> int \<Rightarrow> 'o"
  os_fork :: "'o \<Rightarrow> 'o \<times> int"
  os_setsid :: "'o \<Rightarrow> 'o"
  os_umask :: "'o \<Rightarrow> int \<Rightarrow> 'o"
  os_sigaction_ignore :: "'o \<Rightarrow> int \<Rightarrow> 'o"

text \<open>Flag values of \<open>sys/epoll.h\<close> and \<open>fcntl.h\<close>.\<close>

definition EPOLLIN :: int where [simp]: "EPOLLIN = 1"
definition EPOLLOUT :: int where [simp]: "EPOLLOUT = 4"
definition EPOLLET :: int where [simp]: "EPOLLET = 2147483648"
definition O_NONBLOCK :: int where [simp]: "O_NONBLOCK = 2048"

text \<open>\<open>setnonblocking\<close> of \<open>oryx/common.h\<close>: both failures only print a message.\<close>

definition setnonblocking :: "('o, 'q) env \<Rightarrow> 'o \<Rightarrow> int \<Rightarrow> 'o" where
  "setnonblocking E s sock =
     (case os_fcntl_getfl E s sock of
        (s, opts) \<Rightarrow> if opts < 0 then s else fst (os_fcntl_setfl E s sock (or opts O_NONBLOCK)))"

section \<open>What the server relies on\<close>

text \<open>
  A stream socket: \<open>inb\<close> gives the bytes that arrive on a descriptor, in order; a \<open>recv\<close> with room
  for at least one byte takes a non-empty prefix of them that fits, or returns 0 or an error and
  takes nothing.  The list is finite: the bytes that arrive before the connection next runs dry.
\<close>

locale recv_stream =
  fixes E :: "('o, 'q) env" and inb :: "'o \<Rightarrow> int \<Rightarrow> byte list"
  assumes recv_bytes: "0 < n \<Longrightarrow> os_recv E s f n = (s', Recv_bytes bs) \<Longrightarrow>
      int (length bs) \<le> n \<and> inb s f = bs @ inb s' f"
    and recv_error: "0 < n \<Longrightarrow> os_recv E s f n = (s', Recv_error e) \<Longrightarrow> inb s' f = inb s f"

text \<open>A connection that stays open and is read until it runs dry: \<open>EAGAIN\<close> then, and only then.\<close>

locale open_stream = recv_stream E inb for E :: "('o, 'q) env" and inb :: "'o \<Rightarrow> int \<Rightarrow> byte list" +
  assumes recv_more: "0 < n \<Longrightarrow> inb s f \<noteq> [] \<Longrightarrow> \<exists>s' bs. os_recv E s f n = (s', Recv_bytes bs) \<and> bs \<noteq> []"
    and recv_dry: "0 < n \<Longrightarrow> inb s f = [] \<Longrightarrow> \<exists>s'. os_recv E s f n = (s', Recv_error EAGAIN)"

text \<open>
  The sending direction: \<open>outb\<close> is what the kernel has accepted on a descriptor; a \<open>send\<close> of a
  non-empty buffer accepts a prefix of it, or fails and accepts nothing.
\<close>

locale send_stream =
  fixes E :: "('o, 'q) env" and outb :: "'o \<Rightarrow> int \<Rightarrow> cell list"
  assumes send_count: "cs \<noteq> [] \<Longrightarrow> os_send E s f cs = (s', Send_count n) \<Longrightarrow>
      0 \<le> n \<and> n \<le> int (length cs) \<and> outb s' f = outb s f @ take (nat n) cs"
    and send_error: "cs \<noteq> [] \<Longrightarrow> os_send E s f cs = (s', Send_error e) \<Longrightarrow> outb s' f = outb s f"

text \<open>
  A listening socket: \<open>backlog\<close> is the connections waiting on it; \<open>accept\<close> takes the first, or
  returns a negative value when there is none.
\<close>

locale accept_queue =
  fixes E :: "('o, 'q) env" and backlog :: "'o \<Rightarrow> int \<Rightarrow> (int \<times> sockaddr_in) list"
  assumes accept_some: "backlog s f = (c, a) # rest \<Longrightarrow>
      0 \<le> c \<and> (\<exists>s'. os_accept E s f = (s', c, a) \<and> backlog s' f = rest)"
    and accept_none: "backlog s f = [] \<Longrightarrow>
      (\<exists>s' c a. os_accept E s f = (s', c, a) \<and> c < 0 \<and> backlog s' f = [])"
    and accept_fcntl: "backlog (setnonblocking E s c) f = backlog s f"

text \<open>An \<open>unordered_map\<close> visits each of its keys once, in some order.\<close>

locale unordered_keys =
  fixes E :: "('o, 'q) env"
  assumes unordered_mset: "mset (unordered E ks) = mset ks"
begin

lemma unordered_set [simp]: "set (unordered E ks) = set ks"
  using unordered_mset [of ks] by (metis set_mset_mset)

lemma unordered_Nil_iff [simp]: "unordered E ks = [] \<longleftrightarrow> ks = []"
  using unordered_mset [of ks] by (metis mset_zero_iff)

lemma unordered_Nil [simp]: "unordered E [] = []"
  by simp

lemma unordered_distinct [simp]: "distinct (unordered E ks) = distinct ks"
  using unordered_mset [of ks] by (metis mset_eq_imp_distinct_iff)

end

text \<open>
  The clock in seconds: within the range in which session ids do not overflow (some three million
  years).
\<close>

locale clock =
  fixes E :: "('o, 'q) env"
  assumes clock_range: "os_time E s = (s', t) \<Longrightarrow> 0 \<le> t \<and> t \<le> 90000000000000"

section \<open>A small operating system\<close>

text \<open>
  An instance of the contracts, on which the theorems are exercised: per descriptor the bytes to
  deliver (at most 1000 in one \<open>recv\<close>), the bytes accepted, the waiting connections; a clock that advances when it is
  read, the number of threads, which gives the next thread its id, and the files written, one entry
  for each time one was opened.
\<close>

record sim =
  sim_in :: "int \<Rightarrow> byte list"
  sim_out :: "int \<Rightarrow> cell list"
  sim_backlog :: "int \<Rightarrow> (int \<times> sockaddr_in) list"
  sim_clock :: int
  sim_threads :: int
  sim_files :: "(string \<times> string) list"

definition sim_env :: "(sim, task list) env" where
  "sim_env =
     \<lparr>ring = list_ring MAX_SPSC_QUEUE_SIZE,
      memcpy_overlap = True,
      indet = 0,
      unordered = rev,
      os_fcntl_getfl = (\<lambda>s f. (s, 0)),
      os_fcntl_setfl = (\<lambda>s f v. (s, 0)),
      os_epoll_create = (\<lambda>s n. (s, 3)),
      os_epoll_add = (\<lambda>s ep f ev. (s, 0)),
      os_epoll_del = (\<lambda>s ep f. (s, 0)),
      os_epoll_wait = (\<lambda>s ep n. (s, 0, [])),
      os_close = (\<lambda>s f. s),
      os_accept = (\<lambda>s f. case sim_backlog s f of
          [] \<Rightarrow> (s, -1, \<lparr>sin_family = 0, sin_port = 0, sin_addr = 0\<rparr>)
        | (c, a) # rest \<Rightarrow> if 0 \<le> c then (s\<lparr>sim_backlog := (sim_backlog s)(f := rest)\<rparr>, c, a)
                         else (s, -1, a)),
      os_recv = (\<lambda>s f n. if sim_in s f = [] then (s, Recv_error EAGAIN)
        else (s\<lparr>sim_in := (sim_in s)(f := drop (min 1000 (nat n)) (sim_in s f))\<rparr>,
              Recv_bytes (take (min 1000 (nat n)) (sim_in s f)))),
      os_send = (\<lambda>s f cs. (s\<lparr>sim_out := (sim_out s)(f := sim_out s f @ cs)\<rparr>,
                            Send_count (int (length cs)))),
      os_pthread_create = (\<lambda>s. (s\<lparr>sim_threads := sim_threads s + 1\<rparr>, Some (sim_threads s + 1))),
      os_time = (\<lambda>s. (s\<lparr>sim_clock := sim_clock s + 1\<rparr>, sim_clock s mod 4000000000)),
      os_gettimeofday = (\<lambda>s. (s\<lparr>sim_clock := sim_clock s + 1\<rparr>, sim_clock s mod 4000000000, 0)),
      os_usleep = (\<lambda>s n. s),
      os_socket = (\<lambda>s. (s, 6)),
      os_reuseaddr = (\<lambda>s f. (s, 0)),
      os_bind = (\<lambda>s f a. (s, if f < 0 then -1 else 0)),
      os_listen = (\<lambda>s f n. (s, 0)),
      inet_addr = (\<lambda>a. 0),
      htons = (\<lambda>n. or (push_bit 8 n) (drop_bit 8 n)),
      os_localtime = (\<lambda>t. \<lparr>tm_year = 100, tm_mon = 0, tm_mday = 1, tm_hour = t div 3600 mod 24,
        tm_min = t div 60 mod 60, tm_sec = t mod 60\<rparr>),
      os_fopen = (\<lambda>s n. (s\<lparr>sim_files := sim_files s @ [(n, [])]\<rparr>, Some (int (length (sim_files s))))),
      os_fputs = (\<lambda>s f t. s\<lparr>sim_files := (sim_files s)[nat f := map_prod id (\<lambda>u. u @ t) (sim_files s ! nat f)]\<rparr>),
      os_fclose = (\<lambda>s f. s),
      os_fork = (\<lambda>s. (s, 0)),
      os_setsid = (\<lambda>s. s),
      os_umask = (\<lambda>s n. s),
      os_sigaction_ignore = (\<lambda>s n. s)\<rparr>"

lemma sim_env_ring: "boost_ring (ring sim_env) (\<lambda>r. r) MAX_SPSC_QUEUE_SIZE"
  using list_ring_boost by (simp add: sim_env_def)

text \<open>Descriptor 7 has two frames and three bytes of a third to deliver.\<close>

definition sim_start :: sim where
  "sim_start = \<lparr>sim_in = (\<lambda>f. if f = 7 then [0, 0, 0, 6, 1, 2, 0, 0, 0, 5, 3, 0, 0] else []),
     sim_out = (\<lambda>f. []), sim_backlog = (\<lambda>f. []), sim_clock = 1000, sim_threads = 0,
     sim_files = []\<rparr>"

interpretation sim_recv: recv_stream sim_env sim_in
  by unfold_locales (auto simp: sim_env_def split: if_splits)

interpretation sim_open: open_stream sim_env sim_in
  by unfold_locales (auto simp: sim_env_def)

interpretation sim_send: send_stream sim_env sim_out
  by unfold_locales (auto simp: sim_env_def)

interpretation sim_accept: accept_queue sim_env
    "\<lambda>s f. takeWhile (\<lambda>p. 0 \<le> fst p) (sim_backlog s f)"
  by unfold_locales
    (auto simp: sim_env_def setnonblocking_def split: list.splits if_splits prod.splits)

interpretation sim_unordered: unordered_keys sim_env
  by unfold_locales (simp add: sim_env_def)

interpretation sim_clock: clock sim_env
  by unfold_locales (auto simp: sim_env_def intro: order_trans [OF less_imp_le [OF pos_mod_bound]])

end
