(* ===== verification/Thread.thy ===== *)
theory Thread
  imports Platform
begin

text \<open>
  The thread object of \<open>oryx/thread.h\<close> and \<open>oryx/thread.cpp\<close>: an id, a load value and four queues.
  The main thread produces \<open>m_queue_thread\<close> and \<open>m_queue_thread_complete\<close> and consumes the two
  others; the thread itself does the reverse.  The task loops are stated once
  (\<open>handler_loop\<close>, \<open>complete_loop\<close>) over the world the caller works on and instantiated for the two
  sides.  \<open>m_obj_thread\<close> and \<open>m_obj_main\<close>, which only hold the node between a pop and the push that
  follows, are the bound variable \<open>t\<close> of the loops.
\<close>

section \<open>State\<close>

record 'q thread =
  thread_id :: int
  thread_fun_set :: bool
  m_pressure :: int
  m_queue_thread :: "('q, task) spsc_queue"
  m_queue_thread_complete :: "('q, task) spsc_queue"
  m_queue_main :: "('q, task) spsc_queue"
  m_queue_main_complete :: "('q, task) spsc_queue"

definition MAX_HANDLER_SIZE_PERFRAME :: nat where "MAX_HANDLER_SIZE_PERFRAME = 1024"

text \<open>The constructor leaves \<open>m_pressure\<close> uninitialised.\<close>

definition new_Thread :: "('o, 'q) env \<Rightarrow> bool \<Rightarrow> 'q thread" where
  "new_Thread E has_fun =
     \<lparr>thread_id = -1, thread_fun_set = has_fun, m_pressure = indet E,
      m_queue_thread = new_spsc_queue (ring E), m_queue_thread_complete = new_spsc_queue (ring E),
      m_queue_main = new_spsc_queue (ring E), m_queue_main_complete = new_spsc_queue (ring E)\<rparr>"

text \<open>\<open>run\<close>: \<open>true\<close> whenever there is a thread function, even if \<open>pthread_create\<close> failed.\<close>

definition run :: "('o, 'q) env \<Rightarrow> 'o \<Rightarrow> ('q, 'z) thread_scheme \<Rightarrow> 'o \<times> ('q, 'z) thread_scheme \<times> bool" where
  "run E s h =
     (if \<not> thread_fun_set h then (s, h, False)
      else case os_pthread_create E s of
        (s, None) \<Rightarrow> (s, h, True)
      | (s, Some i) \<Rightarrow> (s, h\<lparr>thread_id := i\<rparr>, True))"

definition addPressure :: "int \<Rightarrow> ('q, 'z) thread_scheme \<Rightarrow> ('q, 'z) thread_scheme res" where
  "addPressure n h = bind_res (i32 (m_pressure h + n)) (\<lambda>p. Inr (h\<lparr>m_pressure := p\<rparr>))"

definition push_task_thread :: "('q, task) boost \<Rightarrow> ('q, 'z) thread_scheme \<Rightarrow> task \<Rightarrow> ('q, 'z) thread_scheme" where
  "push_task_thread B h t = h\<lparr>m_queue_thread := push B (m_queue_thread h) t\<rparr>"

definition push_task_main :: "('q, task) boost \<Rightarrow> ('q, 'z) thread_scheme \<Rightarrow> task \<Rightarrow> ('q, 'z) thread_scheme" where
  "push_task_main B h t = h\<lparr>m_queue_main := push B (m_queue_main h) t\<rparr>"

section \<open>The task loops\<close>

text \<open>
  \<open>while (num < MAX && queue.pop(obj)) { dotask(obj); done.push(obj); num++; }\<close>, over a world \<open>'w\<close>;
  the budget counts down.
\<close>

fun handler_loop :: "nat \<Rightarrow> ('w \<Rightarrow> 'w \<times> task option) \<Rightarrow> ('w \<Rightarrow> task \<Rightarrow> ('w \<times> task) run) \<Rightarrow>
    ('w \<Rightarrow> task \<Rightarrow> 'w) \<Rightarrow> 'w \<Rightarrow> int \<Rightarrow> ('w \<times> int) run" where
  "handler_loop 0 take_task dotask complete w num = Some (Inr (w, num))"
| "handler_loop (Suc k) take_task dotask complete w num =
     (case take_task w of
        (w, None) \<Rightarrow> Some (Inr (w, num))
      | (w, Some t) \<Rightarrow>
          bind_run (dotask w t) (\<lambda>(w, t).
            handler_loop k take_task dotask complete (complete w t) (num + 1)))"

text \<open>
  \<open>while (queue.pop(obj)) { dotask_complete(obj); num++; }\<close>: completion calls \<open>OnComplete\<close>, which
  releases the task; the released blocks are collected.
\<close>

partial_function (option) complete_loop :: "('q, task) boost \<Rightarrow> ('q, task) spsc_queue \<Rightarrow> int \<Rightarrow>
    block list \<Rightarrow> (('q, task) spsc_queue \<times> int \<times> block list) option" where
  "complete_loop B q num freed =
     (case pop B q of
        (q, None) \<Rightarrow> Some (q, num, freed)
      | (q, Some t) \<Rightarrow> complete_loop B q (num + 1) (freed @ OnComplete t))"

definition handlerTask_main_complete :: "('q, task) boost \<Rightarrow> ('q, 'z) thread_scheme \<Rightarrow>
    (('q, 'z) thread_scheme \<times> int \<times> block list) option" where
  "handlerTask_main_complete B h =
     map_option (\<lambda>(q, num, freed). (h\<lparr>m_queue_main_complete := q\<rparr>, num, freed))
       (complete_loop B (m_queue_main_complete h) 0 [])"

definition handlerTask_thread_complete :: "('q, task) boost \<Rightarrow> ('q, 'z) thread_scheme \<Rightarrow>
    (('q, 'z) thread_scheme \<times> int \<times> block list) option" where
  "handlerTask_thread_complete B h =
     map_option (\<lambda>(q, num, freed). (h\<lparr>m_queue_thread_complete := q\<rparr>, num, freed))
       (complete_loop B (m_queue_thread_complete h) 0 [])"

text \<open>
  The two sides of the loop.  The world holds the thread object; \<open>get\<close> and \<open>put\<close> reach it (the
  epoll thread's world is its own object, the main thread's has all of them), and \<open>dotask\<close> is the
  virtual method.
\<close>

definition handlerTask_thread :: "('q, task) boost \<Rightarrow> ('w \<Rightarrow> ('q, 'z) thread_scheme) \<Rightarrow>
    (('q, 'z) thread_scheme \<Rightarrow> 'w \<Rightarrow> 'w) \<Rightarrow> ('w \<Rightarrow> task \<Rightarrow> ('w \<times> task) run) \<Rightarrow> 'w \<Rightarrow> ('w \<times> int) run" where
  "handlerTask_thread B get put dotask w =
     handler_loop MAX_HANDLER_SIZE_PERFRAME
       (\<lambda>w. case pop B (m_queue_thread (get w)) of
          (q, r) \<Rightarrow> (put ((get w)\<lparr>m_queue_thread := q\<rparr>) w, r))
       dotask
       (\<lambda>w t. put ((get w)\<lparr>m_queue_main_complete := push B (m_queue_main_complete (get w)) t\<rparr>) w)
       w 0"

definition handlerTask_main :: "('q, task) boost \<Rightarrow> ('w \<Rightarrow> ('q, 'z) thread_scheme) \<Rightarrow>
    (('q, 'z) thread_scheme \<Rightarrow> 'w \<Rightarrow> 'w) \<Rightarrow> ('w \<Rightarrow> task \<Rightarrow> ('w \<times> task) run) \<Rightarrow> 'w \<Rightarrow> ('w \<times> int) run" where
  "handlerTask_main B get put dotask w =
     handler_loop MAX_HANDLER_SIZE_PERFRAME
       (\<lambda>w. case pop B (m_queue_main (get w)) of
          (q, r) \<Rightarrow> (put ((get w)\<lparr>m_queue_main := q\<rparr>) w, r))
       dotask
       (\<lambda>w t. put ((get w)\<lparr>m_queue_thread_complete := push B (m_queue_thread_complete (get w)) t\<rparr>) w)
       w 0"

definition update_thread :: "('q, task) boost \<Rightarrow> ('w \<Rightarrow> ('q, 'z) thread_scheme) \<Rightarrow>
    (('q, 'z) thread_scheme \<Rightarrow> 'w \<Rightarrow> 'w) \<Rightarrow> ('w \<Rightarrow> task \<Rightarrow> ('w \<times> task) run) \<Rightarrow> 'w \<Rightarrow> ('w \<times> int) run" where
  "update_thread B get put dotask w =
     (case handlerTask_thread_complete B (get w) of
        None \<Rightarrow> None
      | Some (h, n1, freed) \<Rightarrow>
          bind_run (handlerTask_thread B get put dotask (put h w)) (\<lambda>(w, n2).
            let h = get w;
                h = h\<lparr>m_queue_main_complete := fst (checkCache B (m_queue_main_complete h))\<rparr>;
                h = h\<lparr>m_queue_main := fst (checkCache B (m_queue_main h))\<rparr>
            in Some (Inr (put h w, n1 + n2))))"

definition update_main :: "('q, task) boost \<Rightarrow> ('w \<Rightarrow> ('q, 'z) thread_scheme) \<Rightarrow>
    (('q, 'z) thread_scheme \<Rightarrow> 'w \<Rightarrow> 'w) \<Rightarrow> ('w \<Rightarrow> task \<Rightarrow> ('w \<times> task) run) \<Rightarrow> 'w \<Rightarrow> ('w \<times> int) run" where
  "update_main B get put dotask w =
     (case handlerTask_main_complete B (get w) of
        None \<Rightarrow> None
      | Some (h, n1, freed) \<Rightarrow>
          bind_run (handlerTask_main B get put dotask (put h w)) (\<lambda>(w, n2).
            let h = get w;
                h = h\<lparr>m_queue_thread_complete := fst (checkCache B (m_queue_thread_complete h))\<rparr>;
                h = h\<lparr>m_queue_thread := fst (checkCache B (m_queue_thread h))\<rparr>
            in Some (Inr (put h w, n1 + n2))))"

section \<open>What the loops do\<close>

text \<open>A ring of tasks.\<close>

locale task_queue = boost_ring B elems cap
  for B :: "('q, task) boost" and elems :: "'q \<Rightarrow> task list" and cap :: nat
begin

text \<open>The completion loop empties the ring, in order, and completes every task it takes.\<close>

lemma complete_loop_drains:
  "\<exists>q' ts. complete_loop B q num freed = Some (q', num + int (length ts), freed @ concat (map OnComplete ts)) \<and>
     elems (m_queue q) = ts \<and> elems (m_queue q') = [] \<and> m_cache q' = m_cache q"
proof (induction "elems (m_queue q)" arbitrary: q num freed)
  case Nil
  then have e: "elems (m_queue q) = []" by simp
  obtain q' where "pop B q = (q', None)" "elems (m_queue q') = []" "m_cache q' = m_cache q"
    using pop_empty_ring [OF e] by blast
  then show ?case using e by (auto simp: complete_loop.simps)
next
  case (Cons t ts)
  then have e: "elems (m_queue q) = t # ts" by simp
  obtain q1 where q1: "pop B q = (q1, Some t)" "elems (m_queue q1) = ts" "m_cache q1 = m_cache q"
    using pop_cons_ring [OF e] by blast
  from Cons.hyps(1) [of q1 "num + 1" "freed @ OnComplete t"] q1(2) obtain q' where
    "complete_loop B q1 (num + 1) (freed @ OnComplete t) =
       Some (q', num + 1 + int (length ts), (freed @ OnComplete t) @ concat (map OnComplete ts))"
    "elems (m_queue q') = []" "m_cache q' = m_cache q1" by blast
  then show ?case using e q1 by (auto simp: complete_loop.simps [of B q])
qed

end

text \<open>
  A loop returns when every task it meets can be carried out; \<open>P k\<close> may count the remaining budget.
\<close>

lemma handler_loop_total:
  assumes stop: "\<And>w. P 0 w \<Longrightarrow> Q w"
    and step: "\<And>k w. P (Suc k) w \<Longrightarrow>
      (\<exists>w'. take_task w = (w', None) \<and> Q w') \<or>
      (\<exists>w' t w'' t'. take_task w = (w', Some t) \<and> dotask w' t = Some (Inr (w'', t')) \<and>
         P k (complete w'' t'))"
  shows "P k w \<Longrightarrow> \<exists>w' n. handler_loop k take_task dotask complete w num = Some (Inr (w', n)) \<and> Q w'"
proof (induction k arbitrary: w num)
  case 0
  then show ?case using stop by simp
next
  case (Suc k)
  from step [OF Suc.prems] show ?case
  proof (elim disjE exE conjE)
    fix w' assume "take_task w = (w', None)" "Q w'"
    then show ?thesis by simp
  next
    fix w' t w'' t'
    assume "take_task w = (w', Some t)" "dotask w' t = Some (Inr (w'', t'))" "P k (complete w'' t')"
    then show ?thesis using Suc.IH [of "complete w'' t'" "num + 1"] by simp
  qed
qed

text \<open>The same for a loop whose tasks may fault: it still returns.\<close>

lemma handler_loop_returns:
  assumes stop: "\<And>w. P 0 w \<Longrightarrow> Q w"
    and step: "\<And>k w. P (Suc k) w \<Longrightarrow>
      (\<exists>w'. take_task w = (w', None) \<and> Q w') \<or>
      (\<exists>w' t. take_task w = (w', Some t) \<and>
         ((\<exists>e. dotask w' t = Some (Inl e) \<and> F e) \<or>
          (\<exists>w'' t'. dotask w' t = Some (Inr (w'', t')) \<and> P k (complete w'' t'))))"
  shows "P k w \<Longrightarrow> \<exists>r. handler_loop k take_task dotask complete w num = Some r \<and>
    (case r of Inl e \<Rightarrow> F e | Inr (w', n) \<Rightarrow> Q w' \<and> num \<le> n \<and> n \<le> num + int k)"
proof (induction k arbitrary: w num)
  case 0
  then show ?case using stop by simp
next
  case (Suc k)
  from step [OF Suc.prems] show ?case
  proof (elim disjE exE conjE)
    fix w' assume "take_task w = (w', None)" "Q w'"
    then show ?thesis by simp
  next
    fix w' t e assume "take_task w = (w', Some t)" "dotask w' t = Some (Inl e)" "F e"
    then show ?thesis by simp
  next
    fix w' t w'' t'
    assume "take_task w = (w', Some t)" "dotask w' t = Some (Inr (w'', t'))" "P k (complete w'' t')"
    then show ?thesis using Suc.IH [of "complete w'' t'" "num + 1"] by (fastforce split: sum.splits)
  qed
qed

text \<open>
  The contract between a task loop and the virtual \<open>dotask\<close> it calls: \<open>dotask\<close> leaves the two
  queues of the loop alone (\<open>src\<close>, which it consumes, and \<open>dst\<close>, which it fills), and returns a task
  related to its argument by \<open>rel\<close>.
\<close>

interpretation list_task_queue: task_queue "list_ring MAX_SPSC_QUEUE_SIZE" "\<lambda>r. r" MAX_SPSC_QUEUE_SIZE
  by (simp add: task_queue_def list_ring_boost del: MAX_SPSC_QUEUE_SIZE_def)

locale task_loop = task_queue B elems cap
  for B :: "('q, task) boost" and elems :: "'q \<Rightarrow> task list" and cap :: nat +
  fixes take_task :: "'w \<Rightarrow> 'w \<times> task option"
    and dotask :: "'w \<Rightarrow> task \<Rightarrow> ('w \<times> task) run"
    and complete :: "'w \<Rightarrow> task \<Rightarrow> 'w"
    and src :: "'w \<Rightarrow> ('q, task) spsc_queue"
    and dst :: "'w \<Rightarrow> ('q, task) spsc_queue"
    and rel :: "task \<Rightarrow> task \<Rightarrow> bool"
  assumes take_src: "take_task w = (w', r) \<Longrightarrow> pop B (src w) = (src w', r) \<and> dst w' = dst w"
    and dotask_frame: "dotask w t = Some (Inr (w', t')) \<Longrightarrow> src w' = src w \<and> dst w' = dst w \<and> rel t t'"
    and complete_dst: "dst (complete w t) = push B (dst w) t" "src (complete w t) = src w"
begin

lemma handler_loop_moves:
  "handler_loop k take_task dotask complete w num = Some (Inr (w', num')) \<Longrightarrow>
   \<exists>ts ts'. length ts \<le> k \<and> num' = num + int (length ts) \<and> list_all2 rel ts ts' \<and>
     contents elems (src w) = ts @ contents elems (src w') \<and>
     contents elems (dst w') = contents elems (dst w) @ ts' \<and>
     (length ts < k \<longrightarrow> elems (m_queue (src w')) = [])"
proof (induction k arbitrary: w num)
  case 0
  then show ?case by auto
next
  case (Suc k)
  obtain w1 r where tk: "take_task w = (w1, r)" by fastforce
  note src1 = take_src [OF tk]
  show ?case
  proof (cases r)
    case None
    then have "w' = w1" "num' = num" using Suc.prems tk by simp_all
    moreover have "elems (m_queue (src w1)) = []"
      using src1 None by (auto intro: pop_none_ring)
    ultimately show ?thesis
      using src1 None pop_none [of "src w" "src w1"] by (intro exI [of _ "[]"]) simp
  next
    case (Some t)
    with Suc.prems tk obtain w2 t' where d: "dotask w1 t = Some (Inr (w2, t'))"
      and rest: "handler_loop k take_task dotask complete (complete w2 t') (num + 1) = Some (Inr (w', num'))"
      by (auto simp: bind_run_Inr_iff)
    note fr = dotask_frame [OF d]
    from Suc.IH [OF rest] obtain ts ts' where ts: "length ts \<le> k" "num' = num + 1 + int (length ts)"
      "list_all2 rel ts ts'" "contents elems (src (complete w2 t')) = ts @ contents elems (src w')"
      "contents elems (dst w') = contents elems (dst (complete w2 t')) @ ts'"
      "length ts < k \<longrightarrow> elems (m_queue (src w')) = []" by blast
    have "contents elems (src w) = (t # ts) @ contents elems (src w')"
      using pop_some [of "src w" "src w1" t] src1 Some fr ts(4) by (simp add: complete_dst)
    moreover have "contents elems (dst w') = contents elems (dst w) @ (t' # ts')"
      using ts(5) fr src1 by (simp add: complete_dst push_contents)
    ultimately show ?thesis using ts fr by (intro exI [of _ "t # ts"] exI [of _ "t' # ts'"]) auto
  qed
qed

end

end
