(* ===== verification/EpollHandler.thy ===== *)
theory EpollHandler
  imports Thread
begin

text \<open>
  The epoll thread of \<open>oryx/EpollHandler.h\<close> and \<open>oryx/EpollHandler.cpp\<close>: the class extends \<open>Thread\<close>
  (so the record extends \<open>thread\<close>) by the epoll descriptor, the event slots and two maps to the same
  \<open>DEVICE_INFO\<close> objects, by descriptor and by session.  The objects live in the heap \<open>devs\<close>; the
  maps hold addresses, so a change through one map is seen through the other.  System calls thread
  the operating system state \<open>s\<close>; a loop over a system call may run forever (\<open>None\<close>).
\<close>

section \<open>State\<close>

definition MAXEVENTS :: int where "MAXEVENTS = 4096"

record 'q EpollHandler = "'q thread" +
  epfd :: int
  events_slot :: "epoll_event list"
  m_MapDeviceInfo :: "int \<rightharpoonup> nat"
  m_MapDeviceSessionInfo :: "int \<rightharpoonup> nat"
  devs :: "nat \<rightharpoonup> DEVICE_INFO"
  next_dev :: nat

definition new_EpollHandler :: "('o, 'q) env \<Rightarrow> 'q EpollHandler" where
  "new_EpollHandler E =
     thread.extend ((new_Thread E True)\<lparr>thread_id := -1\<rparr>)
       \<lparr>epfd = -1, events_slot = [], m_MapDeviceInfo = Map.empty,
        m_MapDeviceSessionInfo = Map.empty, devs = Map.empty, next_dev = 0\<rparr>"

definition GetDeviceInfo_ByFD :: "'q EpollHandler \<Rightarrow> int \<Rightarrow> nat option" where
  "GetDeviceInfo_ByFD h f = m_MapDeviceInfo h f"

definition GetDeviceInfo_BySesion :: "'q EpollHandler \<Rightarrow> int \<Rightarrow> nat option" where
  "GetDeviceInfo_BySesion h s = m_MapDeviceSessionInfo h s"

definition GetDeviceType_ByFD :: "'q EpollHandler \<Rightarrow> int \<Rightarrow> DEVICE_TYPE res" where
  "GetDeviceType_ByFD h f =
     (case GetDeviceInfo_ByFD h f of
        Some a \<Rightarrow> bind_res (heap_get (devs h) a) (\<lambda>d. Inr (device_type d))
      | None \<Rightarrow> Inr DEVICE_UNKNOWN)"

definition GetDeviceType_BySession :: "'q EpollHandler \<Rightarrow> int \<Rightarrow> DEVICE_TYPE res" where
  "GetDeviceType_BySession h s =
     (case GetDeviceInfo_BySesion h s of
        Some a \<Rightarrow> bind_res (heap_get (devs h) a) (\<lambda>d. Inr (device_type d))
      | None \<Rightarrow> Inr DEVICE_UNKNOWN)"

definition GetDeviceNum :: "'q EpollHandler \<Rightarrow> nat" where
  "GetDeviceNum h = card (dom (m_MapDeviceInfo h))"

section \<open>Epoll registration\<close>

definition CreateEpoll :: "('o, 'q) env \<Rightarrow> 'o \<Rightarrow> 'q EpollHandler \<Rightarrow> 'o \<times> 'q EpollHandler \<times> bool" where
  "CreateEpoll E s h =
     (case os_epoll_create E s 4096 of
        (s, e) \<Rightarrow> if e < 0 then (s, h\<lparr>epfd := -1\<rparr>, False) else (s, h\<lparr>epfd := e\<rparr>, True))"

definition EpollHandler_Init :: "('o, 'q) env \<Rightarrow> 'o \<Rightarrow> 'q EpollHandler \<Rightarrow> 'o \<times> 'q EpollHandler \<times> bool" where
  "EpollHandler_Init E s h = CreateEpoll E s h"

definition EpollRegister :: "('o, 'q) env \<Rightarrow> 'o \<Rightarrow> 'q EpollHandler \<Rightarrow> int \<Rightarrow> int \<Rightarrow> 'o \<times> bool" where
  "EpollRegister E s h f eventtype =
     (let s = setnonblocking E s f in
      case os_epoll_add E s (epfd h) f eventtype of (s, ret) \<Rightarrow> (s, ret = 0))"

definition EpollRemove :: "('o, 'q) env \<Rightarrow> 'o \<Rightarrow> 'q EpollHandler \<Rightarrow> int \<Rightarrow> 'o" where
  "EpollRemove E s h f = fst (os_epoll_del E s (epfd h) f)"

section \<open>The device maps\<close>

definition addDevice :: "('o, 'q) env \<Rightarrow> 'q EpollHandler \<Rightarrow> int \<Rightarrow> int \<Rightarrow> DEVICE_TYPE \<Rightarrow> sockaddr_in \<Rightarrow>
    ('q EpollHandler \<times> bool) res" where
  "addDevice E h f sessionID deviceType addr =
     (if GetDeviceInfo_BySesion h sessionID \<noteq> None \<or> GetDeviceInfo_ByFD h f \<noteq> None
      then Inr (h, False)
      else
        let a = next_dev h;
            d = (new_DEVICE_INFO (indet E) deviceType)
                  \<lparr>fd := f, session_id := sessionID, sock_addr := addr\<rparr>;
            h = h\<lparr>devs := (devs h)(a \<mapsto> d), next_dev := Suc a\<rparr>;
            h = h\<lparr>m_MapDeviceInfo := (m_MapDeviceInfo h)(fd d \<mapsto> a)\<rparr>;
            h = h\<lparr>m_MapDeviceSessionInfo := (m_MapDeviceSessionInfo h)(session_id d \<mapsto> a)\<rparr>
        in bind_res (addPressure 1 h) (\<lambda>h. Inr (h, True)))"

text \<open>
  The two removals differ in the order of the system calls: by session the descriptor is closed
  before it is removed from the epoll set.
\<close>

definition removeDevice_BySession :: "('o, 'q) env \<Rightarrow> 'o \<Rightarrow> 'q EpollHandler \<Rightarrow> int \<Rightarrow>
    ('o \<times> 'q EpollHandler) res" where
  "removeDevice_BySession E s h sessionID =
     (case GetDeviceInfo_BySesion h sessionID of
        None \<Rightarrow> Inr (s, h)
      | Some a \<Rightarrow>
          bind_res (heap_get (devs h) a) (\<lambda>d.
          let s = os_close E s (fd d);
              s = EpollRemove E s h (fd d) in
          bind_res (addPressure (-1) h) (\<lambda>h.
          let h = h\<lparr>m_MapDeviceInfo := (m_MapDeviceInfo h)(fd d := None)\<rparr>;
              h = h\<lparr>m_MapDeviceSessionInfo := (m_MapDeviceSessionInfo h)(session_id d := None)\<rparr>
          in Inr (s, h\<lparr>devs := (devs h)(a := None)\<rparr>))))"

definition removeDevice_ByFD :: "('o, 'q) env \<Rightarrow> 'o \<Rightarrow> 'q EpollHandler \<Rightarrow> int \<Rightarrow>
    ('o \<times> 'q EpollHandler) res" where
  "removeDevice_ByFD E s h f =
     (case GetDeviceInfo_ByFD h f of
        None \<Rightarrow> Inr (s, h)
      | Some a \<Rightarrow>
          bind_res (heap_get (devs h) a) (\<lambda>d.
          let s = EpollRemove E s h (fd d);
              s = os_close E s (fd d) in
          bind_res (addPressure (-1) h) (\<lambda>h.
          let h = h\<lparr>m_MapDeviceInfo := (m_MapDeviceInfo h)(fd d := None)\<rparr>;
              h = h\<lparr>m_MapDeviceSessionInfo := (m_MapDeviceSessionInfo h)(session_id d := None)\<rparr>
          in Inr (s, h\<lparr>devs := (devs h)(a := None)\<rparr>))))"

section \<open>Receiving\<close>

text \<open>
  The inner loop of \<open>doRead\<close>: while more than four bytes are pending, read the length of the next
  packet, stop on an illegal or incomplete one, otherwise hand it to the main thread and step over
  it.  The result is the flag \<open>result\<close> of the source.
\<close>

function doRead_parse :: "('o, 'q) env \<Rightarrow> 'q EpollHandler \<Rightarrow> DEVICE_INFO \<Rightarrow>
    ('q EpollHandler \<times> DEVICE_INFO \<times> bool) res" where
  "doRead_parse E h d =
     (if recv_end d - recv_begin d > 4 then
        bind_res (mem_load (recv_buffer d) (recv_begin d) 4) (\<lambda>cs.
        bind_res (read_be32 cs) (\<lambda>w.
        let packetLen = sint w in
        if packetLen > MAX_RECV_BUFFER_LEN \<or> packetLen < 4 then Inr (h, d, False)
        else if packetLen > recv_end d - recv_begin d then Inr (h, d, True)
        else
          bind_res (clientConnPacket_InitData (Some (drop (nat (recv_begin d)) (recv_buffer d)))
                      packetLen (new_task_clientConnPacket (thread_id h) (session_id d))) (\<lambda>t.
            doRead_parse E (push_task_main (ring E) h t)
              (d\<lparr>recv_begin := recv_begin d + packetLen\<rparr>))))
      else Inr (h, d, True))"
  by pat_completeness auto
termination
  by (relation "measure (\<lambda>(E, h, d). nat (recv_end d - recv_begin d))") auto

declare doRead_parse.simps [simp del]

text \<open>
  The outer loop, one \<open>recv\<close> per round.  \<open>EAGAIN\<close>, \<open>EWOULDBLOCK\<close> and \<open>EINTR\<close> end it with success, any
  other error and the return value 0 with failure.
\<close>

partial_function (option) doRead_loop :: "('o, 'q) env \<Rightarrow> 'o \<Rightarrow> 'q EpollHandler \<Rightarrow> DEVICE_INFO \<Rightarrow>
    ('o \<times> 'q EpollHandler \<times> DEVICE_INFO \<times> bool) run" where
  "doRead_loop E s h d =
     (case clear_Recv_buff (memcpy_overlap E) d of
        Inl e \<Rightarrow> Some (Inl e)
      | Inr d \<Rightarrow>
          (case os_recv E s (fd d) (MAX_RECV_BUFFER_LEN - recv_end d) of
             (s, Recv_error e) \<Rightarrow>
               Some (Inr (s, h, d, e = EAGAIN \<or> e = EWOULDBLOCK \<or> e = EINTR))
           | (s, Recv_bytes bs) \<Rightarrow>
               if bs = [] then Some (Inr (s, h, d, False))
               else
                 (case mem_store (recv_buffer d) (recv_end d) (map Some bs) of
                    Inl e \<Rightarrow> Some (Inl e)
                  | Inr m \<Rightarrow>
                      (case doRead_parse E h
                              (d\<lparr>recv_buffer := m, recv_end := recv_end d + int (length bs)\<rparr>) of
                         Inl e \<Rightarrow> Some (Inl e)
                       | Inr (h, d, result) \<Rightarrow>
                           if result then doRead_loop E s h d else Some (Inr (s, h, d, False))))))"

definition doRead :: "('o, 'q) env \<Rightarrow> 'o \<Rightarrow> 'q EpollHandler \<Rightarrow> int \<Rightarrow> ('o \<times> 'q EpollHandler \<times> bool) run" where
  "doRead E s h f =
     (case GetDeviceInfo_ByFD h f of
        None \<Rightarrow> Some (Inr (s, h, False))
      | Some a \<Rightarrow>
          bind_run (Some (heap_get (devs h) a)) (\<lambda>d.
          bind_run (doRead_loop E s h d) (\<lambda>(s, h, d, result).
          Some (Inr (s, h\<lparr>devs := (devs h)(a \<mapsto> d)\<rparr>, result)))))"

section \<open>Sending\<close>

partial_function (option) doWrite_loop :: "('o, 'q) env \<Rightarrow> 'o \<Rightarrow> DEVICE_INFO \<Rightarrow>
    ('o \<times> DEVICE_INFO \<times> bool) run" where
  "doWrite_loop E s d =
     (case clear_Send_buff (memcpy_overlap E) d of
        Inl e \<Rightarrow> Some (Inl e)
      | Inr d \<Rightarrow>
          if send_end d \<le> send_begin d then Some (Inr (s, d, True))
          else
            (case mem_load (send_buffer d) (send_begin d) (send_end d - send_begin d) of
               Inl e \<Rightarrow> Some (Inl e)
             | Inr cs \<Rightarrow>
                 (case os_send E s (fd d) cs of
                    (s, Send_error e) \<Rightarrow>
                      Some (Inr (s, d, e = EAGAIN \<or> e = EWOULDBLOCK \<or> e = EINTR))
                  | (s, Send_count sendLen) \<Rightarrow>
                      if sendLen = 0 then Some (Inr (s, d, False))
                      else doWrite_loop E s (d\<lparr>send_begin := send_begin d + sendLen\<rparr>))))"

definition doWrite :: "('o, 'q) env \<Rightarrow> 'o \<Rightarrow> 'q EpollHandler \<Rightarrow> int \<Rightarrow> ('o \<times> 'q EpollHandler \<times> bool) run" where
  "doWrite E s h f =
     (case GetDeviceInfo_ByFD h f of
        None \<Rightarrow> Some (Inr (s, h, False))
      | Some a \<Rightarrow>
          bind_run (Some (heap_get (devs h) a)) (\<lambda>d.
          if send_end d \<le> send_begin d then Some (Inr (s, h, True))
          else bind_run (doWrite_loop E s d) (\<lambda>(s, d, result).
               Some (Inr (s, h\<lparr>devs := (devs h)(a \<mapsto> d)\<rparr>, result)))))"

section \<open>Accepting\<close>

partial_function (option) doAccept_loop :: "('o, 'q) env \<Rightarrow> 'o \<Rightarrow> 'q EpollHandler \<Rightarrow> int \<Rightarrow> nat \<Rightarrow>
    ('o \<times> 'q EpollHandler) run" where
  "doAccept_loop E s h f a =
     (case os_accept E s f of
        (s, connectfd, clientaddr) \<Rightarrow>
          if connectfd < 0 then Some (Inr (s, h))
          else
            (case heap_get (devs h) a of
               Inl e \<Rightarrow> Some (Inl e)
             | Inr d \<Rightarrow>
                 doAccept_loop E (setnonblocking E s connectfd)
                   (push_task_main (ring E) h
                      (new_task_clientConn (thread_id h) connectfd
                         (getClientDeviceType (device_type d)) clientaddr)) f a))"

definition doAccept :: "('o, 'q) env \<Rightarrow> 'o \<Rightarrow> 'q EpollHandler \<Rightarrow> int \<Rightarrow> ('o \<times> 'q EpollHandler \<times> bool) run" where
  "doAccept E s h f =
     (case GetDeviceInfo_ByFD h f of
        None \<Rightarrow> Some (Inr (s, h, False))
      | Some a \<Rightarrow> bind_run (doAccept_loop E s h f a) (\<lambda>(s, h). Some (Inr (s, h, True))))"

section \<open>Task handlers\<close>

definition WritePacketToConn :: "('o, 'q) env \<Rightarrow> 'o \<Rightarrow> 'q EpollHandler \<Rightarrow> int \<Rightarrow> int \<Rightarrow> mem option \<Rightarrow>
    ('o \<times> 'q EpollHandler) run" where
  "WritePacketToConn E s h session sz packet =
     (case GetDeviceInfo_BySesion h session of
        None \<Rightarrow> Some (Inr (s, h))
      | Some a \<Rightarrow>
          bind_run (Some (bind_res (heap_get (devs h) a) (\<lambda>d.
                      DEVICE_INFO_write (memcpy_overlap E) d packet sz))) (\<lambda>(d, sendlen).
          let h = h\<lparr>devs := (devs h)(a \<mapsto> d)\<rparr> in
          bind_run (if sendlen < sz then Some (Inr (s, h, False)) else doWrite E s h (fd d))
            (\<lambda>(s, h, result).
          if result then Some (Inr (s, h))
          else
            let h = push_task_main (ring E) h (new_task_clientConnOnClose (thread_id h) (session_id d))
            in Some (removeDevice_ByFD E s h (fd d)))))"

definition AddListener :: "('o, 'q) env \<Rightarrow> 'o \<Rightarrow> 'q EpollHandler \<Rightarrow> int \<Rightarrow> DEVICE_TYPE \<Rightarrow> sockaddr_in \<Rightarrow>
    ('o \<times> 'q EpollHandler) res" where
  "AddListener E s h lfd deviceType addr =
     (case EpollRegister E s h lfd (or EPOLLIN EPOLLET) of
        (s, result) \<Rightarrow>
          if result then bind_res (addDevice E h lfd 0 deviceType addr) (\<lambda>(h, _). Inr (s, h))
          else Inr (s, h))"

text \<open>\<open>AddClientConn\<close> also writes the thread's id into the task, which it returns.\<close>

definition AddClientConn :: "('o, 'q) env \<Rightarrow> 'o \<Rightarrow> 'q EpollHandler \<Rightarrow> int \<Rightarrow> DEVICE_TYPE \<Rightarrow> int \<Rightarrow>
    sockaddr_in \<Rightarrow> ('o \<times> 'q EpollHandler \<times> task) res" where
  "AddClientConn E s h cfd deviceType session addr =
     (let t = task_clientConnInsert (thread_id h) cfd deviceType session addr in
      case EpollRegister E s h cfd (or (or EPOLLIN EPOLLOUT) EPOLLET) of
        (s, result) \<Rightarrow>
          if result then bind_res (addDevice E h cfd session deviceType addr) (\<lambda>(h, _). Inr (s, h, t))
          else Inr (s, h, t))"

definition DelClientConn :: "('o, 'q) env \<Rightarrow> 'o \<Rightarrow> 'q EpollHandler \<Rightarrow> int \<Rightarrow> ('o \<times> 'q EpollHandler) res" where
  "DelClientConn E s h session = removeDevice_BySession E s h session"

text \<open>
  The \<open>switch\<close> of \<open>EpollHandler::dotask\<close>.  Both threads call it: the epoll thread for the tasks of
  \<open>m_queue_thread\<close>, the main thread for those of \<open>m_queue_main\<close>.  The handlers work on the devices of
  the epoll thread without a lock, so running one of them on the main thread is a data race.
\<close>

datatype side = Main_thread | Epoll_thread

definition dotask_switch :: "('o, 'q) env \<Rightarrow> side \<Rightarrow> 'o \<Rightarrow> 'q EpollHandler \<Rightarrow> task \<Rightarrow>
    ('o \<times> 'q EpollHandler \<times> task) run" where
  "dotask_switch E side s h t =
     (if side = Main_thread \<and> getTaskType t \<in> {TASK_TYPE_LISTENER, TASK_TYPE_CLIENTCONN_INSERT,
           TASK_TYPE_CLIENTCONN_DELETE, TASK_TYPE_SEND_PACKET}
      then Some (Inl Data_race)
      else case t of
        task_listener _ lfd ty addr \<Rightarrow>
          Some (bind_res (AddListener E s h lfd ty addr) (\<lambda>(s, h). Inr (s, h, t)))
      | task_clientConnInsert _ cfd ty session addr \<Rightarrow>
          Some (AddClientConn E s h cfd ty session addr)
      | task_clientConnDelete _ session \<Rightarrow>
          Some (bind_res (DelClientConn E s h session) (\<lambda>(s, h). Inr (s, h, t)))
      | task_sendPacket _ session sz packet \<Rightarrow>
          bind_run (WritePacketToConn E s h session sz packet) (\<lambda>(s, h). Some (Inr (s, h, t)))
      | _ \<Rightarrow> Some (Inr (s, h, t)))"

text \<open>
  \<open>dotask\<close> on the epoll thread: the switch, then \<open>OnExcute\<close>, which is empty for the four tasks meant
  for this thread.  The other three work on the main thread's singletons.
\<close>

definition dotask_thread :: "('o, 'q) env \<Rightarrow> 'o \<times> 'q EpollHandler \<Rightarrow> task \<Rightarrow>
    (('o \<times> 'q EpollHandler) \<times> task) run" where
  "dotask_thread E w t =
     bind_run (dotask_switch E Epoll_thread (fst w) (snd w) t) (\<lambda>(s, h, t).
       if getTaskType t \<in> {TASK_TYPE_LISTENER, TASK_TYPE_CLIENTCONN_INSERT,
           TASK_TYPE_CLIENTCONN_DELETE, TASK_TYPE_SEND_PACKET}
       then Some (Inr ((s, h), t)) else Some (Inl Data_race))"

section \<open>The event loop\<close>

text \<open>One event of \<open>doEpollEvents\<close>: \<open>EPOLLOUT\<close> before \<open>EPOLLIN\<close>, closing on the first failure.\<close>

definition doEpollEvent_io :: "('o, 'q) env \<Rightarrow> 'o \<Rightarrow> 'q EpollHandler \<Rightarrow> epoll_event \<Rightarrow>
    ('o \<times> 'q EpollHandler \<times> bool) run" where
  "doEpollEvent_io E s h ev =
     bind_run (if and (ev_events ev) EPOLLOUT \<noteq> 0 then doWrite E s h (ev_fd ev)
               else Some (Inr (s, h, True))) (\<lambda>(s, h, eventResult).
       if \<not> eventResult then Some (Inr (s, h, False))
       else if and (ev_events ev) EPOLLIN \<noteq> 0 then doRead E s h (ev_fd ev)
       else Some (Inr (s, h, True)))"

definition doEpollEvent :: "('o, 'q) env \<Rightarrow> 'o \<Rightarrow> 'q EpollHandler \<Rightarrow> epoll_event \<Rightarrow>
    ('o \<times> 'q EpollHandler) run" where
  "doEpollEvent E s h ev =
     bind_run (Some (GetDeviceType_ByFD h (ev_fd ev))) (\<lambda>ty.
     bind_run
       (case ty of
          DEVICE_SERVER_INTERNAL \<Rightarrow>
            bind_run (doAccept E s h (ev_fd ev)) (\<lambda>(s, h, _). Some (Inr (s, h, True)))
        | DEVICE_SERVER_EXTERNAL \<Rightarrow>
            bind_run (doAccept E s h (ev_fd ev)) (\<lambda>(s, h, _). Some (Inr (s, h, True)))
        | DEVICE_CLIENT_INTERNAL \<Rightarrow> doEpollEvent_io E s h ev
        | DEVICE_CLIENT_EXTERNAL \<Rightarrow> doEpollEvent_io E s h ev
        | _ \<Rightarrow> Some (Inr (s, h, True))) (\<lambda>(s, h, eventResult).
     if eventResult then Some (Inr (s, h))
     else
       bind_run (case GetDeviceInfo_ByFD h (ev_fd ev) of
           None \<Rightarrow> Some (Inr h)
         | Some a \<Rightarrow> bind_run (Some (heap_get (devs h) a)) (\<lambda>d.
             Some (Inr (push_task_main (ring E) h
                     (new_task_clientConnOnClose (thread_id h) (session_id d)))))) (\<lambda>h.
       Some (removeDevice_ByFD E s h (ev_fd ev)))))"

fun doEpollEvents_loop :: "('o, 'q) env \<Rightarrow> 'o \<Rightarrow> 'q EpollHandler \<Rightarrow> epoll_event list \<Rightarrow>
    ('o \<times> 'q EpollHandler) run" where
  "doEpollEvents_loop E s h [] = Some (Inr (s, h))"
| "doEpollEvents_loop E s h (ev # evs) =
     bind_run (doEpollEvent E s h ev) (\<lambda>(s, h). doEpollEvents_loop E s h evs)"

definition doEpollEvents :: "('o, 'q) env \<Rightarrow> 'o \<Rightarrow> 'q EpollHandler \<Rightarrow> int \<Rightarrow> ('o \<times> 'q EpollHandler) run" where
  "doEpollEvents E s h nfds =
     doEpollEvents_loop E s h (take (nat (min nfds MAXEVENTS)) (events_slot h))"

definition EpollRun :: "('o, 'q) env \<Rightarrow> 'o \<Rightarrow> 'q EpollHandler \<Rightarrow> int \<Rightarrow> ('o \<times> 'q EpollHandler \<times> int) run" where
  "EpollRun E s h maxEvent =
     (if maxEvent \<le> 0 then Some (Inr (s, h, -1))
      else
        let maxEvent = (if maxEvent > MAXEVENTS then MAXEVENTS else maxEvent) in
        case os_epoll_wait E s (epfd h) MAXEVENTS of
          (s, nfds, evs) \<Rightarrow>
            let h = h\<lparr>events_slot := evs\<rparr> in
            if nfds \<le> 0 then Some (Inr (s, h, nfds))
            else bind_run (doEpollEvents E s h nfds) (\<lambda>(s, h).
                 Some (Inr (s, h, if nfds > maxEvent then maxEvent else nfds))))"

text \<open>
  One round of \<open>epoll_thread_run\<close> after \<open>Init\<close>: events, then \<open>update_thread\<close>.  The result is the
  number of handled events and tasks (the thread sleeps when it is not positive).
\<close>

definition epoll_thread_round :: "('o, 'q) env \<Rightarrow> 'o \<times> 'q EpollHandler \<Rightarrow> (('o \<times> 'q EpollHandler) \<times> int) run" where
  "epoll_thread_round E w =
     bind_run (EpollRun E (fst w) (snd w) MAXEVENTS) (\<lambda>(s, h, eventNums).
     bind_run (update_thread (ring E) snd (\<lambda>h (s, _). (s, h)) (dotask_thread E) (s, h))
       (\<lambda>(w, n). Some (Inr (w, eventNums + n))))"

end
