(* ===== verification/ThreadManager.thy ===== *)
theory ThreadManager
  imports EpollHandler
begin

text \<open>
  The pool of epoll threads of \<open>oryx/threadManager.h\<close> and \<open>oryx/threadManager.cpp\<close>.  The map
  \<open>m_threadMap_Epoll\<close> is an association list in insertion order; \<open>unordered\<close> gives the order of
  iteration.  Nothing else points to the thread objects and a \<open>NULL\<close> is never entered, so the
  objects are the values of the map.
\<close>

section \<open>The map of threads\<close>

type_synonym 'q thread_map = "(int \<times> 'q EpollHandler) list"

definition upd_thread :: "int \<Rightarrow> ('q EpollHandler \<Rightarrow> 'q EpollHandler) \<Rightarrow> 'q thread_map \<Rightarrow> 'q thread_map" where
  "upd_thread k f m = map (\<lambda>(i, h). if i = k then (i, f h) else (i, h)) m"

text \<open>
  The scan for the lowest load: the first thread of the iteration, replaced by each later one with
  a strictly lower load.
\<close>

fun less_pressure_loop :: "'q thread_map \<Rightarrow> int list \<Rightarrow> int option \<Rightarrow> int option" where
  "less_pressure_loop m [] now = now"
| "less_pressure_loop m (k # ks) now =
     less_pressure_loop m ks
       (case now of
          None \<Rightarrow> Some k
        | Some n \<Rightarrow>
            if m_pressure (the (map_of m n)) > m_pressure (the (map_of m k)) then Some k else Some n)"

definition getLessPressureThread_Epoll :: "('o, 'q) env \<Rightarrow> 'q thread_map \<Rightarrow> int \<Rightarrow> int option" where
  "getLessPressureThread_Epoll E m threadID =
     (if threadID \<noteq> 0 then (if map_of m threadID \<noteq> None then Some threadID else None)
      else less_pressure_loop m (unordered E (map fst m)) None)"

definition addThread_Epoll :: "'q thread_map \<Rightarrow> 'q EpollHandler option \<Rightarrow> 'q thread_map \<times> bool" where
  "addThread_Epoll m t =
     (case t of
        None \<Rightarrow> (m, False)
      | Some h \<Rightarrow>
          if map_of m (thread_id h) \<noteq> None then (m, False) else (m @ [(thread_id h, h)], True))"

text \<open>\<open>push_task\<close>: the result is the id of the thread that got the task, or -1.\<close>

definition push_task :: "('o, 'q) env \<Rightarrow> 'q thread_map \<Rightarrow> task \<Rightarrow> 'q thread_map \<times> int" where
  "push_task E m t =
     (case getLessPressureThread_Epoll E m (getTaskThreadID t) of
        None \<Rightarrow> (m, -1)
      | Some k \<Rightarrow> (upd_thread k (\<lambda>h. push_task_thread (ring E) h t) m, thread_id (the (map_of m k))))"

fun init_loop :: "('o, 'q) env \<Rightarrow> nat \<Rightarrow> 'o \<Rightarrow> 'q thread_map \<Rightarrow> 'o \<times> 'q thread_map" where
  "init_loop E 0 s m = (s, m)"
| "init_loop E (Suc i) s m =
     (case run E s (new_EpollHandler E) of
        (s, h, _) \<Rightarrow> init_loop E i s (fst (addThread_Epoll m (Some h))))"

definition ThreadManager_init :: "('o, 'q) env \<Rightarrow> 'o \<Rightarrow> 'o \<times> 'q thread_map \<times> bool" where
  "ThreadManager_init E s = (case init_loop E 4 s [] of (s, m) \<Rightarrow> (s, m, True))"

section \<open>Lemmas\<close>

text \<open>Every thread is entered once, under its own id.\<close>

definition threads_inv :: "'q thread_map \<Rightarrow> bool" where
  "threads_inv m \<longleftrightarrow> distinct (map fst m) \<and> (\<forall>(k, h)\<in>set m. thread_id h = k)"

lemma keys_upd_thread [simp]: "map fst (upd_thread k f m) = map fst m"
  by (induction m) (auto simp: upd_thread_def)

lemma map_of_upd_thread:
  "map_of (upd_thread k f m) i = (if i = k then map_option f (map_of m i) else map_of m i)"
  by (induction m) (auto simp: upd_thread_def)

lemma threads_inv_id: "threads_inv m \<Longrightarrow> map_of m k = Some h \<Longrightarrow> thread_id h = k"
  by (auto simp: threads_inv_def dest: map_of_SomeD)

lemma threads_inv_upd:
  assumes "threads_inv m" and f: "\<And>h. thread_id (f h) = thread_id h"
  shows "threads_inv (upd_thread k f m)"
  unfolding threads_inv_def keys_upd_thread
proof
  show "distinct (map fst m)" using assms(1) by (simp add: threads_inv_def)
  show "\<forall>(i, h)\<in>set (upd_thread k f m). thread_id h = i"
    using assms(1) by (auto simp: upd_thread_def threads_inv_def f split: if_splits)
qed

lemma push_task_thread_simps [simp]:
  "thread_id (push_task_thread B h t) = thread_id h"
  "m_pressure (push_task_thread B h t) = m_pressure h"
  "m_queue_main (push_task_thread B h t) = m_queue_main h"
  "m_queue_thread (push_task_thread B h t) = push B (m_queue_thread h) t"
  "m_queue_thread_complete (push_task_thread B h t) = m_queue_thread_complete h"
  "m_queue_main_complete (push_task_thread B h t) = m_queue_main_complete h"
  by (simp_all add: push_task_thread_def)

lemma less_pressure_loop_Some:
  "\<exists>k. less_pressure_loop m ks (Some n) = Some k \<and> k \<in> insert n (set ks) \<and>
     (\<forall>i\<in>insert n (set ks). m_pressure (the (map_of m k)) \<le> m_pressure (the (map_of m i)))"
proof (induction ks arbitrary: n)
  case (Cons x ks)
  let ?n = "if m_pressure (the (map_of m n)) > m_pressure (the (map_of m x)) then x else n"
  from Cons.IH [of ?n] obtain k where k: "less_pressure_loop m ks (Some ?n) = Some k"
    "k \<in> insert ?n (set ks)"
    "\<forall>i\<in>insert ?n (set ks). m_pressure (the (map_of m k)) \<le> m_pressure (the (map_of m i))" by blast
  have "less_pressure_loop m (x # ks) (Some n) = Some k" using k(1) by (auto split: if_splits)
  moreover have "k \<in> insert n (set (x # ks))" using k(2) by (auto split: if_splits)
  moreover have "m_pressure (the (map_of m k)) \<le> m_pressure (the (map_of m n))"
    "m_pressure (the (map_of m k)) \<le> m_pressure (the (map_of m x))"
    using k(3) by (auto split: if_splits)
  ultimately show ?case using k(3) by auto
qed simp

lemma less_pressure_loop_ok:
  "less_pressure_loop m ks None =
     (case ks of [] \<Rightarrow> None | k # ks \<Rightarrow> less_pressure_loop m ks (Some k))"
  by (cases ks) simp_all

context unordered_keys
begin

lemma getLess_any:
  assumes "m \<noteq> []"
  shows "\<exists>k. getLessPressureThread_Epoll E m 0 = Some k \<and> k \<in> fst ` set m \<and>
    (\<forall>i\<in>fst ` set m. m_pressure (the (map_of m k)) \<le> m_pressure (the (map_of m i)))"
proof -
  have ne: "unordered E (map fst m) \<noteq> []" using assms by simp
  then obtain x xs where u: "unordered E (map fst m) = x # xs" by (cases "unordered E (map fst m)") auto
  then have s: "insert x (set xs) = fst ` set m"
    using unordered_set [of "map fst m"] by (metis list.set(2) list.set_map)
  from less_pressure_loop_Some [of m xs x] show ?thesis
    unfolding getLessPressureThread_Epoll_def u s by simp
qed

lemma getLess_found:
  "getLessPressureThread_Epoll E m i = Some k \<Longrightarrow> map_of m k \<noteq> None"
  using getLess_any [of m]
  by (cases "m = []"; cases "i = 0")
    (auto simp: getLessPressureThread_Epoll_def map_of_eq_None_iff split: if_splits)

end

lemma push_task_some:
  assumes "threads_inv m" "getLessPressureThread_Epoll E m (getTaskThreadID t) = Some k" "map_of m k \<noteq> None"
  shows "push_task E m t = (upd_thread k (\<lambda>h. push_task_thread (ring E) h t) m, k)"
  using assms threads_inv_id [OF assms(1)] by (auto simp: push_task_def)

lemma threads_inv_add:
  "threads_inv m \<Longrightarrow> threads_inv (fst (addThread_Epoll m t))"
  by (auto simp: threads_inv_def addThread_Epoll_def map_of_eq_None_iff split: option.splits)

text \<open>The ids that the next \<open>n\<close> calls of \<open>pthread_create\<close> leave in the thread objects.\<close>

fun spawn_ids :: "('o, 'q) env \<Rightarrow> nat \<Rightarrow> 'o \<Rightarrow> int list" where
  "spawn_ids E 0 s = []"
| "spawn_ids E (Suc n) s =
     (case os_pthread_create E s of (s', r) \<Rightarrow>
        (case r of None \<Rightarrow> -1 | Some i \<Rightarrow> i) # spawn_ids E n s')"

lemma run_new:
  "run E s (new_EpollHandler E) = (case os_pthread_create E s of (s', r) \<Rightarrow>
     (s', (new_EpollHandler E)\<lparr>thread_id := (case r of None \<Rightarrow> -1 | Some i \<Rightarrow> i)\<rparr>, True))"
  by (simp add: run_def new_EpollHandler_def thread.defs new_Thread_def split: prod.splits option.splits)

lemma init_loop_ok:
  assumes "threads_inv m"
  shows "threads_inv (snd (init_loop E n s m)) \<and>
    fst ` set (snd (init_loop E n s m)) = fst ` set m \<union> set (spawn_ids E n s) \<and>
    (\<forall>(k, h)\<in>set (snd (init_loop E n s m)). (k, h) \<in> set m \<or> h = (new_EpollHandler E)\<lparr>thread_id := k\<rparr>)"
  using assms
proof (induction n arbitrary: s m)
  case (Suc n)
  obtain s1 r where p: "os_pthread_create E s = (s1, r)" by fastforce
  let ?i = "case r of None \<Rightarrow> -1 | Some i \<Rightarrow> i"
  let ?h = "(new_EpollHandler E)\<lparr>thread_id := ?i\<rparr>"
  let ?m = "fst (addThread_Epoll m (Some ?h))"
  have keys: "fst ` set ?m = insert ?i (fst ` set m)"
    by (auto simp: addThread_Epoll_def map_of_eq_None_iff image_iff)
  have new: "\<forall>(k, h)\<in>set ?m. (k, h) \<in> set m \<or> h = (new_EpollHandler E)\<lparr>thread_id := k\<rparr>"
    by (auto simp: addThread_Epoll_def)
  have eq: "init_loop E (Suc n) s m = init_loop E n s1 ?m" using p by (simp add: run_new)
  from Suc.IH [OF threads_inv_add [OF Suc.prems], of s1 "Some ?h"] show ?case
    unfolding eq keys using p new by (auto split: option.splits)
qed auto

lemma push_task_ok:
  assumes "unordered_keys E" and "boost_ring (ring E) elems cap" and "threads_inv m"
  shows "if (if getTaskThreadID t = 0 then m = [] else map_of m (getTaskThreadID t) = None)
    then push_task E m t = (m, -1)
    else \<exists>m' k h. push_task E m t = (m', k) \<and> threads_inv m' \<and> map_of m k = Some h \<and>
      (if getTaskThreadID t = 0 then \<forall>(i, g)\<in>set m. m_pressure h \<le> m_pressure g
       else k = getTaskThreadID t) \<and>
      map_of m' k = Some (push_task_thread (ring E) h t) \<and>
      contents elems (m_queue_thread (push_task_thread (ring E) h t)) =
        contents elems (m_queue_thread h) @ [t] \<and>
      (\<forall>i. i \<noteq> k \<longrightarrow> map_of m' i = map_of m i)"
proof (cases "if getTaskThreadID t = 0 then m = [] else map_of m (getTaskThreadID t) = None")
  case True
  then have "getLessPressureThread_Epoll E m (getTaskThreadID t) = None"
    using unordered_keys.unordered_Nil_iff [OF assms(1), of "[]"]
    by (auto simp: getLessPressureThread_Epoll_def split: if_splits)
  then show ?thesis using True by (simp add: push_task_def)
next
  case False
  have dist: "map_of m i = Some g" if "(i, g) \<in> set m" for i g
    using that assms(3) by (simp add: threads_inv_def map_of_eq_Some_iff)
  obtain k where k: "getLessPressureThread_Epoll E m (getTaskThreadID t) = Some k"
    "if getTaskThreadID t = 0
     then \<forall>i\<in>fst ` set m. m_pressure (the (map_of m k)) \<le> m_pressure (the (map_of m i))
     else k = getTaskThreadID t"
    using False unordered_keys.getLess_any [OF assms(1), of m]
    by (auto simp: getLessPressureThread_Epoll_def split: if_splits)
  from unordered_keys.getLess_found [OF assms(1) k(1)] obtain h where h: "map_of m k = Some h" by auto
  have "if getTaskThreadID t = 0 then \<forall>(i, g)\<in>set m. m_pressure h \<le> m_pressure g
      else k = getTaskThreadID t"
    using k(2) h dist by (fastforce split: if_splits)
  moreover have "push_task E m t = (upd_thread k (\<lambda>h. push_task_thread (ring E) h t) m, k)"
    using push_task_some [OF assms(3) k(1)] h by simp
  moreover have "threads_inv (upd_thread k (\<lambda>h. push_task_thread (ring E) h t) m)"
    by (rule threads_inv_upd [OF assms(3)]) simp
  moreover have "contents elems (m_queue_thread (push_task_thread (ring E) h t)) =
        contents elems (m_queue_thread h) @ [t]"
    by (simp add: boost_ring.push_contents [OF assms(2)])
  ultimately show ?thesis unfolding if_not_P [OF False] using h
    by (intro exI [of _ "upd_thread k (\<lambda>h. push_task_thread (ring E) h t) m"] exI [of _ k] exI [of _ h])
      (simp add: map_of_upd_thread)
qed

section \<open>Properties\<close>

text \<open>
  Choosing a thread and handing it a task.  A task with a thread id goes to the thread with
  this id and to no other; a task with id 0 goes to a thread whose load is minimal, whatever the
  order of iteration.  It is appended to that thread's queue, the other threads are unchanged, and
  the result is the thread's id; it is -1, with nothing changed, exactly if there is no such thread.
\<close>

theorem push_task_target:
  assumes "unordered_keys E" and "boost_ring (ring E) elems cap" and "threads_inv m"
  shows "if (if getTaskThreadID t = 0 then m = [] else map_of m (getTaskThreadID t) = None)
    then push_task E m t = (m, -1)
    else \<exists>m' k h. push_task E m t = (m', k) \<and> threads_inv m' \<and> map_of m k = Some h \<and>
      (if getTaskThreadID t = 0 then \<forall>(i, g)\<in>set m. m_pressure h \<le> m_pressure g
       else k = getTaskThreadID t) \<and>
      map_of m' k = Some (push_task_thread (ring E) h t) \<and>
      contents elems (m_queue_thread (push_task_thread (ring E) h t)) =
        contents elems (m_queue_thread h) @ [t] \<and>
      (\<forall>i. i \<noteq> k \<longrightarrow> map_of m' i = map_of m i)"
  by (rule push_task_ok [OF assms])

theorem push_task_target_witness:
  "\<exists>m'. push_task sim_env [(3, (new_EpollHandler sim_env)\<lparr>thread_id := 3\<rparr>)] (task_clientConnDelete 3 5) = (m', 3)"
proof -
  have "threads_inv [(3, (new_EpollHandler sim_env)\<lparr>thread_id := 3\<rparr>)]" by (simp add: threads_inv_def)
  from push_task_target [OF sim_unordered.unordered_keys_axioms _ this, of "\<lambda>r. r" MAX_SPSC_QUEUE_SIZE
      "task_clientConnDelete 3 5"]
  show ?thesis using list_ring_boost [of MAX_SPSC_QUEUE_SIZE]
    by (auto simp: sim_env_def simp del: MAX_SPSC_QUEUE_SIZE_def)
qed

text \<open>
  Starting the pool.  \<open>init\<close> reports success in any case; it enters one thread, with empty maps
  and queues, under each of the distinct ids that its four calls of \<open>pthread_create\<close> leave in the
  objects, so four of them exactly if those ids are distinct.
\<close>

theorem thread_pool_init:
  shows "\<exists>s' m. ThreadManager_init E s = (s', m, True) \<and> threads_inv m \<and>
    fst ` set m = set (spawn_ids E 4 s) \<and> length m = card (set (spawn_ids E 4 s)) \<and>
    m = map (\<lambda>k. (k, (new_EpollHandler E)\<lparr>thread_id := k\<rparr>)) (map fst m)"
proof -
  obtain s' m where i: "init_loop E 4 s [] = (s', m)" by fastforce
  have "threads_inv []" by (simp add: threads_inv_def)
  from init_loop_ok [OF this, of E 4 s] i have
    m: "threads_inv m" "fst ` set m = set (spawn_ids E 4 s)"
      "\<forall>(k, h)\<in>set m. h = (new_EpollHandler E)\<lparr>thread_id := k\<rparr>" by auto
  have n: "length m = card (fst ` set m)"
    using m(1) by (metis distinct_card length_map list.set_map threads_inv_def)
  have e: "m = map (\<lambda>k. (k, (new_EpollHandler E)\<lparr>thread_id := k\<rparr>)) (map fst m)"
    unfolding map_map by (rule sym, rule map_idI) (use m(3) in auto)
  have "ThreadManager_init E s = (s', m, True)" using i by (simp add: ThreadManager_init_def)
  then show ?thesis using m(1,2) n [unfolded m(2)] e by (intro exI conjI)
qed

end
