(* ===== verification/ClientConnManager.thy ===== *)
theory ClientConnManager
  imports ThreadManager
begin

text \<open>
  The main thread's view of the sessions: \<open>oryx/ClientConnManager.h\<close> and
  \<open>oryx/ClientConnManager.cpp\<close>.  \<open>SessionConn\<close> objects live in the heap \<open>sess\<close>; the map holds their
  addresses.  The class is a base class, so the record is extensible and the virtual
  \<open>onSessionClose\<close> is an argument (\<open>on_close\<close>) of the methods that call it; \<open>onSessionBegin\<close> is empty
  and not overridden.
\<close>

section \<open>State\<close>

record SessionConn =
  sc_thread_id :: int
  sc_session_id :: int
  player_id :: int
  sc_device_type :: DEVICE_TYPE
  sc_sock_addr :: sockaddr_in

definition new_SessionConn :: "int \<Rightarrow> int \<Rightarrow> DEVICE_TYPE \<Rightarrow> sockaddr_in \<Rightarrow> SessionConn" where
  "new_SessionConn threadID sessionID deviceType addr =
     \<lparr>sc_thread_id = threadID, sc_session_id = sessionID, player_id = 0,
      sc_device_type = deviceType, sc_sock_addr = addr\<rparr>"

record ClientConnManager =
  m_MapSessionConnInfo :: "int \<rightharpoonup> nat"
  m_iAutoIncriSessionID :: int
  sess :: "nat \<rightharpoonup> SessionConn"
  next_sess :: nat

definition new_ClientConnManager :: "('o, 'q) env \<Rightarrow> ClientConnManager" where
  "new_ClientConnManager E =
     \<lparr>m_MapSessionConnInfo = Map.empty, m_iAutoIncriSessionID = indet E, sess = Map.empty, next_sess = 0\<rparr>"

definition ClientConnManager_init :: "'z ClientConnManager_scheme \<Rightarrow> 'z ClientConnManager_scheme \<times> bool" where
  "ClientConnManager_init cm = (cm\<lparr>m_iAutoIncriSessionID := 1\<rparr>, True)"

definition getSession_BySessionID :: "'z ClientConnManager_scheme \<Rightarrow> int \<Rightarrow> nat option" where
  "getSession_BySessionID cm k = m_MapSessionConnInfo cm k"

section \<open>Adding and removing sessions\<close>

definition addNewConn :: "'z ClientConnManager_scheme \<Rightarrow> int \<Rightarrow> int \<Rightarrow> DEVICE_TYPE \<Rightarrow> sockaddr_in \<Rightarrow>
    'z ClientConnManager_scheme \<times> bool" where
  "addNewConn cm threadID sessionID deviceType addr =
     (if getSession_BySessionID cm sessionID \<noteq> None then (cm, False)
      else
        let a = next_sess cm;
            cm = cm\<lparr>sess := (sess cm)(a \<mapsto> new_SessionConn threadID sessionID deviceType addr),
                    next_sess := Suc a\<rparr>;
            cm = cm\<lparr>m_MapSessionConnInfo := (m_MapSessionConnInfo cm)(sessionID \<mapsto> a)\<rparr>
        in (cm, True))"

text \<open>The hook of the base class does nothing.\<close>

definition base_onSessionClose :: "'z ClientConnManager_scheme \<Rightarrow> nat \<Rightarrow> 'z ClientConnManager_scheme res" where
  "base_onSessionClose cm p = Inr cm"

text \<open>\<open>removeSessionConn\<close> deletes the object first and then passes the pointer to the hook.\<close>

definition removeSessionConn ::
    "('z ClientConnManager_scheme \<Rightarrow> nat \<Rightarrow> 'z ClientConnManager_scheme res) \<Rightarrow>
     'z ClientConnManager_scheme \<Rightarrow> int \<Rightarrow> 'z ClientConnManager_scheme res" where
  "removeSessionConn on_close cm sessionID =
     (case m_MapSessionConnInfo cm sessionID of
        None \<Rightarrow> Inr cm
      | Some a \<Rightarrow>
          bind_res (heap_get (sess cm) a) (\<lambda>_.
          bind_res (on_close (cm\<lparr>sess := (sess cm)(a := None)\<rparr>) a) (\<lambda>cm.
          Inr (cm\<lparr>m_MapSessionConnInfo := (m_MapSessionConnInfo cm)(sessionID := None)\<rparr>))))"

definition closeConn :: "('o, 'q) env \<Rightarrow>
    ('z ClientConnManager_scheme \<Rightarrow> nat \<Rightarrow> 'z ClientConnManager_scheme res) \<Rightarrow>
    'q thread_map \<Rightarrow> 'z ClientConnManager_scheme \<Rightarrow> int \<Rightarrow>
    ('q thread_map \<times> 'z ClientConnManager_scheme) res" where
  "closeConn E on_close m cm sessionID =
     (case getSession_BySessionID cm sessionID of
        None \<Rightarrow> Inr (m, cm)
      | Some a \<Rightarrow>
          bind_res (heap_get (sess cm) a) (\<lambda>c.
          let m = fst (push_task E m (new_task_clientConnDelete (sc_thread_id c) (sc_session_id c))) in
          bind_res (removeSessionConn on_close cm sessionID) (\<lambda>cm. Inr (m, cm))))"

section \<open>Session ids\<close>

text \<open>
  \<open>getRandNewSession\<close>: the time in seconds and a counter that runs through 1 to 100000, again until
  the combination is not in use.
\<close>

partial_function (option) getRandNewSession :: "('o, 'q) env \<Rightarrow> 'o \<Rightarrow> 'z ClientConnManager_scheme \<Rightarrow>
    ('o \<times> 'z ClientConnManager_scheme \<times> int) run" where
  "getRandNewSession E s cm =
     (case os_time E s of
        (s, now) \<Rightarrow>
          (case bind_res (i64 (now * 100000)) (\<lambda>x. i64 (x + m_iAutoIncriSessionID cm)) of
             Inl e \<Rightarrow> Some (Inl e)
           | Inr k \<Rightarrow>
               (case bind_res (c_mod (m_iAutoIncriSessionID cm) 100000) (\<lambda>x. i64 (x + 1)) of
                  Inl e \<Rightarrow> Some (Inl e)
                | Inr n \<Rightarrow>
                    if m_MapSessionConnInfo cm k = None
                    then Some (Inr (s, cm\<lparr>m_iAutoIncriSessionID := n\<rparr>, k))
                    else getRandNewSession E s (cm\<lparr>m_iAutoIncriSessionID := n\<rparr>))))"

section \<open>Sending\<close>

definition sendMsgToConn :: "('o, 'q) env \<Rightarrow> 'q thread_map \<Rightarrow> 'z ClientConnManager_scheme \<Rightarrow> int \<Rightarrow>
    mem option \<Rightarrow> int \<Rightarrow> ('q thread_map \<times> bool) res" where
  "sendMsgToConn E m cm sessionID src len =
     (if src = None \<or> len \<le> 0 then Inr (m, False)
      else
        (case getSession_BySessionID cm sessionID of
           None \<Rightarrow> Inr (m, False)
         | Some a \<Rightarrow>
             bind_res (heap_get (sess cm) a) (\<lambda>c.
             bind_res (sendPacket_InitData src len (new_task_sendPacket (sc_thread_id c) sessionID)) (\<lambda>(t, ok).
             if \<not> ok then Inr (m, False)
             else Inr (fst (push_task E m t), True)))))"

section \<open>The invariant\<close>

text \<open>The map reaches exactly the live objects, each under its own session id.\<close>

definition sessions_inv :: "'z ClientConnManager_scheme \<Rightarrow> bool" where
  "sessions_inv cm \<longleftrightarrow> finite (dom (sess cm)) \<and> (\<forall>a\<in>dom (sess cm). a < next_sess cm) \<and>
     (\<forall>k a. m_MapSessionConnInfo cm k = Some a \<longleftrightarrow> (\<exists>c. sess cm a = Some c \<and> sc_session_id c = k)) \<and>
     1 \<le> m_iAutoIncriSessionID cm \<and> m_iAutoIncriSessionID cm \<le> 100000"

lemma sessions_inv_map: "sessions_inv cm \<Longrightarrow>
    m_MapSessionConnInfo cm k = Some a \<longleftrightarrow> (\<exists>c. sess cm a = Some c \<and> sc_session_id c = k)"
  by (simp add: sessions_inv_def)

lemma sessions_inv_init: "sessions_inv (fst (ClientConnManager_init (new_ClientConnManager E)))"
  by (simp add: sessions_inv_def ClientConnManager_init_def new_ClientConnManager_def)

lemma sessions_inv_finite: "sessions_inv cm \<Longrightarrow> finite (dom (m_MapSessionConnInfo cm))"
proof -
  assume inv: "sessions_inv cm"
  have "dom (m_MapSessionConnInfo cm) \<subseteq> (\<lambda>a. sc_session_id (the (sess cm a))) ` dom (sess cm)"
  proof
    fix k assume "k \<in> dom (m_MapSessionConnInfo cm)"
    then obtain a c where "sess cm a = Some c" "sc_session_id c = k"
      using sessions_inv_map [OF inv] by blast
    then show "k \<in> (\<lambda>a. sc_session_id (the (sess cm a))) ` dom (sess cm)" by force
  qed
  then show ?thesis using inv finite_surj by (auto simp: sessions_inv_def)
qed

lemma addNewConn_ok:
  assumes inv: "sessions_inv cm" and free: "m_MapSessionConnInfo cm k = None"
  shows "sessions_inv (fst (addNewConn cm th k ty ad))"
proof -
  have "sess cm (next_sess cm) = None" using inv by (auto simp: sessions_inv_def)
  moreover have "sc_session_id c \<noteq> k" if "sess cm a = Some c" for a c
    using that free sessions_inv_map [OF inv, of k a] by auto
  ultimately show ?thesis using inv free
    unfolding sessions_inv_def
    by (auto simp: addNewConn_def getSession_BySessionID_def new_SessionConn_def Let_def less_Suc_eq)
qed

lemma removeSessionConn_base:
  assumes inv: "sessions_inv cm" and a: "m_MapSessionConnInfo cm k = Some a"
  shows "\<exists>cm'. removeSessionConn base_onSessionClose cm k = Inr cm' \<and> sessions_inv cm' \<and>
    m_MapSessionConnInfo cm' = (m_MapSessionConnInfo cm)(k := None) \<and> sess cm' = (sess cm)(a := None)"
proof -
  let ?cm = "cm\<lparr>sess := (sess cm)(a := None), m_MapSessionConnInfo := (m_MapSessionConnInfo cm)(k := None)\<rparr>"
  obtain c where c: "sess cm a = Some c" "sc_session_id c = k" using a sessions_inv_map [OF inv] by blast
  have other: "sc_session_id e \<noteq> k" if "x \<noteq> a" "sess cm x = Some e" for x e
    using that a sessions_inv_map [OF inv, of k x] by auto
  have "m_MapSessionConnInfo ?cm i = Some x \<longleftrightarrow> (\<exists>e. sess ?cm x = Some e \<and> sc_session_id e = i)" for i x
    using other by (cases "x = a") (auto simp: sessions_inv_map [OF inv] c)
  then have "sessions_inv ?cm" using inv by (simp add: sessions_inv_def)
  moreover have "removeSessionConn base_onSessionClose cm k = Inr ?cm"
    using a c(1) by (simp add: removeSessionConn_def base_onSessionClose_def)
  ultimately show ?thesis by simp
qed

section \<open>Fresh ids\<close>

text \<open>
  One round of \<open>getRandNewSession\<close> in the range where nothing overflows.
\<close>

lemma getRandNewSession_step:
  assumes t: "os_time E s = (s1, now)" "0 \<le> now" "now \<le> 90000000000000"
    and n: "1 \<le> m_iAutoIncriSessionID cm" "m_iAutoIncriSessionID cm \<le> 100000"
  shows "getRandNewSession E s cm =
    (if m_MapSessionConnInfo cm (now * 100000 + m_iAutoIncriSessionID cm) = None
     then Some (Inr (s1, cm\<lparr>m_iAutoIncriSessionID := m_iAutoIncriSessionID cm mod 100000 + 1\<rparr>,
            now * 100000 + m_iAutoIncriSessionID cm))
     else getRandNewSession E s1 (cm\<lparr>m_iAutoIncriSessionID := m_iAutoIncriSessionID cm mod 100000 + 1\<rparr>))"
proof -
  have "in_i64 (now * 100000)" "in_i64 (now * 100000 + m_iAutoIncriSessionID cm)"
    using t n by (simp_all add: in_i64_def)
  moreover have "in_i64 (m_iAutoIncriSessionID cm mod 100000 + 1)"
    using pos_mod_bound [of 100000 "m_iAutoIncriSessionID cm"]
      pos_mod_sign [of 100000 "m_iAutoIncriSessionID cm"] by (simp add: in_i64_def)
  ultimately show ?thesis
    using t(1) n by (subst getRandNewSession.simps) (simp add: c_mod_nonneg)
qed

text \<open>
  With \<open>j\<close> values of the counter left before it repeats, the loop returns if fewer than \<open>j\<close> sessions
  end in one of them: each round that fails uses up one of those sessions.
\<close>

definition ending :: "int \<Rightarrow> nat \<Rightarrow> int set" where
  "ending n j = (\<lambda>i. (n + int i) mod 100000) ` {..<j}"

lemma ending_Suc: "ending n (Suc j) = insert (n mod 100000) (ending (n + 1) j)"
proof -
  have "{..<Suc j} = insert 0 (Suc ` {..<j})"
    by (simp add: lessThan_Suc_eq_insert_0)
  then show ?thesis by (simp add: ending_def image_image ac_simps)
qed

lemma ending_mod: "ending (n mod 100000 + 1) j = ending (n + 1) j"
proof -
  have "(n mod 100000 + 1 + int i) mod 100000 = (n + 1 + int i) mod 100000" for i
    by (metis mod_add_left_eq)
  then show ?thesis by (simp add: ending_def)
qed

lemma ending_fresh:
  assumes "j < 100000"
  shows "n mod 100000 \<notin> ending (n + 1) j"
proof
  assume "n mod 100000 \<in> ending (n + 1) j"
  then obtain i where i: "i < j" "n mod 100000 = (n + 1 + int i) mod 100000"
    by (auto simp: ending_def)
  then have "100000 dvd n - (n + 1 + int i)" by (simp only: mod_eq_dvd_iff)
  then have "100000 dvd 1 + int i" by (simp add: dvd_minus_iff [of _ "1 + int i", symmetric])
  then have "100000 \<le> 1 + int i" by (rule zdvd_imp_le) simp
  then show False using i(1) assms by simp
qed

lemma getRandNewSession_returns:
  assumes C: "clock E"
  shows "finite (dom (m_MapSessionConnInfo cm)) \<Longrightarrow> 1 \<le> m_iAutoIncriSessionID cm \<Longrightarrow>
    m_iAutoIncriSessionID cm \<le> 100000 \<Longrightarrow> j \<le> 100000 \<Longrightarrow>
    card {k \<in> dom (m_MapSessionConnInfo cm). k mod 100000 \<in> ending (m_iAutoIncriSessionID cm) j} < j \<Longrightarrow>
    \<exists>s' n k. getRandNewSession E s cm = Some (Inr (s', cm\<lparr>m_iAutoIncriSessionID := n\<rparr>, k)) \<and>
      m_MapSessionConnInfo cm k = None \<and> 1 \<le> n \<and> n \<le> 100000 \<and> 0 < k"
proof (induction j arbitrary: s cm)
  case (Suc j)
  let ?n = "m_iAutoIncriSessionID cm"
  let ?n' = "?n mod 100000 + 1"
  let ?cm = "cm\<lparr>m_iAutoIncriSessionID := ?n'\<rparr>"
  obtain s1 now where t: "os_time E s = (s1, now)" by fastforce
  note r = clock.clock_range [OF C t]
  let ?k = "now * 100000 + ?n"
  note step = getRandNewSession_step [OF t conjunct1 [OF r] conjunct2 [OF r] Suc.prems(2,3)]
  have n': "1 \<le> ?n'" "?n' \<le> 100000"
    using pos_mod_bound [of 100000 ?n] pos_mod_sign [of 100000 ?n] by linarith+
  show ?case
  proof (cases "m_MapSessionConnInfo cm ?k")
    case None
    have "0 < ?k" using r Suc.prems(2) by simp
    then show ?thesis using step None n'
      by - (rule exI [of _ s1], rule exI [of _ ?n'], rule exI [of _ ?k], simp)
  next
    case (Some a)
    let ?A = "{k \<in> dom (m_MapSessionConnInfo cm). k mod 100000 \<in> ending ?n (Suc j)}"
    let ?B = "{k \<in> dom (m_MapSessionConnInfo cm). k mod 100000 \<in> ending (?n + 1) j}"
    have km: "?k mod 100000 = ?n mod 100000" by simp
    have "?n mod 100000 \<notin> ending (?n + 1) j" by (rule ending_fresh) (use Suc.prems(4) in simp)
    then have sub: "?B \<subseteq> ?A - {?k}" using km by (auto simp: ending_Suc)
    have "?k \<in> ?A" using Some km by (auto simp: ending_Suc)
    moreover have "finite ?A" using Suc.prems(1) by simp
    ultimately have "card ?B < card ?A"
      by (metis (no_types, lifting) card_mono card_Diff1_less finite_Diff order_le_less_trans sub)
    then have "card {k \<in> dom (m_MapSessionConnInfo ?cm). k mod 100000 \<in> ending ?n' j} < j"
      using Suc.prems(5) by (simp add: ending_mod)
    with Suc.IH [of ?cm s1] Suc.prems(1,4) n' obtain s' n k where
      "getRandNewSession E s1 ?cm = Some (Inr (s', ?cm\<lparr>m_iAutoIncriSessionID := n\<rparr>, k))"
      "m_MapSessionConnInfo cm k = None" "1 \<le> n" "n \<le> 100000" "0 < k" by auto
    moreover have "getRandNewSession E s cm = getRandNewSession E s1 ?cm" using step Some by simp
    ultimately show ?thesis
      by - (rule exI [of _ s'], rule exI [of _ n], rule exI [of _ k], simp)
  qed
qed simp

lemma getRandNewSession_fresh:
  assumes "clock E" and "sessions_inv cm" and "card (dom (m_MapSessionConnInfo cm)) < 100000"
  shows "\<exists>s' n k. getRandNewSession E s cm = Some (Inr (s', cm\<lparr>m_iAutoIncriSessionID := n\<rparr>, k)) \<and>
    m_MapSessionConnInfo cm k = None \<and> 0 < k \<and> sessions_inv (cm\<lparr>m_iAutoIncriSessionID := n\<rparr>)"
proof -
  note fin = sessions_inv_finite [OF assms(2)]
  have "card {k \<in> dom (m_MapSessionConnInfo cm). k mod 100000 \<in> ending (m_iAutoIncriSessionID cm) 100000}
      \<le> card (dom (m_MapSessionConnInfo cm))" by (rule card_mono [OF fin]) auto
  with assms(3) have few: "card {k \<in> dom (m_MapSessionConnInfo cm).
      k mod 100000 \<in> ending (m_iAutoIncriSessionID cm) 100000} < 100000" by simp
  have n: "1 \<le> m_iAutoIncriSessionID cm" "m_iAutoIncriSessionID cm \<le> 100000"
    using assms(2) by (simp_all add: sessions_inv_def)
  from getRandNewSession_returns [OF assms(1) fin n order_refl few, of s] show ?thesis
    using assms(2) by (auto simp: sessions_inv_def)
qed

section \<open>Outcomes of sending\<close>

lemma sendMsgToConn_cases:
  assumes "sessions_inv cm" and "len \<le> int (length src)"
  shows "sendMsgToConn E m cm k None len = Inr (m, False) \<and>
    sendMsgToConn E m cm k (Some src) len =
      (if m_MapSessionConnInfo cm k = None \<or> len \<le> 0 \<or> 4096 < len then Inr (m, False)
       else Inl Out_of_bounds)"
proof (cases "m_MapSessionConnInfo cm k = None \<or> len \<le> 0")
  case True
  then show ?thesis by (auto simp: sendMsgToConn_def getSession_BySessionID_def)
next
  case False
  then obtain a where a: "m_MapSessionConnInfo cm k = Some a" by auto
  with sessions_inv_map [OF assms(1), of k a] obtain c where
    c: "m_MapSessionConnInfo cm k = Some a" "sess cm a = Some c" by auto
  have init: "sendPacket_InitData (Some src) len (new_task_sendPacket th k) =
      (if 1 \<le> len \<and> len \<le> 4096 then Inl Out_of_bounds else Inr (new_task_sendPacket th k, False))" for th
    by (rule sendPacket_InitData_cases [OF assms(2)])
  have "sendMsgToConn E m cm k (Some src) len =
      bind_res (sendPacket_InitData (Some src) len (new_task_sendPacket (sc_thread_id c) k)) (\<lambda>(t, ok).
        if \<not> ok then Inr (m, False) else Inr (fst (push_task E m t), True))"
    using False c by (auto simp: sendMsgToConn_def getSession_BySessionID_def)
  moreover have "sendMsgToConn E m cm k None len = Inr (m, False)" by (simp add: sendMsgToConn_def)
  ultimately show ?thesis using False c(1) unfolding init by auto
qed

section \<open>Properties\<close>

text \<open>
  C14: session ids are fresh and the search for one ends.  With fewer than 100000 sessions,
  \<open>getRandNewSession\<close> returns whatever the clock does in between (it may stand still or go back), in
  the range where nothing overflows; the id is positive and not in use, and only the counter
  changes, which stays between 1 and 100000.
\<close>

theorem session_id_fresh:
  assumes "clock E" and "sessions_inv cm" and "card (dom (m_MapSessionConnInfo cm)) < 100000"
  shows "\<exists>s' n k. getRandNewSession E s cm = Some (Inr (s', cm\<lparr>m_iAutoIncriSessionID := n\<rparr>, k)) \<and>
    m_MapSessionConnInfo cm k = None \<and> 0 < k \<and> sessions_inv (cm\<lparr>m_iAutoIncriSessionID := n\<rparr>)"
  by (rule getRandNewSession_fresh [OF assms])

theorem session_id_fresh_witness:
  "\<exists>s' cm' k. getRandNewSession sim_env sim_start
       (fst (ClientConnManager_init (new_ClientConnManager sim_env))) = Some (Inr (s', cm', k)) \<and> 0 < k"
proof -
  have "card (dom (m_MapSessionConnInfo (fst (ClientConnManager_init (new_ClientConnManager sim_env))))) < 100000"
    by (simp add: ClientConnManager_init_def new_ClientConnManager_def)
  from session_id_fresh [OF sim_clock.clock_axioms sessions_inv_init this, of sim_start]
  show ?thesis by blast
qed

text \<open>
  Adding a session.  \<open>addNewConn\<close> refuses an id that is in use and otherwise enters one new
  session with the given thread, type and address and no player; the map stays consistent.
\<close>

theorem add_conn_cases:
  assumes "sessions_inv cm"
  shows "sessions_inv (fst (addNewConn cm th k ty ad)) \<and>
    (if m_MapSessionConnInfo cm k \<noteq> None then addNewConn cm th k ty ad = (cm, False)
     else \<exists>cm'. addNewConn cm th k ty ad = (cm', True) \<and> sess cm (next_sess cm) = None \<and>
       m_MapSessionConnInfo cm' = (m_MapSessionConnInfo cm)(k \<mapsto> next_sess cm) \<and>
       sess cm' = (sess cm)(next_sess cm \<mapsto> \<lparr>sc_thread_id = th, sc_session_id = k, player_id = 0,
         sc_device_type = ty, sc_sock_addr = ad\<rparr>))"
proof (cases "m_MapSessionConnInfo cm k")
  case None
  have "sess cm (next_sess cm) = None" using assms by (auto simp: sessions_inv_def)
  then show ?thesis using addNewConn_ok [OF assms None] None
    by (simp add: addNewConn_def getSession_BySessionID_def new_SessionConn_def Let_def)
next
  case (Some a)
  then show ?thesis using assms by (simp add: addNewConn_def getSession_BySessionID_def)
qed

theorem add_conn_cases_witness:
  "\<exists>cm'. addNewConn (fst (ClientConnManager_init (new_ClientConnManager sim_env))) 3 5 DEVICE_CLIENT_EXTERNAL
       \<lparr>sin_family = 2, sin_port = 1, sin_addr = 1\<rparr> = (cm', True) \<and> m_MapSessionConnInfo cm' 5 = Some 0"
proof -
  have "m_MapSessionConnInfo (fst (ClientConnManager_init (new_ClientConnManager sim_env))) 5 = None"
    "next_sess (fst (ClientConnManager_init (new_ClientConnManager sim_env))) = 0"
    by (simp_all add: ClientConnManager_init_def new_ClientConnManager_def)
  with add_conn_cases [OF sessions_inv_init, of sim_env 3 5 DEVICE_CLIENT_EXTERNAL
      "\<lparr>sin_family = 2, sin_port = 1, sin_addr = 1\<rparr>"]
  show ?thesis by auto
qed

text \<open>A manager with one session, 5, on thread 3.\<close>

definition one_session :: ClientConnManager where
  "one_session = fst (addNewConn (fst (ClientConnManager_init (new_ClientConnManager sim_env))) 3 5
     DEVICE_CLIENT_EXTERNAL \<lparr>sin_family = 2, sin_port = 1, sin_addr = 1\<rparr>)"

lemma one_session_simps [simp]:
  "m_MapSessionConnInfo one_session = [5 \<mapsto> 0]" "next_sess one_session = 1"
  "sess one_session = [0 \<mapsto> new_SessionConn 3 5 DEVICE_CLIENT_EXTERNAL
     \<lparr>sin_family = 2, sin_port = 1, sin_addr = 1\<rparr>]"
  by (simp_all add: one_session_def addNewConn_def getSession_BySessionID_def ClientConnManager_init_def
      new_ClientConnManager_def Let_def)

lemma one_session_inv: "sessions_inv one_session"
  unfolding one_session_def
  by (rule addNewConn_ok [OF sessions_inv_init])
    (simp add: ClientConnManager_init_def new_ClientConnManager_def)

definition one_thread :: "task list thread_map" where
  "one_thread = [(3, (new_EpollHandler sim_env)\<lparr>thread_id := 3\<rparr>)]"

lemma one_thread_inv: "threads_inv one_thread"
  by (simp add: threads_inv_def one_thread_def)

text \<open>
  Closing a session, with the hook of the base class.  An unknown id changes nothing; otherwise
  the object is deleted, the map stays consistent without the id, and the thread that the session
  belongs to, and only it, gets one task to delete the connection.
\<close>

theorem close_conn_cases:
  assumes "unordered_keys E" and "boost_ring (ring E) elems cap" and "threads_inv m"
    and "sessions_inv cm" and "\<forall>c\<in>ran (sess cm). sc_thread_id c \<noteq> 0"
  shows "case m_MapSessionConnInfo cm k of
      None \<Rightarrow> closeConn E base_onSessionClose m cm k = Inr (m, cm)
    | Some a \<Rightarrow> \<exists>m' cm' c. closeConn E base_onSessionClose m cm k = Inr (m', cm') \<and> sess cm a = Some c \<and>
        sessions_inv cm' \<and> m_MapSessionConnInfo cm' = (m_MapSessionConnInfo cm)(k := None) \<and>
        sess cm' = (sess cm)(a := None) \<and> threads_inv m' \<and>
        map_of m' = (map_of m)(sc_thread_id c := map_option
          (\<lambda>h. push_task_thread (ring E) h (task_clientConnDelete (sc_thread_id c) k))
          (map_of m (sc_thread_id c)))"
proof (cases "m_MapSessionConnInfo cm k")
  case None
  then show ?thesis by (simp add: closeConn_def getSession_BySessionID_def)
next
  case (Some a)
  then obtain c where c: "sess cm a = Some c" "sc_session_id c = k" using sessions_inv_map [OF assms(4)] by blast
  let ?th = "sc_thread_id c"
  let ?t = "task_clientConnDelete ?th k"
  have th: "?th \<noteq> 0" using assms(5) c(1) by (auto simp: ran_def)
  have pt: "fst (push_task E m ?t) = (if map_of m ?th = None then m
      else upd_thread ?th (\<lambda>h. push_task_thread (ring E) h ?t) m)"
    using th by (simp add: push_task_def getLessPressureThread_Epoll_def)
  from removeSessionConn_base [OF assms(4) Some] obtain cm' where
    r: "removeSessionConn base_onSessionClose cm k = Inr cm'" "sessions_inv cm'"
      "m_MapSessionConnInfo cm' = (m_MapSessionConnInfo cm)(k := None)" "sess cm' = (sess cm)(a := None)" by blast
  let ?m = "fst (push_task E m ?t)"
  have "closeConn E base_onSessionClose m cm k = Inr (?m, cm')"
    using Some c r(1) by (simp add: closeConn_def getSession_BySessionID_def new_task_clientConnDelete_def)
  moreover have "threads_inv ?m" using assms(3) threads_inv_upd [OF assms(3)] pt by simp
  moreover have "map_of ?m = (map_of m)(?th := map_option
      (\<lambda>h. push_task_thread (ring E) h ?t) (map_of m ?th))"
    unfolding pt by (auto simp: map_of_upd_thread)
  ultimately show ?thesis using Some c r(2-4) by auto
qed

theorem close_conn_cases_witness:
  "\<exists>m' cm'. closeConn sim_env base_onSessionClose one_thread one_session 5 = Inr (m', cm') \<and>
     m_MapSessionConnInfo cm' 5 = None \<and> sess cm' 0 = None"
proof -
  have "\<forall>c\<in>ran (sess one_session). sc_thread_id c \<noteq> 0" by (simp add: new_SessionConn_def)
  from close_conn_cases [OF sim_unordered.unordered_keys_axioms sim_env_ring one_thread_inv
      one_session_inv this, of 5]
  show ?thesis by auto
qed

text \<open>
  Sending to a session.  \<open>sendMsgToConn\<close> refuses a null pointer, a length that is not positive,
  an unknown session and a length above 4096, and changes nothing then; in every other case the
  copy of the data into the task writes one byte past its allocation.
\<close>

theorem send_msg_cases:
  assumes "sessions_inv cm" and "len \<le> int (length src)"
  shows "sendMsgToConn E m cm k None len = Inr (m, False) \<and>
    sendMsgToConn E m cm k (Some src) len =
      (if m_MapSessionConnInfo cm k = None \<or> len \<le> 0 \<or> 4096 < len then Inr (m, False)
       else Inl Out_of_bounds)"
  by (rule sendMsgToConn_cases [OF assms])

theorem send_msg_cases_witness:
  "sendMsgToConn sim_env one_thread one_session 5 (Some [Some 1, Some 2]) 2 = Inl Out_of_bounds"
  using send_msg_cases [OF one_session_inv, of 2 "[Some 1, Some 2]" sim_env one_thread 5] by simp

end
