(* ===== verification/Packet.thy ===== *)
theory Packet
  imports Prelude
begin

text \<open>
  The application packet of \<open>oryx/packet.h\<close> and \<open>oryx/packet.cpp\<close>: a growable byte buffer with a
  14-byte header (length, version, operation code, error code).  The record has the class's
  fields; \<open>data\<close> is \<open>None\<close> for the null pointer and otherwise the allocation, whose unwritten
  cells are \<open>None\<close>.  Every method is a definition that returns the changed packet or the fault it
  runs into; \<open>CheckLen\<close>'s doubling loop is \<open>CheckLen_grow\<close>.
\<close>

section \<open>The class\<close>

definition PACKET_VERSION :: int where [simp]: "PACKET_VERSION = 1"
definition PACKET_HEAD_LEN :: int where [simp]: "PACKET_HEAD_LEN = 14"
definition OFFSET_MESSLEN :: int where [simp]: "OFFSET_MESSLEN = 0"
definition OFFSET_VERSION :: int where [simp]: "OFFSET_VERSION = 4"
definition OFFSET_OPERCODE :: int where [simp]: "OFFSET_OPERCODE = 6"
definition OFFSET_ERRCODE :: int where [simp]: "OFFSET_ERRCODE = 10"
definition PACKET_MIN_SIZE :: int where [simp]: "PACKET_MIN_SIZE = 256"

record packet =
  message_len :: int
  version :: int
  operatecode :: int
  errorcode :: int
  data :: "mem option"
  dataMaxLen :: int
  dataNowLen :: int

text \<open>
  \<open>while (dataMaxLen < len)\<close>: below the minimum size the buffer size becomes 256, then it doubles.
\<close>

function CheckLen_grow :: "int \<Rightarrow> int \<Rightarrow> int res" where
  "CheckLen_grow mx len =
     (if mx < len
      then if mx < PACKET_MIN_SIZE then CheckLen_grow PACKET_MIN_SIZE len
           else (case i32 (mx * 2) of Inl e \<Rightarrow> Inl e | Inr mx' \<Rightarrow> CheckLen_grow mx' len)
      else Inr mx)"
  by pat_completeness auto
termination
  by (relation "measure (\<lambda>(mx, len). nat (2147483648 - mx))") (auto simp: i32_Inr_iff in_i32_def)

declare CheckLen_grow.simps [simp del]

definition CheckLen :: "packet \<Rightarrow> int \<Rightarrow> packet res" where
  "CheckLen p len =
     (let len = (if len < PACKET_HEAD_LEN then PACKET_HEAD_LEN else len) in
      if dataMaxLen p \<ge> len then Inr p
      else bind_res (CheckLen_grow (dataMaxLen p) len) (\<lambda>mx.
        let buff = fresh_mem mx in
        bind_res
          (if dataNowLen p > 0
           then bind_res (deref (data p)) (\<lambda>old.
                  bind_res (mem_load old 0 (dataNowLen p)) (mem_store buff 0))
           else Inr buff)
          (\<lambda>buff. Inr (p\<lparr>dataMaxLen := mx, data := Some buff\<rparr>))))"

definition WriteData :: "packet \<Rightarrow> mem option \<Rightarrow> int \<Rightarrow> int \<Rightarrow> packet res" where
  "WriteData p src len pos =
     (case src of
        None \<Rightarrow> Inr p
      | Some s \<Rightarrow>
          if len \<le> 0 \<or> pos < 0 then Inr p
          else bind_res (i32 (len + pos)) (\<lambda>n.
               bind_res (CheckLen p n) (\<lambda>p.
               bind_res (deref (data p)) (\<lambda>m.
               bind_res (mem_load s 0 len) (\<lambda>cs.
               bind_res (mem_store m pos cs) (\<lambda>m.
               Inr (p\<lparr>data := Some m\<rparr>)))))))"

definition Write_i32 :: "packet \<Rightarrow> int \<Rightarrow> int \<Rightarrow> packet res" where
  "Write_i32 p d pos = WriteData p (Some (map Some (be32 (word_of_int d)))) 4 pos"

definition Write_i16 :: "packet \<Rightarrow> int \<Rightarrow> int \<Rightarrow> packet res" where
  "Write_i16 p d pos = WriteData p (Some (map Some (be16 (word_of_int d)))) 2 pos"

definition Write_u32 :: "packet \<Rightarrow> 32 word \<Rightarrow> int \<Rightarrow> packet res" where
  "Write_u32 p d pos = WriteData p (Some (map Some (be32 d))) 4 pos"

definition Write_u16 :: "packet \<Rightarrow> 16 word \<Rightarrow> int \<Rightarrow> packet res" where
  "Write_u16 p d pos = WriteData p (Some (map Some (be16 d))) 2 pos"

text \<open>
  The four overloads of \<open>Read\<close> return the value they also store through their reference argument:
  zero when the field does not lie inside the bytes in use.
\<close>

definition Read_u32 :: "packet \<Rightarrow> int \<Rightarrow> 32 word res" where
  "Read_u32 p pos =
     bind_res (i32 (pos + 4)) (\<lambda>e.
       if e > dataNowLen p then Inr 0
       else bind_res (deref (data p)) (\<lambda>m. bind_res (mem_load m pos 4) read_be32))"

definition Read_i32 :: "packet \<Rightarrow> int \<Rightarrow> int res" where
  "Read_i32 p pos =
     bind_res (i32 (pos + 4)) (\<lambda>e.
       if e > dataNowLen p then Inr 0
       else bind_res (deref (data p)) (\<lambda>m. bind_res (mem_load m pos 4) (\<lambda>cs.
            bind_res (read_be32 cs) (\<lambda>w. Inr (sint w)))))"

definition Read_u16 :: "packet \<Rightarrow> int \<Rightarrow> 16 word res" where
  "Read_u16 p pos =
     bind_res (i32 (pos + 2)) (\<lambda>e.
       if e > dataNowLen p then Inr 0
       else bind_res (deref (data p)) (\<lambda>m. bind_res (mem_load m pos 2) read_be16))"

definition Read_i16 :: "packet \<Rightarrow> int \<Rightarrow> int res" where
  "Read_i16 p pos =
     bind_res (i32 (pos + 2)) (\<lambda>e.
       if e > dataNowLen p then Inr 0
       else bind_res (deref (data p)) (\<lambda>m. bind_res (mem_load m pos 2) (\<lambda>cs.
            bind_res (read_be16 cs) (\<lambda>w. Inr (sint w)))))"

definition WriteHead :: "packet \<Rightarrow> packet res" where
  "WriteHead p =
     bind_res (CheckLen p (message_len p)) (\<lambda>p.
     bind_res (Write_i32 p (message_len p) OFFSET_MESSLEN) (\<lambda>p.
     bind_res (Write_i32 p (version p) OFFSET_VERSION) (\<lambda>p.
     bind_res (Write_i32 p (operatecode p) OFFSET_OPERCODE) (\<lambda>p.
     Write_i32 p (errorcode p) OFFSET_ERRCODE))))"

definition Pack :: "packet \<Rightarrow> packet res" where
  "Pack p = WriteHead p"

definition Append :: "packet \<Rightarrow> mem option \<Rightarrow> int \<Rightarrow> packet res" where
  "Append p src len =
     (if src \<noteq> None \<and> len > 0
      then bind_res (WriteData p src len (dataNowLen p)) (\<lambda>p.
           bind_res (i32 (dataNowLen p + len)) (\<lambda>now.
           bind_res (i32 (message_len p + len)) (\<lambda>ml.
           WriteHead (p\<lparr>dataNowLen := now, message_len := ml\<rparr>))))
      else Inr p)"

text \<open>\<open>GetRealData\<close> returns a pointer into the buffer: here the cells from there on.\<close>

definition GetRealData :: "packet \<Rightarrow> (mem option \<times> int) res" where
  "GetRealData p =
     (if dataNowLen p - PACKET_HEAD_LEN > 0
      then bind_res (deref (data p)) (\<lambda>m.
             Inr (Some (drop (nat PACKET_HEAD_LEN) m), dataNowLen p - PACKET_HEAD_LEN))
      else Inr (None, 0))"

definition PrintData :: "packet \<Rightarrow> packet res" where
  "PrintData p =
     (if dataNowLen p - PACKET_HEAD_LEN > 0
      then bind_res (deref (data p)) (\<lambda>m.
           bind_res (mem_store m (dataNowLen p) [Some 0]) (\<lambda>m.
           Inr (p\<lparr>data := Some m\<rparr>)))
      else Inr p)"

definition Init :: "packet res" where
  "Init = WriteHead \<lparr>message_len = PACKET_HEAD_LEN, version = PACKET_VERSION, operatecode = 0,
     errorcode = 0, data = None, dataMaxLen = 0, dataNowLen = 0\<rparr>"

definition Packet_of_code :: "int \<Rightarrow> int \<Rightarrow> packet res" where
  "Packet_of_code opercode errcode =
     bind_res Init (\<lambda>p. WriteHead (p\<lparr>operatecode := opercode, errorcode := errcode\<rparr>))"

definition Packet_of_bytes :: "mem \<Rightarrow> int \<Rightarrow> packet res" where
  "Packet_of_bytes src len =
     bind_res Init (\<lambda>p.
       if len \<ge> PACKET_HEAD_LEN
       then bind_res (CheckLen p len) (\<lambda>p.
            bind_res (deref (data p)) (\<lambda>m.
            bind_res (mem_load src 0 len) (\<lambda>cs.
            bind_res (mem_store m 0 cs) (\<lambda>m.
            let p = p\<lparr>data := Some m, dataNowLen := len\<rparr> in
            bind_res (Read_i32 p OFFSET_MESSLEN) (\<lambda>ml.
            bind_res (Read_i32 p OFFSET_VERSION) (\<lambda>vs.
            bind_res (Read_i32 p OFFSET_OPERCODE) (\<lambda>oc.
            bind_res (Read_i32 p OFFSET_ERRCODE) (\<lambda>ec.
            Inr (p\<lparr>message_len := ml, version := vs, operatecode := oc, errorcode := ec\<rparr>)))))))))
       else Inr p)"

definition NewPacket_empty :: "packet res" where
  "NewPacket_empty = Packet_of_code 0 0"

definition NewPacket :: "int \<Rightarrow> int \<Rightarrow> mem option \<Rightarrow> int \<Rightarrow> packet res" where
  "NewPacket opercode errcode src len =
     bind_res (Packet_of_code opercode errcode) (\<lambda>p.
       if src \<noteq> None \<and> len > 0 then Append p src len else Inr p)"

definition NewPacketFromBytes :: "mem option \<Rightarrow> int \<Rightarrow> packet option res" where
  "NewPacketFromBytes src len =
     (case src of
        None \<Rightarrow> Inr None
      | Some s \<Rightarrow> if len < PACKET_HEAD_LEN then Inr None
                 else bind_res (Packet_of_bytes s len) (\<lambda>p. Inr (Some p)))"

section \<open>The growth loop\<close>

text \<open>The buffer sizes \<open>CheckLen\<close> can reach: 256 doubled up to \<open>2^30\<close>.\<close>

definition cap_ok :: "int \<Rightarrow> bool" where
  "cap_ok n \<longleftrightarrow> (\<exists>k\<le>22. n = 256 * 2 ^ k)"

lemma cap_ok_bounds: "cap_ok n \<Longrightarrow> 256 \<le> n \<and> n \<le> 1073741824"
proof -
  assume "cap_ok n"
  then obtain k where k: "k \<le> 22" "n = 256 * 2 ^ k" by (auto simp: cap_ok_def)
  have "(2::int) ^ k \<le> 2 ^ 22" by (rule power_increasing) (use k in auto)
  moreover have "(1::int) \<le> 2 ^ k" by simp
  ultimately show ?thesis using k by simp
qed

lemma cap_ok_256: "cap_ok 256"
  by (auto simp: cap_ok_def intro: exI [of _ 0])

lemma cap_ok_double:
  assumes "cap_ok n" and "n < 1073741824"
  shows "cap_ok (n * 2)"
proof -
  from assms(1) obtain k where k: "k \<le> 22" "n = 256 * 2 ^ k" by (auto simp: cap_ok_def)
  have "k \<noteq> 22" using assms(2) k(2) by auto
  then have "Suc k \<le> 22" using k(1) by simp
  moreover have "n * 2 = 256 * 2 ^ Suc k" using k(2) by simp
  ultimately show ?thesis unfolding cap_ok_def by blast
qed

lemma CheckLen_grow_done: "len \<le> mx \<Longrightarrow> CheckLen_grow mx len = Inr mx"
  by (subst CheckLen_grow.simps) simp

lemma CheckLen_grow_small:
  "mx < len \<Longrightarrow> mx < 256 \<Longrightarrow> CheckLen_grow mx len = CheckLen_grow 256 len"
  by (subst CheckLen_grow.simps) simp

lemma CheckLen_grow_step:
  "mx < len \<Longrightarrow> 256 \<le> mx \<Longrightarrow>
   CheckLen_grow mx len =
     (case i32 (mx * 2) of Inl e \<Rightarrow> Inl e | Inr mx' \<Rightarrow> CheckLen_grow mx' len)"
  by (subst CheckLen_grow.simps) simp

lemma CheckLen_grow_cap:
  "cap_ok mx \<Longrightarrow> len \<le> 1073741824 \<Longrightarrow>
   \<exists>mx'. CheckLen_grow mx len = Inr mx' \<and> cap_ok mx' \<and> len \<le> mx' \<and> mx \<le> mx' \<and>
         (mx' = mx \<or> mx' < 2 * len)"
proof (induction "nat (1073741824 - mx)" arbitrary: mx rule: less_induct)
  case less
  have b: "256 \<le> mx" "mx \<le> 1073741824" using cap_ok_bounds [OF less.prems(1)] by auto
  show ?case
  proof (cases "mx < len")
    case False
    then show ?thesis using less.prems(1) by (simp add: CheckLen_grow_done)
  next
    case True
    then have lt: "mx < 1073741824" using less.prems(2) by simp
    have c2: "cap_ok (mx * 2)" using less.prems(1) lt by (rule cap_ok_double)
    have "in_i32 (mx * 2)" using cap_ok_bounds [OF c2] by (simp add: in_i32_def)
    then have eq: "CheckLen_grow mx len = CheckLen_grow (mx * 2) len"
      using True b by (simp add: CheckLen_grow_step)
    have "nat (1073741824 - mx * 2) < nat (1073741824 - mx)" using b lt by simp
    from less.hyps [OF this c2 less.prems(2)] show ?thesis
      unfolding eq using True b by fastforce
  qed
qed

lemma CheckLen_grow_overflow:
  "cap_ok mx \<Longrightarrow> 1073741824 < len \<Longrightarrow> CheckLen_grow mx len = Inl Signed_overflow"
proof (induction "nat (1073741824 - mx)" arbitrary: mx rule: less_induct)
  case less
  have b: "256 \<le> mx" "mx \<le> 1073741824" using cap_ok_bounds [OF less.prems(1)] by auto
  show ?case
  proof (cases "mx = 1073741824")
    case True
    then show ?thesis using less.prems(2) by (simp add: CheckLen_grow_step in_i32_def)
  next
    case False
    then have lt: "mx < 1073741824" using b by simp
    have c2: "cap_ok (mx * 2)" using less.prems(1) lt by (rule cap_ok_double)
    have "in_i32 (mx * 2)" using cap_ok_bounds [OF c2] by (simp add: in_i32_def)
    then have eq: "CheckLen_grow mx len = CheckLen_grow (mx * 2) len"
      using less.prems(2) b by (simp add: CheckLen_grow_step)
    have "nat (1073741824 - mx * 2) < nat (1073741824 - mx)" using b lt by simp
    from less.hyps [OF this c2 less.prems(2)] show ?thesis unfolding eq .
  qed
qed

section \<open>The class invariant\<close>

definition packet_inv :: "packet \<Rightarrow> bool" where
  "packet_inv p \<longleftrightarrow>
     (\<exists>m. data p = Some m \<and> int (length m) = dataMaxLen p) \<and> cap_ok (dataMaxLen p) \<and>
     0 \<le> dataNowLen p \<and> dataNowLen p \<le> dataMaxLen p"

text \<open>The buffer of a packet, and the packet with another buffer of the same shape.\<close>

definition bytes :: "packet \<Rightarrow> mem" where
  "bytes p = (case data p of Some m \<Rightarrow> m | None \<Rightarrow> [])"

lemma packet_invE:
  assumes "packet_inv p"
  obtains m where "data p = Some m" "bytes p = m" "int (length m) = dataMaxLen p"
    "cap_ok (dataMaxLen p)" "0 \<le> dataNowLen p" "dataNowLen p \<le> dataMaxLen p"
    "256 \<le> dataMaxLen p" "dataMaxLen p \<le> 1073741824"
  using assms cap_ok_bounds by (auto simp: packet_inv_def bytes_def)

text \<open>
  What \<open>CheckLen\<close> promises: either nothing changes because the buffer is large enough, or there
  is a new, larger buffer whose first \<open>dataNowLen\<close> cells are the old ones and the rest unwritten.
\<close>

lemma CheckLen_fits:
  "packet_inv p \<Longrightarrow> len \<le> dataMaxLen p \<Longrightarrow> CheckLen p len = Inr p"
  by (auto simp: CheckLen_def Let_def elim!: packet_invE)

lemma CheckLen_grows:
  assumes inv: "packet_inv p" and len: "dataMaxLen p < len" "len \<le> 1073741824"
  shows "\<exists>mx. CheckLen p len = Inr (p\<lparr>dataMaxLen := mx,
           data := Some (take (nat (dataNowLen p)) (bytes p) @
                         replicate (nat (mx - dataNowLen p)) None)\<rparr>) \<and>
         cap_ok mx \<and> len \<le> mx \<and> mx < 2 * len"
proof -
  from inv obtain m where m: "data p = Some m" "bytes p = m" "int (length m) = dataMaxLen p"
    "cap_ok (dataMaxLen p)" "0 \<le> dataNowLen p" "dataNowLen p \<le> dataMaxLen p"
    "256 \<le> dataMaxLen p" by (rule packet_invE)
  from CheckLen_grow_cap [OF m(4) len(2)] len(1) obtain mx where
    g: "CheckLen_grow (dataMaxLen p) len = Inr mx" and c: "cap_ok mx" "len \<le> mx" "mx < 2 * len"
    by auto
  have now: "dataNowLen p \<le> mx" using m c len(1) by simp
  have lm: "nat (dataNowLen p) \<le> length m" using m by linarith
  then have "length (take (nat (dataNowLen p)) m) = nat (dataNowLen p)" by simp
  then have cp: "poke (fresh_mem mx) 0 (take (nat (dataNowLen p)) m) =
        take (nat (dataNowLen p)) m @ replicate (nat (mx - dataNowLen p)) None"
    using now lm m(5) by (simp add: poke_0 fresh_mem_def nat_diff_distrib)
  show ?thesis
  proof (cases "dataNowLen p > 0")
    case True
    then have "CheckLen p len = Inr (p\<lparr>dataMaxLen := mx,
           data := Some (take (nat (dataNowLen p)) (bytes p) @
                         replicate (nat (mx - dataNowLen p)) None)\<rparr>)"
      using m len g now cp by (simp add: CheckLen_def Let_def)
    with c show ?thesis by blast
  next
    case False
    then have "dataNowLen p = 0" using m by simp
    then have "CheckLen p len = Inr (p\<lparr>dataMaxLen := mx,
           data := Some (take (nat (dataNowLen p)) (bytes p) @
                         replicate (nat (mx - dataNowLen p)) None)\<rparr>)"
      using m len g by (simp add: CheckLen_def Let_def fresh_mem_def)
    with c show ?thesis by blast
  qed
qed

lemma CheckLen_too_long:
  "packet_inv p \<Longrightarrow> 1073741824 < len \<Longrightarrow> CheckLen p len = Inl Signed_overflow"
  by (auto simp: CheckLen_def Let_def CheckLen_grow_overflow elim!: packet_invE)

text \<open>
  The two cases in one statement: the prefix in use survives, cells beyond it are the old ones or
  unwritten, no other field changes.
\<close>

definition same_fields :: "packet \<Rightarrow> packet \<Rightarrow> bool" where
  "same_fields p q \<longleftrightarrow> message_len q = message_len p \<and> version q = version p \<and>
     operatecode q = operatecode p \<and> errorcode q = errorcode p \<and> dataNowLen q = dataNowLen p"

lemma CheckLen_ok:
  assumes inv: "packet_inv p" and len: "len \<le> 1073741824"
  obtains q where "CheckLen p len = Inr q" "packet_inv q" "same_fields p q"
    "len \<le> dataMaxLen q" "dataMaxLen p \<le> dataMaxLen q"
    "take (nat (dataNowLen p)) (bytes q) = take (nat (dataNowLen p)) (bytes p)"
    "\<And>i. nat (dataNowLen p) \<le> i \<Longrightarrow> i < length (bytes q) \<Longrightarrow>
        bytes q ! i = None \<or> (i < length (bytes p) \<and> bytes q ! i = bytes p ! i)"
proof (cases "len \<le> dataMaxLen p")
  case True
  then have "CheckLen p len = Inr p" using inv by (simp add: CheckLen_fits)
  then show ?thesis using that inv True by (simp add: same_fields_def)
next
  case False
  then have "dataMaxLen p < len" by simp
  from CheckLen_grows [OF inv this len] obtain mx where
    eq: "CheckLen p len = Inr (p\<lparr>dataMaxLen := mx,
           data := Some (take (nat (dataNowLen p)) (bytes p) @
                         replicate (nat (mx - dataNowLen p)) None)\<rparr>)"
    and c: "cap_ok mx" "len \<le> mx" by blast
  from inv obtain m where m: "data p = Some m" "bytes p = m" "int (length m) = dataMaxLen p"
    "cap_ok (dataMaxLen p)" "0 \<le> dataNowLen p" "dataNowLen p \<le> dataMaxLen p"
    by (rule packet_invE)
  have now: "dataNowLen p \<le> mx" using m c False by simp
  have tk: "length (take (nat (dataNowLen p)) m) = nat (dataNowLen p)" using m by simp
  show ?thesis
  proof (rule that [OF eq])
    show "packet_inv (p\<lparr>dataMaxLen := mx, data := Some (take (nat (dataNowLen p)) (bytes p) @
                         replicate (nat (mx - dataNowLen p)) None)\<rparr>)"
      using m c now tk by (simp add: packet_inv_def)
  qed (use m c now False tk in \<open>auto simp: same_fields_def bytes_def nth_append\<close>)
qed

section \<open>The header\<close>

text \<open>
  \<open>WriteHead\<close> writes four 32-bit fields at offsets 0, 4, 6 and 10: the operation code overwrites
  the low half of the version.
\<close>

definition head_cells :: "packet \<Rightarrow> mem" where
  "head_cells p = map Some (be32 (word_of_int (message_len p)) @
     take 2 (be32 (word_of_int (version p))) @
     be32 (word_of_int (operatecode p)) @ be32 (word_of_int (errorcode p)))"

lemma length_head_cells [simp]: "length (head_cells p) = 14"
  by (simp add: head_cells_def)

lemma Write_i32_fits:
  assumes "packet_inv p" and "0 \<le> pos" "pos + 4 \<le> dataMaxLen p"
  shows "Write_i32 p d pos = Inr (p\<lparr>data :=
           Some (poke (bytes p) (nat pos) (map Some (be32 (word_of_int d))))\<rparr>)"
proof -
  from assms(1) obtain m where m: "data p = Some m" "bytes p = m" "int (length m) = dataMaxLen p"
    "dataMaxLen p \<le> 1073741824" by (rule packet_invE)
  have "in_i32 (4 + pos)" using assms(2,3) m(4) by (simp add: in_i32_def)
  moreover have "CheckLen p (4 + pos) = Inr p"
    using assms by (intro CheckLen_fits) auto
  ultimately show ?thesis
    using assms(2,3) m by (simp add: Write_i32_def WriteData_def)
qed

lemma poke_head:
  assumes "length a = 4" "length b = 4" "length c = 4" "length d = 4" "14 \<le> length m"
  shows "poke (poke (poke (poke m 0 a) 4 b) 6 c) 10 d = a @ take 2 b @ c @ d @ drop 14 m"
proof (rule nth_equalityI)
  show "length (poke (poke (poke (poke m 0 a) 4 b) 6 c) 10 d) =
        length (a @ take 2 b @ c @ d @ drop 14 m)"
    using assms by simp
next
  fix i
  assume "i < length (poke (poke (poke (poke m 0 a) 4 b) 6 c) 10 d)"
  then have "i < length m" using assms by simp
  then show "poke (poke (poke (poke m 0 a) 4 b) 6 c) 10 d ! i =
        (a @ take 2 b @ c @ d @ drop 14 m) ! i"
    using assms by (auto simp: nth_poke nth_append)
qed

lemma packet_inv_data:
  "packet_inv p \<Longrightarrow> length m = length (bytes p) \<Longrightarrow> packet_inv (p\<lparr>data := Some m\<rparr>)"
  by (auto simp: packet_inv_def bytes_def)

lemma bytes_upd [simp]: "bytes (p\<lparr>data := Some m\<rparr>) = m"
  by (simp add: bytes_def)

lemma WriteHead_fits:
  assumes inv: "packet_inv p" and ml: "message_len p \<le> dataMaxLen p"
  shows "WriteHead p = Inr (p\<lparr>data := Some (head_cells p @ drop 14 (bytes p))\<rparr>)"
proof -
  from inv obtain m where m: "data p = Some m" "bytes p = m" "int (length m) = dataMaxLen p"
    "256 \<le> dataMaxLen p" by (rule packet_invE)
  have len: "256 \<le> length (bytes p)" using m(2,3,4) by simp
  have "WriteHead p = Inr (p\<lparr>data := Some (poke (poke (poke (poke (bytes p) 0
      (map Some (be32 (word_of_int (message_len p))))) 4
      (map Some (be32 (word_of_int (version p))))) 6
      (map Some (be32 (word_of_int (operatecode p))))) 10
      (map Some (be32 (word_of_int (errorcode p)))))\<rparr>)"
    using inv ml len m(4)
    by (simp add: WriteHead_def CheckLen_fits Write_i32_fits packet_inv_data)
  also have "\<dots> = Inr (p\<lparr>data := Some (head_cells p @ drop 14 (bytes p))\<rparr>)"
    using len by (simp add: poke_head head_cells_def take_map)
  finally show ?thesis .
qed

text \<open>
  \<open>WriteHead\<close> in general: it succeeds exactly when \<open>message_len\<close> is at most \<open>2^30\<close>, and then the
  first 14 cells are the header and every other cell is the old one or unwritten.
\<close>

lemma same_fields_head: "same_fields p q \<Longrightarrow> head_cells q = head_cells p"
  by (simp add: same_fields_def head_cells_def)

lemma WriteHead_ok:
  assumes inv: "packet_inv p" and ml: "message_len p \<le> 1073741824"
  obtains q where "WriteHead p = Inr q" "packet_inv q" "same_fields p q"
    "message_len p \<le> dataMaxLen q" "dataMaxLen p \<le> dataMaxLen q"
    "take 14 (bytes q) = head_cells p"
    "\<And>i. 14 \<le> i \<Longrightarrow> i < nat (dataNowLen p) \<Longrightarrow> bytes q ! i = bytes p ! i"
    "\<And>i. 14 \<le> i \<Longrightarrow> nat (dataNowLen p) \<le> i \<Longrightarrow> i < length (bytes q) \<Longrightarrow>
        bytes q ! i = None \<or> (i < length (bytes p) \<and> bytes q ! i = bytes p ! i)"
proof -
  from CheckLen_ok [OF inv ml] obtain r where r: "CheckLen p (message_len p) = Inr r"
    "packet_inv r" "same_fields p r" "message_len p \<le> dataMaxLen r" "dataMaxLen p \<le> dataMaxLen r"
    "take (nat (dataNowLen p)) (bytes r) = take (nat (dataNowLen p)) (bytes p)"
    and tl: "\<And>i. nat (dataNowLen p) \<le> i \<Longrightarrow> i < length (bytes r) \<Longrightarrow>
        bytes r ! i = None \<or> (i < length (bytes p) \<and> bytes r ! i = bytes p ! i)" by blast
  let ?q = "r\<lparr>data := Some (head_cells r @ drop 14 (bytes r))\<rparr>"
  have ml': "message_len r \<le> dataMaxLen r" using r by (simp add: same_fields_def)
  have "WriteHead p = WriteHead r"
    using r CheckLen_fits [OF r(2) ml'] by (simp add: WriteHead_def)
  then have eq: "WriteHead p = Inr ?q" using WriteHead_fits [OF r(2) ml'] by simp
  from r(2) obtain m where m: "data r = Some m" "bytes r = m" "int (length m) = dataMaxLen r"
    "0 \<le> dataNowLen r" "dataNowLen r \<le> dataMaxLen r" "256 \<le> dataMaxLen r" by (rule packet_invE)
  have len: "256 \<le> length (bytes r)" using m(2,3,6) by simp
  have invq: "packet_inv ?q" using r(2) len by (auto simp: packet_inv_def bytes_def)
  have nth: "bytes ?q ! i = bytes r ! i" if "14 \<le> i" for i
    using that len by (simp add: nth_append)
  have old: "bytes r ! i = bytes p ! i" if "i < nat (dataNowLen p)" for i
    using arg_cong [OF r(6), of "\<lambda>xs. xs ! i"] that by simp
  have lq: "length (bytes ?q) = length (bytes r)" using len by simp
  show ?thesis
    by (rule that [OF eq invq])
      (use r nth old tl lq in \<open>simp_all add: same_fields_def head_cells_def\<close>)
qed

section \<open>Packets built for sending\<close>

text \<open>
  The contents of a packet that was built from a header and a list of appended payload cells
  \<open>body\<close>: the payload was copied to offset 0, and the first 14 of its cells are lost under the
  header.
\<close>

definition packet_rep :: "packet \<Rightarrow> mem \<Rightarrow> bool" where
  "packet_rep p body \<longleftrightarrow> packet_inv p \<and> dataNowLen p = int (length body) \<and>
     message_len p = 14 + int (length body) \<and> message_len p \<le> dataMaxLen p \<and>
     take 14 (bytes p) = head_cells p \<and>
     (\<forall>i. 14 \<le> i \<longrightarrow> i < length body \<longrightarrow> bytes p ! i = body ! i) \<and>
     (\<forall>i. 14 \<le> i \<longrightarrow> length body \<le> i \<longrightarrow> i < length (bytes p) \<longrightarrow> bytes p ! i = None)"

lemma Init_eq:
  "Init = Inr \<lparr>message_len = 14, version = 1, operatecode = 0, errorcode = 0,
     data = Some (map Some (be32 14 @ [0, 0] @ be32 0 @ be32 0) @ replicate 242 None),
     dataMaxLen = 256, dataNowLen = 0\<rparr>"
proof -
  have g: "CheckLen_grow 0 14 = Inr 256"
    by (simp add: CheckLen_grow_small CheckLen_grow_done)
  let ?p = "\<lparr>message_len = 14, version = 1, operatecode = 0, errorcode = 0,
     data = None, dataMaxLen = 0, dataNowLen = 0\<rparr>"
  let ?q = "\<lparr>message_len = 14, version = 1, operatecode = 0, errorcode = 0,
     data = Some (replicate 256 None), dataMaxLen = 256, dataNowLen = 0\<rparr>"
  have c: "CheckLen ?p 14 = Inr ?q" by (simp add: CheckLen_def Let_def g fresh_mem_def)
  have inv: "packet_inv ?q" by (simp add: packet_inv_def cap_ok_256)
  have "WriteHead ?p = WriteHead ?q"
    using c CheckLen_fits [OF inv, of 14] by (simp add: WriteHead_def)
  also have "\<dots> = Inr (?q\<lparr>data := Some (head_cells ?q @ drop 14 (bytes ?q))\<rparr>)"
    by (rule WriteHead_fits [OF inv]) simp
  finally show ?thesis
    by (simp add: Init_def head_cells_def bytes_def be32_def)
qed

lemma Packet_of_code_eq:
  "Packet_of_code opercode errcode =
   Inr \<lparr>message_len = 14, version = 1, operatecode = opercode, errorcode = errcode,
     data = Some (map Some (be32 14 @ [0, 0] @ be32 (word_of_int opercode) @
                            be32 (word_of_int errcode)) @ replicate 242 None),
     dataMaxLen = 256, dataNowLen = 0\<rparr>"
proof -
  let ?q = "\<lparr>message_len = 14, version = 1, operatecode = opercode, errorcode = errcode,
     data = Some (map Some (be32 14 @ [0, 0] @ be32 0 @ be32 0) @ replicate 242 None),
     dataMaxLen = 256, dataNowLen = 0\<rparr>"
  have inv: "packet_inv ?q" by (simp add: packet_inv_def cap_ok_256)
  have "Packet_of_code opercode errcode = WriteHead ?q"
    by (simp add: Packet_of_code_def Init_eq)
  also have "\<dots> = Inr (?q\<lparr>data := Some (head_cells ?q @ drop 14 (bytes ?q))\<rparr>)"
    by (rule WriteHead_fits [OF inv]) simp
  finally show ?thesis by (simp add: head_cells_def bytes_def be32_def)
qed

lemma Packet_of_code_rep:
  "\<exists>p. Packet_of_code opercode errcode = Inr p \<and> packet_rep p [] \<and>
       operatecode p = opercode \<and> errorcode p = errcode \<and> version p = 1"
  by (auto simp: Packet_of_code_eq packet_rep_def packet_inv_def cap_ok_256 bytes_def
      head_cells_def be32_def nth_append)

lemma WriteData_ok:
  assumes inv: "packet_inv p" and len: "0 < len" "len \<le> int (length s)"
    and tot: "dataNowLen p + len \<le> 1073741824"
  obtains r where "CheckLen p (len + dataNowLen p) = Inr r" "packet_inv r" "same_fields p r"
    "dataNowLen p + len \<le> dataMaxLen r" "dataMaxLen p \<le> dataMaxLen r"
    "take (nat (dataNowLen p)) (bytes r) = take (nat (dataNowLen p)) (bytes p)"
    "\<And>i. nat (dataNowLen p) \<le> i \<Longrightarrow> i < length (bytes r) \<Longrightarrow>
        bytes r ! i = None \<or> (i < length (bytes p) \<and> bytes r ! i = bytes p ! i)"
    "WriteData p (Some s) len (dataNowLen p) =
       Inr (r\<lparr>data := Some (poke (bytes r) (nat (dataNowLen p)) (take (nat len) s))\<rparr>)"
proof -
  from tot have "len + dataNowLen p \<le> 1073741824" by simp
  from CheckLen_ok [OF inv this] obtain r where r: "CheckLen p (len + dataNowLen p) = Inr r"
    "packet_inv r" "same_fields p r" "len + dataNowLen p \<le> dataMaxLen r"
    "dataMaxLen p \<le> dataMaxLen r"
    "take (nat (dataNowLen p)) (bytes r) = take (nat (dataNowLen p)) (bytes p)"
    and tl: "\<And>i. nat (dataNowLen p) \<le> i \<Longrightarrow> i < length (bytes r) \<Longrightarrow>
        bytes r ! i = None \<or> (i < length (bytes p) \<and> bytes r ! i = bytes p ! i)" by blast
  from r(2) obtain m where m: "data r = Some m" "bytes r = m" "int (length m) = dataMaxLen r"
    by (rule packet_invE)
  have now: "0 \<le> dataNowLen p" using inv by (auto elim: packet_invE)
  then have "in_i32 (len + dataNowLen p)" using len tot by (simp add: in_i32_def)
  then have "WriteData p (Some s) len (dataNowLen p) =
       Inr (r\<lparr>data := Some (poke (bytes r) (nat (dataNowLen p)) (take (nat len) s))\<rparr>)"
    using len now r m by (simp add: WriteData_def)
  then show ?thesis using that r tl by (simp add: add.commute)
qed

lemma Append_rep:
  assumes rep: "packet_rep p body" and len: "0 < len" "len \<le> int (length s)"
    and tot: "14 + int (length body) + len \<le> 1073741824"
  obtains q where "Append p (Some s) len = Inr q" "packet_rep q (body @ take (nat len) s)"
    "operatecode q = operatecode p" "errorcode q = errorcode p" "version q = version p"
proof -
  define cs where "cs = take (nat len) s"
  have lcs: "int (length cs) = len" using len by (simp add: cs_def)
  from rep have inv: "packet_inv p" and now: "dataNowLen p = int (length body)"
    and ml: "message_len p = 14 + int (length body)"
    and bd: "\<And>i. 14 \<le> i \<Longrightarrow> i < length body \<Longrightarrow> bytes p ! i = body ! i"
    and un: "\<And>i. 14 \<le> i \<Longrightarrow> length body \<le> i \<Longrightarrow> i < length (bytes p) \<Longrightarrow> bytes p ! i = None"
    by (auto simp: packet_rep_def)
  from tot now have "dataNowLen p + len \<le> 1073741824" by simp
  from WriteData_ok [OF inv len this] obtain r where r: "packet_inv r" "same_fields p r"
    "int (length body) + len \<le> dataMaxLen r" "dataMaxLen p \<le> dataMaxLen r"
    "take (length body) (bytes r) = take (length body) (bytes p)"
    and tl: "\<And>i. length body \<le> i \<Longrightarrow> i < length (bytes r) \<Longrightarrow>
        bytes r ! i = None \<or> (i < length (bytes p) \<and> bytes r ! i = bytes p ! i)"
    and wd: "WriteData p (Some s) len (dataNowLen p) =
       Inr (r\<lparr>data := Some (poke (bytes r) (length body) cs)\<rparr>)"
    unfolding now cs_def by auto
  have lr: "length body + length cs \<le> length (bytes r)"
    using r(1,3) lcs by (auto elim!: packet_invE)
  define u where "u = r\<lparr>data := Some (poke (bytes r) (length body) cs),
      dataNowLen := int (length body) + len, message_len := 14 + int (length body) + len\<rparr>"
  have bu: "bytes u = poke (bytes r) (length body) cs" by (simp add: u_def bytes_def)
  have lu: "length (bytes u) = length (bytes r)" using bu lr by simp
  have iu: "packet_inv u"
    using r(1,3) lr len by (auto simp: u_def packet_inv_def bytes_def)
  have mu: "message_len u \<le> 1073741824" using tot by (simp add: u_def)
  have i32: "in_i32 (int (length body) + len)" "in_i32 (14 + int (length body) + len)"
    using tot len by (simp_all add: in_i32_def)
  have ap: "Append p (Some s) len = WriteHead u"
    using len now ml r(2) i32 wd by (simp add: Append_def u_def same_fields_def)
  from WriteHead_ok [OF iu mu] obtain q where q: "WriteHead u = Inr q" "packet_inv q"
    "same_fields u q" "message_len u \<le> dataMaxLen q" "dataMaxLen u \<le> dataMaxLen q"
    "take 14 (bytes q) = head_cells u"
    and qin: "\<And>i. 14 \<le> i \<Longrightarrow> i < nat (dataNowLen u) \<Longrightarrow> bytes q ! i = bytes u ! i"
    and qtl: "\<And>i. 14 \<le> i \<Longrightarrow> nat (dataNowLen u) \<le> i \<Longrightarrow> i < length (bytes q) \<Longrightarrow>
        bytes q ! i = None \<or> (i < length (bytes u) \<and> bytes q ! i = bytes u ! i)" by blast
  have nu: "nat (dataNowLen u) = length (body @ cs)" using lcs by (simp add: u_def)
  have rold: "bytes r ! i = bytes p ! i" if "i < length body" for i
    using arg_cong [OF r(5), of "\<lambda>xs. xs ! i"] that by simp
  have body: "bytes q ! i = (body @ cs) ! i" if "14 \<le> i" "i < length (body @ cs)" for i
    using that qin [of i] nu bu lr bd [of i] rold [of i] by (auto simp: nth_poke nth_append)
  have rest: "bytes q ! i = None"
    if i: "14 \<le> i" "length (body @ cs) \<le> i" "i < length (bytes q)" for i
  proof -
    have "bytes q ! i = None \<or> (i < length (bytes u) \<and> bytes q ! i = bytes u ! i)"
      using qtl [of i] i nu by simp
    moreover have "bytes u ! i = None" if "i < length (bytes u)"
      using that i lr lu bu un [of i] tl [of i] by (auto simp: nth_poke)
    ultimately show ?thesis by auto
  qed
  have "packet_rep q (body @ cs)"
    using q body rest lcs by (auto simp: packet_rep_def same_fields_def u_def head_cells_def)
  then show ?thesis
    using that ap q(1,3) r(2) by (simp add: cs_def same_fields_def u_def)
qed

lemma packet_rep_wire:
  assumes rep: "packet_rep q body"
  shows "take (nat (message_len q)) (bytes q) =
      map Some (be32 (word_of_int (14 + int (length body))) @
        take 2 (be32 (word_of_int (version q))) @
        be32 (word_of_int (operatecode q)) @ be32 (word_of_int (errorcode q))) @
      drop 14 body @ replicate (min 14 (length body)) None"
proof -
  have ml: "message_len q = 14 + int (length body)"
    and hd: "take 14 (bytes q) = head_cells q" and inv: "packet_inv q"
    and mx: "message_len q \<le> dataMaxLen q"
    and bd: "\<And>i. 14 \<le> i \<Longrightarrow> i < length body \<Longrightarrow> bytes q ! i = body ! i"
    and un: "\<And>i. 14 \<le> i \<Longrightarrow> length body \<le> i \<Longrightarrow> i < length (bytes q) \<Longrightarrow> bytes q ! i = None"
    using rep by (auto simp: packet_rep_def)
  have lb: "14 + length body \<le> length (bytes q)" using inv mx ml by (auto elim!: packet_invE)
  have hdn: "bytes q ! i = head_cells q ! i" if "i < 14" for i
    using arg_cong [OF hd, of "\<lambda>xs. xs ! i"] that by simp
  have "take (14 + length body) (bytes q) =
      head_cells q @ drop 14 body @ replicate (min 14 (length body)) None"
    by (rule nth_equalityI; cases "14 \<le> length body")
      (use lb hdn bd un in \<open>auto simp: nth_append\<close>)
  moreover have "nat (message_len q) = 14 + length body" using ml by simp
  ultimately show ?thesis using ml by (simp add: head_cells_def)
qed

lemma take_2_be32_1 [simp]: "take 2 (be32 1) = [0, 0]"
  by (simp add: be32_def)

text \<open>Repeated appends, as a caller that assembles a message makes them.\<close>

fun Append_list :: "packet \<Rightarrow> mem list \<Rightarrow> packet res" where
  "Append_list p [] = Inr p"
| "Append_list p (c # cs) =
     bind_res (Append p (Some c) (int (length c))) (\<lambda>p. Append_list p cs)"

lemma Append_list_rep:
  "packet_rep p body \<Longrightarrow> 14 + int (length body) + int (length (concat css)) \<le> 1073741824 \<Longrightarrow>
   \<exists>q. Append_list p css = Inr q \<and> packet_rep q (body @ concat css) \<and>
     operatecode q = operatecode p \<and> errorcode q = errorcode p \<and> version q = version p"
proof (induction css arbitrary: p body)
  case Nil
  then show ?case by simp
next
  case (Cons c cs)
  show ?case
  proof (cases "c = []")
    case True
    then have "Append_list p (c # cs) = Append_list p cs" by (simp add: Append_def)
    then show ?thesis using Cons True by simp
  next
    case False
    then have len: "0 < int (length c)" "int (length c) \<le> int (length c)"
      "14 + int (length body) + int (length c) \<le> 1073741824" using Cons.prems(2) by auto
    from Append_rep [OF Cons.prems(1) len] obtain q where
      q: "Append p (Some c) (int (length c)) = Inr q" "packet_rep q (body @ c)"
        "operatecode q = operatecode p" "errorcode q = errorcode p" "version q = version p"
      by auto
    have "14 + int (length (body @ c)) + int (length (concat cs)) \<le> 1073741824"
      using Cons.prems(2) by simp
    from Cons.IH [OF q(2) this] show ?thesis using q by simp
  qed
qed

section \<open>Packets received from the wire\<close>

lemma Read_i32_ok:
  assumes inv: "packet_inv p" and d: "take (nat (dataNowLen p)) (bytes p) = map Some bs"
    and pos: "0 \<le> pos" "pos + 4 \<le> dataNowLen p"
  shows "Read_i32 p pos = Inr (sint (un_be32 (bs ! nat pos) (bs ! (nat pos + 1))
           (bs ! (nat pos + 2)) (bs ! (nat pos + 3))))"
proof -
  from inv obtain m where m: "data p = Some m" "bytes p = m" "int (length m) = dataMaxLen p"
    "0 \<le> dataNowLen p" "dataNowLen p \<le> dataMaxLen p" "dataMaxLen p \<le> 1073741824"
    by (rule packet_invE)
  define n where "n = nat pos"
  have n: "pos = int n" "n + 4 \<le> nat (dataNowLen p)" using pos by (simp_all add: n_def)
  have lb: "length bs = nat (dataNowLen p)"
    using arg_cong [OF d, of length] m by simp
  have nth: "m ! i = Some (bs ! i)" if "i < nat (dataNowLen p)" for i
    using arg_cong [OF d, of "\<lambda>xs. xs ! i"] that lb m by simp
  have "take 4 (drop n m) = [m ! n, m ! (n + 1), m ! (n + 2), m ! (n + 3)]"
    by (rule nth_equalityI) (use n m in \<open>auto simp: nth_Cons' numeral_eq_Suc less_Suc_eq\<close>)
  then have "read_be32 (take 4 (drop n m)) = Inr (un_be32 (bs ! n) (bs ! (n + 1))
           (bs ! (n + 2)) (bs ! (n + 3)))"
    using nth n by (simp add: read_be32_def)
  moreover have "in_i32 (int n + 4)" using n m by (simp add: in_i32_def)
  ultimately show ?thesis
    using m n pos by (simp add: Read_i32_def)
qed

text \<open>The value of the 32-bit field at an offset of a byte sequence, as \<open>ntohl\<close> reads it.\<close>

definition field_at :: "byte list \<Rightarrow> nat \<Rightarrow> int" where
  "field_at bs n = sint (un_be32 (bs ! n) (bs ! (n + 1)) (bs ! (n + 2)) (bs ! (n + 3)))"

lemma Packet_of_bytes_ok:
  assumes len: "14 \<le> length bs" "int (length bs) \<le> 1073741824"
    and src: "take (length bs) s = map Some bs"
  obtains q where "Packet_of_bytes s (int (length bs)) = Inr q" "packet_inv q"
    "dataNowLen q = int (length bs)" "take (length bs) (bytes q) = map Some bs"
    "message_len q = field_at bs 0" "version q = field_at bs 4"
    "operatecode q = field_at bs 6" "errorcode q = field_at bs 10"
proof -
  let ?len = "int (length bs)"
  obtain p where p: "Init = Inr p" "packet_inv p" "dataNowLen p = 0"
    by (auto simp: Init_eq packet_inv_def cap_ok_256)
  from CheckLen_ok [OF p(2) len(2)] obtain r where r: "CheckLen p ?len = Inr r" "packet_inv r"
    "same_fields p r" "?len \<le> dataMaxLen r" by blast
  from r(2) obtain m where m: "data r = Some m" "bytes r = m" "int (length m) = dataMaxLen r"
    by (rule packet_invE)
  have ls: "length bs \<le> length s" using arg_cong [OF src, of length] by simp
  define u where "u = r\<lparr>data := Some (poke m 0 (map Some bs)), dataNowLen := ?len\<rparr>"
  have lm: "length bs \<le> length m" using r(4) m(3) by simp
  have iu: "packet_inv u" using r(2,4) m lm by (auto simp: u_def packet_inv_def)
  have du: "take (nat (dataNowLen u)) (bytes u) = map Some bs"
    using lm by (simp add: u_def bytes_def poke_0)
  have rd: "Read_i32 u 0 = Inr (field_at bs 0)" "Read_i32 u 4 = Inr (field_at bs 4)"
    "Read_i32 u 6 = Inr (field_at bs 6)" "Read_i32 u 10 = Inr (field_at bs 10)"
    using Read_i32_ok [OF iu du] len(1) by (simp_all add: u_def field_at_def)
  let ?q = "u\<lparr>message_len := field_at bs 0, version := field_at bs 4,
      operatecode := field_at bs 6, errorcode := field_at bs 10\<rparr>"
  have eq: "Packet_of_bytes s ?len = Inr ?q"
    unfolding Packet_of_bytes_def p(1) bind_res_simps
    using r(1) m(1) len(1) ls src lm rd unfolding u_def
    by (simp add: Let_def)
  have "packet_inv ?q" "bytes ?q = bytes u"
    using iu by (simp_all add: packet_inv_def bytes_def)
  then show ?thesis
    using that [OF eq] du by (simp add: u_def)
qed

lemma NewPacketFromBytes_ok:
  assumes "14 \<le> length bs" "int (length bs) \<le> 1073741824"
    and "take (length bs) s = map Some bs"
  obtains q where "NewPacketFromBytes (Some s) (int (length bs)) = Inr (Some q)" "packet_inv q"
    "dataNowLen q = int (length bs)" "take (length bs) (bytes q) = map Some bs"
    "message_len q = field_at bs 0" "version q = field_at bs 4"
    "operatecode q = field_at bs 6" "errorcode q = field_at bs 10"
proof -
  from Packet_of_bytes_ok [OF assms] obtain q where
    "Packet_of_bytes s (int (length bs)) = Inr q" "packet_inv q"
    "dataNowLen q = int (length bs)" "take (length bs) (bytes q) = map Some bs"
    "message_len q = field_at bs 0" "version q = field_at bs 4"
    "operatecode q = field_at bs 6" "errorcode q = field_at bs 10" by blast
  then show ?thesis using that assms(1) by (simp add: NewPacketFromBytes_def)
qed

lemma field_at_be32:
  "n = length xs \<Longrightarrow> field_at (xs @ be32 w @ ys) n = sint w"
  by (simp add: field_at_def nth_append be32_def un_be32_be32)

lemma GetRealData_ok:
  assumes "packet_inv q" and "14 < dataNowLen q"
  shows "GetRealData q = Inr (Some (drop 14 (bytes q)), dataNowLen q - 14)"
  using assms by (auto simp: GetRealData_def elim!: packet_invE)

section \<open>Properties\<close>

text \<open>
  A packet without payload survives the wire.  For every operation and error code,
  \<open>NewPacket\<close> succeeds, its 14 sent bytes are the length, two zero bytes (the high half of the
  version), the operation code and the error code, all big-endian, and \<open>NewPacketFromBytes\<close> on
  these bytes recovers length, operation code and error code.  The version does not survive: it is
  written as a 32-bit word over a 16-bit field, so the receiver reads the high half of the
  operation code instead of \<open>PACKET_VERSION\<close>.
\<close>

theorem packet_header_roundtrip:
  assumes "in_i32 opercode" and "in_i32 errcode"
  shows "\<exists>p q. NewPacket opercode errcode None 0 = Inr p \<and>
    take (nat (message_len p)) (bytes p) = map Some (be32 14 @ [0, 0] @
      be32 (word_of_int opercode) @ be32 (word_of_int errcode)) \<and>
    NewPacketFromBytes (data p) (message_len p) = Inr (Some q) \<and>
    message_len q = 14 \<and> operatecode q = opercode \<and> errorcode q = errcode \<and>
    version q = (opercode mod 2 ^ 32) div 2 ^ 16"
proof -
  define bs where "bs = be32 14 @ [0, 0] @ be32 (word_of_int opercode) @ be32 (word_of_int errcode)"
  define p where "p = \<lparr>message_len = 14, version = 1, operatecode = opercode, errorcode = errcode,
     data = Some (map Some bs @ replicate 242 None), dataMaxLen = 256, dataNowLen = 0\<rparr>"
  have lb: "length bs = 14" by (simp add: bs_def)
  have np: "NewPacket opercode errcode None 0 = Inr p"
    by (simp add: NewPacket_def Packet_of_code_eq p_def bs_def)
  have "14 \<le> length bs" "int (length bs) \<le> 1073741824"
    "take (length bs) (map Some bs @ replicate 242 None) = map Some bs"
    by (simp_all add: lb)
  from NewPacketFromBytes_ok [OF this] obtain q where q:
    "NewPacketFromBytes (Some (map Some bs @ replicate 242 None)) (int (length bs)) = Inr (Some q)"
    "message_len q = field_at bs 0" "version q = field_at bs 4"
    "operatecode q = field_at bs 6" "errorcode q = field_at bs 10" by blast
  have "field_at bs 0 = 14" "field_at bs 6 = opercode" "field_at bs 10 = errcode"
    using assms field_at_be32 [of 0 "[]" 14] field_at_be32 [of 6 "be32 14 @ [0, 0]"]
      field_at_be32 [of 10 "be32 14 @ [0, 0] @ be32 (word_of_int opercode)" _ "[]"]
    by (simp_all add: bs_def)
  moreover have "field_at bs 4 = (opercode mod 2 ^ 32) div 2 ^ 16"
    using sint_high_half [of "word_of_int opercode"]
    by (simp add: field_at_def bs_def be32_def nth_append uint_word_of_int)
  moreover have "bytes p = map Some bs @ replicate 242 None" by (simp add: p_def bytes_def)
  ultimately show ?thesis
    using np q lb unfolding bs_def [symmetric] by (simp add: p_def bytes_def)
qed

theorem packet_header_roundtrip_witness:
  "in_i32 101 \<and> in_i32 0 \<and> (\<exists>p q. NewPacket 101 0 None 0 = Inr p \<and>
    NewPacketFromBytes (data p) (message_len p) = Inr (Some q) \<and> operatecode q = 101)"
proof -
  have "in_i32 101" "in_i32 0" by (simp_all add: in_i32_def)
  then show ?thesis using packet_header_roundtrip [of 101 0] by blast
qed

text \<open>
  C17: what \<open>NewPacket\<close> with a payload puts on the wire.  For a payload of \<open>n\<close> cells the sent
  length is \<open>14 + n\<close>, but the payload was copied to offset 0 and the header written over it: the
  sent cells are the header, the payload without its first 14 cells, and then \<open>min 14 n\<close> cells of
  the heap that were never written.
\<close>

theorem packet_payload_wire:
  assumes "s \<noteq> []" and "14 + int (length s) \<le> 1073741824"
  shows "\<exists>p. NewPacket opercode errcode (Some s) (int (length s)) = Inr p \<and>
    message_len p = 14 + int (length s) \<and> dataNowLen p = int (length s) \<and>
    take (nat (message_len p)) (bytes p) =
      map Some (be32 (word_of_int (14 + int (length s))) @ [0, 0] @
        be32 (word_of_int opercode) @ be32 (word_of_int errcode)) @
      drop 14 s @ replicate (min 14 (length s)) None"
proof -
  from Packet_of_code_rep [of opercode errcode] obtain p where
    p: "Packet_of_code opercode errcode = Inr p" "packet_rep p []"
      "operatecode p = opercode" "errorcode p = errcode" "version p = 1" by blast
  from assms have len: "0 < int (length s)" "int (length s) \<le> int (length s)"
    "14 + int (length ([] :: mem)) + int (length s) \<le> 1073741824" by simp_all
  from Append_rep [OF p(2) len] obtain q where
    q: "Append p (Some s) (int (length s)) = Inr q" "packet_rep q s" "operatecode q = opercode"
      "errorcode q = errcode" "version q = 1" using p by auto
  have ml: "message_len q = 14 + int (length s)" and now: "dataNowLen q = int (length s)"
    using q(2) by (auto simp: packet_rep_def)
  have "NewPacket opercode errcode (Some s) (int (length s)) = Inr q"
    using p(1) q(1) len(1) by (simp add: NewPacket_def)
  then show ?thesis using ml now packet_rep_wire [OF q(2)] q(3,4,5) by auto
qed

theorem packet_payload_wire_witness:
  "\<exists>p. NewPacket 7 0 (Some (map Some [1, 2, 3])) 3 = Inr p \<and> message_len p = 17 \<and>
    take 17 (bytes p) = map Some (be32 17 @ [0, 0] @ be32 7 @ be32 0) @ [None, None, None]"
  using packet_payload_wire [of "map Some [1, 2, 3]" 7 0] by auto

text \<open>
  C32: a packet assembled by any sequence of appends.  No sequence whose total length stays within
  \<open>2^30\<close> faults; the sent length is 14 plus the total; the sent cells are the header followed by
  the concatenation of the chunks without its first 14 cells (lost under the header) and as many
  unwritten heap cells.
\<close>

theorem packet_appends_wire:
  assumes "14 + int (length (concat css)) \<le> 1073741824"
  shows "\<exists>p. bind_res (NewPacket opercode errcode None 0) (\<lambda>p. Append_list p css) = Inr p \<and>
    message_len p = 14 + int (length (concat css)) \<and>
    take (nat (message_len p)) (bytes p) =
      map Some (be32 (word_of_int (14 + int (length (concat css)))) @ [0, 0] @
        be32 (word_of_int opercode) @ be32 (word_of_int errcode)) @
      drop 14 (concat css) @ replicate (min 14 (length (concat css))) None"
proof -
  from Packet_of_code_rep [of opercode errcode] obtain p where
    p: "NewPacket opercode errcode None 0 = Inr p" "packet_rep p []"
      "operatecode p = opercode" "errorcode p = errcode" "version p = 1"
    by (auto simp: NewPacket_def)
  from Append_list_rep [OF p(2), of css] assms obtain q where
    q: "Append_list p css = Inr q" "packet_rep q (concat css)" "operatecode q = opercode"
      "errorcode q = errcode" "version q = 1" using p by auto
  have "message_len q = 14 + int (length (concat css))" using q(2) by (simp add: packet_rep_def)
  then show ?thesis using p(1) q packet_rep_wire [OF q(2)] by auto
qed

theorem packet_appends_wire_witness:
  "\<exists>p. bind_res (NewPacket 7 0 None 0)
      (\<lambda>p. Append_list p [map Some [1, 2], [], map Some [3]]) = Inr p \<and> message_len p = 17"
  using packet_appends_wire [of "[map Some [1, 2], [], map Some [3]]" 7 0] by auto

text \<open>
  C31: parsing received bytes.  \<open>NewPacketFromBytes\<close> accepts exactly the buffers of at least 14
  bytes: shorter lengths and the null pointer give \<open>NULL\<close>; otherwise the packet holds the bytes,
  its fields are the big-endian 32-bit words at offsets 0, 4, 6 and 10, and \<open>GetRealData\<close> points
  at the bytes after the header (or is \<open>NULL\<close> with length 0 when there are none).
\<close>

theorem packet_parse:
  assumes "int (length bs) \<le> 1073741824"
  shows "NewPacketFromBytes None (int (length bs)) = Inr None \<and>
    (if length bs < 14 then NewPacketFromBytes (Some (map Some bs)) (int (length bs)) = Inr None
     else \<exists>q. NewPacketFromBytes (Some (map Some bs)) (int (length bs)) = Inr (Some q) \<and>
       packet_inv q \<and> message_len q = field_at bs 0 \<and> version q = field_at bs 4 \<and>
       operatecode q = field_at bs 6 \<and> errorcode q = field_at bs 10 \<and>
       (if length bs = 14 then GetRealData q = Inr (None, 0)
        else \<exists>m. GetRealData q = Inr (Some m, int (length bs) - 14) \<and>
                 take (length bs - 14) m = map Some (drop 14 bs)))"
proof (cases "length bs < 14")
  case True
  then show ?thesis by (simp add: NewPacketFromBytes_def)
next
  case False
  then have "14 \<le> length bs" by simp
  moreover have "take (length bs) (map Some bs) = map Some bs" by simp
  ultimately obtain q where q:
    "NewPacketFromBytes (Some (map Some bs)) (int (length bs)) = Inr (Some q)" "packet_inv q"
    "dataNowLen q = int (length bs)" "take (length bs) (bytes q) = map Some bs"
    "message_len q = field_at bs 0" "version q = field_at bs 4"
    "operatecode q = field_at bs 6" "errorcode q = field_at bs 10"
    using NewPacketFromBytes_ok [OF _ assms] by blast
  have "take (length bs - 14) (drop 14 (bytes q)) = drop 14 (take (length bs) (bytes q))"
    by (simp add: drop_take)
  then have "take (length bs - 14) (drop 14 (bytes q)) = map Some (drop 14 bs)"
    using q(4) by (simp add: drop_map)
  moreover have "GetRealData q = (if length bs = 14 then Inr (None, 0)
      else Inr (Some (drop 14 (bytes q)), int (length bs) - 14))"
    using GetRealData_ok [OF q(2)] q(3) False by (auto simp: GetRealData_def)
  ultimately show ?thesis using q False by (simp add: NewPacketFromBytes_def)
qed

theorem packet_parse_witness:
  "\<exists>q. NewPacketFromBytes (Some (map Some (replicate 15 0))) 15 = Inr (Some q) \<and>
       operatecode q = 0"
proof -
  have f: "field_at (replicate 15 0) 6 = 0"
    by (simp add: field_at_def un_be32_def)
  show ?thesis using packet_parse [of "replicate 15 0"] f by auto
qed

text \<open>
  Buffer growth.  On a well-formed packet \<open>CheckLen\<close> terminates with a buffer of at least
  \<open>max 14 len\<close> cells (a power of two, less than twice the request when it had to grow), keeping
  the bytes in use and every field, for every request up to \<open>2^30\<close>; a larger request makes the
  doubling overflow a signed 32-bit integer.
\<close>

theorem check_len_outcome:
  assumes "packet_inv p"
  shows "if len \<le> 1073741824
    then \<exists>q. CheckLen p len = Inr q \<and> packet_inv q \<and> same_fields p q \<and>
           max 14 len \<le> dataMaxLen q \<and>
           (dataMaxLen q = dataMaxLen p \<or> dataMaxLen p < len \<and> dataMaxLen q < 2 * len) \<and>
           take (nat (dataNowLen p)) (bytes q) = take (nat (dataNowLen p)) (bytes p)
    else CheckLen p len = Inl Signed_overflow"
proof (cases "len \<le> dataMaxLen p")
  case True
  then show ?thesis using assms CheckLen_fits [OF assms True]
    by (auto simp: same_fields_def elim: packet_invE)
next
  case False
  show ?thesis
  proof (cases "len \<le> 1073741824")
    case True
    from CheckLen_ok [OF assms True] obtain q where q: "CheckLen p len = Inr q" "packet_inv q"
      "same_fields p q" "len \<le> dataMaxLen q"
      "take (nat (dataNowLen p)) (bytes q) = take (nat (dataNowLen p)) (bytes p)" by blast
    moreover have "dataMaxLen q < 2 * len"
      using CheckLen_grows [OF assms _ True] False q(1) by fastforce
    ultimately show ?thesis using True False by (auto elim!: packet_invE)
  next
    case False
    then show ?thesis using CheckLen_too_long [OF assms] by simp
  qed
qed

theorem check_len_outcome_witness:
  "\<exists>q. CheckLen \<lparr>message_len = 14, version = 1, operatecode = 0, errorcode = 0,
      data = Some (replicate 256 None), dataMaxLen = 256, dataNowLen = 3\<rparr> 1000 = Inr q \<and>
    1000 \<le> dataMaxLen q"
proof -
  have "packet_inv \<lparr>message_len = 14, version = 1, operatecode = 0, errorcode = 0,
      data = Some (replicate 256 None), dataMaxLen = 256, dataNowLen = 3\<rparr>"
    by (simp add: packet_inv_def cap_ok_256)
  from check_len_outcome [OF this, of 1000] show ?thesis by auto
qed

text \<open>
  \<open>PrintData\<close> writes a terminating zero at index \<open>dataNowLen\<close>.  On a well-formed packet that
  is in bounds except when the bytes in use fill the buffer exactly; then it writes one byte past
  the allocation.
\<close>

theorem print_data_bounds:
  assumes "packet_inv p"
  shows "(PrintData p = Inl Out_of_bounds \<longleftrightarrow> dataNowLen p = dataMaxLen p) \<and>
    (dataNowLen p \<noteq> dataMaxLen p \<longrightarrow> (\<exists>q. PrintData p = Inr q \<and> packet_inv q \<and> same_fields p q \<and>
       take (nat (dataNowLen p)) (bytes q) = take (nat (dataNowLen p)) (bytes p)))"
proof -
  from assms obtain m where m: "data p = Some m" "bytes p = m" "int (length m) = dataMaxLen p"
    "cap_ok (dataMaxLen p)" "0 \<le> dataNowLen p" "dataNowLen p \<le> dataMaxLen p"
    "256 \<le> dataMaxLen p" by (rule packet_invE)
  show ?thesis
  proof (cases "dataNowLen p = dataMaxLen p")
    case True
    then show ?thesis using m by (simp add: PrintData_def mem_store_def)
  next
    case False
    then have lt: "nat (dataNowLen p) + 1 \<le> length m" using m by simp
    have st: "mem_store m (dataNowLen p) [Some 0] = Inr (poke m (nat (dataNowLen p)) [Some 0])"
      using m False by simp
    have "take (nat (dataNowLen p)) (poke m (nat (dataNowLen p)) [Some 0]) =
        take (nat (dataNowLen p)) m"
      using lt by (simp add: take_poke_before)
    moreover have "packet_inv (p\<lparr>data := Some (poke m (nat (dataNowLen p)) [Some 0])\<rparr>)"
      using assms lt m by (intro packet_inv_data) auto
    ultimately show ?thesis using m False st assms by (auto simp: PrintData_def same_fields_def)
  qed
qed

theorem print_data_bounds_witness:
  "PrintData \<lparr>message_len = 256, version = 1, operatecode = 0, errorcode = 0,
      data = Some (replicate 256 (Some 0)), dataMaxLen = 256, dataNowLen = 256\<rparr> =
   Inl Out_of_bounds"
proof -
  have "packet_inv \<lparr>message_len = 256, version = 1, operatecode = 0, errorcode = 0,
      data = Some (replicate 256 (Some 0)), dataMaxLen = 256, dataNowLen = 256\<rparr>"
    by (simp add: packet_inv_def cap_ok_256)
  from print_data_bounds [OF this] show ?thesis by simp
qed

end
