(* ===== verification/PlayerManager.thy ===== *)
theory PlayerManager
  imports ClientConnManager Packet
begin

text \<open>
  The players: \<open>logic/PlayerManager.h\<close> and \<open>logic/PlayerManager.cpp\<close>.  The class extends
  \<open>ClientConnManager\<close> by the known players and the map of the players that are online to their
  session objects (addresses of the heap \<open>sess\<close>, \<open>Some None\<close> for a stored \<open>NULL\<close>).  A protobuf message
  is a parameter: its size and what it serializes into a buffer of a given size.
\<close>

section \<open>State\<close>

datatype RESULT_ID =
    Proto_RESULT_SUCCESS
  | Proto_RESULT_LOGIN_NOEXIST
  | Proto_RESULT_LOGIN_REPEATED
  | Proto_RESULT_LOGOFF_OTHERPLACE
  | Proto_RESULT_LOGOFF_SEALOFF

fun RESULT_ID_value :: "RESULT_ID \<Rightarrow> int" where
  "RESULT_ID_value Proto_RESULT_SUCCESS = 0"
| "RESULT_ID_value Proto_RESULT_LOGIN_NOEXIST = 101"
| "RESULT_ID_value Proto_RESULT_LOGIN_REPEATED = 102"
| "RESULT_ID_value Proto_RESULT_LOGOFF_OTHERPLACE = 103"
| "RESULT_ID_value Proto_RESULT_LOGOFF_SEALOFF = 104"

record Player =
  playerID :: int
  player_name :: mem

record PlayerManager = ClientConnManager +
  m_mapPlayer_All :: "int \<rightharpoonup> Player"
  m_mapAllPlayer_Dirty :: "int \<rightharpoonup> Player"
  m_mapAllPlayer_Online :: "int \<rightharpoonup> nat option"
  m_iAutoIncrPlayerID :: int

definition new_PlayerManager :: "('o, 'q) env \<Rightarrow> PlayerManager" where
  "new_PlayerManager E =
     ClientConnManager.extend (new_ClientConnManager E)
       \<lparr>m_mapPlayer_All = Map.empty, m_mapAllPlayer_Dirty = Map.empty,
        m_mapAllPlayer_Online = Map.empty, m_iAutoIncrPlayerID = indet E\<rparr>"

definition PlayerManager_init :: "PlayerManager \<Rightarrow> PlayerManager \<times> bool" where
  "PlayerManager_init pm =
     (let pm = fst (ClientConnManager_init (pm\<lparr>m_iAutoIncrPlayerID := 1001\<rparr>)) in (pm, True))"

definition getPlayer :: "PlayerManager \<Rightarrow> int \<Rightarrow> Player option" where
  "getPlayer pm pid = m_mapPlayer_All pm pid"

definition isPlayerOnline :: "PlayerManager \<Rightarrow> int \<Rightarrow> bool" where
  "isPlayerOnline pm pid \<longleftrightarrow> m_mapAllPlayer_Online pm pid \<noteq> None"

text \<open>\<open>getPlayerSession\<close> also removes an entry whose pointer is \<open>NULL\<close>.\<close>

definition getPlayerSession :: "PlayerManager \<Rightarrow> int \<Rightarrow> PlayerManager \<times> nat option" where
  "getPlayerSession pm pid =
     (case m_mapAllPlayer_Online pm pid of
        None \<Rightarrow> (pm, None)
      | Some None \<Rightarrow>
          (pm\<lparr>m_mapAllPlayer_Online := (m_mapAllPlayer_Online pm)(pid := None)\<rparr>, None)
      | Some (Some a) \<Rightarrow> (pm, Some a))"

text \<open>A write through a session pointer.\<close>

definition set_player :: "PlayerManager \<Rightarrow> nat \<Rightarrow> int \<Rightarrow> PlayerManager res" where
  "set_player pm a pid =
     bind_res (heap_get (sess pm) a) (\<lambda>c.
     Inr (pm\<lparr>sess := (sess pm)(a \<mapsto> c\<lparr>player_id := pid\<rparr>)\<rparr>))"

section \<open>Login and logoff\<close>

definition onPlayerLogin :: "PlayerManager \<Rightarrow> int \<Rightarrow> nat option \<Rightarrow> (PlayerManager \<times> RESULT_ID) res" where
  "onPlayerLogin pm pid pConn =
     (case pConn of
        None \<Rightarrow> Inr (pm, Proto_RESULT_LOGIN_NOEXIST)
      | Some a \<Rightarrow>
          if pid \<le> 0 then Inr (pm, Proto_RESULT_LOGIN_NOEXIST)
          else
            bind_res (heap_get (sess pm) a) (\<lambda>c.
            if player_id c = pid then Inr (pm, Proto_RESULT_LOGIN_REPEATED)
            else if getPlayer pm pid = None then Inr (pm, Proto_RESULT_LOGIN_NOEXIST)
            else
              (case getPlayerSession pm pid of
                 (pm, old) \<Rightarrow>
                   bind_res (case old of None \<Rightarrow> Inr pm | Some b \<Rightarrow> set_player pm b 0) (\<lambda>pm.
                   bind_res (set_player pm a pid) (\<lambda>pm.
                   Inr (pm\<lparr>m_mapAllPlayer_Online := (m_mapAllPlayer_Online pm)(pid \<mapsto> Some a)\<rparr>,
                        Proto_RESULT_SUCCESS))))))"

definition onPlayerLogoff :: "PlayerManager \<Rightarrow> int \<Rightarrow> PlayerManager res" where
  "onPlayerLogoff pm pid =
     (case getPlayerSession pm pid of
        (pm, None) \<Rightarrow> Inr pm
      | (pm, Some a) \<Rightarrow>
          bind_res (set_player pm a 0) (\<lambda>pm.
          Inr (pm\<lparr>m_mapAllPlayer_Online := (m_mapAllPlayer_Online pm)(pid := None)\<rparr>)))"

text \<open>The override of the hook: it reads the session object it is given.\<close>

definition PlayerManager_onSessionClose :: "PlayerManager \<Rightarrow> nat \<Rightarrow> PlayerManager res" where
  "PlayerManager_onSessionClose pm a =
     bind_res (heap_get (sess pm) a) (\<lambda>c.
       if player_id c > 0 then onPlayerLogoff pm (player_id c) else Inr pm)"

section \<open>Sending a message\<close>

text \<open>
  A protobuf message: \<open>ByteSize\<close>, and \<open>SerializeToArray\<close>, which reports success and leaves some
  contents in a buffer of the given size.
\<close>

record proto =
  ByteSize :: int
  SerializeToArray :: "int \<Rightarrow> bool \<times> mem"

definition sendProtoToSession :: "('o, 'q) env \<Rightarrow> 'q thread_map \<Rightarrow> PlayerManager \<Rightarrow> int \<Rightarrow> int \<Rightarrow> int \<Rightarrow>
    proto option \<Rightarrow> ('q thread_map \<times> bool) res" where
  "sendProtoToSession E m pm sid messageID errCode msg =
     (if sid \<le> 0 then Inr (m, False)
      else
        bind_res (NewPacket messageID errCode None 0) (\<lambda>p.
        bind_res
          (case msg of
             None \<Rightarrow> Inr (Some p)
           | Some g \<Rightarrow>
               let sendLen = ByteSize g in
               if sendLen \<le> 0 \<or> fst (SerializeToArray g sendLen) then Inr None
               else bind_res (Append p (Some (snd (SerializeToArray g sendLen))) sendLen) (\<lambda>p. Inr (Some p)))
          (\<lambda>r. case r of
             None \<Rightarrow> Inr (m, False)
           | Some p \<Rightarrow> sendMsgToConn E m pm sid (data p) (message_len p))))"

definition sendProtoToPlayer :: "('o, 'q) env \<Rightarrow> 'q thread_map \<Rightarrow> PlayerManager \<Rightarrow> int \<Rightarrow> int \<Rightarrow> int \<Rightarrow>
    proto option \<Rightarrow> ('q thread_map \<times> PlayerManager \<times> bool) res" where
  "sendProtoToPlayer E m pm pid messageID errCode msg =
     (if pid \<le> 0 then Inr (m, pm, False)
      else
        (case getPlayerSession pm pid of
           (pm, None) \<Rightarrow> Inr (m, pm, False)
         | (pm, Some a) \<Rightarrow>
             bind_res (heap_get (sess pm) a) (\<lambda>c.
             bind_res (sendProtoToSession E m pm (sc_session_id c) messageID errCode msg) (\<lambda>(m, ok).
             Inr (m, pm, ok)))))"

section \<open>Invariant\<close>

text \<open>The online map and the sessions agree: each online player's session is live and names the player.\<close>

definition players_inv :: "PlayerManager \<Rightarrow> bool" where
  "players_inv pm \<longleftrightarrow>
     (\<forall>p. m_mapAllPlayer_Online pm p \<noteq> None \<longrightarrow> 0 < p) \<and>
     (\<forall>p r. m_mapAllPlayer_Online pm p = Some r \<longrightarrow>
        (\<exists>a c. r = Some a \<and> sess pm a = Some c \<and> player_id c = p)) \<and>
     (\<forall>a c. sess pm a = Some c \<and> player_id c \<noteq> 0 \<longrightarrow>
        m_mapAllPlayer_Online pm (player_id c) = Some (Some a))"

lemma players_inv_online:
  assumes "players_inv pm" "m_mapAllPlayer_Online pm p = Some r"
  obtains a c where "r = Some a" "sess pm a = Some c" "player_id c = p" "0 < p"
  using assms unfolding players_inv_def by blast

lemma players_inv_sess:
  "players_inv pm \<Longrightarrow> sess pm a = Some c \<Longrightarrow> player_id c \<noteq> 0 \<Longrightarrow>
   m_mapAllPlayer_Online pm (player_id c) = Some (Some a)"
  unfolding players_inv_def by blast

lemma players_inv_getPlayerSession:
  assumes "players_inv pm"
  shows "getPlayerSession pm p = (pm, case m_mapAllPlayer_Online pm p of None \<Rightarrow> None | Some r \<Rightarrow> r)"
proof (cases "m_mapAllPlayer_Online pm p")
  case None
  then show ?thesis by (simp add: getPlayerSession_def)
next
  case (Some r)
  from assms Some obtain a c where "r = Some a" "sess pm a = Some c" by (rule players_inv_online)
  then show ?thesis using Some by (simp add: getPlayerSession_def)
qed

lemma players_inv_init: "players_inv (fst (PlayerManager_init (new_PlayerManager E)))"
  by (simp add: players_inv_def PlayerManager_init_def new_PlayerManager_def ClientConnManager_init_def
      ClientConnManager.defs new_ClientConnManager_def)

lemma set_player_ok: "sess pm a = Some c \<Longrightarrow>
    set_player pm a p = Inr (pm\<lparr>sess := (sess pm)(a \<mapsto> c\<lparr>player_id := p\<rparr>)\<rparr>)"
  by (simp add: set_player_def)

text \<open>A successful login: the old session of the player, if any, loses it.\<close>

lemma onPlayerLogin_success:
  assumes inv: "players_inv pm" and a: "sess pm a = Some c" "player_id c \<noteq> p" and p: "0 < p"
    and known: "m_mapPlayer_All pm p \<noteq> None"
  shows "\<exists>pm'. onPlayerLogin pm p (Some a) = Inr (pm', Proto_RESULT_SUCCESS) \<and>
    m_mapAllPlayer_Online pm' = (m_mapAllPlayer_Online pm)(p \<mapsto> Some a) \<and>
    m_MapSessionConnInfo pm' = m_MapSessionConnInfo pm \<and> m_mapPlayer_All pm' = m_mapPlayer_All pm \<and>
    sess pm' = (\<lambda>x. if x = a then Some (c\<lparr>player_id := p\<rparr>)
       else if m_mapAllPlayer_Online pm p = Some (Some x)
         then map_option (\<lambda>e. e\<lparr>player_id := 0\<rparr>) (sess pm x) else sess pm x)"
proof (cases "m_mapAllPlayer_Online pm p")
  case None
  have "onPlayerLogin pm p (Some a) = Inr (pm\<lparr>sess := (sess pm)(a \<mapsto> c\<lparr>player_id := p\<rparr>),
      m_mapAllPlayer_Online := (m_mapAllPlayer_Online pm)(p \<mapsto> Some a)\<rparr>, Proto_RESULT_SUCCESS)"
    using a p known None players_inv_getPlayerSession [OF inv, of p]
    by (simp add: onPlayerLogin_def getPlayer_def set_player_ok [OF a(1)])
  then show ?thesis using None by (auto simp: fun_eq_iff)
next
  case (Some r)
  from inv Some obtain b e where b: "r = Some b" "sess pm b = Some e" "player_id e = p"
    by (rule players_inv_online)
  have ne: "b \<noteq> a" using b(2,3) a by auto
  have "onPlayerLogin pm p (Some a) = Inr (pm\<lparr>sess := (sess pm)(b \<mapsto> e\<lparr>player_id := 0\<rparr>, a \<mapsto> c\<lparr>player_id := p\<rparr>),
      m_mapAllPlayer_Online := (m_mapAllPlayer_Online pm)(p \<mapsto> Some a)\<rparr>, Proto_RESULT_SUCCESS)"
    using a p known Some b ne players_inv_getPlayerSession [OF inv, of p]
    by (simp add: onPlayerLogin_def getPlayer_def set_player_def)
  then show ?thesis using Some b ne by (auto simp: fun_eq_iff)
qed

lemma closing_session:
  assumes "sessions_inv pm"
  shows "removeSessionConn PlayerManager_onSessionClose pm k =
      (if m_MapSessionConnInfo pm k = None then Inr pm else Inl Use_after_free) \<and>
    closeConn E PlayerManager_onSessionClose m pm k =
      (if m_MapSessionConnInfo pm k = None then Inr (m, pm) else Inl Use_after_free)"
proof (cases "m_MapSessionConnInfo pm k")
  case None
  then show ?thesis by (simp add: removeSessionConn_def closeConn_def getSession_BySessionID_def)
next
  case (Some a)
  then obtain c where "sess pm a = Some c" using sessions_inv_map [OF assms, of k a] by auto
  then show ?thesis using Some
    by (simp add: removeSessionConn_def closeConn_def getSession_BySessionID_def
        PlayerManager_onSessionClose_def)
qed

section \<open>Properties\<close>

text \<open>A login on a session without a player keeps the data consistent.\<close>

lemma players_inv_login:
  assumes "players_inv pm" and "sess pm a = Some c" and "player_id c = 0" and "0 < p"
    and "m_mapAllPlayer_Online pm' = (m_mapAllPlayer_Online pm)(p \<mapsto> Some a)"
    and "sess pm' = (\<lambda>x. if x = a then Some (c\<lparr>player_id := p\<rparr>)
         else if m_mapAllPlayer_Online pm p = Some (Some x)
           then map_option (\<lambda>e. e\<lparr>player_id := 0\<rparr>) (sess pm x) else sess pm x)"
  shows "players_inv pm'"
  unfolding players_inv_def
proof (intro conjI allI impI)
  fix q assume "m_mapAllPlayer_Online pm' q \<noteq> None"
  then show "0 < q" using assms(1,4) unfolding assms(5) players_inv_def by (auto split: if_splits)
next
  fix q r assume r: "m_mapAllPlayer_Online pm' q = Some r"
  show "\<exists>b e. r = Some b \<and> sess pm' b = Some e \<and> player_id e = q"
  proof (cases "q = p")
    case True
    then show ?thesis using r
      by - (rule exI [of _ a], rule exI [of _ "c\<lparr>player_id := p\<rparr>"], simp add: assms(5,6))
  next
    case False
    then have "m_mapAllPlayer_Online pm q = Some r" using r assms(5) by simp
    with assms(1) obtain b e where b: "r = Some b" "sess pm b = Some e" "player_id e = q" "0 < q"
      by (rule players_inv_online)
    have "b \<noteq> a" using b assms(2,3) by auto
    moreover have "m_mapAllPlayer_Online pm p \<noteq> Some (Some b)"
    proof
      assume "m_mapAllPlayer_Online pm p = Some (Some b)"
      with assms(1) obtain a' c' where "Some b = Some a'" "sess pm a' = Some c'" "player_id c' = p"
        by (rule players_inv_online)
      then show False using b(2,3) False by simp
    qed
    ultimately have "sess pm' b = Some e" using b(2) by (simp add: assms(6))
    then show ?thesis using b(1,3) by blast
  qed
next
  fix b e assume e: "sess pm' b = Some e \<and> player_id e \<noteq> 0"
  show "m_mapAllPlayer_Online pm' (player_id e) = Some (Some b)"
  proof (cases "b = a")
    case True
    then show ?thesis using e by (simp add: assms(5,6)) auto
  next
    case False
    then have nb: "m_mapAllPlayer_Online pm p \<noteq> Some (Some b)" "sess pm b = Some e"
      using e by (auto simp: assms(6) split: if_splits)
    then have "m_mapAllPlayer_Online pm (player_id e) = Some (Some b)"
      using e players_inv_sess [OF assms(1)] by blast
    then show ?thesis using nb(1) by (auto simp: assms(5))
  qed
qed

text \<open>
  C15: the outcomes of a login.  On consistent player data \<open>onPlayerLogin\<close> of a live session never
  faults.  An id that is not positive, an unknown player and a missing session give
  \<open>RESULT_LOGIN_NOEXIST\<close>, a session that already has this player \<open>RESULT_LOGIN_REPEATED\<close>, all without
  any change; a session without a player logs in: it becomes the player's session, the session the
  player had before loses the player, every other session is unchanged, and the data is consistent.
\<close>

theorem login_outcomes:
  assumes "players_inv pm" and "sess pm a = Some c"
  shows "onPlayerLogin pm p None = Inr (pm, Proto_RESULT_LOGIN_NOEXIST) \<and>
    (if p \<le> 0 \<or> player_id c \<noteq> p \<and> m_mapPlayer_All pm p = None
     then onPlayerLogin pm p (Some a) = Inr (pm, Proto_RESULT_LOGIN_NOEXIST)
     else if player_id c = p then onPlayerLogin pm p (Some a) = Inr (pm, Proto_RESULT_LOGIN_REPEATED)
     else \<exists>pm'. onPlayerLogin pm p (Some a) = Inr (pm', Proto_RESULT_SUCCESS) \<and>
       m_mapAllPlayer_Online pm' = (m_mapAllPlayer_Online pm)(p \<mapsto> Some a) \<and>
       sess pm' = (\<lambda>x. if x = a then Some (c\<lparr>player_id := p\<rparr>)
         else if m_mapAllPlayer_Online pm p = Some (Some x)
           then map_option (\<lambda>e. e\<lparr>player_id := 0\<rparr>) (sess pm x) else sess pm x) \<and>
       (player_id c = 0 \<longrightarrow> players_inv pm'))"
proof (cases "p \<le> 0 \<or> player_id c = p \<or> m_mapPlayer_All pm p = None")
  case True
  then show ?thesis using assms(2)
    by (auto simp: onPlayerLogin_def getPlayer_def)
next
  case False
  then have f: "player_id c \<noteq> p" "0 < p" "m_mapPlayer_All pm p \<noteq> None" by auto
  from onPlayerLogin_success [OF assms f] obtain pm' where
    pm': "onPlayerLogin pm p (Some a) = Inr (pm', Proto_RESULT_SUCCESS)"
      "m_mapAllPlayer_Online pm' = (m_mapAllPlayer_Online pm)(p \<mapsto> Some a)"
      "sess pm' = (\<lambda>x. if x = a then Some (c\<lparr>player_id := p\<rparr>)
         else if m_mapAllPlayer_Online pm p = Some (Some x)
           then map_option (\<lambda>e. e\<lparr>player_id := 0\<rparr>) (sess pm x) else sess pm x)" by blast
  have "players_inv pm'" if "player_id c = 0"
    by (rule players_inv_login [OF assms that f(2) pm'(2,3)])
  moreover have "onPlayerLogin pm p None = Inr (pm, Proto_RESULT_LOGIN_NOEXIST)"
    by (simp add: onPlayerLogin_def)
  ultimately show ?thesis using f pm' by auto
qed

text \<open>A manager with session 5 (address 0) that has no player yet, and a known player 1001.\<close>

definition one_player :: PlayerManager where
  "one_player = ClientConnManager.extend one_session
     \<lparr>m_mapPlayer_All = [1001 \<mapsto> \<lparr>playerID = 1001, player_name = []\<rparr>, 1002 \<mapsto> \<lparr>playerID = 1002, player_name = []\<rparr>],
      m_mapAllPlayer_Dirty = Map.empty, m_mapAllPlayer_Online = Map.empty, m_iAutoIncrPlayerID = 1001\<rparr>"

lemma one_player_simps [simp]:
  "sess one_player = [0 \<mapsto> new_SessionConn 3 5 DEVICE_CLIENT_EXTERNAL \<lparr>sin_family = 2, sin_port = 1, sin_addr = 1\<rparr>]"
  "m_MapSessionConnInfo one_player = [5 \<mapsto> 0]" "m_mapAllPlayer_Online one_player = Map.empty"
  "m_mapPlayer_All one_player = [1001 \<mapsto> \<lparr>playerID = 1001, player_name = []\<rparr>, 1002 \<mapsto> \<lparr>playerID = 1002, player_name = []\<rparr>]"
  by (simp_all add: one_player_def ClientConnManager.defs)

lemma one_player_inv: "players_inv one_player" "sessions_inv one_player"
proof -
  show "players_inv one_player" by (simp add: players_inv_def new_SessionConn_def)
  have "m_iAutoIncriSessionID one_player = m_iAutoIncriSessionID one_session" "next_sess one_player = 1"
    by (simp_all add: one_player_def ClientConnManager.defs)
  then show "sessions_inv one_player" using one_session_inv by (simp add: sessions_inv_def)
qed

theorem login_outcomes_witness:
  "\<exists>pm'. onPlayerLogin one_player 1001 (Some 0) = Inr (pm', Proto_RESULT_SUCCESS) \<and>
     m_mapAllPlayer_Online pm' 1001 = Some (Some 0) \<and> players_inv pm'"
proof -
  have "sess one_player 0 = Some (new_SessionConn 3 5 DEVICE_CLIENT_EXTERNAL
      \<lparr>sin_family = 2, sin_port = 1, sin_addr = 1\<rparr>)" by simp
  from login_outcomes [OF one_player_inv(1) this, of 1001] show ?thesis
    by (auto simp: new_SessionConn_def)
qed

text \<open>
  A second login on the same session loses track of a player.  When a session that is player
  \<open>q\<close>'s logs in as another known player \<open>p\<close> who is not online, the login succeeds, but \<open>q\<close> stays in
  the online map with a session that is now \<open>p\<close>'s; logging \<open>q\<close> off afterwards takes the player away
  from \<open>p\<close>'s session while \<open>p\<close> stays in the online map.
\<close>

theorem relogin_stale:
  assumes "players_inv pm" and "sess pm a = Some c" and "player_id c = q" and "0 < q"
    and "0 < p" and "p \<noteq> q" and "m_mapPlayer_All pm p \<noteq> None" and "m_mapAllPlayer_Online pm p = None"
  shows "\<exists>pm' pm''. onPlayerLogin pm p (Some a) = Inr (pm', Proto_RESULT_SUCCESS) \<and>
    m_mapAllPlayer_Online pm' q = Some (Some a) \<and> map_option player_id (sess pm' a) = Some p \<and>
    onPlayerLogoff pm' q = Inr pm'' \<and> m_mapAllPlayer_Online pm'' p = Some (Some a) \<and>
    map_option player_id (sess pm'' a) = Some 0"
proof -
  have ne: "player_id c \<noteq> p" using assms(3,6) by simp
  from onPlayerLogin_success [OF assms(1,2) ne assms(5,7)] obtain pm' where
    pm': "onPlayerLogin pm p (Some a) = Inr (pm', Proto_RESULT_SUCCESS)"
      "m_mapAllPlayer_Online pm' = (m_mapAllPlayer_Online pm)(p \<mapsto> Some a)"
      "sess pm' a = Some (c\<lparr>player_id := p\<rparr>)" by auto
  have "m_mapAllPlayer_Online pm q = Some (Some a)"
    using players_inv_sess [OF assms(1,2)] assms(3,4) by simp
  then have q: "m_mapAllPlayer_Online pm' q = Some (Some a)" using pm'(2) assms(6) by simp
  let ?pm = "pm'\<lparr>sess := (sess pm')(a \<mapsto> c\<lparr>player_id := 0\<rparr>),
    m_mapAllPlayer_Online := (m_mapAllPlayer_Online pm')(q := None)\<rparr>"
  have "onPlayerLogoff pm' q = Inr ?pm"
    using q pm'(3) by (simp add: onPlayerLogoff_def getPlayerSession_def set_player_def)
  then show ?thesis using pm' q assms(6) by auto
qed

text \<open>A manager whose session 5 is player 1001's.\<close>

definition player_online :: PlayerManager where
  "player_online = one_player\<lparr>sess := [0 \<mapsto> (new_SessionConn 3 5 DEVICE_CLIENT_EXTERNAL
      \<lparr>sin_family = 2, sin_port = 1, sin_addr = 1\<rparr>)\<lparr>player_id := 1001\<rparr>],
    m_mapAllPlayer_Online := [1001 \<mapsto> Some 0]\<rparr>"

lemma player_online_inv: "players_inv player_online"
  by (simp add: players_inv_def player_online_def new_SessionConn_def)

theorem relogin_stale_witness:
  "\<exists>pm'. onPlayerLogin player_online 1002 (Some 0) = Inr (pm', Proto_RESULT_SUCCESS) \<and>
     m_mapAllPlayer_Online pm' 1001 = Some (Some 0) \<and> map_option player_id (sess pm' 0) = Some 1002"
proof -
  have "sess player_online 0 = Some ((new_SessionConn 3 5 DEVICE_CLIENT_EXTERNAL
      \<lparr>sin_family = 2, sin_port = 1, sin_addr = 1\<rparr>)\<lparr>player_id := 1001\<rparr>)" by (simp add: player_online_def)
  from relogin_stale [OF player_online_inv this, of 1001 1002] show ?thesis
    by (auto simp: player_online_def)
qed

text \<open>
  C40: logoff.  On consistent player data \<open>onPlayerLogoff\<close> never faults: it takes an online player out
  of the map and off its session, changes nothing for any other id, and keeps the data consistent.
\<close>

theorem logoff_consistent:
  assumes "players_inv pm"
  shows "\<exists>pm'. onPlayerLogoff pm p = Inr pm' \<and> players_inv pm' \<and>
    m_mapAllPlayer_Online pm' = (m_mapAllPlayer_Online pm)(p := None) \<and>
    (\<forall>a. sess pm' a = (if m_mapAllPlayer_Online pm p = Some (Some a)
       then map_option (\<lambda>c. c\<lparr>player_id := 0\<rparr>) (sess pm a) else sess pm a))"
proof (cases "m_mapAllPlayer_Online pm p")
  case None
  then have "onPlayerLogoff pm p = Inr pm"
    using players_inv_getPlayerSession [OF assms, of p] by (simp add: onPlayerLogoff_def)
  then show ?thesis using assms None by (auto simp: fun_upd_idem)
next
  case (Some r)
  from assms Some obtain b e where b: "r = Some b" "sess pm b = Some e" "player_id e = p" "0 < p"
    by (rule players_inv_online)
  let ?pm = "pm\<lparr>sess := (sess pm)(b \<mapsto> e\<lparr>player_id := 0\<rparr>),
    m_mapAllPlayer_Online := (m_mapAllPlayer_Online pm)(p := None)\<rparr>"
  have "onPlayerLogoff pm p = Inr ?pm"
    using Some b by (simp add: onPlayerLogoff_def getPlayerSession_def set_player_def)
  moreover have "players_inv ?pm"
    unfolding players_inv_def
  proof (intro conjI allI impI)
    show "0 < q" if "m_mapAllPlayer_Online ?pm q \<noteq> None" for q
      using that assms unfolding players_inv_def by (auto split: if_splits)
    show "\<exists>x c. r = Some x \<and> sess ?pm x = Some c \<and> player_id c = q"
      if r: "m_mapAllPlayer_Online ?pm q = Some r" for q r
    proof -
      have "q \<noteq> p" "m_mapAllPlayer_Online pm q = Some r" using r by (auto split: if_splits)
      moreover from assms this(2) obtain x c where x: "r = Some x" "sess pm x = Some c" "player_id c = q"
        by (rule players_inv_online)
      ultimately show ?thesis using b(2,3) by (cases "x = b") auto
    qed
    show "m_mapAllPlayer_Online ?pm (player_id c) = Some (Some x)"
      if c: "sess ?pm x = Some c \<and> player_id c \<noteq> 0" for x c
    proof -
      have "x \<noteq> b" "sess pm x = Some c" using c by (auto split: if_splits)
      moreover from this c have "m_mapAllPlayer_Online pm (player_id c) = Some (Some x)"
        using players_inv_sess [OF assms] by blast
      ultimately show ?thesis using Some b(1) by (cases "player_id c = p") auto
    qed
  qed
  ultimately show ?thesis using Some b by auto
qed

theorem logoff_consistent_witness:
  "\<exists>pm'. onPlayerLogoff player_online 1001 = Inr pm' \<and> players_inv pm' \<and>
     m_mapAllPlayer_Online pm' 1001 = None"
  using logoff_consistent [OF player_online_inv, of 1001] by auto

text \<open>
  C38: in the server, closing a session reads freed memory.  \<open>removeSessionConn\<close> with the override
  \<open>PlayerManager::onSessionClose\<close> (and so \<open>closeConn\<close>) faults for every session that exists, since the
  hook reads the player of the object that was just deleted; for other ids nothing happens.
\<close>

theorem session_close_use_after_free:
  assumes "sessions_inv pm"
  shows "removeSessionConn PlayerManager_onSessionClose pm k =
      (if m_MapSessionConnInfo pm k = None then Inr pm else Inl Use_after_free) \<and>
    closeConn E PlayerManager_onSessionClose m pm k =
      (if m_MapSessionConnInfo pm k = None then Inr (m, pm) else Inl Use_after_free)"
  by (rule closing_session [OF assms])

theorem session_close_use_after_free_witness:
  "removeSessionConn PlayerManager_onSessionClose one_player 5 = Inl Use_after_free"
  using session_close_use_after_free [OF one_player_inv(2), of 5 sim_env one_thread] by simp

text \<open>
  C39: sending a protobuf message.  \<open>sendProtoToSession\<close> refuses ids that are not positive and an
  empty message, and it also refuses every message that serializes successfully: nothing is sent.
  Without a message it passes the 14 header bytes on to \<open>sendMsgToConn\<close>.
\<close>

theorem send_proto_cases:
  assumes "sessions_inv pm"
  shows "sendProtoToSession E m pm k mid err msg =
    (if k \<le> 0 then Inr (m, False)
     else case msg of
       None \<Rightarrow> if m_MapSessionConnInfo pm k = None then Inr (m, False) else Inl Out_of_bounds
     | Some g \<Rightarrow> if ByteSize g \<le> 0 \<or> fst (SerializeToArray g (ByteSize g)) then Inr (m, False)
         else bind_res (NewPacket mid err (Some (snd (SerializeToArray g (ByteSize g)))) (ByteSize g)) (\<lambda>p.
              sendMsgToConn E m pm k (data p) (message_len p)))"
proof (cases msg)
  case None
  obtain p where p: "NewPacket mid err None 0 = Inr p" "data p = Some (bytes p)"
      "message_len p = 14" "length (bytes p) = 256"
    by (simp add: NewPacket_def Packet_of_code_eq bytes_def)
  have "sendMsgToConn E m pm k (Some (bytes p)) 14 =
      (if m_MapSessionConnInfo pm k = None then Inr (m, False) else Inl Out_of_bounds)"
    using sendMsgToConn_cases [OF assms, of 14 "bytes p" E m k] p(4) by simp
  then show ?thesis using None p by (simp add: sendProtoToSession_def)
next
  case (Some g)
  then show ?thesis
    by (auto simp: sendProtoToSession_def NewPacket_def Packet_of_code_eq Let_def bind_res_assoc)
qed

theorem send_proto_cases_witness:
  "sendProtoToSession sim_env one_thread one_player 5 0 0
     (Some \<lparr>ByteSize = 2, SerializeToArray = (\<lambda>n. (True, [Some 8, Some 1]))\<rparr>) = Inr (one_thread, False)"
  using send_proto_cases [OF one_player_inv(2), of sim_env one_thread 5 0 0
      "Some \<lparr>ByteSize = 2, SerializeToArray = (\<lambda>n. (True, [Some 8, Some 1]))\<rparr>"] by simp

end
