(* ===== verification/MessageHandler.thy ===== *)
theory MessageHandler
  imports PlayerManager
begin

text \<open>
  Dispatch of the packets that arrive: \<open>oryx/Action.h\<close>, \<open>oryx/MessageHandler.h\<close>,
  \<open>oryx/MessageHandler.cpp\<close> and the only action with a body, \<open>logic/TestAction.cpp\<close>.  An action is
  its virtual \<open>processMessage\<close>, a function on the world \<open>'w\<close> it may change; the map holds pointers
  to actions, so \<open>Some None\<close> is a stored \<open>NULL\<close>.  The packet is allocated by the call; the result
  carries the packets that are still allocated when it returns.
\<close>

section \<open>Codes\<close>

datatype ActionResult =
    RESULT_SUCCESS
  | RESULT_ASYNC_WAIT
  | RESULT_UNKNOWNMESSAGE
  | RESULT_PARSEERROR
  | RESULT_SESSION_CLOSED
  | RESULT_MAX

datatype MESSAGE_ID =
    MSGID_HEART_BEAT
  | MSGID_LOGIN_C
  | MSGID_LOGIN_S
  | MSGID_LOGOFF_C
  | MSGID_LOGOFF_S
  | MSGID_FORCE_QUIT_NTF

fun MESSAGE_ID_value :: "MESSAGE_ID \<Rightarrow> int" where
  "MESSAGE_ID_value MSGID_HEART_BEAT = 0"
| "MESSAGE_ID_value MSGID_LOGIN_C = 101"
| "MESSAGE_ID_value MSGID_LOGIN_S = 102"
| "MESSAGE_ID_value MSGID_LOGOFF_C = 103"
| "MESSAGE_ID_value MSGID_LOGOFF_S = 104"
| "MESSAGE_ID_value MSGID_FORCE_QUIT_NTF = 105"

definition MESSAGE_ID_IsValid :: "int \<Rightarrow> bool" where
  "MESSAGE_ID_IsValid v \<longleftrightarrow> v = 0 \<or> v = 101 \<or> v = 102 \<or> v = 103 \<or> v = 104 \<or> v = 105"

definition RESULT_ID_IsValid :: "int \<Rightarrow> bool" where
  "RESULT_ID_IsValid v \<longleftrightarrow> v = 0 \<or> v = 101 \<or> v = 102 \<or> v = 103 \<or> v = 104"

text \<open>\<open>IsValid\<close> is the range of the enumeration, and each value belongs to one constant.\<close>

lemma MESSAGE_ID_IsValid_range: "MESSAGE_ID_IsValid v \<longleftrightarrow> (\<exists>m. MESSAGE_ID_value m = v)"
proof
  assume "MESSAGE_ID_IsValid v"
  then show "\<exists>m. MESSAGE_ID_value m = v"
    unfolding MESSAGE_ID_IsValid_def by (metis MESSAGE_ID_value.simps)
next
  assume "\<exists>m. MESSAGE_ID_value m = v"
  then obtain m where "MESSAGE_ID_value m = v" by blast
  then show "MESSAGE_ID_IsValid v" by (cases m) (auto simp: MESSAGE_ID_IsValid_def)
qed

lemma RESULT_ID_IsValid_range: "RESULT_ID_IsValid v \<longleftrightarrow> (\<exists>m. RESULT_ID_value m = v)"
proof
  assume "RESULT_ID_IsValid v"
  then show "\<exists>m. RESULT_ID_value m = v"
    unfolding RESULT_ID_IsValid_def by (metis RESULT_ID_value.simps)
next
  assume "\<exists>m. RESULT_ID_value m = v"
  then obtain m where "RESULT_ID_value m = v" by blast
  then show "RESULT_ID_IsValid v" by (cases m) (auto simp: RESULT_ID_IsValid_def)
qed

section \<open>The handler map\<close>

type_synonym 'w action = "'w \<Rightarrow> packet \<Rightarrow> int \<Rightarrow> ('w \<times> ActionResult) res"

record 'w MessageHandler =
  m_mapFun :: "int \<rightharpoonup> 'w action option"

definition new_MessageHandler :: "'w MessageHandler" where
  "new_MessageHandler = \<lparr>m_mapFun = Map.empty\<rparr>"

definition MessageHandler_init :: "'w MessageHandler \<Rightarrow> bool" where
  "MessageHandler_init h = True"

definition registerHandlerFun :: "'w MessageHandler \<Rightarrow> int \<Rightarrow> 'w action option \<Rightarrow> 'w MessageHandler \<times> bool" where
  "registerHandlerFun h messageID act =
     (if act = None then (h, False)
      else (h\<lparr>m_mapFun := (m_mapFun h)(messageID \<mapsto> act)\<rparr>, True))"

text \<open>
  \<open>processMessage\<close> on the session id, size and data pointer of the task.  The packet is deleted
  before the last log line, which reads its \<open>operatecode\<close>.
\<close>

definition processMessage :: "'w MessageHandler \<Rightarrow> 'w \<Rightarrow> (int \<times> int \<times> mem option) option \<Rightarrow>
    ('w MessageHandler \<times> 'w \<times> packet list \<times> ActionResult) res" where
  "processMessage h w pConnMsg =
     (case pConnMsg of
        None \<Rightarrow> Inr (h, w, [], RESULT_PARSEERROR)
      | Some (sid, data_size, data_packet) \<Rightarrow>
          if data_packet = None then Inr (h, w, [], RESULT_PARSEERROR)
          else
            bind_res (NewPacketFromBytes data_packet data_size) (\<lambda>r.
              case r of
                None \<Rightarrow> Inr (h, w, [], RESULT_PARSEERROR)
              | Some p \<Rightarrow>
                  (case m_mapFun h (operatecode p) of
                     None \<Rightarrow> Inr (h, w, [p], RESULT_UNKNOWNMESSAGE)
                   | Some None \<Rightarrow>
                       Inr (h\<lparr>m_mapFun := (m_mapFun h)(operatecode p := None)\<rparr>, w, [p],
                            RESULT_UNKNOWNMESSAGE)
                   | Some (Some act) \<Rightarrow>
                       bind_res (act w p sid) (\<lambda>(w, result).
                       let live = (if result \<noteq> RESULT_ASYNC_WAIT then [] else [p]) in
                       bind_res
                         (if result \<noteq> RESULT_SUCCESS \<and> result \<noteq> RESULT_ASYNC_WAIT
                          then (case live of [] \<Rightarrow> Inl Use_after_free | q # qs \<Rightarrow> Inr (operatecode q))
                          else Inr 0)
                         (\<lambda>logged. Inr (h, w, live, result))))))"

section \<open>The test action\<close>

text \<open>The switch over the message ids has no effect in any branch.\<close>

definition TestAction_processMessage :: "'z ClientConnManager_scheme action" where
  "TestAction_processMessage cm p sessionID =
     (if \<not> MESSAGE_ID_IsValid (operatecode p) then Inr (cm, RESULT_PARSEERROR)
      else
        (case getSession_BySessionID cm sessionID of
           None \<Rightarrow> Inr (cm, RESULT_SESSION_CLOSED)
         | Some a \<Rightarrow> bind_res (heap_get (sess cm) a) (\<lambda>c. Inr (cm, RESULT_SUCCESS))))"

definition TestAction_initAction ::
    "'z ClientConnManager_scheme MessageHandler \<Rightarrow> 'z ClientConnManager_scheme MessageHandler" where
  "TestAction_initAction h =
     fst (registerHandlerFun h (MESSAGE_ID_value MSGID_HEART_BEAT) (Some TestAction_processMessage))"

text \<open>What the server runs with: the test action on the heartbeat, nothing else.\<close>

definition server_handler :: "'z ClientConnManager_scheme MessageHandler" where
  "server_handler = TestAction_initAction new_MessageHandler"

lemma server_handler_map: "m_mapFun server_handler = [0 \<mapsto> Some TestAction_processMessage]"
  by (simp add: server_handler_def TestAction_initAction_def registerHandlerFun_def new_MessageHandler_def)

section \<open>Lemmas\<close>

text \<open>A packet that parses, up to the lookup of its handler.\<close>

lemma processMessage_parsed:
  assumes "NewPacketFromBytes (Some d) n = Inr (Some p)"
  shows "processMessage h w (Some (sid, n, Some d)) =
    (case m_mapFun h (operatecode p) of
       None \<Rightarrow> Inr (h, w, [p], RESULT_UNKNOWNMESSAGE)
     | Some None \<Rightarrow> Inr (h\<lparr>m_mapFun := (m_mapFun h)(operatecode p := None)\<rparr>, w, [p], RESULT_UNKNOWNMESSAGE)
     | Some (Some act) \<Rightarrow>
         (case act w p sid of
            Inl e \<Rightarrow> Inl e
          | Inr (w', RESULT_SUCCESS) \<Rightarrow> Inr (h, w', [], RESULT_SUCCESS)
          | Inr (w', RESULT_ASYNC_WAIT) \<Rightarrow> Inr (h, w', [p], RESULT_ASYNC_WAIT)
          | _ \<Rightarrow> Inl Use_after_free))"
  using assms
  by (auto simp: processMessage_def bind_res_def Let_def split: option.splits sum.splits ActionResult.splits)

lemma processMessage_short:
  "n < 14 \<Longrightarrow> processMessage h w (Some (sid, n, d)) = Inr (h, w, [], RESULT_PARSEERROR)"
  by (cases d) (simp_all add: processMessage_def NewPacketFromBytes_def)

lemma processMessage_no_data:
  "processMessage h w (Some (sid, n, None)) = Inr (h, w, [], RESULT_PARSEERROR)"
  by (simp add: processMessage_def)

lemma TestAction_cases:
  assumes "sessions_inv cm" "MESSAGE_ID_IsValid (operatecode p)"
  shows "TestAction_processMessage cm p sid =
    Inr (cm, if m_MapSessionConnInfo cm sid = None then RESULT_SESSION_CLOSED else RESULT_SUCCESS)"
proof (cases "m_MapSessionConnInfo cm sid")
  case None
  then show ?thesis using assms(2)
    by (simp add: TestAction_processMessage_def getSession_BySessionID_def)
next
  case (Some a)
  then obtain c where "sess cm a = Some c" using sessions_inv_map [OF assms(1)] by blast
  then show ?thesis using Some assms(2)
    by (simp add: TestAction_processMessage_def getSession_BySessionID_def)
qed

lemma server_dispatch:
  assumes "14 \<le> length bs" and "int (length bs) \<le> 1073741824" and "take (length bs) d = map Some bs"
    and "sessions_inv cm"
  shows "(if field_at bs 6 \<noteq> 0
     then \<exists>p. operatecode p = field_at bs 6 \<and>
       processMessage server_handler cm (Some (sid, int (length bs), Some d)) =
         Inr (server_handler, cm, [p], RESULT_UNKNOWNMESSAGE)
     else processMessage server_handler cm (Some (sid, int (length bs), Some d)) =
       (if m_MapSessionConnInfo cm sid = None then Inl Use_after_free
        else Inr (server_handler, cm, [], RESULT_SUCCESS)))"
proof -
  from NewPacketFromBytes_ok [OF assms(1-3)] obtain p where
    p: "NewPacketFromBytes (Some d) (int (length bs)) = Inr (Some p)" "operatecode p = field_at bs 6"
    by blast
  have "MESSAGE_ID_IsValid 0" by (simp add: MESSAGE_ID_IsValid_def)
  then show ?thesis
    using p(2) TestAction_cases [OF assms(4), of p sid]
    by (auto simp: processMessage_parsed [OF p(1)] server_handler_map)
qed

section \<open>Properties\<close>


text \<open>A heartbeat as the client sends it: header only, length 14.\<close>

definition heartbeat_bytes :: "byte list" where
  "heartbeat_bytes = [0, 0, 0, 14, 0, 0, 0, 0, 0, 0, 0, 0, 0, 0]"

lemma field_at_heartbeat: "field_at heartbeat_bytes 6 = 0"
  by (simp add: field_at_def heartbeat_bytes_def un_be32_def)


text \<open>
  What the server does with a message.  It has one action, for the heartbeat.  On consistent
  session data a message with code 0 succeeds if its session is open, and leaves nothing allocated;
  if the session is gone, the handler faults (it logs from the deleted packet); a message with any
  other code, the login among them, is unknown and leaks its packet.  The sessions are never changed.
\<close>

theorem heartbeat_dispatch:
  assumes "14 \<le> length bs" and "int (length bs) \<le> 1073741824" and "take (length bs) d = map Some bs"
    and "sessions_inv cm"
  shows "(if field_at bs 6 \<noteq> 0
     then \<exists>p. operatecode p = field_at bs 6 \<and>
       processMessage server_handler cm (Some (sid, int (length bs), Some d)) =
         Inr (server_handler, cm, [p], RESULT_UNKNOWNMESSAGE)
     else processMessage server_handler cm (Some (sid, int (length bs), Some d)) =
       (if m_MapSessionConnInfo cm sid = None then Inl Use_after_free
        else Inr (server_handler, cm, [], RESULT_SUCCESS)))"
  by (rule server_dispatch [OF assms])

theorem heartbeat_dispatch_witness:
  "processMessage server_handler one_session (Some (5, 14, Some (map Some heartbeat_bytes))) =
     Inr (server_handler, one_session, [], RESULT_SUCCESS) \<and>
   processMessage server_handler one_session (Some (6, 14, Some (map Some heartbeat_bytes))) =
     Inl Use_after_free"
  using heartbeat_dispatch [OF _ _ _ one_session_inv, of heartbeat_bytes "map Some heartbeat_bytes" 5]
    heartbeat_dispatch [OF _ _ _ one_session_inv, of heartbeat_bytes "map Some heartbeat_bytes" 6]
    field_at_heartbeat
  by (simp add: heartbeat_bytes_def)

end
