(* ===== verification/TimerControl.thy ===== *)
theory TimerControl
  imports Prelude
begin

text \<open>
  The timers of the main loop: \<open>oryx/TimerControl.h\<close> and \<open>oryx/TimerControl.cpp\<close>.  A timer calls
  its function with the time in milliseconds; the function may change the world \<open>'w\<close>.  The vector of
  pointers is a list of values: the objects have no other owner and are never deleted.
\<close>

section \<open>State and operations\<close>

type_synonym TIMEVAL = "int \<times> int"

record 'w TimerFunInfo =
  timeval_fun :: "('w \<Rightarrow> int \<Rightarrow> 'w res) option"
  interval :: int
  lastRunTime :: int

record 'w TimerControl =
  m_lastRunTime :: TIMEVAL
  m_nowTime :: TIMEVAL
  m_vecTimerFun :: "'w TimerFunInfo list"

definition new_TimerControl :: "('w \<Rightarrow> 'w \<times> TIMEVAL) \<Rightarrow> 'w \<Rightarrow> 'w \<times> 'w TimerControl" where
  "new_TimerControl gettimeofday w =
     (case gettimeofday w of
        (w, tv) \<Rightarrow> (w, \<lparr>m_lastRunTime = tv, m_nowTime = (0, 0), m_vecTimerFun = []\<rparr>))"

definition register_timerFun :: "('w, 'z) TimerControl_scheme \<Rightarrow> ('w \<Rightarrow> int \<Rightarrow> 'w res) option \<Rightarrow> int \<Rightarrow>
    ('w, 'z) TimerControl_scheme" where
  "register_timerFun tc f iv =
     tc\<lparr>m_vecTimerFun := m_vecTimerFun tc @ [\<lparr>timeval_fun = f, interval = iv, lastRunTime = 0\<rparr>]\<rparr>"

text \<open>One timer of the loop: the timer, the world and whether it ran.\<close>

definition update_timer :: "int \<Rightarrow> 'w TimerFunInfo \<Rightarrow> 'w \<Rightarrow> ('w TimerFunInfo \<times> 'w \<times> bool) res" where
  "update_timer now t w =
     (case timeval_fun t of
        None \<Rightarrow> Inr (t, w, False)
      | Some f \<Rightarrow>
          bind_res (i64 (lastRunTime t + interval t)) (\<lambda>due.
          if now \<ge> due then
            bind_res (f w now) (\<lambda>w.
            bind_res (i64 (now - lastRunTime t)) (\<lambda>addVal.
            bind_res (c_mod addVal (interval t)) (\<lambda>r.
            bind_res (i64 (addVal - r)) (\<lambda>addVal.
            bind_res (i64 (lastRunTime t + addVal)) (\<lambda>l.
            Inr (t\<lparr>lastRunTime := l\<rparr>, w, True))))))
          else if now < lastRunTime t then Inr (t\<lparr>lastRunTime := 0\<rparr>, w, False)
          else Inr (t, w, False)))"

fun update_timers :: "int \<Rightarrow> 'w TimerFunInfo list \<Rightarrow> 'w \<Rightarrow> int \<Rightarrow> ('w TimerFunInfo list \<times> 'w \<times> int) res" where
  "update_timers now [] w timerNums = Inr ([], w, timerNums)"
| "update_timers now (t # ts) w timerNums =
     bind_res (update_timer now t w) (\<lambda>(t, w, ran).
     bind_res (i32 (timerNums + (if ran then 1 else 0))) (\<lambda>timerNums.
     bind_res (update_timers now ts w timerNums) (\<lambda>(ts, w, timerNums).
     Inr (t # ts, w, timerNums))))"

definition milliseconds :: "TIMEVAL \<Rightarrow> int res" where
  "milliseconds tv =
     bind_res (i64 (fst tv * 1000)) (\<lambda>a.
     bind_res (c_div (snd tv) 1000) (\<lambda>b. i64 (a + b)))"

text \<open>\<open>update\<close>; the functions of the timers act on the world whose clock is read.\<close>

definition TimerControl_update :: "('w \<Rightarrow> 'w \<times> TIMEVAL) \<Rightarrow> ('w, 'z) TimerControl_scheme \<Rightarrow> 'w \<Rightarrow>
    (('w, 'z) TimerControl_scheme \<times> 'w \<times> int) res" where
  "TimerControl_update gettimeofday tc w =
     (let tc = tc\<lparr>m_lastRunTime := m_nowTime tc\<rparr> in
      case gettimeofday w of
        (w, tv) \<Rightarrow>
          let tc = tc\<lparr>m_nowTime := tv\<rparr> in
          bind_res (milliseconds tv) (\<lambda>now.
          bind_res (update_timers now (m_vecTimerFun tc) w 0) (\<lambda>(ts, w, timerNums).
          Inr (tc\<lparr>m_vecTimerFun := ts\<rparr>, w, timerNums))))"

section \<open>The schedule\<close>

text \<open>
  A timer is on schedule at a time when its last run is the start of the period that holds it.  It
  is due at a later time when another period has begun since.
\<close>

definition on_schedule :: "int \<Rightarrow> 'w TimerFunInfo \<Rightarrow> bool" where
  "on_schedule t0 t \<longleftrightarrow> 0 < interval t \<and> interval t \<le> 2 ^ 61 \<and>
     (timeval_fun t \<noteq> None \<longrightarrow> lastRunTime t = t0 div interval t * interval t)"

definition timer_due :: "int \<Rightarrow> int \<Rightarrow> 'w TimerFunInfo \<Rightarrow> bool" where
  "timer_due t0 now t \<longleftrightarrow> timeval_fun t \<noteq> None \<and> t0 div interval t < now div interval t"

definition settle :: "int \<Rightarrow> 'w TimerFunInfo \<Rightarrow> 'w TimerFunInfo" where
  "settle now t = (if timeval_fun t = None then t else t\<lparr>lastRunTime := now div interval t * interval t\<rparr>)"

fun run_due :: "int \<Rightarrow> 'w TimerFunInfo list \<Rightarrow> 'w \<Rightarrow> 'w res" where
  "run_due now [] w = Inr w"
| "run_due now (t # ts) w =
     bind_res (case timeval_fun t of None \<Rightarrow> Inr w | Some f \<Rightarrow> f w now) (run_due now ts)"

lemma settle_on_schedule: "on_schedule t0 t \<Longrightarrow> on_schedule now (settle now t)"
  by (auto simp: on_schedule_def settle_def)

text \<open>The arithmetic of one timer: due exactly when a period has begun, and back at a period start.\<close>

lemma schedule_arith:
  fixes iv :: int
  assumes "0 < iv" "0 \<le> t0" "t0 \<le> now"
  shows "t0 div iv * iv + iv \<le> now \<longleftrightarrow> t0 div iv < now div iv"
    and "now - (now - t0 div iv * iv) mod iv = now div iv * iv"
    and "t0 div iv * iv \<le> t0"
proof -
  have le: "x div iv * iv \<le> x" for x
    using minus_mod_eq_div_mult [of x iv] assms(1) pos_mod_sign [of iv x] by linarith
  have e: "t0 div iv * iv + iv = (t0 div iv + 1) * iv" by (simp add: algebra_simps)
  show "t0 div iv * iv + iv \<le> now \<longleftrightarrow> t0 div iv < now div iv"
  proof
    assume "t0 div iv * iv + iv \<le> now"
    then have "(t0 div iv + 1) * iv div iv \<le> now div iv"
      unfolding e using assms(1) by (rule zdiv_mono1)
    then show "t0 div iv < now div iv" using assms(1) by simp
  next
    assume "t0 div iv < now div iv"
    then have "(t0 div iv + 1) * iv \<le> now div iv * iv"
      using assms(1) by (intro mult_right_mono) simp_all
    then show "t0 div iv * iv + iv \<le> now" unfolding e using le [of now] by linarith
  qed
  have "(now - t0 div iv * iv) mod iv = now mod iv"
    using mod_mult_self1 [of now "- (t0 div iv)" iv] by (simp add: algebra_simps)
  then show "now - (now - t0 div iv * iv) mod iv = now div iv * iv"
    by (simp add: minus_mod_eq_div_mult)
  show "t0 div iv * iv \<le> t0" by (rule le)
qed

lemma schedule_range:
  assumes "0 \<le> l" "l \<le> now" "0 \<le> r" "r \<le> now - l" "0 < iv" "iv \<le> 2 ^ 61" "now \<le> 2 ^ 61"
  shows "in_i64 (l + iv) \<and> in_i64 (now - l) \<and> in_i64 (now - l - r) \<and> in_i64 (l + (now - l - r))"
  using assms by (simp add: in_i64_def)

text \<open>One timer on schedule, in the range where the arithmetic does not overflow (some 70 million years).\<close>

lemma update_timer_on_schedule:
  assumes t: "on_schedule t0 t" and now: "0 \<le> t0" "t0 \<le> now" "now \<le> 2 ^ 61"
  shows "update_timer now t w =
    (if timer_due t0 now t
     then bind_res (the (timeval_fun t) w now) (\<lambda>w. Inr (settle now t, w, True))
     else Inr (settle now t, w, False))"
proof (cases "timeval_fun t")
  case None
  then show ?thesis by (simp add: update_timer_def timer_due_def settle_def)
next
  case (Some f)
  let ?l = "t0 div interval t * interval t"
  have iv: "0 < interval t" "interval t \<le> 2 ^ 61" "lastRunTime t = ?l"
    using t Some by (auto simp: on_schedule_def)
  note ar = schedule_arith [OF iv(1) now(1,2)]
  have l0: "0 \<le> ?l" using iv(1) now(1) by (simp add: pos_imp_zdiv_nonneg_iff)
  have m: "0 \<le> (now - ?l) mod interval t" "(now - ?l) mod interval t \<le> now - ?l"
    using iv(1) ar(3) now(2) by (simp_all add: zmod_le_nonneg_dividend)
  have i: "in_i64 (?l + interval t)" "in_i64 (now - ?l)" "in_i64 (now - ?l - (now - ?l) mod interval t)"
    "in_i64 (?l + (now - ?l - (now - ?l) mod interval t))"
    using schedule_range [OF l0 _ m iv(1,2) now(3)] ar(3) now(2) by simp_all
  have e: "?l + (now - ?l - (now - ?l) mod interval t) = now div interval t * interval t"
    using ar(2) by linarith
  have c: "c_mod (now - ?l) (interval t) = Inr ((now - ?l) mod interval t)"
    using iv(1) ar(3) now(2) by (simp add: c_mod_nonneg)
  show ?thesis
  proof (cases "?l + interval t \<le> now")
    case True
    then have "timer_due t0 now t" using ar(1) Some by (simp add: timer_due_def)
    then show ?thesis using True i c e Some
      by (simp add: update_timer_def iv(3) settle_def)
  next
    case False
    then have nd: "\<not> t0 div interval t < now div interval t" using ar(1) by simp
    then have "t0 div interval t = now div interval t"
      using zdiv_mono1 [OF now(2) iv(1)] by simp
    then have "settle now t = t" using iv(3) Some by (simp add: settle_def)
    then show ?thesis using False i(1) Some nd ar(3) now(2)
      by (simp add: update_timer_def iv(3) timer_due_def)
  qed
qed

text \<open>The loop over the timers.\<close>

lemma update_timers_on_schedule:
  assumes "0 \<le> t0" "t0 \<le> now" "now \<le> 2 ^ 61"
  shows "\<forall>t\<in>set ts. on_schedule t0 t \<Longrightarrow> 0 \<le> n \<Longrightarrow> n + int (length ts) \<le> 2147483647 \<Longrightarrow>
    update_timers now ts w n =
      bind_res (run_due now (filter (timer_due t0 now) ts) w) (\<lambda>w.
      Inr (map (settle now) ts, w, n + int (length (filter (timer_due t0 now) ts))))"
proof (induction ts arbitrary: w n)
  case Nil
  then show ?case by simp
next
  case (Cons t ts)
  have t: "on_schedule t0 t" using Cons.prems(1) by simp
  have rest: "update_timers now ts w m =
      bind_res (run_due now (filter (timer_due t0 now) ts) w) (\<lambda>w.
      Inr (map (settle now) ts, w, m + int (length (filter (timer_due t0 now) ts))))"
    if "m = n \<or> m = n + 1" for w m
    using Cons.IH [of m w] Cons.prems that by auto
  have i: "in_i32 n" "in_i32 (n + 1)" using Cons.prems by (auto simp: in_i32_def)
  show ?case
  proof (cases "timer_due t0 now t")
    case True
    then obtain f where f: "timeval_fun t = Some f" by (auto simp: timer_due_def)
    show ?thesis
    proof (cases "f w now")
      case (Inl e)
      then show ?thesis using True f update_timer_on_schedule [OF t assms, of w] by simp
    next
      case (Inr w')
      then show ?thesis using True f i(2) update_timer_on_schedule [OF t assms, of w] rest [of "n + 1" w']
        by (cases "run_due now (filter (timer_due t0 now) ts) w'") simp_all
    qed
  next
    case False
    then show ?thesis using i(1) update_timer_on_schedule [OF t assms, of w] rest [of n w]
      by (cases "run_due now (filter (timer_due t0 now) ts) w") simp_all
  qed
qed

text \<open>
  Whatever the clock does in the range, the loop goes through if the functions do, and the last runs stay in the range.
\<close>

definition timer_in_range :: "'w TimerFunInfo \<Rightarrow> bool" where
  "timer_in_range t \<longleftrightarrow> 0 < interval t \<and> interval t \<le> 2 ^ 61 \<and> 0 \<le> lastRunTime t \<and> lastRunTime t \<le> 2 ^ 61"

lemma update_timer_in_range:
  assumes t: "timer_in_range t" and now: "now \<le> 2 ^ 61"
    and f: "\<forall>f w. timeval_fun t = Some f \<longrightarrow> (\<exists>w'. f w now = Inr w')"
  shows "\<exists>l w' ran. update_timer now t w = Inr (t\<lparr>lastRunTime := l\<rparr>, w', ran) \<and> 0 \<le> l \<and> l \<le> 2 ^ 61"
proof (cases "timeval_fun t")
  case None
  then show ?thesis using t
    by - (rule exI [of _ "lastRunTime t"], auto simp: update_timer_def timer_in_range_def)
next
  case (Some g)
  have i: "in_i64 (lastRunTime t + interval t)" using t by (simp add: timer_in_range_def in_i64_def)
  show ?thesis
  proof (cases "lastRunTime t + interval t \<le> now")
    case True
    let ?d = "now - lastRunTime t"
    have d: "0 < interval t" "0 \<le> ?d" using t True by (simp_all add: timer_in_range_def)
    then have m: "0 \<le> ?d mod interval t" "?d mod interval t \<le> ?d" by (simp_all add: zmod_le_nonneg_dividend)
    have r: "0 \<le> lastRunTime t" "lastRunTime t \<le> now" "interval t \<le> 2 ^ 61"
      using t d(2) by (simp_all add: timer_in_range_def)
    note rng = schedule_range [OF r(1,2) m d(1) r(3) now]
    obtain w' where w': "g w now = Inr w'" using f Some by blast
    have "update_timer now t w = Inr (t\<lparr>lastRunTime := lastRunTime t + (?d - ?d mod interval t)\<rparr>, w', True)"
      using Some True i w' rng c_mod_nonneg [OF d(2,1)] by (simp add: update_timer_def)
    moreover have "0 \<le> lastRunTime t + (?d - ?d mod interval t)" "lastRunTime t + (?d - ?d mod interval t) \<le> 2 ^ 61"
      using m r(1) now by linarith+
    ultimately show ?thesis by blast
  next
    case False
    show ?thesis
    proof (cases "now < lastRunTime t")
      case True
      then show ?thesis using Some False i
        by - (rule exI [of _ 0], auto simp: update_timer_def)
    next
      case False
      then show ?thesis using Some \<open>\<not> lastRunTime t + interval t \<le> now\<close> i t
        by - (rule exI [of _ "lastRunTime t"], auto simp: update_timer_def timer_in_range_def)
    qed
  qed
qed

lemma update_timers_in_range:
  assumes now: "now \<le> 2 ^ 61"
  shows "\<forall>t\<in>set ts. timer_in_range t \<and> (\<forall>f w. timeval_fun t = Some f \<longrightarrow> (\<exists>w'. f w now = Inr w')) \<Longrightarrow>
    0 \<le> n \<Longrightarrow> n + int (length ts) \<le> 2147483647 \<Longrightarrow>
    \<exists>ts' w' n'. update_timers now ts w n = Inr (ts', w', n') \<and>
      map timeval_fun ts' = map timeval_fun ts \<and> (\<forall>t\<in>set ts'. timer_in_range t)"
proof (induction ts arbitrary: w n)
  case Nil
  then show ?case by simp
next
  case (Cons t ts)
  have t: "timer_in_range t" "\<forall>f w. timeval_fun t = Some f \<longrightarrow> (\<exists>w'. f w now = Inr w')"
    using Cons.prems(1) by auto
  from update_timer_in_range [OF t(1) now t(2), of w] obtain l w1 ran where
    u: "update_timer now t w = Inr (t\<lparr>lastRunTime := l\<rparr>, w1, ran)" "0 \<le> l" "l \<le> 2 ^ 61" by blast
  let ?n = "n + (if ran then 1 else 0)"
  have n: "in_i32 ?n" "0 \<le> ?n" "?n + int (length ts) \<le> 2147483647"
    using Cons.prems(2,3) by (auto simp: in_i32_def)
  from Cons.IH [of ?n w1] Cons.prems(1) n(2,3) obtain ts' w' n' where
    "update_timers now ts w1 ?n = Inr (ts', w', n')" "map timeval_fun ts' = map timeval_fun ts"
    "\<forall>t\<in>set ts'. timer_in_range t" by auto
  moreover have "timer_in_range (t\<lparr>lastRunTime := l\<rparr>)" using t(1) u(2,3) by (simp add: timer_in_range_def)
  ultimately show ?case using u(1) n(1)
    by - (rule exI [of _ "t\<lparr>lastRunTime := l\<rparr> # ts'"], rule exI [of _ w'], rule exI [of _ n'], simp)
qed

section \<open>Properties\<close>

text \<open>
  C18: the timer loop runs to schedule.  With every timer on schedule at a time \<open>t0\<close>, an update at a
  later time calls exactly the functions of those whose interval has begun a new period since
  \<open>t0\<close>, each once however many periods have passed, in the order of registration and with the time in milliseconds;
  it counts them, and afterwards every timer is on schedule at the new time.  A timer just
  registered is on schedule at time 0.
\<close>

theorem timer_update_schedule:
  assumes "0 \<le> t0" and "t0 \<le> now" and "now \<le> 2 ^ 61"
    and "gettimeofday w = (w1, sec, usec)" and "milliseconds (sec, usec) = Inr now"
    and "length (m_vecTimerFun tc) \<le> 2147483647"
    and "\<forall>t\<in>set (m_vecTimerFun tc). on_schedule t0 t"
  shows "TimerControl_update gettimeofday tc w =
      bind_res (run_due now (filter (timer_due t0 now) (m_vecTimerFun tc)) w1) (\<lambda>w'.
      Inr (tc\<lparr>m_lastRunTime := m_nowTime tc, m_nowTime := (sec, usec),
                  m_vecTimerFun := map (settle now) (m_vecTimerFun tc)\<rparr>, w',
           int (length (filter (timer_due t0 now) (m_vecTimerFun tc))))) \<and>
    (\<forall>t. t \<in> set (map (settle now) (m_vecTimerFun tc)) \<longrightarrow> on_schedule now t) \<and>
    (\<forall>f iv. 0 < iv \<and> iv \<le> 2 ^ 61 \<longrightarrow>
       on_schedule 0 (last (m_vecTimerFun (register_timerFun tc f iv))))"
proof -
  have "update_timers now (m_vecTimerFun tc) w1 0 =
      bind_res (run_due now (filter (timer_due t0 now) (m_vecTimerFun tc)) w1) (\<lambda>w.
      Inr (map (settle now) (m_vecTimerFun tc), w,
           int (length (filter (timer_due t0 now) (m_vecTimerFun tc)))))"
    using update_timers_on_schedule [OF assms(1-3,7), of 0 w1] assms(6) by simp
  then have "TimerControl_update gettimeofday tc w =
      bind_res (run_due now (filter (timer_due t0 now) (m_vecTimerFun tc)) w1) (\<lambda>w'.
      Inr (tc\<lparr>m_lastRunTime := m_nowTime tc, m_nowTime := (sec, usec),
                  m_vecTimerFun := map (settle now) (m_vecTimerFun tc)\<rparr>, w',
           int (length (filter (timer_due t0 now) (m_vecTimerFun tc)))))"
    using assms(4,5) by (simp add: TimerControl_update_def Let_def bind_res_assoc)
  then show ?thesis using assms(7) settle_on_schedule
    by (auto simp: register_timerFun_def on_schedule_def [of 0])
qed

text \<open>Two timers of 1 and 2 seconds that count, last updated at 3.5 seconds; an update at 4.1 seconds.\<close>

definition two_timers :: "nat TimerControl" where
  "two_timers = \<lparr>m_lastRunTime = (0, 0), m_nowTime = (3, 500000), m_vecTimerFun =
     [\<lparr>timeval_fun = Some (\<lambda>w t. Inr (w + 1)), interval = 1000, lastRunTime = 3000\<rparr>,
      \<lparr>timeval_fun = Some (\<lambda>w t. Inr (w + 10)), interval = 2000, lastRunTime = 2000\<rparr>]\<rparr>"

theorem timer_update_schedule_witness:
  "\<exists>tc'. TimerControl_update (\<lambda>w. (w, 4, 100000)) two_timers 0 = Inr (tc', 11, 2) \<and> map lastRunTime (m_vecTimerFun tc') = [4000, 4000]"
proof -
  have m: "milliseconds (4, 100000) = Inr 4100"
    by (simp add: milliseconds_def c_div_def in_i64_def)
  have on: "\<forall>t\<in>set (m_vecTimerFun two_timers). on_schedule 3500 t"
    by (simp add: two_timers_def on_schedule_def)
  show ?thesis
    using timer_update_schedule [of 3500 4100 "\<lambda>w. (w, 4, 100000)" 0 0 4 100000 two_timers, OF _ _ _ _ m _ on]
    by (simp add: two_timers_def timer_due_def settle_def)
qed

text \<open>
  Outside the schedule.  A timer registered with interval 0 runs its function and then divides by
  zero.  When the clock is behind the last run, the timer does not run and its last run
  becomes 0, so that the next update runs it at any time of at least one interval, in whatever part of a period that
  is, and puts it back on schedule.
\<close>

theorem timer_edge_cases:
  assumes "0 \<le> l" and "l \<le> now" and "now \<le> 2 ^ 61" and "back < l"
    and "0 < iv" and "iv \<le> next_now" and "next_now \<le> 2 ^ 61"
  shows "update_timer now \<lparr>timeval_fun = Some f, interval = 0, lastRunTime = l\<rparr> w =
      bind_res (f w now) (\<lambda>w. Inl Div_by_zero) \<and>
    update_timer back \<lparr>timeval_fun = Some f, interval = iv, lastRunTime = l\<rparr> w =
      Inr (\<lparr>timeval_fun = Some f, interval = iv, lastRunTime = 0\<rparr>, w, False) \<and>
    update_timer next_now \<lparr>timeval_fun = Some f, interval = iv, lastRunTime = 0\<rparr> w =
      bind_res (f w next_now) (\<lambda>w.
      Inr (\<lparr>timeval_fun = Some f, interval = iv, lastRunTime = next_now div iv * iv\<rparr>, w, True))"
proof -
  have "in_i64 l" "in_i64 (now - l)" "in_i64 (l + iv)" using assms by (simp_all add: in_i64_def)
  moreover have "on_schedule 0 \<lparr>timeval_fun = Some f, interval = iv, lastRunTime = 0\<rparr>"
    using assms by (simp add: on_schedule_def)
  moreover have "0 < next_now div iv" using assms(5,6) by (simp add: pos_imp_zdiv_pos_iff)
  ultimately show ?thesis
    using assms update_timer_on_schedule [of 0 "\<lparr>timeval_fun = Some f, interval = iv, lastRunTime = 0\<rparr>" next_now w]
    by (simp add: timer_due_def settle_def update_timer_def c_mod_def)
qed

theorem timer_edge_cases_witness:
  "update_timer 5000 \<lparr>timeval_fun = Some (\<lambda>w t. Inr (w + 1)), interval = 0, lastRunTime = 4000\<rparr> (0::nat) =
     Inl Div_by_zero \<and>
   update_timer 3999 \<lparr>timeval_fun = Some (\<lambda>w t. Inr (w + 1)), interval = 1000, lastRunTime = 4000\<rparr> (0::nat) =
     Inr (\<lparr>timeval_fun = Some (\<lambda>w t. Inr (w + 1)), interval = 1000, lastRunTime = 0\<rparr>, 0, False)"
  using timer_edge_cases [of 4000 5000 3999 1000 3999 "\<lambda>w t. Inr (w + 1)" "0::nat"] by simp

end
