(* ===== verification/LogManager.thy ===== *)
theory LogManager
  imports Platform
begin

text \<open>
  Logging: \<open>oryx/LogManager.h\<close> and \<open>oryx/LogManager.cpp\<close>.  A log call opens the file of the current
  hour for appending, writes one line and closes it.  A C string is the list of its characters up to
  the terminator, \<open>None\<close> a null pointer; the variable argument list is the function \<open>ap\<close> from a
  format to the text that \<open>vfprintf\<close> makes of it.
\<close>

section \<open>Formatting\<close>

text \<open>\<open>%d\<close> and \<open>%0wd\<close>.\<close>

fun dec :: "nat \<Rightarrow> string" where
  "dec n = (if n < 10 then [char_of (48 + n)] else dec (n div 10) @ [char_of (48 + n mod 10)])"

declare dec.simps [simp del]

definition printf_0d :: "nat \<Rightarrow> int \<Rightarrow> string" where
  "printf_0d w n =
     (let ds = dec (nat \<bar>n\<bar>) in
      if n < 0 then CHR ''-'' # replicate (w - 1 - length ds) (CHR ''0'') @ ds
      else replicate (w - length ds) (CHR ''0'') @ ds)"

lemma length_dec: "n < 10 ^ k \<Longrightarrow> 0 < k \<Longrightarrow> length (dec n) \<le> k"
proof (induction n arbitrary: k rule: dec.induct)
  case (1 n)
  show ?case
  proof (cases "n < 10")
    case True
    then show ?thesis using 1(3) by (simp add: dec.simps)
  next
    case False
    then have "1 < k" using 1(2,3) by (cases k) (auto intro: ccontr)
    then have "length (dec (n div 10)) \<le> k - 1"
      using 1(1) [OF False, of "k - 1"] 1(2) by (cases k) (auto simp: div_less_iff_less_mult)
    then show ?thesis using False \<open>1 < k\<close> by (simp add: dec.simps [of n])
  qed
qed

lemma length_printf_0d: "0 \<le> n \<Longrightarrow> n < 10 ^ w \<Longrightarrow> 0 < w \<Longrightarrow> length (printf_0d w n) = w"
  using length_dec [of "nat n" w] by (simp add: printf_0d_def Let_def nat_less_iff)

section \<open>State\<close>

datatype LOG_LEVEL = LOG_LEVEL_DEBUG | LOG_LEVEL_INFO | LOG_LEVEL_WARN | LOG_LEVEL_ERROR

fun LOG_LEVEL_value :: "LOG_LEVEL \<Rightarrow> int" where
  "LOG_LEVEL_value LOG_LEVEL_DEBUG = 0"
| "LOG_LEVEL_value LOG_LEVEL_INFO = 1"
| "LOG_LEVEL_value LOG_LEVEL_WARN = 2"
| "LOG_LEVEL_value LOG_LEVEL_ERROR = 3"

definition MAX_FILE_NAME_SIZE :: nat where [simp]: "MAX_FILE_NAME_SIZE = 2048"

text \<open>\<open>init\<close> casts any integer to a level, so the threshold is an integer.\<close>

record Logger =
  file_name :: string
  max_log_type :: int
  isInit :: bool

definition new_Logger :: Logger where
  "new_Logger = \<lparr>file_name = [], max_log_type = 0, isInit = False\<rparr>"

definition Logger_init :: "Logger \<Rightarrow> string option \<Rightarrow> int \<Rightarrow> Logger \<times> bool" where
  "Logger_init lg filename logTypeMax =
     (case filename of
        None \<Rightarrow> (lg, False)
      | Some name \<Rightarrow>
          if length name \<ge> MAX_FILE_NAME_SIZE then (lg, False)
          else (lg\<lparr>file_name := name, max_log_type := logTypeMax, isInit := True\<rparr>, True))"

section \<open>One log line\<close>

text \<open>The pointer that walks back from the end of the path; it stops at index 0 without a test.\<close>

fun fileNameBegin :: "string \<Rightarrow> nat \<Rightarrow> nat" where
  "fileNameBegin f 0 = 0"
| "fileNameBegin f (Suc i) =
     (if (f @ [CHR 0x00]) ! Suc i = CHR ''/'' then Suc (Suc i) else fileNameBegin f i)"

definition base_name :: "string \<Rightarrow> string" where
  "base_name f = drop (fileNameBegin f (length f)) f"

text \<open>\<open>sprintf\<close> into a buffer of \<open>MAX_FILE_NAME_SIZE\<close> bytes.\<close>

definition log_file_name :: "string \<Rightarrow> tm \<Rightarrow> string res" where
  "log_file_name name t =
     bind_res (i32 (tm_year t + 1900)) (\<lambda>y.
     bind_res (i32 (tm_mon t + 1)) (\<lambda>mo.
     let n = name @ ''-'' @ printf_0d 4 y @ printf_0d 2 mo @ printf_0d 2 (tm_mday t) @
             ''-'' @ printf_0d 2 (tm_hour t) @ ''.log'' in
     if length n + 1 > MAX_FILE_NAME_SIZE then Inl Out_of_bounds else Inr n))"

definition log_prefix :: "tm \<Rightarrow> string \<Rightarrow> int \<Rightarrow> string" where
  "log_prefix t f line =
     ''<'' @ printf_0d 2 (tm_hour t) @ '':'' @ printf_0d 2 (tm_min t) @ '':'' @ printf_0d 2 (tm_sec t) @
     ''>['' @ base_name f @ '':'' @ printf_0d 0 line @ '']''"

definition Logger_log :: "('o, 'q) env \<Rightarrow> 'o \<Rightarrow> Logger \<Rightarrow> LOG_LEVEL \<Rightarrow> string option \<Rightarrow> int \<Rightarrow>
    string option \<Rightarrow> (string \<Rightarrow> string) \<Rightarrow> ('o \<times> bool) res" where
  "Logger_log E s lg iLogLevel src_file line pcContent ap =
     (case (src_file, pcContent) of
        (Some f, Some c) \<Rightarrow>
          if LOG_LEVEL_value iLogLevel < max_log_type lg then Inr (s, True)
          else
            (case os_time E s of
               (s, tNow) \<Rightarrow>
                 let t = os_localtime E tNow in
                 bind_res (log_file_name (file_name lg) t) (\<lambda>n.
                 case os_fopen E s n of
                   (s, None) \<Rightarrow> Inr (s, False)
                 | (s, Some h) \<Rightarrow>
                     let s = os_fputs E s h (log_prefix t f line);
                         s = os_fputs E s h (ap c);
                         s = os_fputs E s h [CHR 0x0A]
                     in Inr (os_fclose E s h, True)))
      | _ \<Rightarrow> Inr (s, False))"

definition Logger_debug :: "('o, 'q) env \<Rightarrow> 'o \<Rightarrow> Logger \<Rightarrow> string option \<Rightarrow> int \<Rightarrow>
    string option \<Rightarrow> (string \<Rightarrow> string) \<Rightarrow> ('o \<times> bool) res" where
  "Logger_debug E s lg src_file line pcContent ap =
     (if \<not> isInit lg then Inr (s, False)
      else Logger_log E s lg LOG_LEVEL_DEBUG src_file line pcContent ap)"

section \<open>The log manager\<close>

record LogManager =
  logic_Logger :: Logger
  epoll_Logger :: Logger
  async_Logger :: Logger

definition new_LogManager :: LogManager where
  "new_LogManager = \<lparr>logic_Logger = new_Logger, epoll_Logger = new_Logger, async_Logger = new_Logger\<rparr>"

definition LogManager_init :: "LogManager \<Rightarrow> LogManager \<times> bool" where
  "LogManager_init lm =
     (let lm = lm\<lparr>logic_Logger := fst (Logger_init (logic_Logger lm) (Some ''../log/gameLogic'') 0)\<rparr>;
          lm = lm\<lparr>epoll_Logger := fst (Logger_init (epoll_Logger lm) (Some ''../log/gameEpoll'') 0)\<rparr>;
          lm = lm\<lparr>async_Logger := fst (Logger_init (async_Logger lm) (Some ''../log/gameAsync'') 0)\<rparr>
      in (lm, True))"

definition logLogic :: "('o, 'q) env \<Rightarrow> 'o \<Rightarrow> LogManager \<Rightarrow> LOG_LEVEL \<Rightarrow> string option \<Rightarrow> int \<Rightarrow>
    string option \<Rightarrow> (string \<Rightarrow> string) \<Rightarrow> ('o \<times> bool) res" where
  "logLogic E s lm iLogLevel src_file line pcContent ap =
     (if \<not> isInit (logic_Logger lm) then Inr (s, False)
      else if src_file = None \<or> pcContent = None then Inr (s, False)
      else Logger_log E s (logic_Logger lm) iLogLevel src_file line pcContent ap)"

definition logEpoll :: "('o, 'q) env \<Rightarrow> 'o \<Rightarrow> LogManager \<Rightarrow> LOG_LEVEL \<Rightarrow> string option \<Rightarrow> int \<Rightarrow>
    string option \<Rightarrow> (string \<Rightarrow> string) \<Rightarrow> ('o \<times> bool) res" where
  "logEpoll E s lm iLogLevel src_file line pcContent ap =
     (if \<not> isInit (epoll_Logger lm) then Inr (s, False)
      else Logger_log E s (epoll_Logger lm) iLogLevel src_file line pcContent ap)"

definition logAsync :: "('o, 'q) env \<Rightarrow> 'o \<Rightarrow> LogManager \<Rightarrow> LOG_LEVEL \<Rightarrow> string option \<Rightarrow> int \<Rightarrow>
    string option \<Rightarrow> (string \<Rightarrow> string) \<Rightarrow> ('o \<times> bool) res" where
  "logAsync E s lm iLogLevel src_file line pcContent ap =
     (if \<not> isInit (async_Logger lm) then Inr (s, False)
      else Logger_log E s (async_Logger lm) iLogLevel src_file line pcContent ap)"

section \<open>The base name\<close>

lemma fileNameBegin_skip:
  "i \<le> k \<Longrightarrow> (\<And>j. i < j \<Longrightarrow> j \<le> k \<Longrightarrow> (f @ [CHR 0x00]) ! j \<noteq> CHR ''/'') \<Longrightarrow>
   fileNameBegin f k = fileNameBegin f i"
  by (induction k) (auto simp: le_Suc_eq)

lemma base_name_slash:
  assumes "CHR ''/'' \<notin> set b" "a \<noteq> []"
  shows "base_name (a @ CHR ''/'' # b) = b"
proof -
  let ?f = "a @ CHR ''/'' # b"
  have n: "(?f @ [CHR 0x00]) ! j \<noteq> CHR ''/''" if "length a < j" "j \<le> length ?f" for j
  proof -
    have "(?f @ [CHR 0x00]) ! j = (b @ [CHR 0x00]) ! (j - length a - 1)"
      using that by (simp add: nth_append nth_Cons')
    moreover have "(b @ [CHR 0x00]) ! (j - length a - 1) \<in> set (b @ [CHR 0x00])"
      using that by (intro nth_mem) simp
    moreover have "CHR ''/'' \<notin> set (b @ [CHR 0x00])" using assms(1) by simp
    ultimately show ?thesis by metis
  qed
  obtain k where k: "length a = Suc k" using assms(2) by (cases a) auto
  have "fileNameBegin ?f (Suc k) = Suc (Suc k)" by (simp add: nth_append k)
  then have end_a: "fileNameBegin ?f (length a) = Suc (length a)" by (simp only: k)
  have "fileNameBegin ?f (length ?f) = fileNameBegin ?f (length a)"
    by (rule fileNameBegin_skip) (use n in auto)
  also have "\<dots> = Suc (length a)" using end_a .
  finally show ?thesis by (simp add: base_name_def)
qed

lemma base_name_whole:
  assumes "CHR ''/'' \<notin> set (tl f)"
  shows "base_name f = f"
proof -
  have n: "(f @ [CHR 0x00]) ! j \<noteq> CHR ''/''" if "0 < j" "j \<le> length f" for j
  proof (cases "j = length f")
    case False
    then have lt: "j - 1 < length (tl f)" using that by simp
    then have "f ! j = tl f ! (j - 1)" using that by (simp add: nth_tl)
    moreover have "tl f ! (j - 1) \<in> set (tl f)" using lt by (rule nth_mem)
    ultimately have "f ! j \<in> set (tl f)" by simp
    then show ?thesis using False that assms by (auto simp: nth_append)
  qed simp
  have "fileNameBegin f (length f) = fileNameBegin f 0"
    by (rule fileNameBegin_skip) (use n in auto)
  then show ?thesis by (simp add: base_name_def)
qed

section \<open>What a log call relies on and does\<close>

text \<open>
  Files: \<open>content\<close> is the text of each file, \<open>open_on\<close> that a stream is open for appending to one.
  Reading the clock, opening and closing do not change any text; a write appends to the file of its stream.
\<close>

locale log_files =
  fixes E :: "('o, 'q) env"
    and content :: "'o \<Rightarrow> string \<Rightarrow> string"
    and open_on :: "'o \<Rightarrow> int \<Rightarrow> string \<Rightarrow> bool"
  assumes file_time: "os_time E s = (s', t) \<Longrightarrow> content s' = content s"
    and file_open: "os_fopen E s n = (s', Some h) \<Longrightarrow> content s' = content s \<and> open_on s' h n"
    and file_fail: "os_fopen E s n = (s', None) \<Longrightarrow> content s' = content s"
    and file_puts: "open_on s h n \<Longrightarrow> open_on (os_fputs E s h u) h n \<and>
        content (os_fputs E s h u) = (content s)(n := content s n @ u)"
    and file_close: "content (os_fclose E s h) = content s"
begin

text \<open>One call at or above the threshold: a line in one file, or nothing when the file does not open.\<close>

lemma Logger_log_appends:
  assumes lv: "max_log_type lg \<le> LOG_LEVEL_value lv"
    and t: "os_time E s = (s1, now)" and n: "log_file_name (file_name lg) (os_localtime E now) = Inr n"
  shows "\<exists>s'. Logger_log E s lg lv (Some f) line (Some c) ap =
      Inr (s', snd (os_fopen E s1 n) \<noteq> None) \<and>
    content s' = (if snd (os_fopen E s1 n) = None then content s
      else (content s)(n := content s n @ log_prefix (os_localtime E now) f line @ ap c @ [CHR 0x0A]))"
proof (cases "snd (os_fopen E s1 n)")
  case None
  then obtain s2 where o: "os_fopen E s1 n = (s2, None)" by (metis prod.collapse)
  have "content s2 = content s" using file_time [OF t] file_fail [OF o] by simp
  then show ?thesis using lv t n o by (simp add: Logger_log_def Let_def)
next
  case (Some h)
  then obtain s2 where o: "os_fopen E s1 n = (s2, Some h)" by (metis prod.collapse)
  have s2: "open_on s2 h n" "content s2 = content s" using file_time [OF t] file_open [OF o] by simp_all
  define s3 where "s3 = os_fputs E s2 h (log_prefix (os_localtime E now) f line)"
  define s4 where "s4 = os_fputs E s3 h (ap c)"
  define s5 where "s5 = os_fputs E s4 h [CHR 0x0A]"
  note w3 = file_puts [OF s2(1), of "log_prefix (os_localtime E now) f line", folded s3_def]
  note w4 = file_puts [OF w3 [THEN conjunct1], of "ap c", folded s4_def]
  note w5 = file_puts [OF w4 [THEN conjunct1], of "[CHR 0x0A]", folded s5_def]
  have "Logger_log E s lg lv (Some f) line (Some c) ap = Inr (os_fclose E s5 h, True)"
    using lv t n o by (simp add: Logger_log_def Let_def s3_def s4_def s5_def)
  moreover have "content (os_fclose E s5 h) =
      (content s)(n := content s n @ log_prefix (os_localtime E now) f line @ ap c @ [CHR 0x0A])"
    using w3 w4 w5 s2(2) by (simp add: file_close)
  ultimately show ?thesis using o by simp
qed

end

text \<open>The text of a file of the small operating system: its entries in order.\<close>

definition sim_content :: "sim \<Rightarrow> string \<Rightarrow> string" where
  "sim_content s n = concat (map snd (filter (\<lambda>p. fst p = n) (sim_files s)))"

definition sim_open_on :: "sim \<Rightarrow> int \<Rightarrow> string \<Rightarrow> bool" where
  "sim_open_on s h n \<longleftrightarrow> (\<exists>ps u. sim_files s = ps @ [(n, u)] \<and> h = int (length ps))"

interpretation sim_log: log_files sim_env sim_content sim_open_on
proof
  fix s s' :: sim and t :: int
  assume "os_time sim_env s = (s', t)"
  then show "sim_content s' = sim_content s" by (auto simp: sim_env_def sim_content_def)
next
  fix s s' :: sim and n :: string and h :: int
  assume "os_fopen sim_env s n = (s', Some h)"
  then show "sim_content s' = sim_content s \<and> sim_open_on s' h n"
    by (auto simp: sim_env_def sim_content_def sim_open_on_def)
next
  fix s s' :: sim and n :: string
  assume "os_fopen sim_env s n = (s', None)"
  then show "sim_content s' = sim_content s" by (simp add: sim_env_def)
next
  fix s :: sim and n t :: string and h :: int
  assume "sim_open_on s h n"
  then obtain ps u where s: "sim_files s = ps @ [(n, u)]" "h = int (length ps)"
    by (auto simp: sim_open_on_def)
  then have "sim_files (os_fputs sim_env s h t) = ps @ [(n, u @ t)]"
    by (simp add: sim_env_def nth_append)
  then show "sim_open_on (os_fputs sim_env s h t) h n \<and>
      sim_content (os_fputs sim_env s h t) = (sim_content s)(n := sim_content s n @ t)"
    using s by (auto simp: sim_open_on_def sim_content_def)
next
  fix s :: sim and h :: int
  show "sim_content (os_fclose sim_env s h) = sim_content s" by (simp add: sim_env_def)
qed

text \<open>The length of the hourly file name, for a calendar date with a year of four digits.\<close>

definition calendar :: "tm \<Rightarrow> bool" where
  "calendar t \<longleftrightarrow> - 1900 \<le> tm_year t \<and> tm_year t < 8100 \<and> 0 \<le> tm_mon t \<and> tm_mon t < 12 \<and>
     0 < tm_mday t \<and> tm_mday t \<le> 31 \<and> 0 \<le> tm_hour t \<and> tm_hour t < 24"

lemma log_file_name_cases:
  assumes "calendar t"
  shows "log_file_name name t =
    (if length name > 2031 then Inl Out_of_bounds
     else Inr (name @ ''-'' @ printf_0d 4 (tm_year t + 1900) @ printf_0d 2 (tm_mon t + 1) @
            printf_0d 2 (tm_mday t) @ ''-'' @ printf_0d 2 (tm_hour t) @ ''.log''))"
proof -
  have "length (printf_0d 4 (tm_year t + 1900)) = 4" "length (printf_0d 2 (tm_mon t + 1)) = 2"
    "length (printf_0d 2 (tm_mday t)) = 2" "length (printf_0d 2 (tm_hour t)) = 2"
    using assms by (auto simp: calendar_def intro!: length_printf_0d)
  then show ?thesis using assms
    by (simp add: log_file_name_def Let_def calendar_def in_i32_def)
qed

section \<open>Properties\<close>

text \<open>
  C36: what one log call writes.  After \<open>LogManager::init\<close> every level is logged.  On a working file
  system, at a calendar date, a call with a file and a format appends to the hourly file of the logic
  logger one line (time, base name of the source file, line number, text) and changes no other
  file; if the file does not open it returns \<open>false\<close> and writes nothing.  The base name is the part of the path after
  its last slash, where a slash in the first position does not count.
\<close>

theorem log_appends_line:
  assumes "log_files E content open_on"
    and "os_time E s = (s1, now)" and "calendar (os_localtime E now)"
    and "CHR ''/'' \<notin> set b" and "a \<noteq> []"
  shows "\<exists>s' n. log_file_name ''../log/gameLogic'' (os_localtime E now) = Inr n \<and>
    logLogic E s (fst (LogManager_init new_LogManager)) lv (Some (a @ CHR ''/'' # b)) line (Some c) ap =
      Inr (s', snd (os_fopen E s1 n) \<noteq> None) \<and>
    content s' = (if snd (os_fopen E s1 n) = None then content s
      else (content s)(n := content s n @ log_prefix (os_localtime E now) b line @ ap c @ [CHR 0x0A])) \<and>
    base_name (CHR ''/'' # b) = CHR ''/'' # b"
proof -
  let ?t = "os_localtime E now" and ?lg = "\<lparr>file_name = ''../log/gameLogic'', max_log_type = 0, isInit = True\<rparr>"
  obtain n where n: "log_file_name ''../log/gameLogic'' ?t = Inr n"
    by (simp add: log_file_name_cases [OF assms(3)])
  have b: "base_name b = b" using assms(4) by (intro base_name_whole) (cases b, auto)
  have first: "base_name (CHR ''/'' # b) = CHR ''/'' # b" using assms(4) by (intro base_name_whole) simp
  have p: "log_prefix ?t (a @ CHR ''/'' # b) line = log_prefix ?t b line"
    by (simp add: log_prefix_def base_name_slash [OF assms(4,5)] b)
  have lg: "logLogic E s (fst (LogManager_init new_LogManager)) lv (Some (a @ CHR ''/'' # b)) line (Some c) ap =
      Logger_log E s ?lg lv (Some (a @ CHR ''/'' # b)) line (Some c) ap"
    by (simp add: logLogic_def LogManager_init_def new_LogManager_def Logger_init_def new_Logger_def Let_def)
  have "max_log_type ?lg \<le> LOG_LEVEL_value lv" by (cases lv) simp_all
  then obtain s' where "Logger_log E s ?lg lv (Some (a @ CHR ''/'' # b)) line (Some c) ap =
      Inr (s', snd (os_fopen E s1 n) \<noteq> None)"
    "content s' = (if snd (os_fopen E s1 n) = None then content s
      else (content s)(n := content s n @ log_prefix ?t (a @ CHR ''/'' # b) line @ ap c @ [CHR 0x0A]))"
    using log_files.Logger_log_appends [OF assms(1) _ assms(2), of ?lg lv n "a @ CHR ''/'' # b" line c ap] n
    by (metis (no_types, lifting) Logger.select_convs(1))
  then show ?thesis using n lg first p
    by - (rule exI [of _ s'], rule exI [of _ n], simp)
qed

theorem log_appends_line_witness:
  "\<exists>s'. logLogic sim_env sim_start (fst (LogManager_init new_LogManager)) LOG_LEVEL_INFO
       (Some ''logic/ServerMain.cpp'') 8 (Some ''start'') id = Inr (s', True) \<and>
     sim_content s' ''../log/gameLogic-20000101-00.log'' =
       ''<00:16:40>[ServerMain.cpp:8]start'' @ [CHR 0x0A]"
proof -
  have t: "os_time sim_env sim_start = (sim_start\<lparr>sim_clock := 1001\<rparr>, 1000)"
    by (simp add: sim_env_def sim_start_def)
  let ?t = "os_localtime sim_env 1000"
  have lt: "?t = \<lparr>tm_year = 100, tm_mon = 0, tm_mday = 1, tm_hour = 0, tm_min = 16, tm_sec = 40\<rparr>"
    by (simp add: sim_env_def)
  then have c: "calendar ?t" by (simp add: calendar_def)
  have n: "log_file_name ''../log/gameLogic'' ?t = Inr ''../log/gameLogic-20000101-00.log''"
    unfolding lt by code_simp
  have p: "log_prefix ?t ''ServerMain.cpp'' 8 = ''<00:16:40>[ServerMain.cpp:8]''"
    unfolding lt by code_simp
  have o: "snd (os_fopen sim_env (sim_start\<lparr>sim_clock := 1001\<rparr>) ''../log/gameLogic-20000101-00.log'') \<noteq> None"
    by (simp add: sim_env_def)
  have e: "sim_content sim_start n = []" for n by (simp add: sim_content_def sim_start_def)
  show ?thesis
    using log_appends_line [OF sim_log.log_files_axioms t c, of "''ServerMain.cpp''" "''logic''"
        LOG_LEVEL_INFO 8 "''start''" id] n p o e
    by auto
qed

text \<open>
  The threshold and the length of the file name.  \<open>init\<close> accepts a name of up to 2047
  characters and the given threshold.  A call below the threshold returns \<open>true\<close> and has no effect;
  for a call at or above it the buffer of the file name overflows when the name has more than 2031 characters.
\<close>

theorem logger_name_overflow:
  assumes "length name < 2048" and "os_time E s = (s1, now)" and "calendar (os_localtime E now)"
  shows "\<exists>lg. Logger_init new_Logger (Some name) mx = (lg, True) \<and> isInit lg \<and>
    (if LOG_LEVEL_value lv < mx
     then Logger_log E s lg lv (Some f) line (Some c) ap = Inr (s, True)
     else Logger_log E s lg lv (Some f) line (Some c) ap = Inl Out_of_bounds \<longleftrightarrow> 2031 < length name)"
  using assms log_file_name_cases [OF assms(3), of name]
  by (auto simp: Logger_init_def Logger_log_def Let_def split: prod.splits option.splits)

theorem logger_name_overflow_witness:
  "\<exists>lg. Logger_init new_Logger (Some (replicate 2040 (CHR ''x''))) 0 = (lg, True) \<and>
     Logger_log sim_env sim_start lg LOG_LEVEL_ERROR (Some ''a.cpp'') 1 (Some ''x'') id = Inl Out_of_bounds"
proof -
  have t: "os_time sim_env sim_start = (sim_start\<lparr>sim_clock := 1001\<rparr>, 1000)"
    by (simp add: sim_env_def sim_start_def)
  have "calendar (os_localtime sim_env 1000)" by (simp add: sim_env_def calendar_def)
  from logger_name_overflow [OF _ t this, of "replicate 2040 (CHR ''x'')" 0 LOG_LEVEL_ERROR "''a.cpp''" 1 "''x''" id]
  show ?thesis by auto
qed

end
