(* ===== verification/Listener.thy ===== *)
theory Listener
  imports Platform
begin

text \<open>
  The listening socket: \<open>oryx/Listener.h\<close>, \<open>oryx/Listener.cpp\<close> and \<open>setreuseaddr\<close> of
  \<open>oryx/common.h\<close>.
\<close>

record Listener =
  l_fd :: int
  listen_addr :: "string option"
  listen_port :: int
  svr_type :: DEVICE_TYPE
  svraddr :: sockaddr_in

definition AF_INET :: int where [simp]: "AF_INET = 2"

text \<open>An address after \<open>BZERO\<close>.\<close>

definition zero_addr :: sockaddr_in where
  "zero_addr = \<lparr>sin_family = 0, sin_port = 0, sin_addr = 0\<rparr>"

definition new_Listener_empty :: Listener where
  "new_Listener_empty =
     \<lparr>l_fd = -1, listen_addr = None, listen_port = 0, svr_type = DEVICE_UNKNOWN, svraddr = zero_addr\<rparr>"

definition new_Listener :: "string option \<Rightarrow> int \<Rightarrow> DEVICE_TYPE \<Rightarrow> Listener" where
  "new_Listener addr port ty =
     \<lparr>l_fd = -1, listen_addr = addr, listen_port = port, svr_type = ty, svraddr = zero_addr\<rparr>"

definition setreuseaddr :: "('o, 'q) env \<Rightarrow> 'o \<Rightarrow> int \<Rightarrow> 'o" where
  "setreuseaddr E s sock = fst (os_reuseaddr E s sock)"

text \<open>A failed \<open>socket\<close> is logged and the calls that follow get -1.\<close>

definition doListen :: "('o, 'q) env \<Rightarrow> 'o \<Rightarrow> Listener \<Rightarrow> ('o \<times> Listener \<times> bool) res" where
  "doListen E s l =
     (case os_socket E s of
        (s, f) \<Rightarrow>
          let f = (if f < 0 then -1 else f);
              l = l\<lparr>l_fd := f\<rparr>;
              s = setnonblocking E s f;
              s = setreuseaddr E s f in
          bind_res (deref (listen_addr l)) (\<lambda>a.
          let l = l\<lparr>svraddr := \<lparr>sin_family = AF_INET, sin_port = htons E (word_of_int (listen_port l)),
                              sin_addr = inet_addr E a\<rparr>\<rparr> in
          case os_bind E s f (svraddr l) of
            (s, ret) \<Rightarrow>
              if ret < 0 then Inr (s, l, False)
              else case os_listen E s f 4096 of
                (s, ret) \<Rightarrow> if ret < 0 then Inr (s, l, False) else Inr (s, l, True)))"

definition CreateTask :: "Listener \<Rightarrow> task option" where
  "CreateTask l =
     (if l_fd l < 0 then None else Some (new_task_listener (l_fd l) (svr_type l) (svraddr l)))"

text \<open>
  What \<open>listen\<close> relies on: a descriptor that is not one cannot be bound (\<open>EBADF\<close>).
\<close>

locale bind_checks =
  fixes E :: "('o, 'q) env"
  assumes bind_bad: "f < 0 \<Longrightarrow> snd (os_bind E s f a) < 0"
begin

text \<open>
  Listening on an address never faults; a failed \<open>socket\<close> ends in a failure, since -1 cannot be bound.
\<close>

lemma doListen_cases:
  assumes "listen_addr l = Some a" and f: "os_socket E s = (s1, f)"
  shows "\<exists>s' l' ok. doListen E s l = Inr (s', l', ok) \<and> (f < 0 \<longrightarrow> \<not> ok) \<and>
    l' = l\<lparr>l_fd := (if f < 0 then -1 else f), svraddr := \<lparr>sin_family = AF_INET,
      sin_port = htons E (word_of_int (listen_port l)), sin_addr = inet_addr E a\<rparr>\<rparr>"
proof -
  let ?f = "if f < 0 then -1 else f"
  let ?s = "setreuseaddr E (setnonblocking E s1 ?f) ?f"
  let ?a = "\<lparr>sin_family = AF_INET, sin_port = htons E (word_of_int (listen_port l)), sin_addr = inet_addr E a\<rparr>"
  obtain s2 ret where b: "os_bind E ?s ?f ?a = (s2, ret)" by fastforce
  have r: "ret < 0" if "f < 0"
    using bind_bad [of "-1" ?s ?a] b that by simp
  show ?thesis
  proof (cases "ret < 0")
    case True
    then show ?thesis using assms b by (auto simp: doListen_def Let_def)
  next
    case False
    obtain s3 r3 where "os_listen E s2 ?f 4096 = (s3, r3)" by fastforce
    then show ?thesis using assms b False r by (auto simp: doListen_def Let_def)
  qed
qed

end

interpretation sim_bind: bind_checks sim_env
  by unfold_locales (simp add: sim_env_def)

section \<open>Properties\<close>



end
