(* ===== verification/ServerHandler.thy ===== *)
theory ServerHandler
  imports MessageHandler TimerControl LogManager Listener
begin

text \<open>
  The main thread: \<open>logic/ServerHandler.cpp\<close>, \<open>logic/ServerMain.cpp\<close>, the \<open>on_thread_call\<close> methods
  that run on it (\<open>task/task_clientConn.cpp\<close>, \<open>task/task_clientPacket.cpp\<close>) and
  \<open>ThreadManager::update\<close>.  The singletons are the fields of one record, the main thread's world; the epoll threads
  appear in it as the objects of the pool, of which the main thread touches the queues and reads the load.
\<close>

section \<open>The world of the main thread\<close>

record ('o, 'q) server =
  host :: 'o
  pool :: "'q thread_map"
  players :: PlayerManager
  actions :: "PlayerManager MessageHandler"
  logs :: LogManager
  timers :: "'o TimerControl"
  leaked :: "packet list"

section \<open>Tasks on the main thread\<close>

text \<open>\<open>task_clientConn::on_thread_call\<close>: a session id, the insertion task, then the session.\<close>

definition task_clientConn_on_thread_call :: "('o, 'q) env \<Rightarrow> ('o, 'q) server \<Rightarrow> int \<Rightarrow> DEVICE_TYPE \<Rightarrow>
    sockaddr_in \<Rightarrow> ('o, 'q) server run" where
  "task_clientConn_on_thread_call E w clientFD ty addr =
     bind_run (getRandNewSession E (host w) (players w)) (\<lambda>(s, pm, k).
       let ins = (case new_task_clientConnInsert clientFD ty addr of
                    task_clientConnInsert th f t k0 a \<Rightarrow> task_clientConnInsert th f t k a
                  | t \<Rightarrow> t) in
       case push_task E (pool w) ins of
         (m, threadid) \<Rightarrow>
           let pm = (if threadid > 0 then fst (addNewConn pm threadid k ty addr) else pm)
           in Some (Inr (w\<lparr>host := s, pool := m, players := pm\<rparr>)))"

definition task_clientConnOnClose_on_thread_call :: "('o, 'q) server \<Rightarrow> int \<Rightarrow> ('o, 'q) server res" where
  "task_clientConnOnClose_on_thread_call w k =
     bind_res (removeSessionConn PlayerManager_onSessionClose (players w) k) (\<lambda>pm.
     Inr (w\<lparr>players := pm\<rparr>))"

definition task_clientConnPacket_on_thread_call :: "('o, 'q) server \<Rightarrow> int \<Rightarrow> int \<Rightarrow> mem option \<Rightarrow>
    ('o, 'q) server res" where
  "task_clientConnPacket_on_thread_call w k n d =
     bind_res (processMessage (actions w) (players w) (Some (k, n, d))) (\<lambda>(h, pm, live, result).
     Inr (w\<lparr>actions := h, players := pm, leaked := leaked w @ live\<rparr>))"

text \<open>\<open>OnExcute\<close> of the class: \<open>on_thread_call\<close>, empty for the other four tasks.\<close>

definition OnExcute_main :: "('o, 'q) env \<Rightarrow> ('o, 'q) server \<Rightarrow> task \<Rightarrow> ('o, 'q) server run" where
  "OnExcute_main E w t =
     (case t of
        task_clientConn th f ty addr \<Rightarrow> task_clientConn_on_thread_call E w f ty addr
      | task_clientConnOnClose th k \<Rightarrow> Some (task_clientConnOnClose_on_thread_call w k)
      | task_clientConnPacket th k n d \<Rightarrow> Some (task_clientConnPacket_on_thread_call w k n d)
      | _ \<Rightarrow> Some (Inr w))"

text \<open>The objects of the pool as the worlds of the task loop.\<close>

definition get_thread :: "int \<Rightarrow> ('o, 'q) server \<Rightarrow> 'q EpollHandler" where
  "get_thread k w = the (map_of (pool w) k)"

definition put_thread :: "int \<Rightarrow> 'q EpollHandler \<Rightarrow> ('o, 'q) server \<Rightarrow> ('o, 'q) server" where
  "put_thread k h w = w\<lparr>pool := upd_thread k (\<lambda>_. h) (pool w)\<rparr>"

text \<open>\<open>EpollHandler::dotask\<close> called by the main thread: the switch, then \<open>OnExcute\<close>.\<close>

definition dotask_main :: "('o, 'q) env \<Rightarrow> int \<Rightarrow> ('o, 'q) server \<Rightarrow> task \<Rightarrow> (('o, 'q) server \<times> task) run" where
  "dotask_main E k w t =
     bind_run (dotask_switch E Main_thread (host w) (get_thread k w) t) (\<lambda>(s, h, t).
     bind_run (OnExcute_main E (put_thread k h (w\<lparr>host := s\<rparr>)) t) (\<lambda>w.
     Some (Inr (w, t))))"

text \<open>\<open>ThreadManager::update\<close>: one \<open>update_main\<close> for each thread, in the order of the map.\<close>

fun update_pool :: "('o, 'q) env \<Rightarrow> int list \<Rightarrow> ('o, 'q) server \<Rightarrow> int \<Rightarrow> (('o, 'q) server \<times> int) run" where
  "update_pool E [] w handlerNums = Some (Inr (w, handlerNums))"
| "update_pool E (k # ks) w handlerNums =
     bind_run (update_main (ring E) (get_thread k) (put_thread k) (dotask_main E k) w) (\<lambda>(w, n).
     bind_run (Some (i32 (handlerNums + n))) (\<lambda>handlerNums.
     update_pool E ks w handlerNums))"

definition ThreadManager_update :: "('o, 'q) env \<Rightarrow> ('o, 'q) server \<Rightarrow> (('o, 'q) server \<times> int) run" where
  "ThreadManager_update E w = update_pool E (unordered E (map fst (pool w))) w 0"

section \<open>The main loop\<close>

text \<open>The source path that \<open>__FILE__\<close> stands for depends on the build: \<open>src_path\<close>.\<close>

definition update_1s :: "('o, 'q) env \<Rightarrow> LogManager \<Rightarrow> string \<Rightarrow> 'o \<Rightarrow> int \<Rightarrow> 'o res" where
  "update_1s E lm src_path s time_MilliSec =
     bind_res (logLogic E s lm LOG_LEVEL_DEBUG (Some src_path) 108 (Some ''ServerHandler::update_1s %ld'')
       (\<lambda>_. ''ServerHandler::update_1s '' @ printf_0d 0 time_MilliSec)) (\<lambda>(s, _). Inr s)"

definition update_2s :: "('o, 'q) env \<Rightarrow> LogManager \<Rightarrow> string \<Rightarrow> 'o \<Rightarrow> int \<Rightarrow> 'o res" where
  "update_2s E lm src_path s time_MilliSec =
     bind_res (logLogic E s lm LOG_LEVEL_DEBUG (Some src_path) 113 (Some ''ServerHandler::update_2s %ld'')
       (\<lambda>_. ''ServerHandler::update_2s '' @ printf_0d 0 time_MilliSec)) (\<lambda>(s, _). Inr s)"

text \<open>One turn of \<open>ServerHandler::run\<close>, which loops forever: timers, tasks, a pause when idle.\<close>

definition ServerHandler_turn :: "('o, 'q) env \<Rightarrow> ('o, 'q) server \<Rightarrow> ('o, 'q) server run" where
  "ServerHandler_turn E w =
     bind_run (Some (TimerControl_update (os_gettimeofday E) (timers w) (host w))) (\<lambda>(tc, s, timerNums).
     bind_run (ThreadManager_update E (w\<lparr>timers := tc, host := s\<rparr>)) (\<lambda>(w, threadNums).
     if threadNums \<le> 0 \<and> timerNums \<le> 0 then Some (Inr (w\<lparr>host := os_usleep E (host w) 2000\<rparr>))
     else Some (Inr w)))"

text \<open>The first \<open>n\<close> turns.\<close>

fun ServerHandler_run :: "('o, 'q) env \<Rightarrow> nat \<Rightarrow> ('o, 'q) server \<Rightarrow> ('o, 'q) server run" where
  "ServerHandler_run E 0 w = Some (Inr w)"
| "ServerHandler_run E (Suc n) w = bind_run (ServerHandler_turn E w) (ServerHandler_run E n)"

section \<open>Starting\<close>

text \<open>\<open>setDaemonProcess\<close>: \<open>None\<close> when the process ends in \<open>exit(0)\<close>, also if \<open>fork\<close> fails.\<close>

definition setDaemonProcess :: "('o, 'q) env \<Rightarrow> 'o \<Rightarrow> 'o \<times> bool option" where
  "setDaemonProcess E s =
     (case os_fork E s of
        (s, pid) \<Rightarrow>
          if pid \<noteq> 0 then (s, None)
          else case os_fork E (os_setsid E s) of
            (s, pid) \<Rightarrow> if pid \<noteq> 0 then (s, None) else (os_umask E s 0, Some True))"

text \<open>The signals in the order of the calls; SIGHUP occurs twice.\<close>

definition ignored_signals :: "int list" where
  "ignored_signals = [2, 1, 3, 22, 21, 17, 15, 1, 13]"

definition signalIgnore :: "('o, 'q) env \<Rightarrow> 'o \<Rightarrow> 'o \<times> bool" where
  "signalIgnore E s = (foldl (os_sigaction_ignore E) s ignored_signals, True)"

datatype ('o, 'q) start = Exited 'o | Failed 'o | Started "('o, 'q) server"

definition ServerHandler_init :: "('o, 'q) env \<Rightarrow> string \<Rightarrow> 'o TimerControl \<Rightarrow> 'o \<Rightarrow> ('o, 'q) start res" where
  "ServerHandler_init E src_path tc s =
     (case setDaemonProcess E s of
        (s, None) \<Rightarrow> Inr (Exited s)
      | (s, Some _) \<Rightarrow>
          let s = fst (signalIgnore E s);
              lm = fst (LogManager_init new_LogManager) in
          case ThreadManager_init E s of
            (s, m, _) \<Rightarrow>
              let pm = fst (PlayerManager_init (new_PlayerManager E));
                  h = TestAction_initAction new_MessageHandler in
              bind_res (logLogic E s lm LOG_LEVEL_INFO (Some src_path) 34 (Some ''game start'')
                (\<lambda>_. ''game start'')) (\<lambda>(s, _).
              bind_res (doListen E s (new_Listener (Some ''0.0.0.0'') 8888 DEVICE_SERVER_EXTERNAL)) (\<lambda>(s, l, ok).
              if \<not> ok then Inr (Failed s)
              else
                bind_res (deref (CreateTask l)) (\<lambda>t.
                let m = fst (push_task E m t);
                    tc = register_timerFun tc (Some (update_1s E lm src_path)) 1000;
                    tc = register_timerFun tc (Some (update_2s E lm src_path)) 2000
                in Inr (Started \<lparr>host = s, pool = m, players = pm, actions = h, logs = lm,
                                 timers = tc, leaked = []\<rparr>)))))"

text \<open>
  \<open>main\<close>: \<open>None\<close> while the server still runs after \<open>n\<close> turns, \<open>Some 0\<close> when the process has ended.
\<close>

definition server_main :: "('o, 'q) env \<Rightarrow> string \<Rightarrow> 'o \<Rightarrow> nat \<Rightarrow> int option run" where
  "server_main E src_path s n =
     (case new_TimerControl (os_gettimeofday E) s of
        (s, tc) \<Rightarrow>
          bind_run (Some (ServerHandler_init E src_path tc s)) (\<lambda>r.
            case r of
              Exited s \<Rightarrow> Some (Inr (Some 0))
            | Failed s \<Rightarrow> Some (Inr (Some 0))
            | Started w \<Rightarrow> bind_run (ServerHandler_run E n w) (\<lambda>w. Some (Inr None))))"

end
