(* ===== verification/Framing.thy ===== *)
theory Framing
  imports DeviceInfo
begin

text \<open>
  The abstract specification of the byte stream that \<open>EpollHandler::doRead\<close> takes apart: frames that
  start with their own length as a big-endian word.  \<open>parse_stream\<close> splits a byte list into the
  complete frames, the rest, and whether the stream is still legal; it is independent of buffers,
  cursors and how the bytes arrived.  The handler's code is shown to implement it in \<open>EpollIO\<close>.
\<close>

section \<open>Splitting a stream\<close>

definition frame_len :: "byte list \<Rightarrow> int" where
  "frame_len bs = sint (un_be32 (bs ! 0) (bs ! 1) (bs ! 2) (bs ! 3))"

function parse_stream :: "byte list \<Rightarrow> byte list list \<times> byte list \<times> bool" where
  "parse_stream bs =
     (if length bs \<le> 4 then ([], bs, True)
      else if frame_len bs > 4096 \<or> frame_len bs < 4 then ([], bs, False)
      else if frame_len bs > int (length bs) then ([], bs, True)
      else case parse_stream (drop (nat (frame_len bs)) bs) of
             (fs, r, ok) \<Rightarrow> (take (nat (frame_len bs)) bs # fs, r, ok))"
  by pat_completeness auto
termination
  by (relation "measure length") auto

declare parse_stream.simps [simp del]

lemma parse_stream_short [simp]: "length bs \<le> 4 \<Longrightarrow> parse_stream bs = ([], bs, True)"
  by (simp add: parse_stream.simps)

lemma parse_stream_illegal:
  "4 < length bs \<Longrightarrow> frame_len bs > 4096 \<or> frame_len bs < 4 \<Longrightarrow> parse_stream bs = ([], bs, False)"
  by (simp add: parse_stream.simps)

lemma parse_stream_partial:
  "4 < length bs \<Longrightarrow> 4 \<le> frame_len bs \<Longrightarrow> frame_len bs \<le> 4096 \<Longrightarrow> frame_len bs > int (length bs) \<Longrightarrow>
   parse_stream bs = ([], bs, True)"
  by (simp add: parse_stream.simps)

lemma parse_stream_frame:
  "4 < length bs \<Longrightarrow> 4 \<le> frame_len bs \<Longrightarrow> frame_len bs \<le> 4096 \<Longrightarrow> frame_len bs \<le> int (length bs) \<Longrightarrow>
   parse_stream bs = (case parse_stream (drop (nat (frame_len bs)) bs) of
             (fs, r, ok) \<Rightarrow> (take (nat (frame_len bs)) bs # fs, r, ok))"
  by (subst parse_stream.simps) simp

text \<open>The four branches as one case rule; the last has the recursive call's result.\<close>

lemma parse_stream_cases:
  assumes "parse_stream bs = (fs, r, ok)"
  obtains (short) "length bs \<le> 4" "fs = []" "r = bs" "ok"
  | (illegal) "4 < length bs" "frame_len bs > 4096 \<or> frame_len bs < 4" "fs = []" "r = bs" "\<not> ok"
  | (partial) "4 < length bs" "4 \<le> frame_len bs" "frame_len bs \<le> 4096" "frame_len bs > int (length bs)"
      "fs = []" "r = bs" "ok"
  | (frame) n fs' where "4 < length bs" "frame_len bs = int n" "4 \<le> n" "n \<le> 4096" "n \<le> length bs"
      "fs = take n bs # fs'" "parse_stream (drop n bs) = (fs', r, ok)"
proof -
  consider "length bs \<le> 4" | "4 < length bs" "frame_len bs > 4096 \<or> frame_len bs < 4"
    | "4 < length bs" "4 \<le> frame_len bs" "frame_len bs \<le> 4096" "frame_len bs > int (length bs)"
    | "4 < length bs" "4 \<le> frame_len bs" "frame_len bs \<le> 4096" "frame_len bs \<le> int (length bs)"
    by linarith
  then show ?thesis
  proof cases
    case 1
    with assms parse_stream_short [OF 1] have "fs = []" "r = bs" "ok" by simp_all
    from short [OF 1 this] show ?thesis .
  next
    case 2
    with assms parse_stream_illegal [OF 2] have "fs = []" "r = bs" "\<not> ok" by simp_all
    from illegal [OF 2 this] show ?thesis .
  next
    case 3
    with assms parse_stream_partial [OF 3] have "fs = []" "r = bs" "ok" by simp_all
    from partial [OF 3 this] show ?thesis .
  next
    case 4
    define n where "n = nat (frame_len bs)"
    have n: "frame_len bs = int n" "4 \<le> n" "n \<le> 4096" "n \<le> length bs" using 4 by (auto simp: n_def)
    obtain fs' r' ok' where rec: "parse_stream (drop n bs) = (fs', r', ok')" by (rule prod_cases3)
    with parse_stream_frame [OF 4] n(1) have "parse_stream bs = (take n bs # fs', r', ok')" by simp
    with assms rec have "fs = take n bs # fs'" "parse_stream (drop n bs) = (fs', r, ok)" by simp_all
    from frame [OF 4(1) n this] show ?thesis .
  qed
qed

lemma frame_len_append: "4 < length bs \<Longrightarrow> frame_len (bs @ cs) = frame_len bs"
  by (subgoal_tac "bs \<noteq> []") (auto simp add: frame_len_def nth_append simp del: length_greater_0_conv)

text \<open>The frames and the rest make up the stream; a legal rest is shorter than the buffer.\<close>

lemma parse_stream_concat: "parse_stream bs = (fs, r, ok) \<Longrightarrow> bs = concat fs @ r"
proof (induction bs arbitrary: fs r ok rule: parse_stream.induct)
  case (1 bs)
  from 1(2) show ?case
  proof (cases rule: parse_stream_cases)
    case (frame n fs')
    with 1(1) have "drop n bs = concat fs' @ r" by simp
    then have "take n bs @ drop n bs = take n bs @ concat fs' @ r" by (rule arg_cong)
    then show ?thesis using frame by (simp only: append_take_drop_id) simp
  qed simp_all
qed

lemma parse_stream_rest: "parse_stream bs = (fs, r, True) \<Longrightarrow> length r < 4096"
proof (induction bs arbitrary: fs rule: parse_stream.induct)
  case (1 bs)
  from 1(2) show ?case
    by (cases rule: parse_stream_cases) (use 1(1) in \<open>auto\<close>)
qed

lemma parse_stream_frames: "parse_stream bs = (fs, r, ok) \<Longrightarrow> f \<in> set fs \<Longrightarrow>
   4 \<le> length f \<and> length f \<le> 4096 \<and> (4 < length f \<longrightarrow> frame_len f = int (length f))"
proof (induction bs arbitrary: fs rule: parse_stream.induct)
  case (1 bs)
  from 1(2) show ?case
  proof (cases rule: parse_stream_cases)
    case (frame n fs')
    have "4 < n \<Longrightarrow> frame_len (take n bs) = int n" using frame by (simp add: frame_len_def)
    then show ?thesis using 1(1) 1(3) frame by auto
  qed (use 1(3) in simp_all)
qed

text \<open>Bytes may arrive in any pieces: parsing resumes from the rest.\<close>

lemma parse_stream_append:
  "parse_stream bs = (fs, r, True) \<Longrightarrow>
   parse_stream (bs @ cs) = (case parse_stream (r @ cs) of (fs', r', ok) \<Rightarrow> (fs @ fs', r', ok))"
proof (induction bs arbitrary: fs rule: parse_stream.induct)
  case (1 bs)
  from 1(2) show ?case
  proof (cases rule: parse_stream_cases)
    case (frame n fs')
    have ih: "parse_stream (drop n bs @ cs) =
        (case parse_stream (r @ cs) of (fs1, r', ok) \<Rightarrow> (fs' @ fs1, r', ok))"
      using 1(1) frame by simp
    have "parse_stream (bs @ cs) = (case parse_stream (drop n bs @ cs) of
        (fs, r, ok) \<Rightarrow> (take n bs # fs, r, ok))"
      using parse_stream_frame [of "bs @ cs"] frame by (simp add: frame_len_append)
    then show ?thesis using ih frame by (simp split: prod.splits)
  qed (simp_all split: prod.splits)
qed

lemma parse_stream_stuck:
  "parse_stream bs = (fs, r, False) \<Longrightarrow> parse_stream (bs @ cs) = (fs, r @ cs, False)"
proof (induction bs arbitrary: fs rule: parse_stream.induct)
  case (1 bs)
  from 1(2) show ?case
  proof (cases rule: parse_stream_cases)
    case illegal
    then show ?thesis using parse_stream_illegal [of "bs @ cs"] by (simp add: frame_len_append)
  next
    case (frame n fs')
    then have "parse_stream (drop n bs @ cs) = (fs', r @ cs, False)" using 1(1) by simp
    then show ?thesis using parse_stream_frame [of "bs @ cs"] frame by (simp add: frame_len_append)
  qed simp_all
qed

lemma parse_stream_idem: "parse_stream bs = (fs, r, True) \<Longrightarrow> parse_stream r = ([], r, True)"
proof (induction bs arbitrary: fs rule: parse_stream.induct)
  case (1 bs)
  from 1(2) show ?case
  proof (cases rule: parse_stream_cases)
    case short
    then show ?thesis by simp
  next
    case partial
    then show ?thesis by (simp add: parse_stream_partial)
  next
    case (frame n fs')
    then show ?thesis using 1(1) by simp
  qed simp
qed

section \<open>Well-formed frames\<close>

text \<open>What \<open>DEVICE_INFO::write\<close> puts on the wire: prefix \<open>length + 4\<close>, then the data.\<close>

definition frame_of :: "byte list \<Rightarrow> byte list" where
  "frame_of s = be32 (word_of_int (int (length s) + 4)) @ s"

lemma length_frame_of [simp]: "length (frame_of s) = length s + 4"
  by (simp add: frame_of_def)

lemma frame_len_be32: "frame_len (be32 w @ s) = sint w"
  by (simp add: frame_len_def be32_def un_be32_be32)

lemma frame_len_frame_of: "length s \<le> 4092 \<Longrightarrow> frame_len (frame_of s @ cs) = int (length s) + 4"
  by (simp add: frame_of_def frame_len_be32 in_i32_def del: of_int_add)

lemma parse_frames:
  "\<forall>s\<in>set ss. s \<noteq> [] \<and> length s \<le> 4092 \<Longrightarrow>
   parse_stream (concat (map frame_of ss)) = (map frame_of ss, [], True)"
proof (induction ss)
  case (Cons s ss)
  have n: "frame_len (frame_of s @ concat (map frame_of ss)) = int (length s) + 4"
    using Cons.prems by (simp add: frame_len_frame_of)
  have "nat (int (length s) + 4) = length (frame_of s)" by simp
  then show ?case
    using parse_stream_frame [of "frame_of s @ concat (map frame_of ss)"] Cons n
    by (simp del: length_frame_of)  simp
qed simp

end
