(* ===== verification/EpollIO.thy ===== *)
theory EpollIO
  imports EpollHandler Framing
begin

text \<open>
  What the input and output loops of \<open>EpollHandler\<close> do: \<open>doRead\<close> implements the stream specification
  \<open>parse_stream\<close>, \<open>doWrite\<close> hands the pending bytes to the kernel in order, \<open>doAccept\<close> empties the
  backlog.  Each loop is proved to end under the documented behaviour of the system call it makes.
\<close>

section \<open>Helpers\<close>

lemma push_task_main_simps [simp]:
  "thread_id (push_task_main B h t) = thread_id h"
  "m_pressure (push_task_main B h t) = m_pressure h"
  "m_queue_thread (push_task_main B h t) = m_queue_thread h"
  "m_queue_thread_complete (push_task_main B h t) = m_queue_thread_complete h"
  "m_queue_main_complete (push_task_main B h t) = m_queue_main_complete h"
  "devs (push_task_main B g t) = devs g"
  "m_MapDeviceInfo (push_task_main B g t) = m_MapDeviceInfo g"
  "m_MapDeviceSessionInfo (push_task_main B g t) = m_MapDeviceSessionInfo g"
  "next_dev (push_task_main B g t) = next_dev g"
  "epfd (push_task_main B g t) = epfd g"
  "events_slot (push_task_main B g t) = events_slot g"
  by (simp_all add: push_task_main_def)

text \<open>A list of tasks handed to the main thread.\<close>

definition push_tasks :: "('q, task) boost \<Rightarrow> ('q, 'z) thread_scheme \<Rightarrow> task list \<Rightarrow> ('q, 'z) thread_scheme" where
  "push_tasks B h ts = foldl (push_task_main B) h ts"

lemma push_tasks_simps [simp]:
  "push_tasks B h [] = h"
  "push_tasks B h (t # ts) = push_tasks B (push_task_main B h t) ts"
  by (simp_all add: push_tasks_def)

lemma push_tasks_append: "push_tasks B (push_tasks B h ts) us = push_tasks B h (ts @ us)"
  by (simp add: push_tasks_def)

lemma push_tasks_frame [simp]:
  "thread_id (push_tasks B h ts) = thread_id h"
  "m_pressure (push_tasks B h ts) = m_pressure h"
  "m_queue_thread (push_tasks B h ts) = m_queue_thread h"
  "m_queue_thread_complete (push_tasks B h ts) = m_queue_thread_complete h"
  "m_queue_main_complete (push_tasks B h ts) = m_queue_main_complete h"
  by (induction ts arbitrary: h) simp_all

lemma push_tasks_maps [simp]:
  "devs (push_tasks B g ts) = devs g"
  "m_MapDeviceInfo (push_tasks B g ts) = m_MapDeviceInfo g"
  "m_MapDeviceSessionInfo (push_tasks B g ts) = m_MapDeviceSessionInfo g"
  "next_dev (push_tasks B g ts) = next_dev g"
  "epfd (push_tasks B g ts) = epfd g"
  by (induction ts arbitrary: g) simp_all

context boost_ring
begin

lemma push_tasks_contents:
  "contents elems (foldl (push B) q ts) = contents elems q @ ts"
  by (induction ts arbitrary: q) (simp_all add: push_contents)

end

lemma push_tasks_queue: "m_queue_main (push_tasks B h ts) = foldl (push B) (m_queue_main h) ts"
  by (induction ts arbitrary: h) (simp_all add: push_task_main_def)

section \<open>Receiving\<close>

text \<open>The task for a frame: its bytes, their number, and a terminating zero.\<close>

definition frame_task :: "int \<Rightarrow> int \<Rightarrow> byte list \<Rightarrow> task" where
  "frame_task th s f =
     task_clientConnPacket th s (int (length f)) (Some (map Some f @ [Some 0]))"

lemma read_frame_len:
  assumes "4 \<le> length bs"
  obtains w where "read_be32 (take 4 (map Some bs)) = Inr w" "sint w = frame_len bs"
proof -
  from assms obtain a b c d cs where "bs = a # b # c # d # cs"
    by (auto simp: numeral_eq_Suc Suc_le_length_iff)
  then show ?thesis using that by (simp add: read_be32_def frame_len_def)
qed

text \<open>One step over a complete frame.\<close>

lemma doRead_parse_step:
  assumes inv: "device_inv d" and p: "recv_pending d = map Some bs"
    and n: "4 < length bs" "frame_len bs = int n" "4 \<le> n" "n \<le> 4096" "n \<le> length bs"
  shows "doRead_parse E h d =
    doRead_parse E (push_task_main (ring E) h (frame_task (thread_id h) (session_id d) (take n bs)))
      (d\<lparr>recv_begin := recv_begin d + int n\<rparr>)"
    and "device_inv (d\<lparr>recv_begin := recv_begin d + int n\<rparr>)"
    and "recv_pending (d\<lparr>recv_begin := recv_begin d + int n\<rparr>) = map Some (drop n bs)"
proof -
  have w: "window_ok (recv_buffer d) (recv_begin d) (recv_end d)"
    using inv by (simp add: device_inv_def)
  have len: "recv_end d - recv_begin d = int (length bs)"
    using length_pending(1) [OF inv] p by simp
  from n(1) obtain l where l: "read_be32 (take 4 (map Some bs)) = Inr l" "sint l = frame_len bs"
    using read_frame_len [of bs] by auto
  have ld: "mem_load (recv_buffer d) (recv_begin d) 4 = Inr (take 4 (map Some bs))"
    using w window_take [OF w, of 4] len n(1) p by (simp add: window_ok_def recv_pending_def)
  have "take n (drop (nat (recv_begin d)) (recv_buffer d)) = map Some (take n bs)"
    using window_take [OF w, of "int n"] len n(5) p by (simp add: recv_pending_def take_map)
  moreover have "int n \<le> int (length (drop (nat (recv_begin d)) (recv_buffer d)))"
    using device_inv_bounds [OF inv] len n(5) by simp
  ultimately have "clientConnPacket_InitData (Some (drop (nat (recv_begin d)) (recv_buffer d)))
      (int n) (new_task_clientConnPacket (thread_id h) (session_id d)) =
      Inr (frame_task (thread_id h) (session_id d) (take n bs))"
    using clientConnPacket_InitData_ok [of "int n"] n by (simp add: frame_task_def)
  with ld show "doRead_parse E h d =
    doRead_parse E (push_task_main (ring E) h (frame_task (thread_id h) (session_id d) (take n bs)))
      (d\<lparr>recv_begin := recv_begin d + int n\<rparr>)"
    using n len l
    by (subst doRead_parse.simps)
      (simp add: Let_def)
  show "device_inv (d\<lparr>recv_begin := recv_begin d + int n\<rparr>)"
    using inv len n(5) by (simp add: device_inv_def window_ok_def)
  show "recv_pending (d\<lparr>recv_begin := recv_begin d + int n\<rparr>) = map Some (drop n bs)"
    using window_drop [OF w, of "int n"] len n(5) p by (simp add: recv_pending_def drop_map)
qed

lemma doRead_parse_stop:
  assumes inv: "device_inv d" and p: "recv_pending d = map Some bs"
    and stop: "length bs \<le> 4 \<and> ok \<or> 4 < length bs \<and> (frame_len bs > 4096 \<or> frame_len bs < 4) \<and> \<not> ok \<or>
      4 < length bs \<and> 4 \<le> frame_len bs \<and> frame_len bs \<le> 4096 \<and> frame_len bs > int (length bs) \<and> ok"
  shows "doRead_parse E h d = Inr (h, d, ok)"
proof -
  have w: "window_ok (recv_buffer d) (recv_begin d) (recv_end d)"
    using inv by (simp add: device_inv_def)
  have len: "recv_end d - recv_begin d = int (length bs)"
    using length_pending(1) [OF inv] p by simp
  show ?thesis
  proof (cases "4 < length bs")
    case True
    then obtain l where l: "read_be32 (take 4 (map Some bs)) = Inr l" "sint l = frame_len bs"
      using read_frame_len [of bs] by auto
    have "mem_load (recv_buffer d) (recv_begin d) 4 = Inr (take 4 (map Some bs))"
      using w window_take [OF w, of 4] len True p by (simp add: window_ok_def recv_pending_def)
    then show ?thesis
      using True stop len l by (subst doRead_parse.simps) (auto simp: Let_def)
  next
    case False
    then show ?thesis using stop len by (subst doRead_parse.simps) auto
  qed
qed

lemma doRead_parse_refines:
  assumes "device_inv d" and "recv_pending d = map Some bs" and "parse_stream bs = (fs, r, ok)"
  shows "\<exists>d'. doRead_parse E h d =
      Inr (push_tasks (ring E) h (map (frame_task (thread_id h) (session_id d)) fs), d', ok) \<and>
    device_inv d' \<and> recv_pending d' = map Some r \<and> send_pending d' = send_pending d \<and>
    same_identity d d'"
  using assms
proof (induction bs arbitrary: h d fs rule: parse_stream.induct)
  case (1 bs)
  from 1(4) show ?case
  proof (cases rule: parse_stream_cases)
    case (frame n fs')
    let ?d = "d\<lparr>recv_begin := recv_begin d + int n\<rparr>"
    let ?h = "push_task_main (ring E) h (frame_task (thread_id h) (session_id d) (take n bs))"
    note step = doRead_parse_step(1) [OF 1(2,3) frame(1-5), where E = E and h = h]
      doRead_parse_step(2,3) [OF 1(2,3) frame(1-5)]
    have "parse_stream (drop (nat (frame_len bs)) bs) = (fs', r, ok)" using frame by simp
    then obtain d' where "doRead_parse E ?h ?d =
        Inr (push_tasks (ring E) ?h (map (frame_task (thread_id ?h) (session_id ?d)) fs'), d', ok)"
      "device_inv d'" "recv_pending d' = map Some r" "send_pending d' = send_pending ?d"
      "same_identity ?d d'"
      using 1(1) [OF _ _ _ step(2), of fs' ?h] step(3) frame by auto
    then show ?thesis
      using step(1) frame(6) by (auto simp: same_identity_def send_pending_def)
  qed (use 1(2,3) doRead_parse_stop [OF 1(2,3), where E = E and h = h and ok = ok] in auto)
qed

text \<open>
  How the receive loop ends while the stream is legal: with a \<open>recv\<close> that gave no bytes, whose
  outcome decides whether the connection stays (\<open>recv_keeps\<close>).
\<close>

definition recv_keeps :: "recv_result \<Rightarrow> bool" where
  "recv_keeps res = (case res of Recv_bytes _ \<Rightarrow> False
     | Recv_error e \<Rightarrow> e = EAGAIN \<or> e = EWOULDBLOCK \<or> e = EINTR)"

definition recv_ended :: "('o, 'q) env \<Rightarrow> int \<Rightarrow> 'o \<Rightarrow> bool \<Rightarrow> bool" where
  "recv_ended E f s' result \<longleftrightarrow> (\<exists>s n res. 0 < n \<and> os_recv E s f n = (s', res) \<and>
     (\<forall>cs. res = Recv_bytes cs \<longrightarrow> cs = []) \<and> result = recv_keeps res)"

text \<open>
  The outer loop.  Whatever arrives is appended to what was pending, and the frames of the whole
  are handed on; the loop ends because every round takes at least one of the bytes still to come.
\<close>

lemma doRead_loop_refines:
  assumes R: "recv_stream E inb" and ov: "memcpy_overlap E"
  shows "device_inv d \<Longrightarrow> recv_pending d = map Some bs \<Longrightarrow> length bs < 4096 \<Longrightarrow>
    parse_stream bs = ([], bs, True) \<Longrightarrow>
    \<exists>s' d' result got fs r ok.
      doRead_loop E s h d =
        Some (Inr (s', push_tasks (ring E) h (map (frame_task (thread_id h) (session_id d)) fs), d', result)) \<and>
      inb s (fd d) = got @ inb s' (fd d) \<and> parse_stream (bs @ got) = (fs, r, ok) \<and> (if ok then recv_ended E (fd d) s' result else \<not> result) \<and>
      device_inv d' \<and> recv_pending d' = map Some r \<and> send_pending d' = send_pending d \<and>
      same_identity d d'"
proof (induction "length (inb s (fd d))" arbitrary: s h d bs rule: less_induct)
  case less
  from clear_Recv_ok [OF less.prems(1), of True] obtain e where
    e: "clear_Recv_buff True d = Inr e" "device_inv e" "recv_begin e = 0"
      "recv_end e = recv_end d - recv_begin d" "recv_pending e = recv_pending d"
      "send_pending e = send_pending d" "same_identity d e" by auto
  have ids: "fd e = fd d" "session_id e = session_id d" using e(7) by (simp_all add: same_identity_def)
  have end_e: "recv_end e = int (length bs)"
    using length_pending(1) [OF less.prems(1)] less.prems(2) e(4) by simp
  let ?n = "4096 - recv_end e"
  have n: "0 < ?n" using end_e less.prems(3) by simp
  obtain s1 res where rv: "os_recv E s (fd d) ?n = (s1, res)" by fastforce
  show ?case
  proof (cases res)
    case (Recv_error x)
    then have "doRead_loop E s h d = Some (Inr (s1, h, e, x = EAGAIN \<or> x = EWOULDBLOCK \<or> x = EINTR))"
      using rv e(1) ids ov by (simp add: doRead_loop.simps [of E s h d])
    moreover have "inb s (fd d) = [] @ inb s1 (fd d)"
      using recv_stream.recv_error [OF R n] rv Recv_error by simp
    moreover have "recv_ended E (fd d) s1 (x = EAGAIN \<or> x = EWOULDBLOCK \<or> x = EINTR)"
      unfolding recv_ended_def using n rv Recv_error by (fastforce simp: recv_keeps_def)
    ultimately show ?thesis using less.prems e
      by - (rule exI [of _ s1], rule exI [of _ e],
        rule exI [of _ "x = EAGAIN \<or> x = EWOULDBLOCK \<or> x = EINTR"], rule exI [of _ "[]"],
        rule exI [of _ "[]"], rule exI [of _ bs], rule exI [of _ True], simp)
  next
    case (Recv_bytes cs)
    have rs: "int (length cs) \<le> ?n" "inb s (fd d) = cs @ inb s1 (fd d)"
      using recv_stream.recv_bytes [OF R n] rv Recv_bytes by auto
    show ?thesis
    proof (cases "cs = []")
      case True
      then have "doRead_loop E s h d = Some (Inr (s1, h, e, False))"
        using rv e(1) ids ov Recv_bytes by (simp add: doRead_loop.simps [of E s h d])
      moreover have "recv_ended E (fd d) s1 False"
        unfolding recv_ended_def using n rv Recv_bytes True by (fastforce simp: recv_keeps_def)
      ultimately show ?thesis using less.prems e rs True
        by - (rule exI [of _ s1], rule exI [of _ e], rule exI [of _ False], rule exI [of _ "[]"],
          rule exI [of _ "[]"], rule exI [of _ bs], rule exI [of _ True], simp)
    next
      case False
      let ?m = "poke (recv_buffer e) (nat (recv_end e)) (map Some cs)"
      let ?e = "e\<lparr>recv_buffer := ?m, recv_end := recv_end e + int (length cs)\<rparr>"
      have w: "window_ok (recv_buffer e) (recv_begin e) (recv_end e)"
        using e(2) by (simp add: device_inv_def)
      have st: "mem_store (recv_buffer e) (recv_end e) (map Some cs) = Inr ?m"
        using w rs(1) by (intro mem_store_ok) (auto simp: window_ok_def)
      have inv1: "device_inv ?e"
        using window_ok_append [OF w, of "map Some cs"] rs(1) e(2) by (simp add: device_inv_def)
      have pend1: "recv_pending ?e = map Some (bs @ cs)"
        using window_append [OF w, of "map Some cs"] rs(1) e(5) less.prems(2)
        by (simp add: recv_pending_def)
      obtain fs r ok where ps: "parse_stream (bs @ cs) = (fs, r, ok)" by (rule prod_cases3)
      from doRead_parse_refines [OF inv1 pend1 ps, of E h] ids(2) obtain d1 where
        d1: "doRead_parse E h ?e =
            Inr (push_tasks (ring E) h (map (frame_task (thread_id h) (session_id d)) fs), d1, ok)"
          "device_inv d1" "recv_pending d1 = map Some r" "send_pending d1 = send_pending d"
          "same_identity e d1"
        using e(6) by (auto simp: same_identity_def send_pending_def)
      let ?h = "push_tasks (ring E) h (map (frame_task (thread_id h) (session_id d)) fs)"
      have same: "same_identity d d1" using e(7) d1(5) by (rule same_identity_trans)
      have fd1: "fd d1 = fd d" "session_id d1 = session_id d" using same by (simp_all add: same_identity_def)
      show ?thesis
      proof (cases ok)
        case False
        have "doRead_loop E s h d = Some (Inr (s1, ?h, d1, False))"
          using rv e(1) ids ov Recv_bytes \<open>cs \<noteq> []\<close> st d1(1) False
          by (simp add: doRead_loop.simps [of E s h d])
        then show ?thesis using rs(2) ps d1 same False
          by - (rule exI [of _ s1], rule exI [of _ d1], rule exI [of _ False], rule exI [of _ cs],
            rule exI [of _ fs], rule exI [of _ r], rule exI [of _ False], simp)
      next
        case True
        have eq: "doRead_loop E s h d = doRead_loop E s1 ?h d1"
          using rv e(1) ids ov Recv_bytes \<open>cs \<noteq> []\<close> st d1(1) True
          by (simp add: doRead_loop.simps [of E s h d])
        have len: "length (inb s1 (fd d1)) < length (inb s (fd d))"
          using rs(2) fd1 \<open>cs \<noteq> []\<close> by simp
        have rest: "parse_stream r = ([], r, True)" using parse_stream_idem [of "bs @ cs"] ps True by simp
        have short: "length r < 4096" using parse_stream_rest [of "bs @ cs"] ps True by simp
        from less.hyps [OF len d1(2,3) short rest, of ?h]
        obtain s' d' result got fs2 r2 ok2 where
          IH: "doRead_loop E s1 ?h d1 = Some (Inr (s', push_tasks (ring E) ?h
              (map (frame_task (thread_id ?h) (session_id d1)) fs2), d', result))"
            "inb s1 (fd d1) = got @ inb s' (fd d1)" "parse_stream (r @ got) = (fs2, r2, ok2)"
            "if ok2 then recv_ended E (fd d1) s' result else \<not> result" "device_inv d'" "recv_pending d' = map Some r2"
            "send_pending d' = send_pending d1" "same_identity d1 d'" by auto
        have "parse_stream (bs @ cs @ got) = (fs @ fs2, r2, ok2)"
          using parse_stream_append [of "bs @ cs" fs r got] ps True IH(3) by simp
        moreover have "doRead_loop E s h d = Some (Inr (s', push_tasks (ring E) h
            (map (frame_task (thread_id h) (session_id d)) (fs @ fs2)), d', result))"
          using eq IH(1) fd1(2) by (simp add: push_tasks_append)
        moreover have "inb s (fd d) = (cs @ got) @ inb s' (fd d)" using rs(2) IH(2) fd1(1) by simp
        moreover have "if ok2 then recv_ended E (fd d) s' result else \<not> result"
          using IH(4) unfolding fd1(1) .
        ultimately show ?thesis
          using IH(5-7) d1(4) same_identity_trans [OF same IH(8)]
          by - (rule exI [of _ s'], rule exI [of _ d'], rule exI [of _ result],
            rule exI [of _ "cs @ got"], rule exI [of _ "fs @ fs2"], rule exI [of _ r2],
            rule exI [of _ ok2], simp)
      qed
    qed
  qed
qed

text \<open>The same for \<open>doRead\<close> on a descriptor of the map.\<close>

lemma doRead_refines:
  assumes R: "recv_stream E inb" and ov: "memcpy_overlap E"
    and dev: "m_MapDeviceInfo h f = Some a" "devs h a = Some d" "fd d = f"
    and inv: "device_inv d" "recv_pending d = map Some bs" "length bs < 4096"
      "parse_stream bs = ([], bs, True)"
  shows "\<exists>s' d' result got fs r ok.
      doRead E s h f = Some (Inr (s', (push_tasks (ring E) h
          (map (frame_task (thread_id h) (session_id d)) fs))\<lparr>devs := (devs h)(a \<mapsto> d')\<rparr>, result)) \<and>
      inb s f = got @ inb s' f \<and> parse_stream (bs @ got) = (fs, r, ok) \<and> (if ok then recv_ended E f s' result else \<not> result) \<and>
      device_inv d' \<and> recv_pending d' = map Some r \<and> send_pending d' = send_pending d \<and>
      same_identity d d'"
proof -
  from doRead_loop_refines [OF R ov inv, of s h] obtain s' d' result got fs r ok where
    l: "doRead_loop E s h d = Some (Inr (s', push_tasks (ring E) h
        (map (frame_task (thread_id h) (session_id d)) fs), d', result))"
    and rest: "inb s (fd d) = got @ inb s' (fd d)" "parse_stream (bs @ got) = (fs, r, ok)"
      "if ok then recv_ended E (fd d) s' result else \<not> result" "device_inv d'" "recv_pending d' = map Some r" "send_pending d' = send_pending d"
      "same_identity d d'" by blast
  have "doRead E s h f = Some (Inr (s', (push_tasks (ring E) h
      (map (frame_task (thread_id h) (session_id d)) fs))\<lparr>devs := (devs h)(a \<mapsto> d')\<rparr>, result))"
    using dev l by (simp add: doRead_def GetDeviceInfo_ByFD_def)
  with rest show ?thesis unfolding dev(3) by - (rule exI [of _ s'], rule exI [of _ d'],
    rule exI [of _ result], rule exI [of _ got], rule exI [of _ fs], rule exI [of _ r],
    rule exI [of _ ok], simp)
qed

section \<open>Sending\<close>

text \<open>
  The send loop takes from the front of the pending bytes exactly what the kernel accepts; it
  reports success either with nothing left or when the kernel cannot take more for now.
\<close>

lemma doWrite_loop_refines:
  assumes S: "send_stream E outb" and ov: "memcpy_overlap E"
  shows "device_inv d \<Longrightarrow> \<exists>s' d' result sent.
      doWrite_loop E s d = Some (Inr (s', d', result)) \<and>
      send_pending d = sent @ send_pending d' \<and> outb s' (fd d) = outb s (fd d) @ sent \<and>
      device_inv d' \<and> recv_pending d' = recv_pending d \<and> same_identity d d'"
proof (induction "length (send_pending d)" arbitrary: s d rule: less_induct)
  case less
  from clear_Send_ok [OF less.prems, of True] obtain e where
    e: "clear_Send_buff True d = Inr e" "device_inv e" "send_begin e = 0"
      "send_end e = send_end d - send_begin d" "send_pending e = send_pending d"
      "recv_pending e = recv_pending d" "same_identity d e" by auto
  have ids: "fd e = fd d" using e(7) by (simp add: same_identity_def)
  show ?case
  proof (cases "send_end e \<le> send_begin e")
    case True
    then have "doWrite_loop E s d = Some (Inr (s, e, True))"
      using e(1) ov by (simp add: doWrite_loop.simps [of E s d])
    then show ?thesis using e by fastforce
  next
    case False
    let ?cs = "send_pending e"
    have w: "window_ok (send_buffer e) (send_begin e) (send_end e)"
      using e(2) by (simp add: device_inv_def)
    have ld: "mem_load (send_buffer e) (send_begin e) (send_end e - send_begin e) = Inr ?cs"
      using w by (simp add: window_ok_def send_pending_def window_def)
    have len: "int (length ?cs) = send_end e - send_begin e" by (rule length_pending(2) [OF e(2)])
    have ne: "?cs \<noteq> []" using len False by auto
    obtain s1 res where sd: "os_send E s (fd d) ?cs = (s1, res)" by fastforce
    show ?thesis
    proof (cases res)
      case (Send_error x)
      then have "doWrite_loop E s d = Some (Inr (s1, e, x = EAGAIN \<or> x = EWOULDBLOCK \<or> x = EINTR))"
        using e(1) ov False ld sd ids by (simp add: doWrite_loop.simps [of E s d])
      moreover have "outb s1 (fd d) = outb s (fd d) @ []"
        using send_stream.send_error [OF S ne] sd Send_error by simp
      ultimately show ?thesis using e by fastforce
    next
      case (Send_count n)
      have n: "0 \<le> n" "n \<le> int (length ?cs)" "outb s1 (fd d) = outb s (fd d) @ take (nat n) ?cs"
        using send_stream.send_count [OF S ne] sd Send_count by auto
      show ?thesis
      proof (cases "n = 0")
        case True
        then have "doWrite_loop E s d = Some (Inr (s1, e, False))"
          using e(1) ov False ld sd ids Send_count by (simp add: doWrite_loop.simps [of E s d])
        then show ?thesis using e n True by fastforce
      next
        case pos: False
        let ?e = "e\<lparr>send_begin := send_begin e + n\<rparr>"
        have eq: "doWrite_loop E s d = doWrite_loop E s1 ?e"
          using e(1) ov False ld sd ids Send_count pos by (simp add: doWrite_loop.simps [of E s d])
        have inv: "device_inv ?e" using e(2) n(1,2) len by (simp add: device_inv_def window_ok_def)
        have pend: "send_pending ?e = drop (nat n) ?cs"
          using window_drop [OF w, of n] n(1,2) len by (simp add: send_pending_def)
        have "length (send_pending ?e) < length (send_pending d)"
          using pend e(5) n(1) pos ne by simp
        from less.hyps [OF this inv, of s1] obtain s' d' result sent where
          IH: "doWrite_loop E s1 ?e = Some (Inr (s', d', result))"
            "send_pending ?e = sent @ send_pending d'" "outb s' (fd e) = outb s1 (fd e) @ sent"
            "device_inv d'" "recv_pending d' = recv_pending ?e" "same_identity ?e d'" by auto
        have "send_pending d = (take (nat n) ?cs @ sent) @ send_pending d'"
          using IH(2) pend e(5) by (metis append_assoc append_take_drop_id)
        moreover have "outb s' (fd d) = outb s (fd d) @ (take (nat n) ?cs @ sent)"
          using IH(3) n(3) ids by simp
        moreover have "recv_pending d' = recv_pending d"
          using IH(5) e(6) by (simp add: recv_pending_def)
        moreover have "same_identity d d'"
          using e(7) IH(6) by (simp add: same_identity_def)
        moreover have "doWrite_loop E s d = Some (Inr (s', d', result))" using eq IH(1) by simp
        ultimately show ?thesis using IH(4) by blast
      qed
    qed
  qed
qed

lemma doWrite_refines:
  assumes S: "send_stream E outb" and ov: "memcpy_overlap E"
    and dev: "m_MapDeviceInfo h f = Some a" "devs h a = Some d" "fd d = f" and inv: "device_inv d"
  shows "\<exists>s' d' result sent.
      doWrite E s h f = Some (Inr (s', h\<lparr>devs := (devs h)(a \<mapsto> d')\<rparr>, result)) \<and>
      send_pending d = sent @ send_pending d' \<and> outb s' f = outb s f @ sent \<and>
      device_inv d' \<and> recv_pending d' = recv_pending d \<and> same_identity d d'"
proof (cases "send_end d \<le> send_begin d")
  case True
  then have "doWrite E s h f = Some (Inr (s, h\<lparr>devs := (devs h)(a \<mapsto> d)\<rparr>, True))"
    using dev by (simp add: doWrite_def GetDeviceInfo_ByFD_def fun_upd_idem)
  then show ?thesis using inv by fastforce
next
  case False
  from doWrite_loop_refines [OF S ov inv, of s] obtain s' d' result sent where
    l: "doWrite_loop E s d = Some (Inr (s', d', result))"
      "send_pending d = sent @ send_pending d'" "outb s' (fd d) = outb s (fd d) @ sent"
      "device_inv d'" "recv_pending d' = recv_pending d" "same_identity d d'" by blast
  have "doWrite E s h f = Some (Inr (s', h\<lparr>devs := (devs h)(a \<mapsto> d')\<rparr>, result))"
    using dev False l(1) by (simp add: doWrite_def GetDeviceInfo_ByFD_def)
  then show ?thesis using l(2-6) unfolding dev(3) by blast
qed

section \<open>Accepting\<close>

lemma doAccept_loop_drains:
  assumes A: "accept_queue E backlog" and dev: "devs h a = Some d"
  shows "\<exists>s'. doAccept_loop E s h f a = Some (Inr (s', push_tasks (ring E) h
      (map (\<lambda>(c, ad). task_clientConn (thread_id h) c (getClientDeviceType (device_type d)) ad)
        (backlog s f)))) \<and> backlog s' f = []"
  using dev
proof (induction "backlog s f" arbitrary: s h)
  case Nil
  from accept_queue.accept_none [OF A, of s f] Nil(1) obtain s' c ad where
    "os_accept E s f = (s', c, ad)" "c < 0" "backlog s' f = []" by auto
  then show ?case using Nil(1) by (simp add: doAccept_loop.simps [of E s h f a])
next
  case (Cons p ps)
  obtain c ad where p: "p = (c, ad)" by fastforce
  from accept_queue.accept_some [OF A, of s f c ad ps] Cons(2) p obtain s1 where
    s1: "0 \<le> c" "os_accept E s f = (s1, c, ad)" "backlog s1 f = ps" by auto
  let ?t = "task_clientConn (thread_id h) c (getClientDeviceType (device_type d)) ad"
  have "ps = backlog (setnonblocking E s1 c) f"
    using s1(3) accept_queue.accept_fcntl [OF A] by simp
  from Cons(1) [OF this, of "push_task_main (ring E) h ?t"] Cons(3) s1(3)
    accept_queue.accept_fcntl [OF A, of s1 c f] obtain s' where
    "doAccept_loop E (setnonblocking E s1 c) (push_task_main (ring E) h ?t) f a =
      Some (Inr (s', push_tasks (ring E) (push_task_main (ring E) h ?t)
        (map (\<lambda>(c, ad). task_clientConn (thread_id h) c (getClientDeviceType (device_type d)) ad) ps)))"
    "backlog s' f = []" by auto
  moreover have "doAccept_loop E s h f a =
      doAccept_loop E (setnonblocking E s1 c) (push_task_main (ring E) h ?t) f a"
    using s1 Cons(3) by (simp add: doAccept_loop.simps [of E s h f a] new_task_clientConn_def)
  ultimately show ?case unfolding Cons(2) [symmetric] p by simp
qed

section \<open>A connection that stays open\<close>

lemma recv_ended_open:
  assumes "open_stream E inb" and "recv_ended E f s' result"
  shows "result \<and> inb s' f = []"
proof -
  from assms(2) obtain s n res where r: "0 < n" "os_recv E s f n = (s', res)"
    "\<forall>cs. res = Recv_bytes cs \<longrightarrow> cs = []" "result = recv_keeps res"
    unfolding recv_ended_def by blast
  have dry: "inb s f = []" using open_stream.recv_more [OF assms(1) r(1), of s f] r by auto
  then have res: "res = Recv_error EAGAIN" using open_stream.recv_dry [OF assms(1) r(1), of s f] r by auto
  have "recv_stream E inb" using assms(1) by (simp add: open_stream_def)
  from recv_stream.recv_error [OF this r(1), of s f s' EAGAIN] have "inb s' f = []"
    using r(2) res dry by simp
  then show ?thesis using r(4) res by (simp add: recv_keeps_def)
qed

lemma push_tasks_main_contents:
  "boost_ring (ring E) elems cap \<Longrightarrow>
   contents elems (m_queue_main (push_tasks (ring E) h ts)) = contents elems (m_queue_main h) @ ts"
  by (simp add: push_tasks_queue boost_ring.push_tasks_contents)

text \<open>Several \<open>write\<close>s in a row on one connection.\<close>

fun write_all :: "bool \<Rightarrow> DEVICE_INFO \<Rightarrow> byte list list \<Rightarrow> DEVICE_INFO res" where
  "write_all ov d [] = Inr d"
| "write_all ov d (s # ss) =
     bind_res (DEVICE_INFO_write ov d (Some (map Some s)) (int (length s))) (\<lambda>(d, n). write_all ov d ss)"

lemma write_all_ok:
  "device_inv d \<Longrightarrow> \<forall>s\<in>set ss. s \<noteq> [] \<Longrightarrow>
   length (send_pending d) + length (concat (map frame_of ss)) \<le> 4096 \<Longrightarrow>
   \<exists>d'. write_all True d ss = Inr d' \<and> device_inv d' \<and>
     send_pending d' = send_pending d @ map Some (concat (map frame_of ss))"
proof (induction ss arbitrary: d)
  case (Cons s ss)
  have s: "map Some s \<noteq> []" "int (length (map Some s)) \<le> 2147483643" using Cons.prems by auto
  from DEVICE_INFO_write_ok [OF Cons.prems(1) s] obtain d1 n where
    d1: "DEVICE_INFO_write True d (Some (map Some s)) (int (length (map Some s))) = Inr (d1, n)"
      "device_inv d1" and sp: "if length (send_pending d) + 4 + length (map Some s) \<le> 4096
     then n = int (length (map Some s)) \<and> send_pending d1 = send_pending d @
            map Some (be32 (word_of_int (int (length (map Some s)) + 4))) @ map Some s
     else n = 0 \<and> send_pending d1 = send_pending d" by blast
  have "send_pending d1 = send_pending d @ map Some (frame_of s)"
    using sp Cons.prems(3) by (simp add: frame_of_def)
  then show ?case using Cons.IH [OF d1(2)] Cons.prems(2,3) d1(1) by auto
qed simp

text \<open>Everything that arrives on a connection that stays open, when it ends with a whole frame, is handed on.\<close>

lemma doRead_whole:
  assumes "open_stream E inb" and "boost_ring (ring E) elems cap" and "memcpy_overlap E"
    and "m_MapDeviceInfo h f = Some a" and "devs h a = Some d" and "fd d = f" and "device_inv d"
    and "recv_pending d = []" and parse: "parse_stream (inb s f) = (fs, [], True)"
  shows "\<exists>s' h' d'. doRead E s h f = Some (Inr (s', h', True)) \<and> inb s' f = [] \<and>
    contents elems (m_queue_main h') = contents elems (m_queue_main h) @
      map (frame_task (thread_id h) (session_id d)) fs \<and>
    devs h' = (devs h)(a \<mapsto> d') \<and> recv_pending d' = [] \<and> device_inv d'"
proof -
  have R: "recv_stream E inb" using assms(1) by (simp add: open_stream_def)
  from assms(8) have "recv_pending d = map Some []" by simp
  from doRead_refines [OF R assms(3-7) this, of s] obtain s' d' result got gs r ok where
    rd: "doRead E s h f = Some (Inr (s', (push_tasks (ring E) h
          (map (frame_task (thread_id h) (session_id d)) gs))\<lparr>devs := (devs h)(a \<mapsto> d')\<rparr>, result))"
      "inb s f = got @ inb s' f" "parse_stream got = (gs, r, ok)"
      "if ok then recv_ended E f s' result else \<not> result" "device_inv d'"
      "recv_pending d' = map Some r" by auto
  have ok: ok
  proof (rule ccontr)
    assume "\<not> ok"
    with parse_stream_stuck [of got gs r "inb s' f"] rd(2,3) parse show False by simp
  qed
  then have e: "result" "inb s' f = []" using recv_ended_open [OF assms(1)] rd(4) by auto
  then have gs: "gs = fs" "r = []" using rd(2,3) parse by auto
  show ?thesis
    using rd(1,5,6) e gs push_tasks_main_contents [OF assms(2), of h]
    by - (rule exI [of _ s'], rule exI [of _ "(push_tasks (ring E) h (map (frame_task (thread_id h)
        (session_id d)) fs))\<lparr>devs := (devs h)(a \<mapsto> d')\<rparr>"], rule exI [of _ d'], simp)
qed

section \<open>Properties\<close>

text \<open>A handler with one client connection, descriptor 7 and session 5.\<close>

definition one_conn :: "task list EpollHandler" where
  "one_conn = (new_EpollHandler sim_env)
     \<lparr>m_MapDeviceInfo := [7 \<mapsto> 0], m_MapDeviceSessionInfo := [5 \<mapsto> 0], next_dev := 1,
      devs := [0 \<mapsto> (new_DEVICE_INFO 0 DEVICE_CLIENT_EXTERNAL)\<lparr>fd := 7, session_id := 5\<rparr>]\<rparr>"

lemma one_conn_simps [simp]:
  "m_MapDeviceInfo one_conn 7 = Some 0"
  "devs one_conn 0 = Some ((new_DEVICE_INFO 0 DEVICE_CLIENT_EXTERNAL)\<lparr>fd := 7, session_id := 5\<rparr>)"
  "contents (\<lambda>r. r) (m_queue_main one_conn) = []" "thread_id one_conn = -1"
  by (simp_all add: one_conn_def new_EpollHandler_def thread.defs new_Thread_def new_spsc_queue_def
      contents_def sim_env_def list_ring_def)

lemma one_conn_device [simp]:
  "device_inv ((new_DEVICE_INFO 0 t)\<lparr>fd := f, session_id := s\<rparr>)"
  "recv_pending ((new_DEVICE_INFO 0 t)\<lparr>fd := f, session_id := s\<rparr>) = []"
  "send_pending ((new_DEVICE_INFO 0 t)\<lparr>fd := f, session_id := s\<rparr>) = []"
  using device_inv_new [of 0 t] pending_new [of 0 t]
  by (simp_all add: device_inv_def recv_pending_def send_pending_def)

lemma sim_env_memcpy [simp]: "memcpy_overlap sim_env"
  by (simp add: sim_env_def)









end
