(* ===== verification/EpollDevices.thy ===== *)
theory EpollDevices
  imports EpollIO
begin

text \<open>
  The connections of an epoll thread: the two maps and the heap of \<open>DEVICE_INFO\<close> objects stay
  consistent, the load value counts the objects, and handling any batch of epoll events under the
  documented behaviour of the system calls neither faults nor hangs, and notifies the main thread
  once of every session it closes.
\<close>

section \<open>Invariants\<close>

text \<open>The maps reach exactly the live objects, each under its own descriptor and session.\<close>

definition maps_inv :: "'q EpollHandler \<Rightarrow> bool" where
  "maps_inv h \<longleftrightarrow>
     finite (dom (devs h)) \<and> (\<forall>a\<in>dom (devs h). a < next_dev h) \<and>
     (\<forall>f a. m_MapDeviceInfo h f = Some a \<longleftrightarrow> (\<exists>d. devs h a = Some d \<and> fd d = f)) \<and>
     (\<forall>k a. m_MapDeviceSessionInfo h k = Some a \<longleftrightarrow> (\<exists>d. devs h a = Some d \<and> session_id d = k))"

text \<open>Between events a connection holds an incomplete frame.\<close>

definition device_ok :: "DEVICE_INFO \<Rightarrow> bool" where
  "device_ok d \<longleftrightarrow> device_inv d \<and>
     (\<exists>bs. recv_pending d = map Some bs \<and> length bs < 4096 \<and> parse_stream bs = ([], bs, True))"

definition devices_ok :: "'q EpollHandler \<Rightarrow> bool" where
  "devices_ok h \<longleftrightarrow> (\<forall>a d. devs h a = Some d \<longrightarrow> device_ok d)"

text \<open>The load value is its uninitialised start value plus the number of connections.\<close>

definition pressure_inv :: "int \<Rightarrow> 'q EpollHandler \<Rightarrow> bool" where
  "pressure_inv base h \<longleftrightarrow> in_i32 base \<and> m_pressure h = base + int (card (dom (devs h))) \<and>
     in_i32 (m_pressure h)"

definition handler_inv :: "int \<Rightarrow> 'q EpollHandler \<Rightarrow> bool" where
  "handler_inv base h \<longleftrightarrow> maps_inv h \<and> devices_ok h \<and> pressure_inv base h"

lemma maps_inv_fd: "maps_inv h \<Longrightarrow> m_MapDeviceInfo h f = Some a \<longleftrightarrow> (\<exists>d. devs h a = Some d \<and> fd d = f)"
  by (simp add: maps_inv_def)

lemma maps_inv_session: "maps_inv h \<Longrightarrow>
    m_MapDeviceSessionInfo h k = Some a \<longleftrightarrow> (\<exists>d. devs h a = Some d \<and> session_id d = k)"
  by (simp add: maps_inv_def)

lemma maps_inv_inj:
  assumes "maps_inv h" "devs h a = Some d" "devs h b = Some e"
  shows "fd d = fd e \<Longrightarrow> a = b" "session_id d = session_id e \<Longrightarrow> a = b"
proof -
  have "m_MapDeviceInfo h (fd d) = Some a" "m_MapDeviceInfo h (fd e) = Some b"
    using assms by (auto simp: maps_inv_fd)
  then show "fd d = fd e \<Longrightarrow> a = b" by simp
  have "m_MapDeviceSessionInfo h (session_id d) = Some a" "m_MapDeviceSessionInfo h (session_id e) = Some b"
    using assms by (auto simp: maps_inv_session)
  then show "session_id d = session_id e \<Longrightarrow> a = b" by simp
qed

lemma inv_push_tasks [simp]:
  "maps_inv (push_tasks B h ts) = maps_inv h"
  "devices_ok (push_tasks B h ts) = devices_ok h"
  "pressure_inv b (push_tasks B h ts) = pressure_inv b h"
  by (simp_all add: maps_inv_def devices_ok_def pressure_inv_def)

lemma handler_inv_push_tasks [simp]: "handler_inv b (push_tasks B h ts) = handler_inv b h"
  by (simp add: handler_inv_def)

lemma inv_push_task [simp]:
  "maps_inv (push_task_main B h t) = maps_inv h"
  "devices_ok (push_task_main B h t) = devices_ok h"
  "pressure_inv b (push_task_main B h t) = pressure_inv b h"
  by (simp_all add: maps_inv_def devices_ok_def pressure_inv_def)

lemma inv_events_slot [simp]:
  "handler_inv b (h\<lparr>events_slot := evs\<rparr>) = handler_inv b h"
  by (simp add: handler_inv_def maps_inv_def devices_ok_def pressure_inv_def)

lemma device_ok_new: "device_ok ((new_DEVICE_INFO x t)\<lparr>fd := f, session_id := k, sock_addr := ad\<rparr>)"
  using device_inv_new [of x t] pending_new [of x t]
  by (simp add: device_ok_def device_inv_def recv_pending_def)

lemma handler_inv_new: "in_i32 (indet E) \<Longrightarrow> handler_inv (indet E) (new_EpollHandler E)"
  by (simp add: handler_inv_def maps_inv_def devices_ok_def pressure_inv_def new_EpollHandler_def
      thread.defs new_Thread_def)

section \<open>Changing, adding and removing a connection\<close>

lemma maps_inv_update:
  assumes "maps_inv h" "devs h a = Some d" "same_identity d d'"
  shows "maps_inv (h\<lparr>devs := (devs h)(a \<mapsto> d')\<rparr>)"
  using assms unfolding maps_inv_def same_identity_def by (auto simp: insert_absorb)

lemma handler_inv_update:
  assumes "handler_inv b h" "devs h a = Some d" "same_identity d d'" "device_ok d'"
  shows "handler_inv b (h\<lparr>devs := (devs h)(a \<mapsto> d')\<rparr>)"
  using assms maps_inv_update [of h a d d']
  by (auto simp: handler_inv_def devices_ok_def pressure_inv_def insert_absorb domI)

text \<open>The effect of both removals on the handler.\<close>

definition drop_device :: "'q EpollHandler \<Rightarrow> nat \<Rightarrow> DEVICE_INFO \<Rightarrow> 'q EpollHandler" where
  "drop_device h a d = h\<lparr>m_pressure := m_pressure h - 1,
     m_MapDeviceInfo := (m_MapDeviceInfo h)(fd d := None),
     m_MapDeviceSessionInfo := (m_MapDeviceSessionInfo h)(session_id d := None),
     devs := (devs h)(a := None)\<rparr>"

lemma drop_device_simps [simp]:
  "devs (drop_device h a d) = (devs h)(a := None)"
  "m_MapDeviceInfo (drop_device h a d) = (m_MapDeviceInfo h)(fd d := None)"
  "m_MapDeviceSessionInfo (drop_device h a d) = (m_MapDeviceSessionInfo h)(session_id d := None)"
  "m_pressure (drop_device h a d) = m_pressure h - 1"
  "thread_id (drop_device h a d) = thread_id h" "next_dev (drop_device h a d) = next_dev h"
  "m_queue_thread (drop_device h a d) = m_queue_thread h"
  "m_queue_thread_complete (drop_device h a d) = m_queue_thread_complete h"
  "m_queue_main_complete (drop_device h a d) = m_queue_main_complete h"
  "m_queue_main (drop_device h a d) = m_queue_main h" "epfd (drop_device h a d) = epfd h"
  by (simp_all add: drop_device_def)

lemma pressure_remove:
  assumes "maps_inv h" "pressure_inv b h" "devs h a = Some d"
  shows "in_i32 (m_pressure h - 1)" "int (card (dom (devs h) - {a})) = int (card (dom (devs h))) - 1"
proof -
  have "finite (dom (devs h))" "a \<in> dom (devs h)" using assms by (auto simp: maps_inv_def)
  then have pos: "0 < card (dom (devs h))" by (auto simp: card_gt_0_iff)
  then show "int (card (dom (devs h) - {a})) = int (card (dom (devs h))) - 1"
    using \<open>a \<in> dom (devs h)\<close> by simp
  show "in_i32 (m_pressure h - 1)" using assms(2) pos by (simp add: pressure_inv_def in_i32_def)
qed

lemma drop_device_inv:
  assumes "maps_inv h" "pressure_inv b h" "devs h a = Some d"
    and ok: "\<And>x e. x \<noteq> a \<Longrightarrow> devs h x = Some e \<Longrightarrow> device_ok e"
  shows "handler_inv b (drop_device h a d)"
proof -
  have other: "fd e \<noteq> fd d" "session_id e \<noteq> session_id d" if "x \<noteq> a" "devs h x = Some e" for x e
    using maps_inv_inj [OF assms(1,3) that(2)] that(1) by metis+
  have "m_MapDeviceInfo (drop_device h a d) f = Some x \<longleftrightarrow>
      (\<exists>e. devs (drop_device h a d) x = Some e \<and> fd e = f)" for f x
    using other(1) by (cases "x = a") (auto simp: maps_inv_fd [OF assms(1)] assms(3))
  moreover have "m_MapDeviceSessionInfo (drop_device h a d) k = Some x \<longleftrightarrow>
      (\<exists>e. devs (drop_device h a d) x = Some e \<and> session_id e = k)" for k x
    using other(2) by (cases "x = a") (auto simp: maps_inv_session [OF assms(1)] assms(3))
  moreover have "finite (dom (devs h) - {a}) \<and> (\<forall>x\<in>dom (devs h) - {a}. x < next_dev h)"
    using assms(1) by (auto simp: maps_inv_def)
  ultimately have "maps_inv (drop_device h a d)" by (simp add: maps_inv_def)
  moreover have "devices_ok (drop_device h a d)" using ok by (auto simp: devices_ok_def split: if_splits)
  moreover have "pressure_inv b (drop_device h a d)"
    using pressure_remove [OF assms(1-3)] assms(2) by (auto simp: pressure_inv_def)
  ultimately show ?thesis by (simp add: handler_inv_def)
qed

lemma removeDevice_ByFD_eq:
  assumes "maps_inv h" "pressure_inv b h" "devs h a = Some d"
  shows "removeDevice_ByFD E s h (fd d) =
    Inr (os_close E (EpollRemove E s h (fd d)) (fd d), drop_device h a d)"
proof -
  have "m_MapDeviceInfo h (fd d) = Some a" using assms by (auto simp: maps_inv_fd)
  then show ?thesis
    using assms(3) pressure_remove(1) [OF assms]
    by (simp add: removeDevice_ByFD_def GetDeviceInfo_ByFD_def addPressure_def drop_device_def Let_def)
qed

lemma removeDevice_BySession_eq:
  assumes "maps_inv h" "pressure_inv b h" "devs h a = Some d"
  shows "removeDevice_BySession E s h (session_id d) =
    Inr (EpollRemove E (os_close E s (fd d)) h (fd d), drop_device h a d)"
proof -
  have "m_MapDeviceSessionInfo h (session_id d) = Some a" using assms by (auto simp: maps_inv_session)
  then show ?thesis
    using assms(3) pressure_remove(1) [OF assms]
    by (simp add: removeDevice_BySession_def GetDeviceInfo_BySesion_def addPressure_def
        drop_device_def Let_def)
qed

lemma addDevice_taken:
  "m_MapDeviceSessionInfo h k \<noteq> None \<or> m_MapDeviceInfo h f \<noteq> None \<Longrightarrow>
   addDevice E h f k t ad = Inr (h, False)"
  by (auto simp: addDevice_def GetDeviceInfo_BySesion_def GetDeviceInfo_ByFD_def)

lemma addDevice_new:
  assumes inv: "handler_inv b h" and p: "in_i32 (m_pressure h + 1)"
    and free: "m_MapDeviceSessionInfo h k = None" "m_MapDeviceInfo h f = None"
  obtains h' d where "addDevice E h f k t ad = Inr (h', True)" "handler_inv b h'"
    "devs h' = (devs h)(next_dev h \<mapsto> d)" "next_dev h' = Suc (next_dev h)"
    "m_MapDeviceInfo h' = (m_MapDeviceInfo h)(f \<mapsto> next_dev h)"
    "m_MapDeviceSessionInfo h' = (m_MapDeviceSessionInfo h)(k \<mapsto> next_dev h)"
    "m_pressure h' = m_pressure h + 1" "thread_id h' = thread_id h" "m_queue_main h' = m_queue_main h"
    "fd d = f" "session_id d = k" "device_type d = t" "sock_addr d = ad"
    "recv_pending d = []" "send_pending d = []"
proof -
  let ?a = "next_dev h"
  let ?d = "(new_DEVICE_INFO (indet E) t)\<lparr>fd := f, session_id := k, sock_addr := ad\<rparr>"
  let ?h = "h\<lparr>m_pressure := m_pressure h + 1, devs := (devs h)(?a \<mapsto> ?d), next_dev := Suc ?a,
      m_MapDeviceInfo := (m_MapDeviceInfo h)(f \<mapsto> ?a),
      m_MapDeviceSessionInfo := (m_MapDeviceSessionInfo h)(k \<mapsto> ?a)\<rparr>"
  have maps: "maps_inv h" and dv: "devices_ok h" and pr: "pressure_inv b h"
    using inv by (simp_all add: handler_inv_def)
  have fresh: "devs h ?a = None" using maps by (auto simp: maps_inv_def)
  have eq: "addDevice E h f k t ad = Inr (?h, True)"
    using free p by (simp add: addDevice_def GetDeviceInfo_BySesion_def GetDeviceInfo_ByFD_def
        addPressure_def Let_def)
  have "devs h x \<noteq> Some e" if "fd e = f \<or> session_id e = k" for x e
    using that free maps_inv_fd [OF maps, of f x] maps_inv_session [OF maps, of k x] by auto
  then have "maps_inv ?h" using maps fresh unfolding maps_inv_def by (auto simp: less_Suc_eq)
  moreover have "devices_ok ?h" using dv device_ok_new by (auto simp: devices_ok_def)
  moreover have "pressure_inv b ?h"
    using pr p fresh maps by (simp add: pressure_inv_def maps_inv_def card_insert_if domIff)
  ultimately have "handler_inv b ?h" by (simp add: handler_inv_def)
  from that [OF eq this, of ?d] show ?thesis
    by (simp add: new_DEVICE_INFO_def recv_pending_def send_pending_def window_def)
qed

section \<open>Handling events\<close>

text \<open>
  The operating system and the ring as the handler sees them, in one contract.
\<close>

locale epoll_os = recv_stream E inb + send_stream E outb + accept_queue E backlog +
    boost_ring "ring E" elems cap
  for E :: "('o, 'q) env" and inb :: "'o \<Rightarrow> int \<Rightarrow> byte list" and outb :: "'o \<Rightarrow> int \<Rightarrow> cell list"
    and backlog :: "'o \<Rightarrow> int \<Rightarrow> (int \<times> sockaddr_in) list" and elems :: "'q \<Rightarrow> task list" and cap :: nat +
  assumes memmove: "memcpy_overlap E"

text \<open>The sessions a list of tasks reports as closed.\<close>

fun closed_sessions :: "task list \<Rightarrow> int list" where
  "closed_sessions [] = []"
| "closed_sessions (task_clientConnOnClose th k # ts) = k # closed_sessions ts"
| "closed_sessions (_ # ts) = closed_sessions ts"

lemma closed_sessions_append: "closed_sessions (ts @ us) = closed_sessions ts @ closed_sessions us"
  by (induction ts rule: closed_sessions.induct) simp_all

lemma closed_sessions_frames [simp]: "closed_sessions (map (frame_task th k) fs) = []"
  by (induction fs) (simp_all add: frame_task_def)

lemma closed_sessions_accepts [simp]:
  "closed_sessions (map (\<lambda>(c, ad). task_clientConn th c ty ad) ps) = []"
  by (induction ps) auto

text \<open>A task the epoll thread may send: meant for the main thread and stamped with the sender's id.\<close>

definition report :: "int \<Rightarrow> task \<Rightarrow> bool" where
  "report th t \<longleftrightarrow> getTaskThreadID t = th \<and> main_task t"

lemma report_simps [simp]:
  "report th (task_clientConn th c ty ad)" "report th (task_clientConnOnClose th k)"
  "length f \<le> 4096 \<Longrightarrow> report th (frame_task th k f)"
  by (auto simp: report_def main_task_def frame_task_def)

text \<open>
  The sessions of the connections that carry packets (a listener has session 0 and none), and tasks for the main
  thread whose packets belong to given sessions.
\<close>

definition client_type :: "DEVICE_TYPE \<Rightarrow> bool" where
  "client_type ty \<longleftrightarrow> ty \<in> {DEVICE_CLIENT_INTERNAL, DEVICE_CLIENT_EXTERNAL}"

definition client_sessions :: "'q EpollHandler \<Rightarrow> int set" where
  "client_sessions h = {session_id d |a d. devs h a = Some d \<and> client_type (device_type d)}"

definition about :: "int set \<Rightarrow> task \<Rightarrow> bool" where
  "about S t \<longleftrightarrow> (case t of task_clientConnPacket _ k _ _ \<Rightarrow> k \<in> S | _ \<Rightarrow> True)"

lemma about_mono: "about S t \<Longrightarrow> S \<subseteq> T \<Longrightarrow> about T t"
  by (cases t) (auto simp: about_def)

lemma about_simps [simp]:
  "about S (task_clientConn th c ty ad)" "about S (task_clientConnOnClose th k)"
  "about S (frame_task th k f) \<longleftrightarrow> k \<in> S"
  by (simp_all add: about_def frame_task_def)

lemma client_sessions_simps [simp]:
  "client_sessions (push_tasks B h ts) = client_sessions h"
  "client_sessions (push_task_main B h t) = client_sessions h"
  "client_sessions (h\<lparr>m_queue_thread := q\<rparr>) = client_sessions h"
  "client_sessions (h\<lparr>m_queue_thread_complete := q\<rparr>) = client_sessions h"
  "client_sessions (h\<lparr>m_queue_main := q\<rparr>) = client_sessions h"
  "client_sessions (h\<lparr>m_queue_main_complete := q\<rparr>) = client_sessions h"
  "client_sessions (h\<lparr>events_slot := evs\<rparr>) = client_sessions h"
  by (simp_all add: client_sessions_def)

lemma client_sessionsI: "devs h a = Some d \<Longrightarrow> client_type (device_type d) \<Longrightarrow> session_id d \<in> client_sessions h"
  by (auto simp: client_sessions_def)

lemma client_sessionsE:
  assumes "k \<in> client_sessions h"
  obtains a d where "devs h a = Some d" "client_type (device_type d)" "k = session_id d"
  using assms by (auto simp: client_sessions_def)

lemma client_sessions_drop: "client_sessions (drop_device h a d) \<subseteq> client_sessions h"
  by (auto simp: client_sessions_def split: if_splits)

lemma client_sessions_update:
  assumes "devs h a = Some d" "same_identity d d'"
  shows "client_sessions (h\<lparr>devs := (devs h)(a \<mapsto> d')\<rparr>) = client_sessions h"
proof -
  let ?h = "h\<lparr>devs := (devs h)(a \<mapsto> d')\<rparr>"
  have 1: "\<exists>e'. devs h x = Some e' \<and> session_id e' = session_id e \<and> device_type e' = device_type e" if "devs ?h x = Some e" for x e
    using that assms by (cases "x = a") (auto simp: same_identity_def)
  have 2: "\<exists>e'. devs ?h x = Some e' \<and> session_id e' = session_id e \<and> device_type e' = device_type e" if "devs h x = Some e" for x e
    using that assms by (cases "x = a") (auto simp: same_identity_def)
  show ?thesis
  proof (intro equalityI subsetI)
    fix k assume "k \<in> client_sessions ?h"
    with 1 show "k \<in> client_sessions h" by (metis client_sessionsE client_sessionsI)
  next
    fix k assume "k \<in> client_sessions h"
    with 2 show "k \<in> client_sessions ?h" by (metis client_sessionsE client_sessionsI)
  qed
qed

text \<open>
  The visible effect of event handling: new tasks for the main thread (\<open>report\<close>), which report exactly the sessions that disappeared from the map, each once, and packets of
  connections the thread has; the other queues
  are left alone and the load does not grow.
\<close>

definition handled :: "('q \<Rightarrow> task list) \<Rightarrow> 'q EpollHandler \<Rightarrow> 'q EpollHandler \<Rightarrow> bool" where
  "handled elems h h' \<longleftrightarrow> thread_id h' = thread_id h \<and> m_queue_thread h' = m_queue_thread h \<and>
     m_queue_thread_complete h' = m_queue_thread_complete h \<and>
     m_queue_main_complete h' = m_queue_main_complete h \<and> m_pressure h' \<le> m_pressure h \<and>
     client_sessions h' \<subseteq> client_sessions h \<and>
     (\<exists>ts. contents elems (m_queue_main h') = contents elems (m_queue_main h) @ ts \<and>
        (\<forall>t\<in>set ts. report (thread_id h) t \<and> about (client_sessions h) t) \<and>
        distinct (closed_sessions ts) \<and> set (closed_sessions ts) \<subseteq> dom (m_MapDeviceSessionInfo h) \<and>
        dom (m_MapDeviceSessionInfo h') = dom (m_MapDeviceSessionInfo h) - set (closed_sessions ts))"

lemma handled_refl: "handled elems h h"
  by (simp add: handled_def)

lemma handled_trans:
  assumes "handled elems h h1" "handled elems h1 h2"
  shows "handled elems h h2"
proof -
  have same: "m_queue_thread h2 = m_queue_thread h \<and>
     m_queue_thread_complete h2 = m_queue_thread_complete h \<and>
     m_queue_main_complete h2 = m_queue_main_complete h \<and> m_pressure h2 \<le> m_pressure h"
    using assms by (simp add: handled_def)
  have cs: "client_sessions h1 \<subseteq> client_sessions h" "client_sessions h2 \<subseteq> client_sessions h1"
    using assms by (simp_all add: handled_def)
  from assms(1) obtain ts where ts: "thread_id h1 = thread_id h"
    "contents elems (m_queue_main h1) = contents elems (m_queue_main h) @ ts"
    "\<forall>t\<in>set ts. report (thread_id h) t \<and> about (client_sessions h) t" "distinct (closed_sessions ts)"
    "set (closed_sessions ts) \<subseteq> dom (m_MapDeviceSessionInfo h)"
    "dom (m_MapDeviceSessionInfo h1) = dom (m_MapDeviceSessionInfo h) - set (closed_sessions ts)"
    unfolding handled_def by blast
  from assms(2) obtain us where us: "thread_id h2 = thread_id h1"
    "contents elems (m_queue_main h2) = contents elems (m_queue_main h1) @ us"
    "\<forall>t\<in>set us. report (thread_id h1) t \<and> about (client_sessions h1) t" "distinct (closed_sessions us)"
    "set (closed_sessions us) \<subseteq> dom (m_MapDeviceSessionInfo h1)"
    "dom (m_MapDeviceSessionInfo h2) = dom (m_MapDeviceSessionInfo h1) - set (closed_sessions us)"
    unfolding handled_def by blast
  have "\<forall>t\<in>set (ts @ us). report (thread_id h) t \<and> about (client_sessions h) t"
    using ts(1,3) us(3) about_mono [OF _ cs(1)] by auto
  moreover have "distinct (closed_sessions (ts @ us))"
    using ts(4,6) us(4,5) by (auto simp: closed_sessions_append)
  moreover have "set (closed_sessions (ts @ us)) \<subseteq> dom (m_MapDeviceSessionInfo h)"
    using ts(5,6) us(5) by (auto simp: closed_sessions_append)
  moreover have "dom (m_MapDeviceSessionInfo h2) =
      dom (m_MapDeviceSessionInfo h) - set (closed_sessions (ts @ us))"
    using ts(6) us(6) by (auto simp: closed_sessions_append)
  ultimately show ?thesis
    unfolding handled_def using ts(1,2) us(1,2) same cs by (intro conjI exI [of _ "ts @ us"]) simp_all
qed

lemma push_task_devs: "push_task_main B (h\<lparr>devs := x\<rparr>) t = (push_task_main B h t)\<lparr>devs := x\<rparr>"
  by (simp add: push_task_main_def)

lemma push_tasks_devs: "push_tasks B (h\<lparr>devs := x\<rparr>) ts = (push_tasks B h ts)\<lparr>devs := x\<rparr>"
  by (induction ts arbitrary: h) (simp_all add: push_task_devs)

context epoll_os
begin

lemma recv_ok: "recv_stream E inb" and send_ok: "send_stream E outb"
  and accept_ok: "accept_queue E backlog" and ring_ok: "boost_ring (ring E) elems cap"
  by unfold_locales

text \<open>Handing over tasks that close nothing, perhaps with a change of one connection.\<close>

lemma handled_push_tasks:
  assumes "closed_sessions ts = []" "\<forall>t\<in>set ts. report (thread_id h) t \<and> about (client_sessions h) t"
  shows "handled elems h (push_tasks (ring E) h ts)"
    "devs h a = Some d \<Longrightarrow> same_identity d d' \<Longrightarrow>
     handled elems h ((push_tasks (ring E) h ts)\<lparr>devs := (devs h)(a \<mapsto> d')\<rparr>)"
proof -
  show "handled elems h (push_tasks (ring E) h ts)"
    using assms push_tasks_main_contents [OF ring_ok, of h ts]
    by (auto simp: handled_def intro!: exI [of _ ts])
  assume "devs h a = Some d" "same_identity d d'"
  from client_sessions_update [OF this]
  have "client_sessions ((push_tasks (ring E) h ts)\<lparr>devs := (devs h)(a \<mapsto> d')\<rparr>) = client_sessions h"
    by (simp add: push_tasks_devs [symmetric])
  then show "handled elems h ((push_tasks (ring E) h ts)\<lparr>devs := (devs h)(a \<mapsto> d')\<rparr>)"
    using assms push_tasks_main_contents [OF ring_ok, of h ts]
    by (auto simp: handled_def intro!: exI [of _ ts])
qed

text \<open>Reporting a session and removing it.\<close>

lemma handled_drop:
  assumes "maps_inv h" "devs h a = Some d"
  shows "handled elems h (drop_device
    (push_task_main (ring E) h (task_clientConnOnClose (thread_id h) (session_id d))) a d)"
proof -
  let ?t = "task_clientConnOnClose (thread_id h) (session_id d)"
  have "m_MapDeviceSessionInfo h (session_id d) = Some a" using assms by (auto simp: maps_inv_session)
  then show ?thesis
    using push_contents [of "m_queue_main h" ?t] client_sessions_drop [of "push_task_main (ring E) h ?t" a d]
    by (auto simp: handled_def push_task_main_def intro!: exI [of _ "[?t]"])
qed

lemma doEpollEvent_io_ok:
  assumes dev: "m_MapDeviceInfo h (ev_fd ev) = Some a" "devs h a = Some d" "fd d = ev_fd ev"
    and ok: "device_ok d"
  shows "\<exists>s' d' ts result. doEpollEvent_io E s h ev =
      Some (Inr (s', (push_tasks (ring E) h ts)\<lparr>devs := (devs h)(a \<mapsto> d')\<rparr>, result)) \<and>
    same_identity d d' \<and> closed_sessions ts = [] \<and>
    (\<forall>t\<in>set ts. report (thread_id h) t \<and> about {session_id d} t) \<and>
    (result \<longrightarrow> device_ok d')"
proof -
  from ok obtain bs where bs: "device_inv d" "recv_pending d = map Some bs" "length bs < 4096"
    "parse_stream bs = ([], bs, True)" unfolding device_ok_def by blast
  have "\<exists>s1 d1 res1. (if and (ev_events ev) EPOLLOUT \<noteq> 0 then doWrite E s h (ev_fd ev)
      else Some (Inr (s, h, True))) = Some (Inr (s1, h\<lparr>devs := (devs h)(a \<mapsto> d1)\<rparr>, res1)) \<and>
      device_inv d1 \<and> recv_pending d1 = recv_pending d \<and> same_identity d d1"
  proof (cases "and (ev_events ev) EPOLLOUT \<noteq> 0")
    case True
    with doWrite_refines [OF send_ok memmove dev bs(1), of s] show ?thesis by auto
  next
    case False
    then show ?thesis
      by (intro exI [of _ s] exI [of _ d] exI [of _ True]) (simp add: dev bs(1) fun_upd_idem)
  qed
  then obtain s1 d1 res1 where w: "(if and (ev_events ev) EPOLLOUT \<noteq> 0 then doWrite E s h (ev_fd ev)
      else Some (Inr (s, h, True))) = Some (Inr (s1, h\<lparr>devs := (devs h)(a \<mapsto> d1)\<rparr>, res1))"
    "device_inv d1" "recv_pending d1 = recv_pending d" "same_identity d d1" by blast
  let ?h1 = "h\<lparr>devs := (devs h)(a \<mapsto> d1)\<rparr>"
  have ok1: "device_ok d1" using bs w(2,3) by (auto simp: device_ok_def)
  show ?thesis
  proof (cases "res1 \<and> and (ev_events ev) EPOLLIN \<noteq> 0")
    case False
    have "doEpollEvent_io E s h ev = Some (Inr (s1, ?h1, res1))"
      using False unfolding doEpollEvent_io_def w(1) by auto
    then show ?thesis using w(4) ok1
      by - (rule exI [of _ s1], rule exI [of _ d1], rule exI [of _ "[]"], rule exI [of _ res1], simp)
  next
    case True
    have dev1: "m_MapDeviceInfo ?h1 (ev_fd ev) = Some a" "devs ?h1 a = Some d1" "fd d1 = ev_fd ev"
      using dev w(4) by (simp_all add: same_identity_def)
    from w(3) bs(2) have "recv_pending d1 = map Some bs" by simp
    from doRead_refines [OF recv_ok memmove dev1 w(2) this bs(3,4), of s1] obtain s' d' result got fs r ok where
      r: "doRead E s1 ?h1 (ev_fd ev) = Some (Inr (s', (push_tasks (ring E) ?h1
          (map (frame_task (thread_id ?h1) (session_id d1)) fs))\<lparr>devs := (devs ?h1)(a \<mapsto> d')\<rparr>, result))"
        "parse_stream (bs @ got) = (fs, r, ok)" "if ok then recv_ended E (ev_fd ev) s' result else \<not> result"
        "device_inv d'" "recv_pending d' = map Some r" "same_identity d1 d'" by blast
    let ?ts = "map (frame_task (thread_id h) (session_id d)) fs"
    have sid: "session_id d1 = session_id d" using w(4) by (simp add: same_identity_def)
    have "doEpollEvent_io E s h ev =
        Some (Inr (s', (push_tasks (ring E) h ?ts)\<lparr>devs := (devs h)(a \<mapsto> d')\<rparr>, result))"
      using True r(1) sid unfolding doEpollEvent_io_def w(1) by (simp add: push_tasks_devs)
    moreover have "result \<longrightarrow> device_ok d'"
      using r(2-5) parse_stream_rest [of "bs @ got" fs r] parse_stream_idem [of "bs @ got" fs r]
      by (auto simp: device_ok_def split: if_splits)
    moreover have "\<forall>t\<in>set ?ts. report (thread_id h) t \<and> about {session_id d} t"
      using parse_stream_frames [OF r(2)] by auto
    ultimately show ?thesis using same_identity_trans [OF w(4) r(6)]
      by - (rule exI [of _ s'], rule exI [of _ d'], rule exI [of _ ?ts], rule exI [of _ result], simp)
  qed
qed

text \<open>An event on a listener reports every connection of its backlog.\<close>

lemma doEpollEvent_accepts:
  assumes "m_MapDeviceInfo h (ev_fd ev) = Some a" "devs h a = Some d"
    and "device_type d \<in> {DEVICE_SERVER_INTERNAL, DEVICE_SERVER_EXTERNAL}"
  obtains s' where "doEpollEvent E s h ev = Some (Inr (s', push_tasks (ring E) h
      (map (\<lambda>(c, ad). task_clientConn (thread_id h) c (getClientDeviceType (device_type d)) ad) (backlog s (ev_fd ev)))))"
proof -
  let ?ts = "map (\<lambda>(c, ad). task_clientConn (thread_id h) c (getClientDeviceType (device_type d)) ad)
      (backlog s (ev_fd ev))"
  have ty: "GetDeviceType_ByFD h (ev_fd ev) = Inr (device_type d)"
    using assms(1,2) by (simp add: GetDeviceType_ByFD_def GetDeviceInfo_ByFD_def)
  from doAccept_loop_drains [OF accept_ok assms(2), of s "ev_fd ev"] obtain s' where
    "doAccept_loop E s h (ev_fd ev) a = Some (Inr (s', push_tasks (ring E) h ?ts))" by blast
  then have "doEpollEvent E s h ev = Some (Inr (s', push_tasks (ring E) h ?ts))"
    using ty assms(1,3) by (auto simp: doEpollEvent_def doAccept_def GetDeviceInfo_ByFD_def)
  then show ?thesis by (rule that)
qed

lemma doEpollEvent_ok:
  assumes inv: "handler_inv b h"
  shows "\<exists>s' h'. doEpollEvent E s h ev = Some (Inr (s', h')) \<and> handler_inv b h' \<and> handled elems h h'"
proof (cases "m_MapDeviceInfo h (ev_fd ev)")
  case None
  then have "doEpollEvent E s h ev = Some (Inr (s, h))"
    by (simp add: doEpollEvent_def GetDeviceType_ByFD_def GetDeviceInfo_ByFD_def)
  then show ?thesis using inv handled_refl by blast
next
  case (Some a)
  have maps: "maps_inv h" and dv: "devices_ok h" and pr: "pressure_inv b h"
    using inv by (simp_all add: handler_inv_def)
  from Some obtain d where d: "devs h a = Some d" "fd d = ev_fd ev" by (auto simp: maps_inv_fd [OF maps])
  have ty: "GetDeviceType_ByFD h (ev_fd ev) = Inr (device_type d)"
    using Some d by (simp add: GetDeviceType_ByFD_def GetDeviceInfo_ByFD_def)
  have dok: "device_ok d" using dv d by (simp add: devices_ok_def)
  consider (server) "device_type d \<in> {DEVICE_SERVER_INTERNAL, DEVICE_SERVER_EXTERNAL}"
    | (client) "device_type d \<in> {DEVICE_CLIENT_INTERNAL, DEVICE_CLIENT_EXTERNAL}"
    | (other) "device_type d \<in> {DEVICE_UNKNOWN, DEVICE_MAX}"
    by (cases "device_type d") auto
  then show ?thesis
  proof cases
    case other
    then have "doEpollEvent E s h ev = Some (Inr (s, h))" using ty by (auto simp: doEpollEvent_def)
    then show ?thesis using inv handled_refl by blast
  next
    case server
    let ?ts = "map (\<lambda>(c, ad). task_clientConn (thread_id h) c (getClientDeviceType (device_type d)) ad)
      (backlog s (ev_fd ev))"
    from doEpollEvent_accepts [OF Some d(1) server, of s] obtain s' where
      "doEpollEvent E s h ev = Some (Inr (s', push_tasks (ring E) h ?ts))" by blast
    moreover have "handled elems h (push_tasks (ring E) h ?ts)"
      by (rule handled_push_tasks) auto
    ultimately show ?thesis using inv by auto
  next
    case client
    from doEpollEvent_io_ok [OF Some d dok, of s] obtain s' d' ts result where
      io: "doEpollEvent_io E s h ev =
        Some (Inr (s', (push_tasks (ring E) h ts)\<lparr>devs := (devs h)(a \<mapsto> d')\<rparr>, result))"
        "same_identity d d'" "closed_sessions ts = []"
        "\<forall>t\<in>set ts. report (thread_id h) t \<and> about {session_id d} t" "result \<longrightarrow> device_ok d'" by blast
    let ?h = "(push_tasks (ring E) h ts)\<lparr>devs := (devs h)(a \<mapsto> d')\<rparr>"
    have "{session_id d} \<subseteq> client_sessions h"
      using client d(1) by (auto simp: client_sessions_def client_type_def)
    then have "\<forall>t\<in>set ts. report (thread_id h) t \<and> about (client_sessions h) t"
      using io(4) about_mono by blast
    from handled_push_tasks(2) [OF io(3) this d(1) io(2)] have hd: "handled elems h ?h" .
    have io2: "bind_run (case device_type d of
          DEVICE_SERVER_INTERNAL \<Rightarrow>
            bind_run (doAccept E s h (ev_fd ev)) (\<lambda>(s, h, _). Some (Inr (s, h, True)))
        | DEVICE_SERVER_EXTERNAL \<Rightarrow>
            bind_run (doAccept E s h (ev_fd ev)) (\<lambda>(s, h, _). Some (Inr (s, h, True)))
        | DEVICE_CLIENT_INTERNAL \<Rightarrow> doEpollEvent_io E s h ev
        | DEVICE_CLIENT_EXTERNAL \<Rightarrow> doEpollEvent_io E s h ev
        | _ \<Rightarrow> Some (Inr (s, h, True))) k = k (s', ?h, result)" for k
      using client io(1) by (auto split: DEVICE_TYPE.splits)
    show ?thesis
    proof (cases result)
      case True
      have "handler_inv b (h\<lparr>devs := (devs h)(a \<mapsto> d')\<rparr>)"
        using handler_inv_update [OF inv d(1) io(2)] io(5) True by simp
      then have "handler_inv b ?h" by (simp add: push_tasks_devs [symmetric])
      moreover have "doEpollEvent E s h ev = Some (Inr (s', ?h))"
        using True unfolding doEpollEvent_def ty io2 [simplified] by (simp add: io2)
      ultimately show ?thesis using hd by blast
    next
      case False
      let ?t = "task_clientConnOnClose (thread_id ?h) (session_id d')"
      let ?g = "push_task_main (ring E) ?h ?t"
      have m: "maps_inv ?h" using maps_inv_update [OF maps d(1) io(2)] by (simp add: push_tasks_devs [symmetric])
      have p: "pressure_inv b ?g" using pr d(1)
        by (auto simp: pressure_inv_def insert_absorb domI)
      have f': "fd d' = ev_fd ev" using io(2) d(2) by (simp add: same_identity_def)
      have rm: "removeDevice_ByFD E s' ?g (ev_fd ev) =
          Inr (os_close E (EpollRemove E s' ?g (fd d')) (fd d'), drop_device ?g a d')"
        using removeDevice_ByFD_eq [of ?g b a d' E s'] m p f' by simp
      have "doEpollEvent E s h ev = Some (removeDevice_ByFD E s' ?g (ev_fd ev))"
        using False Some unfolding doEpollEvent_def ty
        by (simp add: io2 GetDeviceInfo_ByFD_def new_task_clientConnOnClose_def)
      then have ev: "doEpollEvent E s h ev =
          Some (Inr (os_close E (EpollRemove E s' ?g (fd d')) (fd d'), drop_device ?g a d'))"
        using rm by simp
      have "handler_inv b (drop_device ?g a d')"
      proof (rule drop_device_inv)
        show "maps_inv ?g" "pressure_inv b ?g" "devs ?g a = Some d'" using m p by simp_all
        show "device_ok e" if "x \<noteq> a" "devs ?g x = Some e" for x e
          using that dv by (auto simp: devices_ok_def)
      qed
      moreover have "handled elems ?h (drop_device ?g a d')" by (rule handled_drop [OF m]) simp
      ultimately show ?thesis using ev handled_trans [OF hd] by blast
    qed
  qed
qed

lemma doEpollEvents_loop_ok:
  "handler_inv b h \<Longrightarrow>
   \<exists>s' h'. doEpollEvents_loop E s h evs = Some (Inr (s', h')) \<and> handler_inv b h' \<and> handled elems h h'"
proof (induction evs arbitrary: s h)
  case Nil
  then show ?case using handled_refl by auto
next
  case (Cons ev evs)
  from doEpollEvent_ok [OF Cons.prems, of s ev] obtain s1 h1 where
    1: "doEpollEvent E s h ev = Some (Inr (s1, h1))" "handler_inv b h1" "handled elems h h1" by blast
  from Cons.IH [OF 1(2), of s1] obtain s' h' where
    2: "doEpollEvents_loop E s1 h1 evs = Some (Inr (s', h'))" "handler_inv b h'" "handled elems h1 h'" by blast
  show ?case using 1(1) 2(1,2) handled_trans [OF 1(3) 2(3)] by simp
qed

end

lemma sim_epoll_os: "epoll_os sim_env sim_in sim_out
    (\<lambda>s f. takeWhile (\<lambda>p. 0 \<le> fst p) (sim_backlog s f)) (\<lambda>r. r) MAX_SPSC_QUEUE_SIZE"
  by (intro epoll_os.intro epoll_os_axioms.intro sim_recv.recv_stream_axioms
      sim_send.send_stream_axioms sim_accept.accept_queue_axioms sim_env_ring sim_env_memcpy)

interpretation sim_os: epoll_os sim_env sim_in sim_out
    "\<lambda>s f. takeWhile (\<lambda>p. 0 \<le> fst p) (sim_backlog s f)" "\<lambda>r. r" MAX_SPSC_QUEUE_SIZE
  by (rule sim_epoll_os)

lemma one_conn_inv: "handler_inv (-1) one_conn"
proof -
  have "devs one_conn = [0 \<mapsto> (new_DEVICE_INFO 0 DEVICE_CLIENT_EXTERNAL)\<lparr>fd := 7, session_id := 5\<rparr>]"
    "next_dev one_conn = 1" "m_MapDeviceInfo one_conn = [7 \<mapsto> 0]"
    "m_MapDeviceSessionInfo one_conn = [5 \<mapsto> 0]" "m_pressure one_conn = 0"
    by (simp_all add: one_conn_def new_EpollHandler_def thread.defs new_Thread_def sim_env_def)
  then show ?thesis
    by (auto simp: handler_inv_def maps_inv_def devices_ok_def device_ok_def pressure_inv_def in_i32_def)
qed

section \<open>Properties\<close>



text \<open>
  Removing a connection.  On a consistent handler both removals take the connection out of both
  maps and the heap and lower the load by one; but \<open>removeDevice_BySession\<close> closes the descriptor
  first and only then asks epoll to forget it, \<open>removeDevice_ByFD\<close> does it the other way round.
\<close>

theorem remove_device_order:
  assumes "handler_inv b h" and "devs h a = Some d"
  shows "removeDevice_ByFD E s h (fd d) =
      Inr (os_close E (fst (os_epoll_del E s (epfd h) (fd d))) (fd d), drop_device h a d) \<and>
    removeDevice_BySession E s h (session_id d) =
      Inr (fst (os_epoll_del E (os_close E s (fd d)) (epfd h) (fd d)), drop_device h a d) \<and>
    handler_inv b (drop_device h a d)"
proof -
  have g: "maps_inv h" "pressure_inv b h" using assms(1) by (simp_all add: handler_inv_def)
  have "handler_inv b (drop_device h a d)"
    by (rule drop_device_inv [OF g assms(2)]) (use assms(1) in \<open>auto simp: handler_inv_def devices_ok_def\<close>)
  then show ?thesis
    using removeDevice_ByFD_eq [OF g assms(2), of E s] removeDevice_BySession_eq [OF g assms(2), of E s]
    by (simp add: EpollRemove_def)
qed

theorem remove_device_order_witness:
  "\<exists>h'. removeDevice_BySession sim_env sim_start one_conn 5 = Inr (sim_start, h') \<and> handler_inv (-1) h'"
  using remove_device_order [OF one_conn_inv one_conn_simps(2), of sim_env sim_start]
  by (simp add: sim_env_def)

text \<open>
  Adding a connection.  \<open>addDevice\<close> refuses a descriptor or a session that is in use, in
  particular a second listener, since every listener has session 0; otherwise there is one new
  connection with the given identity and empty buffers, under both keys, and the load grows by one.
\<close>

theorem add_device_cases:
  assumes "handler_inv b h" and "in_i32 (m_pressure h + 1)"
  shows "if m_MapDeviceSessionInfo h k \<noteq> None \<or> m_MapDeviceInfo h f \<noteq> None
    then addDevice E h f k t ad = Inr (h, False)
    else \<exists>h' d. addDevice E h f k t ad = Inr (h', True) \<and> handler_inv b h' \<and>
      devs h' = (devs h)(next_dev h \<mapsto> d) \<and>
      m_MapDeviceInfo h' = (m_MapDeviceInfo h)(f \<mapsto> next_dev h) \<and>
      m_MapDeviceSessionInfo h' = (m_MapDeviceSessionInfo h)(k \<mapsto> next_dev h) \<and>
      m_pressure h' = m_pressure h + 1 \<and> fd d = f \<and> session_id d = k \<and> device_type d = t \<and>
      sock_addr d = ad \<and> recv_pending d = [] \<and> send_pending d = []"
proof (cases "m_MapDeviceSessionInfo h k \<noteq> None \<or> m_MapDeviceInfo h f \<noteq> None")
  case True
  then have "addDevice E h f k t ad = Inr (h, False)" by (rule addDevice_taken)
  with True show ?thesis by simp
next
  case False
  then have free: "m_MapDeviceSessionInfo h k = None" "m_MapDeviceInfo h f = None" by auto
  from addDevice_new [OF assms free, of E t ad] show ?thesis
    unfolding if_not_P [OF False] by metis
qed

theorem add_device_cases_witness:
  "\<exists>h' d. addDevice sim_env one_conn 8 6 DEVICE_CLIENT_INTERNAL
       \<lparr>sin_family = 2, sin_port = 1, sin_addr = 1\<rparr> = Inr (h', True) \<and>
     handler_inv (-1) h' \<and> devs h' 1 = Some d \<and> fd d = 8 \<and> session_id d = 6"
proof -
  have "in_i32 (m_pressure one_conn + 1)" "next_dev one_conn = 1"
    "m_MapDeviceInfo one_conn 8 = None" "m_MapDeviceSessionInfo one_conn 6 = None"
    by (simp_all add: one_conn_def new_EpollHandler_def thread.defs new_Thread_def sim_env_def in_i32_def)
  with add_device_cases [OF one_conn_inv, of 6 8 sim_env DEVICE_CLIENT_INTERNAL
      "\<lparr>sin_family = 2, sin_port = 1, sin_addr = 1\<rparr>"]
  show ?thesis by auto
qed

end
