(* ===== verification/EpollThread.thy ===== *)
theory EpollThread
  imports EpollDevices
begin

text \<open>
  A round of the epoll thread: \<open>EpollHandler::dotask\<close> on each of the tasks the main thread sends, the
  task loop over \<open>m_queue_thread\<close>, and the round of \<open>epoll_thread_run\<close>.  On well-formed tasks a round
  always returns, without a fault, and keeps the invariant of the connections.
\<close>

section \<open>Tasks for the epoll thread\<close>

definition thread_task :: "task \<Rightarrow> bool" where
  "thread_task t \<longleftrightarrow>
     (case t of
        task_listener _ _ _ _ \<Rightarrow> True
      | task_clientConnInsert _ _ _ _ _ \<Rightarrow> True
      | task_clientConnDelete _ _ \<Rightarrow> True
      | task_sendPacket _ _ n (Some m) \<Rightarrow> 0 < n \<and> n \<le> 4096 \<and> n = int (length m)
      | _ \<Rightarrow> False)"

text \<open>A carried out task is the same task, but for the thread id of an insertion.\<close>

definition same_task :: "task \<Rightarrow> task \<Rightarrow> bool" where
  "same_task t t' \<longleftrightarrow>
     (case t of task_clientConnInsert _ f ty k ad \<Rightarrow> (\<exists>th. t' = task_clientConnInsert th f ty k ad)
      | _ \<Rightarrow> t' = t)"

lemma same_task_refl: "same_task t t"
  by (cases t) (simp_all add: same_task_def)

lemma inv_queues [simp]:
  "handler_inv b (h\<lparr>m_queue_thread := q\<rparr>) = handler_inv b h"
  "handler_inv b (h\<lparr>m_queue_thread_complete := q\<rparr>) = handler_inv b h"
  "handler_inv b (h\<lparr>m_queue_main := q\<rparr>) = handler_inv b h"
  "handler_inv b (h\<lparr>m_queue_main_complete := q\<rparr>) = handler_inv b h"
  by (simp_all add: handler_inv_def maps_inv_def devices_ok_def pressure_inv_def)

section \<open>The queues of the loop are left alone\<close>

definition same_queues :: "'q EpollHandler \<Rightarrow> 'q EpollHandler \<Rightarrow> bool" where
  "same_queues h h' \<longleftrightarrow> m_queue_thread h' = m_queue_thread h \<and>
     m_queue_main_complete h' = m_queue_main_complete h"

lemma same_queues_refl [simp]: "same_queues h h"
  by (simp add: same_queues_def)

lemma same_queues_addDevice: "addDevice E h f k t ad = Inr (h', r) \<Longrightarrow> same_queues h h'"
  by (auto simp: addDevice_def same_queues_def addPressure_def bind_res_Inr_iff Let_def
      split: if_splits)

lemma same_queues_remove:
  "removeDevice_BySession E s h k = Inr (s', h') \<Longrightarrow> same_queues h h'"
  "removeDevice_ByFD E s h f = Inr (s', h') \<Longrightarrow> same_queues h h'"
  by (auto simp: removeDevice_BySession_def removeDevice_ByFD_def same_queues_def addPressure_def
      bind_res_Inr_iff Let_def split: option.splits)

lemma same_queues_doWrite: "doWrite E s h f = Some (Inr (s', h', r)) \<Longrightarrow> same_queues h h'"
  by (auto simp: doWrite_def same_queues_def bind_run_Inr_iff split: option.splits if_splits)

lemma same_queues_trans: "same_queues a b \<Longrightarrow> same_queues b c \<Longrightarrow> same_queues a c"
  by (simp add: same_queues_def)

lemma same_queues_write:
  assumes "WritePacketToConn E s h k n p = Some (Inr (s', h'))"
  shows "same_queues h h'"
proof (cases "GetDeviceInfo_BySesion h k")
  case None
  then show ?thesis using assms by (simp add: WritePacketToConn_def)
next
  case (Some a)
  obtain d sendlen s1 h1 result where
    1: "(if sendlen < n then Some (Inr (s, h\<lparr>devs := (devs h)(a \<mapsto> d)\<rparr>, False))
         else doWrite E s (h\<lparr>devs := (devs h)(a \<mapsto> d)\<rparr>) (fd d)) = Some (Inr (s1, h1, result))"
    and 2: "(if result then Some (Inr (s1, h1))
         else Some (removeDevice_ByFD E s1 (push_task_main (ring E) h1
            (new_task_clientConnOnClose (thread_id h1) (session_id d))) (fd d))) = Some (Inr (s', h'))"
    using assms Some unfolding WritePacketToConn_def Let_def by (auto simp: bind_run_Inr_iff)
  have "same_queues h h1"
    using 1 same_queues_doWrite [of E s "h\<lparr>devs := (devs h)(a \<mapsto> d)\<rparr>"]
    by (auto simp: same_queues_def split: if_splits)
  moreover have "same_queues h1 h'"
    using 2 same_queues_remove(2) [of E s1 _ "fd d" s' h']
    by (fastforce simp: same_queues_def split: if_splits)
  ultimately show ?thesis by (rule same_queues_trans)
qed

lemma dotask_thread_frame:
  assumes "dotask_thread E w t = Some (Inr (w', t'))"
  shows "same_queues (snd w) (snd w') \<and> same_task t t'"
proof -
  from assms obtain s h where w': "w' = (s, h)"
    and sw: "dotask_switch E Epoll_thread (fst w) (snd w) t = Some (Inr (s, h, t'))"
    by (auto simp: dotask_thread_def bind_run_Inr_iff split: if_splits)
  show ?thesis
  proof (cases t)
    case (task_sendPacket th k n p)
    then show ?thesis using sw same_queues_write [of E "fst w" "snd w" k n p s h]
      by (simp add: dotask_switch_def w' bind_run_Inr_iff same_task_refl)
  qed (use sw in \<open>auto simp: dotask_switch_def w' AddListener_def AddClientConn_def DelClientConn_def
      bind_res_Inr_iff same_task_def Let_def dest: same_queues_addDevice same_queues_remove
      split: if_splits prod.splits\<close>)
qed

section \<open>Every task can be carried out\<close>

text \<open>
  Tasks that bring a thread connections of given sessions only; a listener brings none that carries packets.
\<close>

definition known_task :: "int set \<Rightarrow> task \<Rightarrow> bool" where
  "known_task S t \<longleftrightarrow>
     (case t of task_listener _ _ ty _ \<Rightarrow> \<not> client_type ty | task_clientConnInsert _ _ _ k _ \<Rightarrow> k \<in> S | _ \<Rightarrow> True)"

lemma known_task_mono: "known_task S t \<Longrightarrow> S \<subseteq> T \<Longrightarrow> known_task T t"
  by (cases t) (auto simp: known_task_def)

text \<open>
  What a thread adds to its queue for the main thread while it carries out the tasks \<open>us\<close>: tasks of its own that are meant for it,
  with packets of sessions only that its connections had before or that \<open>us\<close> brought.
\<close>

definition reports :: "('q \<Rightarrow> task list) \<Rightarrow> task list \<Rightarrow> 'q EpollHandler \<Rightarrow> 'q EpollHandler \<Rightarrow> bool" where
  "reports elems us h h' \<longleftrightarrow> thread_id h' = thread_id h \<and>
     (\<exists>ts. contents elems (m_queue_main h') = contents elems (m_queue_main h) @ ts \<and>
        (\<forall>t\<in>set ts. report (thread_id h) t) \<and>
        (\<forall>S. client_sessions h \<subseteq> S \<and> (\<forall>u\<in>set us. known_task S u) \<longrightarrow>
           client_sessions h' \<subseteq> S \<and> (\<forall>t\<in>set ts. about S t)))"

lemma reports_trans:
  assumes "reports elems us a b" "reports elems vs b c"
  shows "reports elems (us @ vs) a c"
proof -
  obtain ts where ts: "thread_id b = thread_id a" "contents elems (m_queue_main b) = contents elems (m_queue_main a) @ ts"
    "\<forall>t\<in>set ts. report (thread_id a) t"
    "\<forall>S. client_sessions a \<subseteq> S \<and> (\<forall>u\<in>set us. known_task S u) \<longrightarrow> client_sessions b \<subseteq> S \<and> (\<forall>t\<in>set ts. about S t)"
    using assms(1) unfolding reports_def by blast
  obtain ws where ws: "thread_id c = thread_id b" "contents elems (m_queue_main c) = contents elems (m_queue_main b) @ ws"
    "\<forall>t\<in>set ws. report (thread_id b) t"
    "\<forall>S. client_sessions b \<subseteq> S \<and> (\<forall>u\<in>set vs. known_task S u) \<longrightarrow> client_sessions c \<subseteq> S \<and> (\<forall>t\<in>set ws. about S t)"
    using assms(2) unfolding reports_def by blast
  have "client_sessions c \<subseteq> S \<and> (\<forall>t\<in>set (ts @ ws). about S t)"
    if "client_sessions a \<subseteq> S" "\<forall>u\<in>set (us @ vs). known_task S u" for S
    using that ts(4) ws(4) by auto
  then show ?thesis
    unfolding reports_def using ts(1-3) ws(1-3) by (intro conjI exI [of _ "ts @ ws"]) auto
qed

lemma reports_same: "thread_id h' = thread_id h \<Longrightarrow> client_sessions h' = client_sessions h \<Longrightarrow>
    contents elems (m_queue_main h') = contents elems (m_queue_main h) \<Longrightarrow> reports elems [] h h'"
  by (simp add: reports_def)

lemma reports_more: "reports elems [] h h' \<Longrightarrow> reports elems us h h'"
  by (auto simp: reports_def)

lemma handled_reports: "handled elems h h' \<Longrightarrow> reports elems [] h h'"
  unfolding handled_def reports_def using about_mono by (metis order_trans)

lemma client_sessions_add:
  assumes "addDevice E h f k ty ad = Inr (h', r)"
  shows "client_sessions h' \<subseteq> client_sessions h \<union> (if client_type ty then {k} else {})"
proof
  fix j assume "j \<in> client_sessions h'"
  then obtain a d where d: "devs h' a = Some d" "client_type (device_type d)" "j = session_id d"
    by (rule client_sessionsE)
  have "devs h a = Some d \<or> device_type d = ty \<and> session_id d = k"
    using assms d(1) by (auto simp: addDevice_def addPressure_def bind_res_Inr_iff Let_def new_DEVICE_INFO_def split: if_splits)
  then show "j \<in> client_sessions h \<union> (if client_type ty then {k} else {})"
    using d(2,3) client_sessionsI by auto
qed

lemma reports_addDevice:
  assumes "addDevice E h f k ty ad = Inr (h', r)"
    and "\<And>S. \<forall>u\<in>set us. known_task S u \<Longrightarrow> client_type ty \<Longrightarrow> k \<in> S"
  shows "reports elems us h h'"
proof -
  have "thread_id h' = thread_id h" "m_queue_main h' = m_queue_main h"
    using assms(1) by (auto simp: addDevice_def addPressure_def bind_res_Inr_iff Let_def split: if_splits)
  then show ?thesis using client_sessions_add [OF assms(1)] assms(2)
    unfolding reports_def by (auto split: if_splits)
qed

lemma reports_remove:
  assumes "removeDevice_BySession E s h k = Inr (s', h')"
  shows "reports elems us h h'"
proof -
  have "thread_id h' = thread_id h" "m_queue_main h' = m_queue_main h" "devs h' a = Some d \<Longrightarrow> devs h a = Some d" for a d
    using assms by (auto simp: removeDevice_BySession_def addPressure_def bind_res_Inr_iff Let_def
        split: option.splits if_splits)
  moreover from this(3) have "client_sessions h' \<subseteq> client_sessions h" by (auto elim!: client_sessionsE intro: client_sessionsI)
  ultimately show ?thesis unfolding reports_def by auto
qed

lemma handler_inv_device:
  assumes "handler_inv b h" "m_MapDeviceSessionInfo h k = Some a"
  obtains d where "devs h a = Some d" "session_id d = k" "device_ok d" "m_MapDeviceInfo h (fd d) = Some a"
  using assms by (auto simp: handler_inv_def devices_ok_def maps_inv_session maps_inv_fd)

lemma handler_inv_pressure: "handler_inv b h \<Longrightarrow> in_i32 (m_pressure h)"
  by (auto simp: handler_inv_def pressure_inv_def)

lemma device_ok_send:
  "device_ok d \<Longrightarrow> device_inv d' \<Longrightarrow> recv_pending d' = recv_pending d \<Longrightarrow> device_ok d'"
  by (auto simp: device_ok_def)

context epoll_os
begin

text \<open>Closing a connection from the epoll thread's side: report it, then remove it.\<close>

lemma close_connection:
  assumes inv: "handler_inv b h" and d: "devs h a = Some d"
  shows "\<exists>s' h'. removeDevice_ByFD E s (push_task_main (ring E) h
      (task_clientConnOnClose (thread_id h) (session_id d))) (fd d) = Inr (s', h') \<and>
    handler_inv b h' \<and> handled elems h h' \<and> m_pressure h' = m_pressure h - 1 \<and>
    m_MapDeviceSessionInfo h' = (m_MapDeviceSessionInfo h)(session_id d := None)"
proof -
  let ?g = "push_task_main (ring E) h (task_clientConnOnClose (thread_id h) (session_id d))"
  have g: "maps_inv ?g" "pressure_inv b ?g" "devs ?g a = Some d" and m: "maps_inv h"
    using inv d by (simp_all add: handler_inv_def)
  have "handler_inv b (drop_device ?g a d)"
    by (rule drop_device_inv [OF g]) (use inv in \<open>auto simp: handler_inv_def devices_ok_def\<close>)
  then show ?thesis using removeDevice_ByFD_eq [OF g, of E s] handled_drop [OF m d] by simp
qed

lemma WritePacketToConn_ok:
  assumes inv: "handler_inv b h" and m: "0 < n" "n \<le> 4096" "n = int (length m)"
  shows "\<exists>s' h'. WritePacketToConn E s h k n (Some m) = Some (Inr (s', h')) \<and>
    handler_inv b h' \<and> handled elems h h' \<and> m_pressure h' \<le> m_pressure h"
proof (cases "m_MapDeviceSessionInfo h k")
  case None
  then show ?thesis
    using inv handled_refl by (simp add: WritePacketToConn_def GetDeviceInfo_BySesion_def)
next
  case (Some a)
  then obtain d where d: "devs h a = Some d" "session_id d = k" "device_ok d"
    "m_MapDeviceInfo h (fd d) = Some a" by (rule handler_inv_device [OF inv])
  have ne: "m \<noteq> []" "int (length m) \<le> 2147483643" using m by auto
  have "device_inv d" using d(3) by (simp add: device_ok_def)
  from DEVICE_INFO_write_ok [OF this ne] obtain d1 w where
    w: "DEVICE_INFO_write True d (Some m) (int (length m)) = Inr (d1, w)" "device_inv d1"
      "recv_pending d1 = recv_pending d" "same_identity d d1" by metis
  let ?h1 = "h\<lparr>devs := (devs h)(a \<mapsto> d1)\<rparr>"
  have inv1: "handler_inv b ?h1"
    using handler_inv_update [OF inv d(1) w(4) device_ok_send [OF d(3) w(2,3)]] .
  have ids: "fd d1 = fd d" "session_id d1 = session_id d" using w(4) by (simp_all add: same_identity_def)
  have hd1: "handled elems h (h\<lparr>devs := (devs h)(a \<mapsto> x)\<rparr>)" if "same_identity d x" for x
    using handled_push_tasks(2) [of "[]" h a d x] d(1) that by simp
  obtain s1 d2 result where io: "(if w < n then Some (Inr (s, ?h1, False)) else doWrite E s ?h1 (fd d1)) =
      Some (Inr (s1, h\<lparr>devs := (devs h)(a \<mapsto> d2)\<rparr>, result))"
    "device_ok d2" "same_identity d1 d2"
  proof (cases "w < n")
    case True
    then show ?thesis using that [of s d1 False] device_ok_send [OF d(3) w(2,3)] by simp
  next
    case False
    have "m_MapDeviceInfo ?h1 (fd d1) = Some a" "devs ?h1 a = Some d1" using d(4) ids by simp_all
    from doWrite_refines [OF send_ok memmove this refl w(2), of s] obtain s1 d2 result where
      "doWrite E s ?h1 (fd d1) = Some (Inr (s1, ?h1\<lparr>devs := (devs ?h1)(a \<mapsto> d2)\<rparr>, result))"
      "device_inv d2" "recv_pending d2 = recv_pending d1" "same_identity d1 d2" by blast
    then show ?thesis using that [of s1 d2 result] device_ok_send [OF d(3), of d2] w(3) False by simp
  qed
  let ?h2 = "h\<lparr>devs := (devs h)(a \<mapsto> d2)\<rparr>"
  have inv2: "handler_inv b ?h2"
    using handler_inv_update [OF inv d(1) same_identity_trans [OF w(4) io(3)] io(2)] .
  have ids2: "fd d2 = fd d1" "session_id d2 = session_id d1" using io(3) by (simp_all add: same_identity_def)
  have eq: "WritePacketToConn E s h k n (Some m) =
      (if result then Some (Inr (s1, ?h2))
       else Some (removeDevice_ByFD E s1 (push_task_main (ring E) ?h2
         (task_clientConnOnClose (thread_id ?h2) (session_id d2))) (fd d2)))"
    using Some d(1) w(1) m(3) memmove io(1) ids2
    by (simp add: WritePacketToConn_def GetDeviceInfo_BySesion_def new_task_clientConnOnClose_def Let_def)
  show ?thesis
  proof (cases result)
    case True
    then show ?thesis using eq inv2 hd1 [OF same_identity_trans [OF w(4) io(3)]] by auto
  next
    case False
    from close_connection [OF inv2, of a d2 s1] obtain s' h' where
      "removeDevice_ByFD E s1 (push_task_main (ring E) ?h2
         (task_clientConnOnClose (thread_id ?h2) (session_id d2))) (fd d2) = Inr (s', h')"
      "handler_inv b h'" "handled elems ?h2 h'" "m_pressure h' = m_pressure ?h2 - 1" by auto
    then show ?thesis using eq False handled_trans [OF hd1 [OF same_identity_trans [OF w(4) io(3)]]] by auto
  qed
qed

lemma add_registered_ok:
  assumes inv: "handler_inv b h" and p: "in_i32 (m_pressure h + 1)"
  shows "\<exists>h' r. addDevice E h f k t ad = Inr (h', r) \<and> handler_inv b h' \<and>
    m_pressure h' \<le> m_pressure h + 1"
proof (cases "m_MapDeviceSessionInfo h k \<noteq> None \<or> m_MapDeviceInfo h f \<noteq> None")
  case True
  then have "addDevice E h f k t ad = Inr (h, False)" by (rule addDevice_taken)
  then show ?thesis using inv by auto
next
  case False
  then have free: "m_MapDeviceSessionInfo h k = None" "m_MapDeviceInfo h f = None" by auto
  from addDevice_new [OF inv p free, of E t ad] obtain h' where
    "addDevice E h f k t ad = Inr (h', True)" "handler_inv b h'" "m_pressure h' = m_pressure h + 1" by metis
  then show ?thesis by auto
qed

lemma removeDevice_BySession_ok:
  assumes inv: "handler_inv b h"
  shows "\<exists>s' h'. removeDevice_BySession E s h k = Inr (s', h') \<and> handler_inv b h' \<and>
    m_pressure h' \<le> m_pressure h \<and>
    m_MapDeviceSessionInfo h' = (m_MapDeviceSessionInfo h)(k := None)"
proof (cases "m_MapDeviceSessionInfo h k")
  case None
  then show ?thesis using inv
    by (simp add: removeDevice_BySession_def GetDeviceInfo_BySesion_def fun_upd_idem)
next
  case (Some a)
  then obtain d where d: "devs h a = Some d" "session_id d = k" by (rule handler_inv_device [OF inv])
  have g: "maps_inv h" "pressure_inv b h" using inv by (simp_all add: handler_inv_def)
  have "handler_inv b (drop_device h a d)"
    by (rule drop_device_inv [OF g d(1)]) (use inv in \<open>auto simp: handler_inv_def devices_ok_def\<close>)
  then show ?thesis using removeDevice_BySession_eq [OF g d(1), of E s] d(2) by simp
qed

lemma dotask_thread_ok:
  assumes inv: "handler_inv b h" and p: "in_i32 (m_pressure h + 1)" and t: "thread_task t"
  shows "\<exists>s' h' t'. dotask_thread E (s, h) t = Some (Inr ((s', h'), t')) \<and> handler_inv b h' \<and>
    reports elems [t] h h' \<and> m_pressure h' \<le> m_pressure h + 1"
proof (cases t)
  case (task_listener th f ty ad)
  obtain s1 r where reg: "EpollRegister E s h f (or EPOLLIN EPOLLET) = (s1, r)" by fastforce
  from add_registered_ok [OF inv p, of f 0 ty ad] obtain h' x where
    "addDevice E h f 0 ty ad = Inr (h', x)" "handler_inv b h'" "m_pressure h' \<le> m_pressure h + 1" by blast
  then show ?thesis using reg inv task_listener reports_more [OF reports_same [of h h]]
      reports_addDevice [of E h f 0 ty ad _ _ "[t]"]
    by (cases r) (simp_all add: dotask_thread_def dotask_switch_def AddListener_def known_task_def)
next
  case (task_clientConnInsert th f ty k ad)
  obtain s1 r where reg: "EpollRegister E s h f (or (or EPOLLIN EPOLLOUT) EPOLLET) = (s1, r)" by fastforce
  from add_registered_ok [OF inv p, of f k ty ad] obtain h' x where
    "addDevice E h f k ty ad = Inr (h', x)" "handler_inv b h'" "m_pressure h' \<le> m_pressure h + 1" by blast
  then show ?thesis using reg inv task_clientConnInsert reports_more [OF reports_same [of h h]]
      reports_addDevice [of E h f k ty ad _ _ "[t]"]
    by (cases r) (simp_all add: dotask_thread_def dotask_switch_def AddClientConn_def known_task_def Let_def)
next
  case (task_clientConnDelete th k)
  from removeDevice_BySession_ok [OF inv, of s k] obtain s' h' where
    "removeDevice_BySession E s h k = Inr (s', h')" "handler_inv b h'" "m_pressure h' \<le> m_pressure h" by blast
  then show ?thesis using task_clientConnDelete reports_remove [of E s h k]
    by (simp add: dotask_thread_def dotask_switch_def DelClientConn_def)
next
  case (task_sendPacket th k n p)
  with t obtain m where m: "p = Some m" "0 < n" "n \<le> 4096" "n = int (length m)"
    by (auto simp: thread_task_def split: option.splits)
  from WritePacketToConn_ok [OF inv m(2-4), of s k] obtain s' h' where
    "WritePacketToConn E s h k n (Some m) = Some (Inr (s', h'))" "handler_inv b h'"
    "handled elems h h'" "m_pressure h' \<le> m_pressure h" by blast
  then show ?thesis using task_sendPacket m(1) reports_more [OF handled_reports [of elems h h']] by (simp add: dotask_thread_def dotask_switch_def)
qed (use t in \<open>simp_all add: thread_task_def\<close>)

end

section \<open>The task loop of the thread\<close>

text \<open>
  The epoll thread's own world is the operating system and its object; the loop of
  \<open>handlerTask_thread\<close> over it satisfies the contract of \<open>task_loop\<close>, on every platform.
\<close>

sublocale epoll_os \<subseteq> thread_side: task_loop "ring E" elems cap
    "\<lambda>w. case pop (ring E) (m_queue_thread (snd w)) of
       (q, r) \<Rightarrow> (case w of (s, _) \<Rightarrow> (s, (snd w)\<lparr>m_queue_thread := q\<rparr>), r)"
    "dotask_thread E"
    "\<lambda>w t. case w of (s, _) \<Rightarrow> (s, (snd w)\<lparr>m_queue_main_complete :=
       push (ring E) (m_queue_main_complete (snd w)) t\<rparr>)"
    "\<lambda>w. m_queue_thread (snd w)" "\<lambda>w. m_queue_main_complete (snd w)" same_task
proof unfold_locales
  fix w :: "'o \<times> 'q EpollHandler" and w' r
  assume "(case pop (ring E) (m_queue_thread (snd w)) of
       (q, r) \<Rightarrow> (case w of (s, _) \<Rightarrow> (s, (snd w)\<lparr>m_queue_thread := q\<rparr>), r)) = (w', r)"
  then show "pop (ring E) (m_queue_thread (snd w)) = (m_queue_thread (snd w'), r) \<and>
      m_queue_main_complete (snd w') = m_queue_main_complete (snd w)"
    by (auto split: prod.splits)
next
  fix w :: "'o \<times> 'q EpollHandler" and t w' t'
  assume "dotask_thread E w t = Some (Inr (w', t'))"
  from dotask_thread_frame [OF this]
  show "m_queue_thread (snd w') = m_queue_thread (snd w) \<and>
      m_queue_main_complete (snd w') = m_queue_main_complete (snd w) \<and> same_task t t'"
    by (simp add: same_queues_def)
qed (auto split: prod.splits)

context epoll_os
begin

text \<open>What the loop needs to know of the thread's object with \<open>k\<close> tasks of the round to go.\<close>

definition loop_ready :: "int \<Rightarrow> nat \<Rightarrow> 'q EpollHandler \<Rightarrow> bool" where
  "loop_ready b k h \<longleftrightarrow> handler_inv b h \<and> in_i32 (m_pressure h + int k) \<and>
     (\<forall>t\<in>set (contents elems (m_queue_thread h)). thread_task t)"

lemma loop_ready_queues [simp]:
  "loop_ready b k (h\<lparr>m_queue_main_complete := q\<rparr>) = loop_ready b k h"
  "loop_ready b k (h\<lparr>m_queue_thread_complete := q\<rparr>) = loop_ready b k h"
  by (simp_all add: loop_ready_def)

lemma loop_ready_step:
  assumes "loop_ready b (Suc k) h" and "pop (ring E) (m_queue_thread h) = (q, Some t)"
  shows "\<exists>s' h' t'. dotask_thread E (s, h\<lparr>m_queue_thread := q\<rparr>) t = Some (Inr ((s', h'), t')) \<and>
    loop_ready b k h' \<and> reports elems [t] h h' \<and> m_queue_thread h' = q"
proof -
  let ?h = "h\<lparr>m_queue_thread := q\<rparr>"
  have c: "contents elems (m_queue_thread h) = t # contents elems q" by (rule pop_some [OF assms(2)])
  have r: "handler_inv b h" "in_i32 (m_pressure h + int (Suc k))" "thread_task t"
    "\<forall>t\<in>set (contents elems q). thread_task t"
    using assms(1) c by (auto simp: loop_ready_def)
  have "in_i32 (m_pressure h)" by (rule handler_inv_pressure [OF r(1)])
  then have p: "in_i32 (m_pressure ?h + 1)" using r(2) by (simp add: in_i32_def)
  have inv: "handler_inv b ?h" using r(1) by simp
  from dotask_thread_ok [OF inv p r(3), of s] obtain s' h' t' where
    d: "dotask_thread E (s, ?h) t = Some (Inr ((s', h'), t'))" "handler_inv b h'"
      "m_pressure h' \<le> m_pressure ?h + 1" "reports elems [t] ?h h'" by blast
  have "reports elems [] h ?h" by (rule reports_same) simp_all
  from reports_trans [OF this d(4)] have "reports elems [t] h h'" by simp
  moreover have q: "m_queue_thread h' = q" using dotask_thread_frame [OF d(1)] by (simp add: same_queues_def)
  moreover have "in_i32 (m_pressure h' + int k)"
  proof -
    have "in_i32 (m_pressure h')" by (rule handler_inv_pressure [OF d(2)])
    then show ?thesis using r(2) d(3) by (simp add: in_i32_def)
  qed
  ultimately show ?thesis using d(1,2) r(4) by (simp add: loop_ready_def)
qed

text \<open>The effect of the tasks that were taken from the queue so far.\<close>

definition taken :: "'q EpollHandler \<Rightarrow> 'q EpollHandler \<Rightarrow> bool" where
  "taken h h' \<longleftrightarrow> (\<exists>us. contents elems (m_queue_thread h) = us @ contents elems (m_queue_thread h') \<and> reports elems us h h')"

lemma taken_same:
  assumes "taken h g" "contents elems (m_queue_thread g') = contents elems (m_queue_thread g)" "thread_id g' = thread_id g"
    and "client_sessions g' = client_sessions g" "contents elems (m_queue_main g') = contents elems (m_queue_main g)"
  shows "taken h g'"
proof -
  obtain us where us: "contents elems (m_queue_thread h) = us @ contents elems (m_queue_thread g)" "reports elems us h g"
    using assms(1) by (auto simp: taken_def)
  have "reports elems (us @ []) h g'" by (rule reports_trans [OF us(2) reports_same [OF assms(3-5)]])
  then show ?thesis unfolding taken_def using us(1) assms(2) by auto
qed

lemma taken_step:
  assumes "taken h g" "contents elems (m_queue_thread g) = t # contents elems (m_queue_thread g')" "reports elems [t] g g'"
  shows "taken h g'"
proof -
  obtain us where us: "contents elems (m_queue_thread h) = us @ contents elems (m_queue_thread g)" "reports elems us h g"
    using assms(1) by (auto simp: taken_def)
  have "reports elems (us @ [t]) h g'" by (rule reports_trans [OF us(2) assms(3)])
  then show ?thesis unfolding taken_def using us(1) assms(2) by auto
qed

lemma handlerTask_thread_total:
  assumes "loop_ready b MAX_HANDLER_SIZE_PERFRAME h"
  shows "\<exists>s' h' n. handlerTask_thread (ring E) snd (\<lambda>h (s, _). (s, h)) (dotask_thread E) (s, h) =
    Some (Inr ((s', h'), n)) \<and> handler_inv b h' \<and> taken h h'"
proof -
  let ?take = "\<lambda>w. case pop (ring E) (m_queue_thread (snd w)) of
       (q, r) \<Rightarrow> (case w of (s, _) \<Rightarrow> (s, (snd w)\<lparr>m_queue_thread := q\<rparr>), r)"
  let ?done = "\<lambda>w t. case w of (s, _) \<Rightarrow> (s, (snd w)\<lparr>m_queue_main_complete :=
       push (ring E) (m_queue_main_complete (snd w)) t\<rparr>)"
  have "\<exists>w' n. handler_loop MAX_HANDLER_SIZE_PERFRAME ?take (dotask_thread E) ?done (s, h) 0 =
      Some (Inr (w', n)) \<and> handler_inv b (snd w') \<and> taken h (snd w')"
  proof (rule handler_loop_total [where P = "\<lambda>k w. loop_ready b k (snd w) \<and> taken h (snd w)"])
    show "handler_inv b (snd w) \<and> taken h (snd w)"
      if "loop_ready b 0 (snd w) \<and> taken h (snd w)" for w :: "'o \<times> 'q EpollHandler"
      using that by (simp add: loop_ready_def)
    show "loop_ready b MAX_HANDLER_SIZE_PERFRAME (snd (s, h)) \<and> taken h (snd (s, h))"
      using assms reports_same [of h h] by (simp add: taken_def)
    fix k and w :: "'o \<times> 'q EpollHandler"
    assume "loop_ready b (Suc k) (snd w) \<and> taken h (snd w)"
    then have R: "loop_ready b (Suc k) (snd w)" and H: "taken h (snd w)" by simp_all
    obtain s1 h1 where w: "w = (s1, h1)" by fastforce
    obtain q r where q: "pop (ring E) (m_queue_thread h1) = (q, r)" by fastforce
    show "(\<exists>w'. ?take w = (w', None) \<and> handler_inv b (snd w') \<and> taken h (snd w')) \<or>
      (\<exists>w' t w'' t'. ?take w = (w', Some t) \<and> dotask_thread E w' t = Some (Inr (w'', t')) \<and>
         loop_ready b k (snd (?done w'' t')) \<and> taken h (snd (?done w'' t')))"
    proof (cases r)
      case None
      then have c: "contents elems q = contents elems (m_queue_thread h1)" using pop_none q by simp
      have "taken h (h1\<lparr>m_queue_thread := q\<rparr>)" by (rule taken_same [of h h1]) (use H w c in simp_all)
      then show ?thesis using R w q None by (simp add: loop_ready_def)
    next
      case (Some t)
      with q have p: "pop (ring E) (m_queue_thread h1) = (q, Some t)" by simp
      from loop_ready_step [OF _ this, of b k s1] R w obtain s' h' t' where
        d: "dotask_thread E (s1, h1\<lparr>m_queue_thread := q\<rparr>) t = Some (Inr ((s', h'), t'))"
        "loop_ready b k h'" "reports elems [t] h1 h'" "m_queue_thread h' = q" by auto
      have "taken h h'" by (rule taken_step [of h h1 t]) (use H w d(3,4) pop_some [OF p] in simp_all)
      then have "taken h (h'\<lparr>m_queue_main_complete := x\<rparr>)" for x by (rule taken_same) simp_all
      then show ?thesis using w q Some d(1,2) by auto
    qed
  qed
  then show ?thesis by (simp add: handlerTask_thread_def)
qed

lemma handlerTask_thread_moves:
  assumes "handlerTask_thread (ring E) snd (\<lambda>h (s, _). (s, h)) (dotask_thread E) (s, h) =
    Some (Inr ((s', h'), n))"
  shows "\<exists>ts ts'. length ts \<le> MAX_HANDLER_SIZE_PERFRAME \<and> n = int (length ts) \<and>
    list_all2 same_task ts ts' \<and>
    contents elems (m_queue_thread h) = ts @ contents elems (m_queue_thread h') \<and>
    contents elems (m_queue_main_complete h') = contents elems (m_queue_main_complete h) @ ts' \<and>
    (length ts < MAX_HANDLER_SIZE_PERFRAME \<longrightarrow> elems (m_queue (m_queue_thread h')) = [])"
  using thread_side.handler_loop_moves [OF assms [unfolded handlerTask_thread_def]] by simp

lemma EpollRun_ok:
  assumes "handler_inv b h"
  shows "\<exists>s' h' n. EpollRun E s h MAXEVENTS = Some (Inr (s', h', n)) \<and> handler_inv b h' \<and>
    handled elems h h'"
proof -
  obtain s1 nfds evs where w: "os_epoll_wait E s (epfd h) MAXEVENTS = (s1, nfds, evs)" by (rule prod_cases3)
  let ?h = "h\<lparr>events_slot := evs\<rparr>"
  have hd: "handled elems ?h g = handled elems h g" for g by (simp add: handled_def)
  from doEpollEvents_loop_ok [of b ?h s1 "take (nat (min nfds MAXEVENTS)) evs"] assms obtain s2 h2 where
    l: "doEpollEvents E s1 ?h nfds = Some (Inr (s2, h2))" "handler_inv b h2" "handled elems h h2"
    by (auto simp: doEpollEvents_def hd)
  have "handled elems h ?h" by (simp add: handled_def)
  then show ?thesis using w l assms
    by (cases "nfds \<le> 0") (simp_all add: EpollRun_def Let_def MAXEVENTS_def)
qed

lemma update_thread_ok:
  assumes "loop_ready b MAX_HANDLER_SIZE_PERFRAME h"
  shows "\<exists>s' h' n ts ts'. update_thread (ring E) snd (\<lambda>h (s, _). (s, h)) (dotask_thread E) (s, h) =
      Some (Inr ((s', h'), n)) \<and> handler_inv b h' \<and> reports elems ts h h' \<and>
    length ts \<le> MAX_HANDLER_SIZE_PERFRAME \<and> list_all2 same_task ts ts' \<and>
    contents elems (m_queue_thread h) = ts @ contents elems (m_queue_thread h') \<and>
    contents elems (m_queue_main_complete h') = contents elems (m_queue_main_complete h) @ ts' \<and>
    (length ts < MAX_HANDLER_SIZE_PERFRAME \<longrightarrow> elems (m_queue (m_queue_thread h')) = [])"
proof -
  from thread_side.complete_loop_drains [of "m_queue_thread_complete h" 0 "[]"] obtain q n1 freed where
    c: "complete_loop (ring E) (m_queue_thread_complete h) 0 [] = Some (q, n1, freed)" by auto
  let ?h = "h\<lparr>m_queue_thread_complete := q\<rparr>"
  have "loop_ready b MAX_HANDLER_SIZE_PERFRAME ?h" using assms by simp
  from handlerTask_thread_total [OF this, of s] obtain s1 h1 n2 where
    t: "handlerTask_thread (ring E) snd (\<lambda>h (s, _). (s, h)) (dotask_thread E) (s, ?h) =
      Some (Inr ((s1, h1), n2))" "handler_inv b h1" "taken ?h h1" by blast
  from handlerTask_thread_moves [OF t(1)] obtain ts ts' where
    m: "length ts \<le> MAX_HANDLER_SIZE_PERFRAME" "list_all2 same_task ts ts'"
      "contents elems (m_queue_thread h) = ts @ contents elems (m_queue_thread h1)"
      "contents elems (m_queue_main_complete h1) = contents elems (m_queue_main_complete h) @ ts'"
      "length ts < MAX_HANDLER_SIZE_PERFRAME \<longrightarrow> elems (m_queue (m_queue_thread h1)) = []" by auto
  let ?g = "h1\<lparr>m_queue_main_complete := fst (checkCache (ring E) (m_queue_main_complete h1)),
    m_queue_main := fst (checkCache (ring E) (m_queue_main h1))\<rparr>"
  have "update_thread (ring E) snd (\<lambda>h (s, _). (s, h)) (dotask_thread E) (s, h) =
      Some (Inr ((s1, ?g), n1 + n2))"
    using c t(1) by (simp add: update_thread_def handlerTask_thread_complete_def Let_def)
  moreover have "reports elems ts ?h h1" using t(3) m(3) by (auto simp: taken_def)
  moreover have "reports elems [] h ?h" "reports elems [] h1 ?g" by (rule reports_same; simp)+
  ultimately have "reports elems ts h ?g" using reports_trans [of elems "[]" h ?h ts h1] reports_trans [of elems ts h h1 "[]" ?g]
    by simp
  moreover note \<open>update_thread _ _ _ _ _ = _\<close>
  ultimately show ?thesis using t(2) m
    by - (rule exI [of _ s1], rule exI [of _ ?g], rule exI [of _ "n1 + n2"], rule exI [of _ ts],
      rule exI [of _ ts'], simp)
qed

end

lemma epoll_thread_round_ok:
  assumes "epoll_os E inb outb backlog elems cap" and "handler_inv b h"
    and "in_i32 (m_pressure h + 1024)" and "\<forall>t\<in>set (contents elems (m_queue_thread h)). thread_task t"
  shows "\<exists>s' h' n ts ts'. epoll_thread_round E (s, h) = Some (Inr ((s', h'), n)) \<and> handler_inv b h' \<and>
    reports elems ts h h' \<and> length ts \<le> 1024 \<and> list_all2 same_task ts ts' \<and>
    contents elems (m_queue_thread h) = ts @ contents elems (m_queue_thread h') \<and>
    contents elems (m_queue_main_complete h') = contents elems (m_queue_main_complete h) @ ts' \<and>
    (length ts < 1024 \<longrightarrow> elems (m_queue (m_queue_thread h')) = [])"
proof -
  from epoll_os.EpollRun_ok [OF assms(1,2), of s] obtain s1 h1 n1 where
    e: "EpollRun E s h MAXEVENTS = Some (Inr (s1, h1, n1))" "handler_inv b h1" "handled elems h h1" by blast
  have q: "m_queue_thread h1 = m_queue_thread h" "m_queue_main_complete h1 = m_queue_main_complete h"
    "m_pressure h1 \<le> m_pressure h" using e(3) by (simp_all add: handled_def)
  have "in_i32 (m_pressure h1 + 1024)"
    using assms(3) q(3) handler_inv_pressure [OF e(2)] by (simp add: in_i32_def)
  then have "epoll_os.loop_ready elems b MAX_HANDLER_SIZE_PERFRAME h1"
    using epoll_os.loop_ready_def [OF assms(1)] e(2) q(1) assms(4)
    by (simp add: MAX_HANDLER_SIZE_PERFRAME_def)
  from epoll_os.update_thread_ok [OF assms(1) this, of s1] show ?thesis
    using e(1) q reports_trans [OF handled_reports [OF e(3)], unfolded append_Nil]
    by (fastforce simp: epoll_thread_round_def MAX_HANDLER_SIZE_PERFRAME_def)
qed

section \<open>Properties\<close>





end
