(* ===== verification/MainThread.thy ===== *)
theory MainThread
  imports ServerHandler EpollThread
begin

text \<open>
  What the main thread guarantees: the invariant of its world, the outcome of every task the epoll
  threads report, the return of every turn of its loop, and the state in which \<open>init\<close> starts it.
\<close>

section \<open>The invariant of the main thread\<close>

text \<open>
  A pool of threads under positive ids, consistent sessions and players, and the server's action.
\<close>

definition server_inv :: "('o, 'q) server \<Rightarrow> bool" where
  "server_inv w \<longleftrightarrow> threads_inv (pool w) \<and> pool w \<noteq> [] \<and> (\<forall>(i, h)\<in>set (pool w). 0 < i) \<and>
     sessions_inv (players w) \<and> players_inv (players w) \<and> actions w = server_handler"

text \<open>The reports of the epoll threads that the main thread cannot carry out.\<close>

definition packet_code :: "int \<Rightarrow> mem \<Rightarrow> int" where
  "packet_code n d = field_at (map the (take (nat n) d)) 6"

definition main_fault :: "('o, 'q) server \<Rightarrow> task \<Rightarrow> bool" where
  "main_fault w t \<longleftrightarrow>
     (case t of
        task_clientConnOnClose _ k \<Rightarrow> m_MapSessionConnInfo (players w) k \<noteq> None
      | task_clientConnPacket _ k n (Some d) \<Rightarrow>
          14 \<le> n \<and> packet_code n d = 0 \<and> m_MapSessionConnInfo (players w) k = None
      | _ \<Rightarrow> False)"

text \<open>The sessions the main thread has; packets of these are never a fault.\<close>

definition known_sessions :: "('o, 'q) server \<Rightarrow> int set" where
  "known_sessions w = dom (m_MapSessionConnInfo (players w))"

lemma main_fault_known:
  "main_fault w t \<Longrightarrow> about (known_sessions w) t \<Longrightarrow> \<exists>th k. t = task_clientConnOnClose th k"
  by (cases t) (auto simp: main_fault_def about_def known_sessions_def split: option.splits)

text \<open>What a task on the main thread leaves alone: the ids of the pool and three of the four queues.\<close>

definition pool_frame :: "'q thread_map \<Rightarrow> 'q thread_map \<Rightarrow> bool" where
  "pool_frame m m' \<longleftrightarrow> map fst m' = map fst m \<and>
     (\<forall>i. map_option (\<lambda>h. (m_queue_main h, m_queue_thread_complete h, m_queue_main_complete h)) (map_of m' i) =
          map_option (\<lambda>h. (m_queue_main h, m_queue_thread_complete h, m_queue_main_complete h)) (map_of m i))"

lemma pool_frame_refl [simp]: "pool_frame m m"
  by (simp add: pool_frame_def)

lemma put_get_thread: "threads_inv (pool w) \<Longrightarrow> put_thread k (get_thread k w) w = w"
proof -
  assume inv: "threads_inv (pool w)"
  have "upd_thread k (\<lambda>_. the (map_of (pool w) k)) (pool w) = pool w"
    unfolding upd_thread_def
  proof (rule map_idI, clarify)
    fix i h assume "(i, h) \<in> set (pool w)"
    then have "map_of (pool w) i = Some h" using inv by (simp add: threads_inv_def map_of_eq_Some_iff)
    then show "(if i = k then (i, the (map_of (pool w) k)) else (i, h)) = (i, h)" by auto
  qed
  then show ?thesis by (simp add: put_thread_def get_thread_def)
qed

lemma dotask_main_eq:
  assumes "threads_inv (pool w)" "main_task t"
  shows "dotask_main E k w t = bind_run (OnExcute_main E w t) (\<lambda>w. Some (Inr (w, t)))"
proof -
  have "dotask_switch E Main_thread (host w) (get_thread k w) t = Some (Inr (host w, get_thread k w, t))"
    using assms(2) by (cases t) (simp_all add: dotask_switch_def main_task_def)
  moreover have "put_thread k (get_thread k w) (w\<lparr>host := host w\<rparr>) = w"
    using put_get_thread [OF assms(1)] by simp
  ultimately show ?thesis by (simp add: dotask_main_def)
qed

text \<open>A packet task, by the code of its packet.\<close>

lemma server_packet:
  fixes w :: "('o, 'q) server"
  assumes inv: "server_inv w" and t: "main_task (task_clientConnPacket th k n (Some d))"
  shows "if n < 14 then task_clientConnPacket_on_thread_call w k n (Some d) = Inr w
    else if packet_code n d \<noteq> 0
    then \<exists>p. operatecode p = packet_code n d \<and>
      task_clientConnPacket_on_thread_call w k n (Some d) = Inr (w\<lparr>leaked := leaked w @ [p]\<rparr>)
    else task_clientConnPacket_on_thread_call w k n (Some d) =
      (if m_MapSessionConnInfo (players w) k = None then Inl Use_after_free else Inr w)"
proof -
  have h: "actions w = server_handler" "sessions_inv (players w)" using inv by (simp_all add: server_inv_def)
  define bs where "bs = map the (take (nat n) d)"
  have n: "n = int (length bs)" "n \<le> 4096" using t by (auto simp: main_task_def bs_def min_def)
  have "None \<notin> set (take (nat n) d)" using t by (simp add: main_task_def)
  then have "Some (the x) = x" if "x \<in> set (take (nat n) d)" for x using that by (cases x) auto
  then have "map (Some \<circ> the) (take (nat n) d) = take (nat n) d"
    by (intro map_idI) simp
  then have "map Some bs = take (nat n) d" by (simp add: bs_def)
  moreover have "length bs = nat n" using n(1) by linarith
  ultimately have bs: "take (length bs) d = map Some bs" by (simp only:)
  show ?thesis
  proof (cases "n < 14")
    case True
    then show ?thesis
      using processMessage_short [of n server_handler "players w" k "Some d"]
      by (simp add: task_clientConnPacket_on_thread_call_def h(1) [symmetric])
  next
    case False
    note d = server_dispatch [OF _ _ bs h(2), of k, folded n(1)]
    have c: "packet_code n d = field_at bs 6" by (simp add: packet_code_def bs_def)
    show ?thesis
    proof (cases "packet_code n d = 0")
      case True
      then show ?thesis using d False n c h(1)
        by (simp add: task_clientConnPacket_on_thread_call_def)
    next
      case nz: False
      then obtain p where "operatecode p = packet_code n d"
        "processMessage server_handler (players w) (Some (k, n, Some d)) =
          Inr (server_handler, players w, [p], RESULT_UNKNOWNMESSAGE)"
        using d False n c by auto
      then show ?thesis using False nz h(1)
        by (simp add: task_clientConnPacket_on_thread_call_def) (metis (no_types) h(1) server.surjective server.update_convs(4))
    qed
  qed
qed

text \<open>A new session without a player does not disturb the players.\<close>

lemma players_inv_new_session:
  assumes inv: "players_inv pm" and free: "sess pm a = None" and c: "player_id c = 0"
    and s: "sess pm' = (sess pm)(a \<mapsto> c)" and o: "m_mapAllPlayer_Online pm' = m_mapAllPlayer_Online pm"
  shows "players_inv pm'"
  unfolding players_inv_def o
proof (intro conjI allI impI)
  show "0 < p" if "m_mapAllPlayer_Online pm p \<noteq> None" for p
    using that inv by (simp add: players_inv_def)
next
  fix p r assume r: "m_mapAllPlayer_Online pm p = Some r"
  from inv r obtain b e where b: "r = Some b" "sess pm b = Some e" "player_id e = p" by (rule players_inv_online)
  then have "b \<noteq> a" using free by auto
  then have "sess pm' b = Some e" using b(2) by (simp add: s)
  then show "\<exists>b e. r = Some b \<and> sess pm' b = Some e \<and> player_id e = p" using b by blast
next
  fix b e assume e: "sess pm' b = Some e \<and> player_id e \<noteq> 0"
  then have "b \<noteq> a" using c by (auto simp: s)
  then have "sess pm b = Some e" using e by (simp add: s)
  then show "m_mapAllPlayer_Online pm (player_id e) = Some (Some b)"
    using players_inv_sess [OF inv] e by blast
qed

text \<open>
  A thread of the pool: what it has reported is meant for the main thread, what it was sent is meant for it, its
  connections are consistent, at most \<open>M\<close> tasks are in the ring of those it has carried out, and all the sessions it serves, will serve or
  reports packets of are in \<open>S\<close>.
\<close>

definition thread_queues_ok :: "('q \<Rightarrow> task list) \<Rightarrow> nat \<Rightarrow> int set \<Rightarrow> 'q EpollHandler \<Rightarrow> bool" where
  "thread_queues_ok elems M S h \<longleftrightarrow> (\<forall>t\<in>set (contents elems (m_queue_main h)). main_task t \<and> about S t) \<and>
     (\<forall>t\<in>set (contents elems (m_queue_thread h)). thread_task t \<and> known_task S t) \<and>
     client_sessions h \<subseteq> S \<and> (\<exists>b. handler_inv b h) \<and>
     length (elems (m_queue (m_queue_main_complete h))) \<le> M"

definition main_queues_ok :: "('q \<Rightarrow> task list) \<Rightarrow> nat \<Rightarrow> ('o, 'q) server \<Rightarrow> bool" where
  "main_queues_ok elems M w \<longleftrightarrow>
     (\<forall>i h. map_of (pool w) i = Some h \<longrightarrow> thread_queues_ok elems M (known_sessions w) h)"

lemma thread_queues_mono: "thread_queues_ok elems M S h \<Longrightarrow> S \<subseteq> T \<Longrightarrow> thread_queues_ok elems M T h"
  unfolding thread_queues_ok_def using about_mono known_task_mono by blast

lemma thread_queues_push:
  assumes "boost_ring (ring E) elems cap" "thread_queues_ok elems M S h" "thread_task t" "known_task S t"
  shows "thread_queues_ok elems M S (push_task_thread (ring E) h t)"
proof -
  have "handler_inv b (push_task_thread (ring E) h t) = handler_inv b h"
    "client_sessions (push_task_thread (ring E) h t) = client_sessions h" for b
    by (simp_all add: push_task_thread_def)
  then show ?thesis using assms(2-4)
    by (simp add: thread_queues_ok_def boost_ring.push_contents [OF assms(1)])
qed

lemma put_thread_simps [simp]:
  "players (put_thread k h w) = players w" "actions (put_thread k h w) = actions w"
  "timers (put_thread k h w) = timers w" "known_sessions (put_thread k h w) = known_sessions w"
  "map fst (pool (put_thread k h w)) = map fst (pool w)"
  by (simp_all add: put_thread_def known_sessions_def)

lemma map_of_put_thread:
  "map_of (pool (put_thread k h w)) i = (if i = k then map_option (\<lambda>_. h) (map_of (pool w) i) else map_of (pool w) i)"
  by (simp add: put_thread_def map_of_upd_thread)

lemma get_thread_Some: "k \<in> fst ` set (pool w) \<Longrightarrow> map_of (pool w) k = Some (get_thread k w)"
  using map_of_eq_None_iff [of "pool w" k] by (auto simp: get_thread_def)

lemma get_put_thread: "k \<in> fst ` set (pool w) \<Longrightarrow> get_thread k (put_thread k h w) = h"
  using get_thread_Some [of k w] by (simp add: get_thread_def [of k "put_thread k h w"] map_of_put_thread)

lemma server_inv_put:
  assumes "server_inv w" "k \<in> fst ` set (pool w)" "thread_id h = thread_id (get_thread k w)"
  shows "server_inv (put_thread k h w)"
proof -
  have i: "threads_inv (pool w)" "pool w \<noteq> []" "\<forall>(i, h)\<in>set (pool w). 0 < i" "sessions_inv (players w)"
    "players_inv (players w)" "actions w = server_handler"
    using assms(1) by (simp_all add: server_inv_def)
  have id: "thread_id h = k" using assms(3) threads_inv_id [OF i(1) get_thread_Some [OF assms(2)]] by simp
  have "threads_inv (pool (put_thread k h w))"
    unfolding threads_inv_def put_thread_simps(5)
    using i(1) id by (auto simp: threads_inv_def put_thread_def upd_thread_def split: if_splits)
  moreover have "\<forall>(i, h)\<in>set (pool (put_thread k h w)). 0 < i"
    using i(3) by (auto simp: put_thread_def upd_thread_def split: if_splits)
  moreover have "pool (put_thread k h w) \<noteq> []" using i(2) by (simp add: put_thread_def upd_thread_def)
  ultimately show ?thesis using i(4-6) by (simp add: server_inv_def)
qed

lemma main_queues_put:
  assumes "main_queues_ok elems M w" "thread_queues_ok elems M (known_sessions w) h"
  shows "main_queues_ok elems M (put_thread k h w)"
  using assms unfolding main_queues_ok_def map_of_put_thread put_thread_simps by (auto split: if_splits)

lemma pool_frame_keys: "pool_frame m m' \<Longrightarrow> map fst m' = map fst m"
  by (simp add: pool_frame_def)

lemma pool_frame_queue:
  assumes "pool_frame m m'" "map_of m' i = Some h'"
  obtains h where "map_of m i = Some h" "m_queue_main h' = m_queue_main h"
  using assms by (cases "map_of m i") (auto simp: pool_frame_def dest: spec [of _ i])

text \<open>What the main thread relies on.\<close>

locale main_os = unordered_keys E + clock E + task_queue "ring E" elems cap
  for E :: "('o, 'q) env" and elems :: "'q \<Rightarrow> task list" and cap :: nat
begin

text \<open>A connection becomes a session on the thread that is to serve it.\<close>

lemma accept_session:
  fixes w :: "('o, 'q) server"
  assumes inv: "server_inv w" and few: "card (dom (m_MapSessionConnInfo (players w))) < 100000"
  shows "\<exists>w' sid j g. task_clientConn_on_thread_call E w f ty ad = Some (Inr w') \<and> server_inv w' \<and> timers w' = timers w \<and>
    m_MapSessionConnInfo (players w) sid = None \<and> 0 < sid \<and>
    map_of (pool w) j = Some g \<and> (\<forall>(i, h)\<in>set (pool w). m_pressure g \<le> m_pressure h) \<and>
    map fst (pool w') = map fst (pool w) \<and>
    map_of (pool w') = (map_of (pool w))(j \<mapsto> push_task_thread (ring E) g (task_clientConnInsert 0 f ty sid ad)) \<and>
    m_MapSessionConnInfo (players w') =
      (m_MapSessionConnInfo (players w))(sid \<mapsto> next_sess (players w)) \<and>
    sess (players w') = (sess (players w))(next_sess (players w) \<mapsto>
      \<lparr>sc_thread_id = j, sc_session_id = sid, player_id = 0, sc_device_type = ty, sc_sock_addr = ad\<rparr>)"
proof -
  let ?pm = "players w"
  have i: "threads_inv (pool w)" "pool w \<noteq> []" "\<forall>(i, h)\<in>set (pool w). 0 < i"
    "sessions_inv ?pm" "players_inv ?pm" "actions w = server_handler"
    using inv by (simp_all add: server_inv_def)
  from getRandNewSession_fresh [OF clock_axioms i(4) few, of "host w"] obtain s n sid where
    g: "getRandNewSession E (host w) ?pm = Some (Inr (s, ?pm\<lparr>m_iAutoIncriSessionID := n\<rparr>, sid))"
      "m_MapSessionConnInfo ?pm sid = None" "0 < sid" "sessions_inv (?pm\<lparr>m_iAutoIncriSessionID := n\<rparr>)" by blast
  let ?t = "task_clientConnInsert 0 f ty sid ad" and ?q = "?pm\<lparr>m_iAutoIncriSessionID := n\<rparr>"
  obtain m j h where p: "push_task E (pool w) ?t = (m, j)" "threads_inv m" "map_of (pool w) j = Some h"
    "\<forall>(i, g)\<in>set (pool w). m_pressure h \<le> m_pressure g"
    "map_of m j = Some (push_task_thread (ring E) h ?t)" "\<forall>i. i \<noteq> j \<longrightarrow> map_of m i = map_of (pool w) i"
    using push_task_ok [OF unordered_keys_axioms boost_ring_axioms i(1), of ?t] i(2) by auto
  have m: "map_of m = (map_of (pool w))(j \<mapsto> push_task_thread (ring E) h ?t)"
    using p(5,6) by (auto simp: fun_eq_iff)
  have keys: "map fst m = map fst (pool w)"
    using p(1) by (auto simp: push_task_def split: option.splits)
  have j: "0 < j" using i(3) map_of_SomeD [OF p(3)] by auto
  obtain pm' where a: "addNewConn ?q j sid ty ad = (pm', True)" by (simp add: addNewConn_def getSession_BySessionID_def g(2) Let_def)
  have pm': "m_MapSessionConnInfo pm' = (m_MapSessionConnInfo ?pm)(sid \<mapsto> next_sess ?pm)"
    "sess pm' = (sess ?pm)(next_sess ?pm \<mapsto> \<lparr>sc_thread_id = j, sc_session_id = sid, player_id = 0,
       sc_device_type = ty, sc_sock_addr = ad\<rparr>)"
    "m_mapAllPlayer_Online pm' = m_mapAllPlayer_Online ?pm"
    using a g(2) by (auto simp: addNewConn_def getSession_BySessionID_def new_SessionConn_def Let_def)
  have si: "sessions_inv pm'" using addNewConn_ok [OF g(4), of sid j ty ad] g(2) a by simp
  have free: "sess ?pm (next_sess ?pm) = None" using i(4) by (auto simp: sessions_inv_def)
  have pi: "players_inv pm'"
    by (rule players_inv_new_session [OF i(5) free _ pm'(2,3)]) simp
  let ?w = "w\<lparr>host := s, pool := m, players := pm'\<rparr>"
  have "task_clientConn_on_thread_call E w f ty ad = Some (Inr ?w)"
    using g(1) p(1) a j by (simp add: task_clientConn_on_thread_call_def new_task_clientConnInsert_def)
  moreover have "server_inv ?w"
  proof -
    have "m \<noteq> []" using keys i(2) by (metis list.map_disc_iff)
    moreover have "fst ` set m = fst ` set (pool w)" using keys by (metis list.set_map)
    then have "\<forall>(i, h)\<in>set m. 0 < i" using i(3) by (force simp: image_iff)
    ultimately show ?thesis using p(2) si pi i(6) by (simp add: server_inv_def)
  qed
  ultimately show ?thesis using g(2,3) p(3,4) m keys pm'(1,2)
    by - (rule exI [of _ ?w], rule exI [of _ sid], rule exI [of _ j], rule exI [of _ h], simp)
qed

lemma dotask_main_cases:
  fixes w :: "('o, 'q) server"
  assumes inv: "server_inv w" and t: "main_task t"
    and few: "card (dom (m_MapSessionConnInfo (players w))) < 100000"
  shows "if main_fault w t then dotask_main E k w t = Some (Inl Use_after_free)
    else \<exists>w'. dotask_main E k w t = Some (Inr (w', t)) \<and> server_inv w' \<and> timers w' = timers w \<and> pool_frame (pool w) (pool w') \<and>
      (\<forall>M. main_queues_ok elems M w \<longrightarrow> main_queues_ok elems M w') \<and>
      card (dom (m_MapSessionConnInfo (players w'))) \<le> card (dom (m_MapSessionConnInfo (players w))) + 1"
proof -
  have i: "threads_inv (pool w)" "sessions_inv (players w)" using inv by (simp_all add: server_inv_def)
  note eq = dotask_main_eq [OF i(1) t, of E k]
  show ?thesis
  proof (cases t)
    case (task_clientConn th f ty ad)
    from accept_session [OF inv few, of f ty ad] obtain w' sid j g where
      a: "task_clientConn_on_thread_call E w f ty ad = Some (Inr w')" "server_inv w'" "timers w' = timers w"
        "map_of (pool w) j = Some g" "map fst (pool w') = map fst (pool w)"
        "map_of (pool w') = (map_of (pool w))(j \<mapsto> push_task_thread (ring E) g (task_clientConnInsert 0 f ty sid ad))"
        "m_MapSessionConnInfo (players w') =
          (m_MapSessionConnInfo (players w))(sid \<mapsto> next_sess (players w))" by blast
    have "pool_frame (pool w) (pool w')" using a(4,5) by (simp add: pool_frame_def a(6))
    moreover have "main_queues_ok elems M w'" if q: "main_queues_ok elems M w" for M
    proof -
      have S: "known_sessions w \<subseteq> known_sessions w'" "sid \<in> known_sessions w'"
        by (auto simp: known_sessions_def a(7))
      have q': "thread_queues_ok elems M (known_sessions w') h" if "map_of (pool w) i = Some h" for i h
        by (rule thread_queues_mono [OF q [unfolded main_queues_ok_def, rule_format, OF that] S(1)])
      have "thread_queues_ok elems M (known_sessions w') (push_task_thread (ring E) g (task_clientConnInsert 0 f ty sid ad))"
        by (rule thread_queues_push [OF boost_ring_axioms q' [OF a(4)]]) (simp_all add: thread_task_def known_task_def S(2))
      then show ?thesis using q' by (simp add: main_queues_ok_def a(6))
    qed
    moreover have "card (dom (m_MapSessionConnInfo (players w'))) \<le>
        card (dom (m_MapSessionConnInfo (players w))) + 1"
      using sessions_inv_finite [OF i(2)] by (simp add: a(7) card_insert_if)
    ultimately show ?thesis using task_clientConn a(1-3)
      by (simp add: eq [unfolded task_clientConn] OnExcute_main_def main_fault_def)
  next
    case (task_clientConnOnClose th s)
    then show ?thesis using closing_session [OF i(2), of s E "pool w"] inv
      by (simp add: eq [unfolded task_clientConnOnClose] OnExcute_main_def main_fault_def
          task_clientConnOnClose_on_thread_call_def)
  next
    case (task_clientConnPacket th s n p)
    then obtain d where p: "p = Some d" using t by (cases p) (simp_all add: main_task_def)
    have leak: "server_inv (w\<lparr>leaked := x\<rparr>)" "main_queues_ok elems M (w\<lparr>leaked := x\<rparr>) = main_queues_ok elems M w"
      for x M using inv by (simp_all add: server_inv_def main_queues_ok_def known_sessions_def)
    show ?thesis
      using server_packet [OF inv, of th s n d] t inv leak
      unfolding task_clientConnPacket p
      by (auto simp: eq [unfolded task_clientConnPacket p] OnExcute_main_def main_fault_def split: if_splits)
  qed (use t in \<open>simp_all add: main_task_def\<close>)
qed

text \<open>A pass over the tasks of one thread always returns.\<close>

text \<open>\<open>R i\<close> are the tasks that thread \<open>i\<close> had reported at the start.\<close>

definition main_progress :: "'o TimerControl \<Rightarrow> nat \<Rightarrow> (int \<Rightarrow> task set) \<Rightarrow> int list \<Rightarrow> nat \<Rightarrow> nat \<Rightarrow> ('o, 'q) server \<Rightarrow> bool" where
  "main_progress tc M R ks b k w \<longleftrightarrow> server_inv w \<and> main_queues_ok elems M w \<and> map fst (pool w) = ks \<and>
     card (dom (m_MapSessionConnInfo (players w))) + k \<le> b \<and> timers w = tc \<and>
     (\<forall>i h. map_of (pool w) i = Some h \<longrightarrow> set (contents elems (m_queue_main h)) \<subseteq> R i)"

lemma main_progress_put:
  assumes "main_progress tc M R ks b n w" "k \<in> set ks" "thread_id h = thread_id (get_thread k w)"
    and "thread_queues_ok elems M (known_sessions w) h" "set (contents elems (m_queue_main h)) \<subseteq> R k"
  shows "main_progress tc M R ks b n (put_thread k h w)"
proof -
  have "k \<in> fst ` set (pool w)" using assms(1,2) by (metis list.set_map main_progress_def)
  then have "server_inv (put_thread k h w)" "main_queues_ok elems M (put_thread k h w)"
    using assms server_inv_put [of w k h] main_queues_put [of elems M w h k]
    by (simp_all add: main_progress_def)
  moreover have "set (contents elems (m_queue_main g)) \<subseteq> R i" if "map_of (pool (put_thread k h w)) i = Some g" for i g
    using that assms(1,5) unfolding main_progress_def map_of_put_thread by (auto split: if_splits)
  ultimately show ?thesis using assms(1) by (simp add: main_progress_def)
qed

lemma main_progress_get:
  assumes "main_progress tc M R ks b n w" "k \<in> set ks"
  shows "k \<in> fst ` set (pool w)" "thread_queues_ok elems M (known_sessions w) (get_thread k w)"
    "set (contents elems (m_queue_main (get_thread k w))) \<subseteq> R k"
proof -
  show k: "k \<in> fst ` set (pool w)" using assms by (metis list.set_map main_progress_def)
  show "thread_queues_ok elems M (known_sessions w) (get_thread k w)"
    "set (contents elems (m_queue_main (get_thread k w))) \<subseteq> R k"
    using assms(1) get_thread_Some [OF k] by (simp_all add: main_progress_def main_queues_ok_def)
qed

lemma handlerTask_main_returns:
  fixes w :: "('o, 'q) server"
  assumes w: "main_progress tc M R ks b 1024 w" and k: "k \<in> set ks" and b: "b \<le> 100000"
  shows "\<exists>r. handlerTask_main (ring E) (get_thread k) (put_thread k) (dotask_main E k) w = Some r \<and>
    (case r of Inl e \<Rightarrow> e = Use_after_free \<and> (\<exists>th s. task_clientConnOnClose th s \<in> R k)
     | Inr (w', n) \<Rightarrow> main_progress tc M R ks b 0 w' \<and> 0 \<le> n \<and> n \<le> 1024)"
proof -
  let ?take = "\<lambda>w :: ('o, 'q) server. case pop (ring E) (m_queue_main (get_thread k w)) of
      (q, r) \<Rightarrow> (put_thread k ((get_thread k w)\<lparr>m_queue_main := q\<rparr>) w, r)"
  let ?done = "\<lambda>w t. put_thread k ((get_thread k w)\<lparr>m_queue_thread_complete :=
      push (ring E) (m_queue_thread_complete (get_thread k w)) t\<rparr>) w"
  have "\<exists>r. handler_loop 1024 ?take (dotask_main E k) ?done w 0 = Some r \<and>
    (case r of Inl e \<Rightarrow> e = Use_after_free \<and> (\<exists>th s. task_clientConnOnClose th s \<in> R k)
     | Inr (w', n) \<Rightarrow> main_progress tc M R ks b 0 w' \<and> 0 \<le> n \<and> n \<le> 0 + int 1024)"
  proof (rule handler_loop_returns [where P = "main_progress tc M R ks b"])
    show "main_progress tc M R ks b 0 w" if "main_progress tc M R ks b 0 w" for w :: "('o, 'q) server" by (rule that)
    show "main_progress tc M R ks b 1024 w" by (rule w)
  next
    fix n and w :: "('o, 'q) server"
    assume p: "main_progress tc M R ks b (Suc n) w"
    note g = main_progress_get [OF p k]
    obtain q r where q: "pop (ring E) (m_queue_main (get_thread k w)) = (q, r)" by fastforce
    let ?w = "put_thread k ((get_thread k w)\<lparr>m_queue_main := q\<rparr>) w"
    have c: "set (contents elems q) \<subseteq> set (contents elems (m_queue_main (get_thread k w)))"
      using pop_some [of "m_queue_main (get_thread k w)" q] pop_none [of "m_queue_main (get_thread k w)" q] q
      by (cases r) auto
    have w1: "main_progress tc M R ks b (Suc n) ?w"
      by (rule main_progress_put [OF p k]) (use c g(2,3) in \<open>auto simp: thread_queues_ok_def\<close>)
    show "(\<exists>w'. ?take w = (w', None) \<and> main_progress tc M R ks b 0 w') \<or>
      (\<exists>w' t. ?take w = (w', Some t) \<and>
         ((\<exists>e. dotask_main E k w' t = Some (Inl e) \<and> e = Use_after_free \<and> (\<exists>th s. task_clientConnOnClose th s \<in> R k)) \<or>
          (\<exists>w'' t'. dotask_main E k w' t = Some (Inr (w'', t')) \<and> main_progress tc M R ks b n (?done w'' t'))))"
    proof (cases r)
      case None
      then show ?thesis using q w1 by (auto simp: main_progress_def)
    next
      case (Some t)
      have t: "main_task t" using g(2) [unfolded thread_queues_ok_def] pop_some [of "m_queue_main (get_thread k w)" q t] q Some by simp
      have i: "server_inv ?w" "card (dom (m_MapSessionConnInfo (players ?w))) < 100000"
        using w1 b by (simp_all add: main_progress_def)
      note d = dotask_main_cases [OF i(1) t i(2), of k]
      show ?thesis
      proof (cases "main_fault ?w t")
        case True
        moreover have "t \<in> set (contents elems (m_queue_main (get_thread k w)))"
          using pop_some [of "m_queue_main (get_thread k w)" q t] q Some by simp
        then have "about (known_sessions w) t" "t \<in> R k" using g(2) [unfolded thread_queues_ok_def] g(3) by blast+
        moreover from this(1) have "about (known_sessions ?w) t" by simp
        from main_fault_known [OF True this] obtain th x where "t = task_clientConnOnClose th x" by blast
        ultimately have "\<exists>th s. task_clientConnOnClose th s \<in> R k" by blast
        then show ?thesis using d True q Some by simp
      next
        case False
        then obtain w' where w': "dotask_main E k ?w t = Some (Inr (w', t))" "server_inv w'" "timers w' = timers w"
          "pool_frame (pool ?w) (pool w')" "\<forall>M. main_queues_ok elems M ?w \<longrightarrow> main_queues_ok elems M w'"
          "card (dom (m_MapSessionConnInfo (players w'))) \<le> card (dom (m_MapSessionConnInfo (players ?w))) + 1"
          using d by auto
        have "set (contents elems (m_queue_main h)) \<subseteq> R i" if gi: "map_of (pool w') i = Some h" for i h
        proof -
          obtain g where "map_of (pool ?w) i = Some g" "m_queue_main h = m_queue_main g"
            by (rule pool_frame_queue [OF w'(4) gi])
          then show ?thesis using w1 by (simp add: main_progress_def)
        qed
        then have w2: "main_progress tc M R ks b n w'"
          using w1 w'(2,3,5,6) pool_frame_keys [OF w'(4)]
          by (simp add: main_progress_def)
        have "main_progress tc M R ks b n (?done w' t)"
          by (rule main_progress_put [OF w2 k]) (use main_progress_get(2,3) [OF w2 k] in \<open>auto simp: thread_queues_ok_def\<close>)
        then show ?thesis using q Some w'(1) by auto
      qed
    qed
  qed
  then obtain r where r: "handler_loop 1024 ?take (dotask_main E k) ?done w 0 = Some r"
    and c: "case r of Inl e \<Rightarrow> e = Use_after_free \<and> (\<exists>th s. task_clientConnOnClose th s \<in> R k)
     | Inr (w', n) \<Rightarrow> main_progress tc M R ks b 0 w' \<and> 0 \<le> n \<and> n \<le> 0 + int 1024" by blast
  have "handlerTask_main (ring E) (get_thread k) (put_thread k) (dotask_main E k) w = Some r"
    unfolding handlerTask_main_def MAX_HANDLER_SIZE_PERFRAME_def by (rule r)
  then show ?thesis using c by - (rule exI [of _ r], cases r, simp_all)
qed

text \<open>\<open>update_main\<close> of one thread, with at most \<open>M\<close> completed tasks in the ring.\<close>

lemma update_main_returns:
  fixes w :: "('o, 'q) server"
  assumes w: "main_progress tc M R ks b 1024 w" and k: "k \<in> set ks" and b: "b \<le> 100000"
  shows "\<exists>r. update_main (ring E) (get_thread k) (put_thread k) (dotask_main E k) w = Some r \<and>
    (case r of Inl e \<Rightarrow> e = Use_after_free \<and> (\<exists>th s. task_clientConnOnClose th s \<in> R k)
     | Inr (w', n) \<Rightarrow> main_progress tc M R ks b 0 w' \<and> 0 \<le> n \<and>
         n \<le> int M + 1024)"
proof -
  let ?h = "get_thread k w"
  note g = main_progress_get [OF w k]
  from complete_loop_drains [of "m_queue_main_complete ?h" 0 "[]"] obtain q ts where
    c: "complete_loop (ring E) (m_queue_main_complete ?h) 0 [] = Some (q, int (length ts), concat (map OnComplete ts))"
      "elems (m_queue (m_queue_main_complete ?h)) = ts" "elems (m_queue q) = []" by auto
  let ?w = "put_thread k (?h\<lparr>m_queue_main_complete := q\<rparr>) w"
  have "main_progress tc M R ks b 1024 ?w" by (rule main_progress_put [OF w k]) (use g(2,3) c(3) in \<open>auto simp: thread_queues_ok_def\<close>)
  from handlerTask_main_returns [OF this k b] obtain r where
    r: "handlerTask_main (ring E) (get_thread k) (put_thread k) (dotask_main E k) ?w = Some r"
      "case r of Inl e \<Rightarrow> e = Use_after_free \<and> (\<exists>th s. task_clientConnOnClose th s \<in> R k)
       | Inr (w', n) \<Rightarrow> main_progress tc M R ks b 0 w' \<and> 0 \<le> n \<and> n \<le> 1024" by blast
  have eq: "update_main (ring E) (get_thread k) (put_thread k) (dotask_main E k) w =
      bind_run (Some r) (\<lambda>(w, n2).
        let h = get_thread k w;
            h = h\<lparr>m_queue_thread_complete := fst (checkCache (ring E) (m_queue_thread_complete h))\<rparr>;
            h = h\<lparr>m_queue_thread := fst (checkCache (ring E) (m_queue_thread h))\<rparr>
        in Some (Inr (put_thread k h w, int (length ts) + n2)))"
    using c(1) r(1) by (simp add: update_main_def handlerTask_main_complete_def)
  show ?thesis
  proof (cases r)
    case (Inl e)
    then show ?thesis using eq r(2) by simp
  next
    case (Inr p)
    then obtain w' n where p: "r = Inr (w', n)" by (cases p) simp
    then have p': "main_progress tc M R ks b 0 w'" "0 \<le> n" "n \<le> 1024" using r(2) by simp_all
    let ?g = "(get_thread k w')\<lparr>
      m_queue_thread_complete := fst (checkCache (ring E) (m_queue_thread_complete (get_thread k w'))),
      m_queue_thread := fst (checkCache (ring E) (m_queue_thread (get_thread k w')))\<rparr>"
    have "main_progress tc M R ks b 0 (put_thread k ?g w')"
      by (rule main_progress_put [OF p'(1) k]) (use main_progress_get(2,3) [OF p'(1) k] in \<open>auto simp: thread_queues_ok_def\<close>)
    then show ?thesis using eq p p'(2,3) c(2) g(2) by (auto simp: Let_def thread_queues_ok_def)
  qed
qed

text \<open>All threads, each once.\<close>

lemma update_pool_returns:
  assumes b: "b \<le> 100000"
  shows "set us \<subseteq> set ks \<Longrightarrow> main_progress tc M R ks b (1024 * length us) w \<Longrightarrow> 0 \<le> n \<Longrightarrow>
    n + int (length us) * (int M + 1024) \<le> 2147483647 \<Longrightarrow>
    \<exists>r. update_pool E us w n = Some r \<and>
      (case r of Inl e \<Rightarrow> e = Use_after_free \<and> (\<exists>k\<in>set us. \<exists>th s. task_clientConnOnClose th s \<in> R k)
       | Inr (w', m) \<Rightarrow> main_progress tc M R ks b 0 w' \<and> n \<le> m)"
proof (induction us arbitrary: w n)
  case Nil
  then show ?case by simp
next
  case (Cons k us)
  let ?b = "b - 1024 * length us"
  have w: "main_progress tc M R ks ?b 1024 w" using Cons.prems(2) by (auto simp: main_progress_def)
  have k: "k \<in> set ks" and us: "set us \<subseteq> set ks" using Cons.prems(1) by auto
  have b': "?b \<le> 100000" using b by simp
  from update_main_returns [OF w k b'] obtain r where
    r: "update_main (ring E) (get_thread k) (put_thread k) (dotask_main E k) w = Some r"
      "case r of Inl e \<Rightarrow> e = Use_after_free \<and> (\<exists>th s. task_clientConnOnClose th s \<in> R k)
       | Inr (w', m) \<Rightarrow> main_progress tc M R ks ?b 0 w' \<and> 0 \<le> m \<and> m \<le> int M + 1024" by blast
  show ?case
  proof (cases r)
    case (Inl e)
    then show ?thesis using r by simp
  next
    case (Inr p)
    then obtain w' m where p: "r = Inr (w', m)" by (cases p) simp
    then have p': "main_progress tc M R ks ?b 0 w'" "0 \<le> m" "m \<le> int M + 1024" using r(2) by simp_all
    have le: "n + m + int (length us) * (int M + 1024) \<le> 2147483647"
      using Cons.prems(4) p'(3) by (simp add: algebra_simps)
    moreover have "0 \<le> int (length us) * (int M + 1024)" by simp
    ultimately have "n + m \<le> 2147483647" by linarith
    then have i: "in_i32 (n + m)" using Cons.prems(3) p'(2) by (simp add: in_i32_def)
    have "card (dom (m_MapSessionConnInfo (players w'))) + 1024 * length us \<le> b"
      using p'(1) Cons.prems(2) by (auto simp: main_progress_def)
    then have "main_progress tc M R ks b (1024 * length us) w'" using p'(1) by (simp add: main_progress_def)
    from Cons.IH [OF us this _ le] Cons.prems(3) p'(2) obtain r' where
      "update_pool E us w' (n + m) = Some r'"
      "case r' of Inl e \<Rightarrow> e = Use_after_free \<and> (\<exists>k\<in>set us. \<exists>th s. task_clientConnOnClose th s \<in> R k)
       | Inr (w'', m') \<Rightarrow> main_progress tc M R ks b 0 w'' \<and> n + m \<le> m'" by auto
    then show ?thesis using r(1) p i p'(2) by (cases r') auto
  qed
qed

end

text \<open>Dates that the log file names have room for, and times of day.\<close>

locale wall_clock =
  fixes E :: "('o, 'q) env"
  assumes calendar_time: "os_time E s = (s', t) \<Longrightarrow> calendar (os_localtime E t)"
    and timeofday_range: "os_gettimeofday E s = (s', sec, usec) \<Longrightarrow>
      0 \<le> sec \<and> sec \<le> 2 ^ 50 \<and> 0 \<le> usec \<and> usec < 1000000"
begin

lemma logLogic_returns:
  "\<exists>s' r. logLogic E s (fst (LogManager_init new_LogManager)) lv (Some f) line (Some c) ap = Inr (s', r)"
proof -
  obtain s1 t where t: "os_time E s = (s1, t)" by fastforce
  obtain s2 h where h: "os_fopen E s1 (''../log/gameLogic'' @ ''-'' @ printf_0d 4 (tm_year (os_localtime E t) + 1900) @
      printf_0d 2 (tm_mon (os_localtime E t) + 1) @ printf_0d 2 (tm_mday (os_localtime E t)) @ ''-'' @
      printf_0d 2 (tm_hour (os_localtime E t)) @ ''.log'') = (s2, h)" by fastforce
  show ?thesis
    using t h log_file_name_cases [OF calendar_time [OF t], of "''../log/gameLogic''"]
    by (cases h) (auto simp: logLogic_def LogManager_init_def new_LogManager_def Logger_init_def
        new_Logger_def Logger_log_def Let_def)
qed

lemma update_fun_returns:
  "\<exists>s'. update_1s E (fst (LogManager_init new_LogManager)) f s now = Inr s'"
  "\<exists>s'. update_2s E (fst (LogManager_init new_LogManager)) f s now = Inr s'"
  using logLogic_returns [of s LOG_LEVEL_DEBUG f 108 "''ServerHandler::update_1s %ld''"
      "\<lambda>_. ''ServerHandler::update_1s '' @ printf_0d 0 now"]
    logLogic_returns [of s LOG_LEVEL_DEBUG f 113 "''ServerHandler::update_2s %ld''"
      "\<lambda>_. ''ServerHandler::update_2s '' @ printf_0d 0 now"]
  by (auto simp: update_1s_def update_2s_def)

lemma milliseconds_range:
  assumes "os_gettimeofday E s = (s', tv)"
  shows "\<exists>now. milliseconds tv = Inr now \<and> 0 \<le> now \<and> now \<le> 2 ^ 61"
proof -
  obtain sec usec where tv: "tv = (sec, usec)" by fastforce
  note r = timeofday_range [OF assms [unfolded tv]]
  have "usec div 1000 \<le> usec" "0 \<le> usec div 1000"
    using r zdiv_mono2 [of usec 1 1000] by (simp_all add: pos_imp_zdiv_nonneg_iff)
  then have "in_i64 (sec * 1000)" "in_i64 (sec * 1000 + usec div 1000)"
    "0 \<le> sec * 1000 + usec div 1000" "sec * 1000 + usec div 1000 \<le> 2 ^ 61"
    using r by (auto simp: in_i64_def)
  moreover have "c_div usec 1000 = Inr (usec div 1000)" using r by (simp add: c_div_nonneg)
  ultimately show ?thesis by (simp add: milliseconds_def tv)
qed

end

interpretation sim_wall: wall_clock sim_env
proof
  fix s s' :: sim and t :: int
  assume "os_time sim_env s = (s', t)"
  show "calendar (os_localtime sim_env t)" by (simp add: sim_env_def calendar_def)
next
  fix s s' :: sim and sec usec :: int
  assume "os_gettimeofday sim_env s = (s', sec, usec)"
  then have "sec = sim_clock s mod 4000000000" "usec = 0" by (auto simp: sim_env_def)
  then show "0 \<le> sec \<and> sec \<le> 2 ^ 50 \<and> 0 \<le> usec \<and> usec < 1000000"
    using pos_mod_bound [of 4000000000 "sim_clock s"] by simp
qed

interpretation sim_main: main_os sim_env "\<lambda>r. r" MAX_SPSC_QUEUE_SIZE
  unfolding main_os_def task_queue_def
  by (simp add: sim_unordered.unordered_keys_axioms sim_clock.clock_axioms sim_env_ring
      del: MAX_SPSC_QUEUE_SIZE_def)

text \<open>The server with its two timers and its log files as \<open>init\<close> leaves them.\<close>

definition server_ok :: "('o, 'q) env \<Rightarrow> string \<Rightarrow> ('q \<Rightarrow> task list) \<Rightarrow> nat \<Rightarrow> ('o, 'q) server \<Rightarrow> bool" where
  "server_ok E src_path elems M w \<longleftrightarrow> server_inv w \<and> main_queues_ok elems M w \<and>
     map timeval_fun (m_vecTimerFun (timers w)) =
       [Some (update_1s E (fst (LogManager_init new_LogManager)) src_path),
        Some (update_2s E (fst (LogManager_init new_LogManager)) src_path)] \<and>
     list_all timer_in_range (m_vecTimerFun (timers w))"

lemma timers_return:
  assumes wc: "wall_clock E" and ok: "server_ok E src_path elems M w"
  shows "\<exists>tc s n. TimerControl_update (os_gettimeofday E) (timers w) (host w) = Inr (tc, s, n) \<and>
    map timeval_fun (m_vecTimerFun tc) = map timeval_fun (m_vecTimerFun (timers w)) \<and>
    list_all timer_in_range (m_vecTimerFun tc)"
proof -
  obtain s tv where tv: "os_gettimeofday E (host w) = (s, tv)" by (cases "os_gettimeofday E (host w)") blast
  from wall_clock.milliseconds_range [OF wc tv] obtain now where
    now: "milliseconds tv = Inr now" "now \<le> 2 ^ 61" by blast
  let ?ts = "m_vecTimerFun (timers w)"
  let ?fs = "[Some (update_1s E (fst (LogManager_init new_LogManager)) src_path),
        Some (update_2s E (fst (LogManager_init new_LogManager)) src_path)]"
  have fs: "map timeval_fun ?ts = ?fs" and rng: "\<forall>t\<in>set ?ts. timer_in_range t"
    using ok by (simp_all add: server_ok_def list_all_iff)
  have "\<exists>w'. f u now = Inr w'" if "t \<in> set ?ts" "timeval_fun t = Some f" for t f u
  proof -
    have "Some f \<in> set ?fs" using that fs by (metis image_eqI list.set_map)
    then show ?thesis using wall_clock.update_fun_returns [OF wc] by auto
  qed
  then have "\<forall>t\<in>set ?ts. timer_in_range t \<and> (\<forall>f u. timeval_fun t = Some f \<longrightarrow> (\<exists>w'. f u now = Inr w'))"
    using rng by blast
  moreover have "length ?ts = 2" using arg_cong [OF fs, of length] by simp
  ultimately obtain ts' s' n where "update_timers now ?ts s 0 = Inr (ts', s', n)"
    "map timeval_fun ts' = map timeval_fun ?ts" "\<forall>t\<in>set ts'. timer_in_range t"
    using update_timers_in_range [OF now(2), of ?ts 0 s] by auto
  then show ?thesis using tv now(1)
    by (simp add: TimerControl_update_def Let_def list_all_iff)
qed

lemma handler_inv_thread_id [simp]: "handler_inv b (h\<lparr>thread_id := j\<rparr>) = handler_inv b h"
  by (simp add: handler_inv_def maps_inv_def devices_ok_def pressure_inv_def)

text \<open>A thread as \<open>init\<close> enters it.\<close>

lemma new_thread_ok:
  assumes "in_i32 (indet E)" "boost_ring (ring E) elems cap"
  shows "thread_queues_ok elems M S ((new_EpollHandler E)\<lparr>thread_id := j\<rparr>)"
    and "contents elems (m_queue_thread ((new_EpollHandler E)\<lparr>thread_id := j\<rparr>)) = []"
proof -
  have "handler_inv (indet E) ((new_EpollHandler E)\<lparr>thread_id := j\<rparr>)"
    using handler_inv_new [OF assms(1)] by simp
  moreover have "contents elems (m_queue_thread ((new_EpollHandler E)\<lparr>thread_id := j\<rparr>)) = []"
    "contents elems (m_queue_main ((new_EpollHandler E)\<lparr>thread_id := j\<rparr>)) = []"
    "elems (m_queue (m_queue_main_complete ((new_EpollHandler E)\<lparr>thread_id := j\<rparr>))) = []"
    using boost_ring.ring_init [OF assms(2)]
    by (simp_all add: new_EpollHandler_def thread.defs new_Thread_def new_spsc_queue_def contents_def)
  moreover have "client_sessions ((new_EpollHandler E)\<lparr>thread_id := j\<rparr>) = {}"
    by (simp add: client_sessions_def new_EpollHandler_def thread.defs)
  ultimately show "thread_queues_ok elems M S ((new_EpollHandler E)\<lparr>thread_id := j\<rparr>)"
    "contents elems (m_queue_thread ((new_EpollHandler E)\<lparr>thread_id := j\<rparr>)) = []"
    unfolding thread_queues_ok_def by auto
qed

text \<open>The threads that \<open>init\<close> starts have empty queues, and one of them gets the listener.\<close>

lemma start_pool:
  assumes ind: "in_i32 (indet E)" and uk: "unordered_keys E" and bq: "boost_ring (ring E) elems cap"
    and m: "ThreadManager_init E s = (s', m, ok)" and ids: "\<forall>i\<in>set (spawn_ids E 4 s). 0 < i"
    and ty: "\<not> client_type ty"
  shows "\<exists>m' k h. push_task E m (task_listener 0 f ty ad) = (m', k) \<and> threads_inv m' \<and> m' \<noteq> [] \<and>
    (\<forall>(i, h)\<in>set m'. 0 < i) \<and> (\<forall>i g. map_of m' i = Some g \<longrightarrow> thread_queues_ok elems 0 S g) \<and>
    map_of m' k = Some h \<and> contents elems (m_queue_thread h) = [task_listener 0 f ty ad]"
proof -
  let ?t = "task_listener 0 f ty ad"
  have "threads_inv []" by (simp add: threads_inv_def)
  from init_loop_ok [OF this, of E 4 s] m have
    i: "threads_inv m" "fst ` set m = set (spawn_ids E 4 s)"
      "\<forall>(k, h)\<in>set m. h = (new_EpollHandler E)\<lparr>thread_id := k\<rparr>"
    by (auto simp: ThreadManager_init_def split: prod.splits)
  have "set (spawn_ids E (Suc 3) s) \<noteq> {}"
    unfolding spawn_ids.simps(2) by (cases "os_pthread_create E s") simp
  moreover have "Suc 3 = 4" by simp
  ultimately have ne: "m \<noteq> []" using i(2) by (metis image_is_empty list.set(1))
  obtain m' k h where p: "push_task E m ?t = (m', k)" "threads_inv m'" "map_of m k = Some h"
    "map_of m' k = Some (push_task_thread (ring E) h ?t)" "\<forall>i. i \<noteq> k \<longrightarrow> map_of m' i = map_of m i"
    using push_task_ok [OF uk bq i(1), of ?t] ne by auto
  have keys: "map fst m' = map fst m" using p(1) by (auto simp: push_task_def split: option.splits)
  have new: "thread_queues_ok elems 0 S g \<and> contents elems (m_queue_thread g) = []" if "map_of m j = Some g" for j g
  proof -
    have "g = (new_EpollHandler E)\<lparr>thread_id := j\<rparr>" using i(3) map_of_SomeD [OF that] by auto
    then show ?thesis using new_thread_ok [OF ind bq] by simp
  qed
  have "thread_queues_ok elems 0 S g" if g: "map_of m' j = Some g" for j g
  proof (cases "j = k")
    case True
    then have "g = push_task_thread (ring E) h ?t" using g p(4) by simp
    moreover have "thread_queues_ok elems 0 S h" using new [OF p(3)] by simp
    moreover have "thread_task ?t" "known_task S ?t" using ty by (simp_all add: thread_task_def known_task_def)
    ultimately show ?thesis using thread_queues_push [OF bq] by blast
  next
    case False
    then show ?thesis using g p(5) new by auto
  qed
  moreover have "contents elems (m_queue_thread (push_task_thread (ring E) h ?t)) = [?t]"
    using new [OF p(3)] by (simp add: boost_ring.push_contents [OF bq])
  moreover have "m' \<noteq> []" using ne keys by (metis list.map_disc_iff)
  moreover have "\<forall>(i, h)\<in>set m'. 0 < i"
  proof -
    have "fst ` set m' = fst ` set m" using keys by (metis list.set_map)
    then show ?thesis using i(2) ids by (force simp: image_iff)
  qed
  ultimately show ?thesis using p(1,2,4)
    by - (rule exI [of _ m'], rule exI [of _ k], rule exI [of _ "push_task_thread (ring E) h ?t"], simp)
qed

section \<open>Properties\<close>

text \<open>
  C12: a new connection becomes a session on the thread that will serve it.  On the main thread a
  reported connection gets a fresh positive session id; a thread of minimal load gets one
  task to insert the connection under this id, at the end of its queue, and the session is entered under the
  same id with that thread, without a player.  No other thread and no other session changes, and the
  invariant of the main thread is kept.
\<close>

theorem new_connection_session:
  assumes "main_os E elems cap" and "server_inv w"
    and "card (dom (m_MapSessionConnInfo (players w))) < 100000"
  shows "\<exists>w' sid j g. dotask_main E k w (task_clientConn th f ty ad) = Some (Inr (w', task_clientConn th f ty ad)) \<and>
    server_inv w' \<and> m_MapSessionConnInfo (players w) sid = None \<and> 0 < sid \<and>
    map_of (pool w) j = Some g \<and> (\<forall>(i, h)\<in>set (pool w). m_pressure g \<le> m_pressure h) \<and>
    map_of (pool w') = (map_of (pool w))(j \<mapsto> push_task_thread (ring E) g (task_clientConnInsert 0 f ty sid ad)) \<and>
    contents elems (m_queue_thread (push_task_thread (ring E) g (task_clientConnInsert 0 f ty sid ad))) =
      contents elems (m_queue_thread g) @ [task_clientConnInsert 0 f ty sid ad] \<and>
    m_MapSessionConnInfo (players w') =
      (m_MapSessionConnInfo (players w))(sid \<mapsto> next_sess (players w)) \<and>
    sess (players w') = (sess (players w))(next_sess (players w) \<mapsto>
      \<lparr>sc_thread_id = j, sc_session_id = sid, player_id = 0, sc_device_type = ty, sc_sock_addr = ad\<rparr>)"
proof -
  from main_os.accept_session [OF assms, of f ty ad] obtain w' sid j g where
    a: "task_clientConn_on_thread_call E w f ty ad = Some (Inr w')" "server_inv w'"
      "m_MapSessionConnInfo (players w) sid = None" "0 < sid" "map_of (pool w) j = Some g"
      "\<forall>(i, h)\<in>set (pool w). m_pressure g \<le> m_pressure h"
      "map_of (pool w') = (map_of (pool w))(j \<mapsto> push_task_thread (ring E) g (task_clientConnInsert 0 f ty sid ad))"
      "m_MapSessionConnInfo (players w') = (m_MapSessionConnInfo (players w))(sid \<mapsto> next_sess (players w))"
      "sess (players w') = (sess (players w))(next_sess (players w) \<mapsto>
        \<lparr>sc_thread_id = j, sc_session_id = sid, player_id = 0, sc_device_type = ty, sc_sock_addr = ad\<rparr>)" by blast
  have "threads_inv (pool w)" using assms(2) by (simp add: server_inv_def)
  then have "dotask_main E k w (task_clientConn th f ty ad) = Some (Inr (w', task_clientConn th f ty ad))"
    using a(1) by (simp add: dotask_main_eq main_task_def OnExcute_main_def)
  moreover have "boost_ring (ring E) elems cap" using assms(1) by (simp add: main_os_def task_queue_def)
  note boost_ring.push_contents [OF this, of "m_queue_thread g" "task_clientConnInsert 0 f ty sid ad"]
  ultimately show ?thesis using a(2-9)
    by - (rule exI [of _ w'], rule exI [of _ sid], rule exI [of _ j], rule exI [of _ g], simp)
qed

text \<open>A server with one thread, 3, and one session, 5, on it.\<close>

definition one_server :: "(sim, task list) server" where
  "one_server = \<lparr>host = sim_start, pool = one_thread, players = one_player, actions = server_handler,
     logs = fst (LogManager_init new_LogManager), timers = \<lparr>m_lastRunTime = (0, 0), m_nowTime = (0, 0),
     m_vecTimerFun =
       [\<lparr>timeval_fun = Some (update_1s sim_env (fst (LogManager_init new_LogManager)) ''ServerHandler.cpp''),
         interval = 1000, lastRunTime = 0\<rparr>,
        \<lparr>timeval_fun = Some (update_2s sim_env (fst (LogManager_init new_LogManager)) ''ServerHandler.cpp''),
         interval = 2000, lastRunTime = 0\<rparr>]\<rparr>, leaked = []\<rparr>"

lemma one_server_inv: "server_inv one_server"
  using one_thread_inv one_player_inv
  by (simp add: server_inv_def one_server_def) (simp add: one_thread_def)

lemma one_server_sessions [simp]: "m_MapSessionConnInfo (players one_server) = [5 \<mapsto> 0]"
  by (simp add: one_server_def)

theorem new_connection_session_witness:
  "\<exists>w' sid. dotask_main sim_env 3 one_server (task_clientConn 3 9 DEVICE_CLIENT_EXTERNAL
       \<lparr>sin_family = 2, sin_port = 1, sin_addr = 1\<rparr>) = Some (Inr (w', task_clientConn 3 9 DEVICE_CLIENT_EXTERNAL
       \<lparr>sin_family = 2, sin_port = 1, sin_addr = 1\<rparr>)) \<and>
     sid \<noteq> 5 \<and> m_MapSessionConnInfo (players w') sid \<noteq> None"
proof -
  have "card (dom (m_MapSessionConnInfo (players one_server))) < 100000" by simp
  from new_connection_session [OF sim_main.main_os_axioms one_server_inv this, of 3 3 9
      DEVICE_CLIENT_EXTERNAL "\<lparr>sin_family = 2, sin_port = 1, sin_addr = 1\<rparr>"]
  show ?thesis by (fastforce split: if_splits)
qed

text \<open>
  C13: which reported tasks the main thread can carry out.  For every kind of task that an epoll
  thread reports, on a consistent server \<open>dotask\<close> returns and keeps the invariant and the queues it
  consumes, except in two cases, where it reads freed memory: the report that a connection whose session exists was
  closed, and a heartbeat message from a session that no longer exists.
\<close>

theorem main_task_verdict:
  assumes "main_os E elems cap" and "server_inv w" and "main_task t"
    and "card (dom (m_MapSessionConnInfo (players w))) < 100000"
  shows "if main_fault w t then dotask_main E k w t = Some (Inl Use_after_free)
    else \<exists>w'. dotask_main E k w t = Some (Inr (w', t)) \<and> server_inv w' \<and> pool_frame (pool w) (pool w')"
  using main_os.dotask_main_cases [OF assms, of k] by (auto split: if_splits)

theorem main_task_verdict_witness:
  "dotask_main sim_env 3 one_server (task_clientConnOnClose 3 5) = Some (Inl Use_after_free) \<and>
   dotask_main sim_env 3 one_server (task_clientConnPacket 3 6 14 (Some (map Some heartbeat_bytes))) =
     Some (Inl Use_after_free) \<and>
   (\<exists>w'. dotask_main sim_env 3 one_server (task_clientConnPacket 3 5 14 (Some (map Some heartbeat_bytes))) =
     Some (Inr (w', task_clientConnPacket 3 5 14 (Some (map Some heartbeat_bytes)))))"
proof -
  have few: "card (dom (m_MapSessionConnInfo (players one_server))) < 100000" by simp
  have t: "main_task (task_clientConnOnClose 3 5)"
    "\<And>k. main_task (task_clientConnPacket 3 k 14 (Some (map Some heartbeat_bytes)))"
    by (simp_all add: main_task_def heartbeat_bytes_def)
  have c: "packet_code 14 (map Some heartbeat_bytes) = 0"
    using field_at_heartbeat by (simp add: packet_code_def heartbeat_bytes_def)
  note v = main_task_verdict [OF sim_main.main_os_axioms one_server_inv _ few, of _ 3]
  show ?thesis using v [OF t(1)] v [OF t(2), of 6] v [OF t(2), of 5] c
    by (auto simp: main_fault_def)
qed

text \<open>
  C3: a turn of the main loop ends.  For a server as \<open>init\<close> leaves it, with any connections and any
  reports of the right kind in the queues, and room for one session per report, \<open>ServerHandler::run\<close>'s body returns:
  either with a server that satisfies the same invariant, or by reading freed memory, and that only when some thread has
  reported a closed connection; no other fault is possible, whatever the clock does within its range.
\<close>

theorem main_turn_returns:
  assumes "main_os E elems cap" and "wall_clock E" and "server_ok E src_path elems M w"
    and "card (dom (m_MapSessionConnInfo (players w))) + 1024 * length (pool w) \<le> 100000"
    and "int (length (pool w)) * (int M + 1024) \<le> 2147483647"
  shows "\<exists>r. ServerHandler_turn E w = Some r \<and>
    (case r of
       Inl e \<Rightarrow> e = Use_after_free \<and>
         (\<exists>(k, h)\<in>set (pool w). \<exists>th s. task_clientConnOnClose th s \<in> set (contents elems (m_queue_main h)))
     | Inr w' \<Rightarrow> server_ok E src_path elems M w')"
proof -
  from timers_return [OF assms(2,3)] obtain tc s n where
    t: "TimerControl_update (os_gettimeofday E) (timers w) (host w) = Inr (tc, s, n)"
      "map timeval_fun (m_vecTimerFun tc) = map timeval_fun (m_vecTimerFun (timers w))"
      "list_all timer_in_range (m_vecTimerFun tc)" by blast
  let ?w = "w\<lparr>timers := tc, host := s\<rparr>" and ?ks = "map fst (pool w)"
  let ?us = "unordered E ?ks"
  have uk: "mset ?us = mset ?ks"
    using assms(1) unordered_keys.unordered_mset [of E ?ks] by (simp add: main_os_def)
  then have us: "set ?us \<subseteq> set ?ks" "length ?us = length (pool w)"
    using mset_eq_setD [OF uk] mset_eq_length [OF uk] by simp_all
  let ?R = "\<lambda>i. case map_of (pool w) i of None \<Rightarrow> {} | Some h \<Rightarrow> set (contents elems (m_queue_main h))"
  have p: "main_os.main_progress elems tc M ?R ?ks 100000 (1024 * length ?us) ?w"
    using assms(3,4) us(2)
    by (simp add: main_os.main_progress_def [OF assms(1)] server_ok_def server_inv_def main_queues_ok_def
        known_sessions_def)
  have le: "0 + int (length ?us) * (int M + 1024) \<le> 2147483647" using assms(5) us(2) by simp
  from main_os.update_pool_returns [OF assms(1) order_refl us(1) p order_refl le] obtain r where
    r: "update_pool E ?us ?w 0 = Some r"
      "case r of Inl e \<Rightarrow> e = Use_after_free \<and> (\<exists>k\<in>set ?us. \<exists>th s. task_clientConnOnClose th s \<in> ?R k)
       | Inr (w', m) \<Rightarrow> main_os.main_progress elems tc M ?R ?ks 100000 0 w' \<and> 0 \<le> m" by blast
  have eq: "ServerHandler_turn E w = bind_run (Some r) (\<lambda>(w', m).
      if m \<le> 0 \<and> n \<le> 0 then Some (Inr (w'\<lparr>host := os_usleep E (host w') 2000\<rparr>)) else Some (Inr w'))"
    using t(1) r(1) by (simp add: ServerHandler_turn_def ThreadManager_update_def)
  show ?thesis
  proof (cases r)
    case (Inl e)
    then obtain k th x where k: "e = Use_after_free" "task_clientConnOnClose th x \<in> ?R k" using r(2) by auto
    then obtain h where "map_of (pool w) k = Some h" "task_clientConnOnClose th x \<in> set (contents elems (m_queue_main h))"
      by (cases "map_of (pool w) k") auto
    then show ?thesis using eq Inl k(1) map_of_SomeD by fastforce
  next
    case (Inr q)
    then obtain w' m where q: "r = Inr (w', m)" by (cases q) simp
    then have "server_ok E src_path elems M w'"
      using r(2) t(2,3) assms(3)
      by (simp add: main_os.main_progress_def [OF assms(1)] server_ok_def)
    moreover from this have "server_ok E src_path elems M (w'\<lparr>host := x\<rparr>)" for x
      by (simp add: server_ok_def server_inv_def main_queues_ok_def known_sessions_def)
    ultimately show ?thesis using eq q by auto
  qed
qed

theorem main_turn_returns_witness:
  "\<exists>r. ServerHandler_turn sim_env one_server = Some r \<and>
    (case r of Inl e \<Rightarrow> e = Use_after_free | Inr w' \<Rightarrow> server_inv w')"
proof -
  have "in_i32 (indet sim_env)" by (simp add: sim_env_def in_i32_def)
  from new_thread_ok(1) [OF this sim_env_ring]
  have "thread_queues_ok (\<lambda>r. r) 0 S ((new_EpollHandler sim_env)\<lparr>thread_id := 3\<rparr>)" for S .
  then have "server_ok sim_env ''ServerHandler.cpp'' (\<lambda>r. r) 0 one_server"
    using one_server_inv unfolding server_ok_def main_queues_ok_def
    by (simp add: one_server_def) (simp add: one_thread_def timer_in_range_def)
  from main_turn_returns [OF sim_main.main_os_axioms sim_wall.wall_clock_axioms this] obtain r where
    "ServerHandler_turn sim_env one_server = Some r"
    "case r of Inl e \<Rightarrow> e = Use_after_free \<and> (\<exists>(k, h)\<in>set (pool one_server). \<exists>th s.
       task_clientConnOnClose th s \<in> set (contents (\<lambda>r. r) (m_queue_main h)))
     | Inr w' \<Rightarrow> server_ok sim_env ''ServerHandler.cpp'' (\<lambda>r. r) 0 w'"
    by (auto simp: one_server_def one_thread_def)
  then show ?thesis by (auto simp: server_ok_def split: sum.splits)
qed

text \<open>What \<open>init\<close> does once the process is a daemon and the first line is in the log.\<close>

lemma ServerHandler_init_started:
  assumes "setDaemonProcess E s = (s1, Some b)" and "ThreadManager_init E (fst (signalIgnore E s1)) = (sb, m, b2)"
    and "logLogic E sb (fst (LogManager_init new_LogManager)) LOG_LEVEL_INFO (Some src_path) 34 (Some ''game start'')
        (\<lambda>_. ''game start'') = Inr (s2, b3)"
    and "doListen E s2 (new_Listener (Some ''0.0.0.0'') 8888 DEVICE_SERVER_EXTERNAL) = Inr (s3, l, ok)"
  shows "ServerHandler_init E src_path tc s =
    (if \<not> ok then Inr (Failed s3)
     else bind_res (deref (CreateTask l)) (\<lambda>t.
       let m = fst (push_task E m t);
           tc = register_timerFun tc (Some (update_1s E (fst (LogManager_init new_LogManager)) src_path)) 1000;
           tc = register_timerFun tc (Some (update_2s E (fst (LogManager_init new_LogManager)) src_path)) 2000
       in Inr (Started \<lparr>host = s3, pool = m, players = fst (PlayerManager_init (new_PlayerManager E)),
            actions = server_handler, logs = fst (LogManager_init new_LogManager), timers = tc, leaked = []\<rparr>)))"
  using assms by (simp add: ServerHandler_init_def server_handler_def Let_def)

lemma new_players_inv:
  "sessions_inv (fst (PlayerManager_init (new_PlayerManager E)))"
  "m_MapSessionConnInfo (fst (PlayerManager_init (new_PlayerManager E))) = Map.empty"
  "players_inv (fst (PlayerManager_init (new_PlayerManager E)))"
  using players_inv_init [of E]
  by (simp_all add: sessions_inv_def PlayerManager_init_def new_PlayerManager_def
      ClientConnManager_init_def ClientConnManager.defs new_ClientConnManager_def)

text \<open>The server that is started when the listener could be created.\<close>

lemma listening_server:
  assumes "in_i32 (indet E)" and "unordered_keys E" and "boost_ring (ring E) elems cap" and "ThreadManager_init E s = (sb, m, b)"
    and "\<forall>i\<in>set (spawn_ids E 4 s). 0 < i" and "m_vecTimerFun tc = []"
    and "0 \<le> l_fd l" and "svr_type l = DEVICE_SERVER_EXTERNAL"
  shows "\<exists>t w k h. CreateTask l = Some t \<and>
    w = \<lparr>host = s3, pool = fst (push_task E m t), players = fst (PlayerManager_init (new_PlayerManager E)),
      actions = server_handler, logs = fst (LogManager_init new_LogManager), timers =
        register_timerFun (register_timerFun tc (Some (update_1s E (fst (LogManager_init new_LogManager)) src_path)) 1000)
          (Some (update_2s E (fst (LogManager_init new_LogManager)) src_path)) 2000, leaked = []\<rparr> \<and>
    server_ok E src_path elems 0 w \<and> map_of (pool w) k = Some h \<and>
    contents elems (m_queue_thread h) = [task_listener 0 (l_fd l) DEVICE_SERVER_EXTERNAL (svraddr l)]"
proof -
  let ?t = "task_listener 0 (l_fd l) DEVICE_SERVER_EXTERNAL (svraddr l)"
  have ct: "CreateTask l = Some ?t" using assms(7,8) by (simp add: CreateTask_def new_task_listener_def)
  have "\<not> client_type DEVICE_SERVER_EXTERNAL" by (simp add: client_type_def)
  from start_pool [OF assms(1-5) this, of "l_fd l" "svraddr l" "{}"] obtain m' k h where
    p: "push_task E m ?t = (m', k)" "threads_inv m'" "m' \<noteq> []" "\<forall>(i, h)\<in>set m'. 0 < i"
      "\<forall>i g. map_of m' i = Some g \<longrightarrow> thread_queues_ok elems 0 {} g" "map_of m' k = Some h"
      "contents elems (m_queue_thread h) = [?t]" by blast
  define w where "w = \<lparr>host = s3, pool = m', players = fst (PlayerManager_init (new_PlayerManager E)),
    actions = server_handler, logs = fst (LogManager_init new_LogManager), timers =
      register_timerFun (register_timerFun tc (Some (update_1s E (fst (LogManager_init new_LogManager)) src_path)) 1000)
        (Some (update_2s E (fst (LogManager_init new_LogManager)) src_path)) 2000, leaked = []\<rparr>"
  have "server_ok E src_path elems 0 w"
    using p(2-5) new_players_inv [of E] assms(6)
    by (simp add: w_def server_ok_def server_inv_def main_queues_ok_def known_sessions_def register_timerFun_def timer_in_range_def)
  then show ?thesis
    using ct p(1,6,7) by - (rule exI [of _ ?t], rule exI [of _ w], rule exI [of _ k], rule exI [of _ h], simp add: w_def)
qed



end
