(* ===== verification/System.thy ===== *)
theory System
  imports MainThread
begin

text \<open>
  The whole server: the main thread and the epoll threads of its pool, in any interleaving of their
  rounds.  A round is atomic here; the code needs no lock because the two sides of a queue have one
  thread each and no other state is shared.
\<close>

section \<open>Steps\<close>

text \<open>
  Room for one more round anywhere: fewer than 100000 sessions and a load counter that
  does not overflow.
\<close>

definition room :: "('o, 'q) server \<Rightarrow> bool" where
  "room w \<longleftrightarrow> card (dom (m_MapSessionConnInfo (players w))) + 1024 \<le> 100000 \<and>
     (\<forall>(k, h)\<in>set (pool w). in_i32 (m_pressure h + 1024))"

inductive sys_step :: "('o, 'q) env \<Rightarrow> ('o, 'q) server \<Rightarrow> ('o, 'q) server \<Rightarrow> bool" for E where
  main_step: "room w \<Longrightarrow> k \<in> fst ` set (pool w) \<Longrightarrow>
    update_main (ring E) (get_thread k) (put_thread k) (dotask_main E k) w = Some (Inr (w', n)) \<Longrightarrow>
    sys_step E w w'"
| thread_step: "room w \<Longrightarrow> k \<in> fst ` set (pool w) \<Longrightarrow>
    epoll_thread_round E (host w, get_thread k w) = Some (Inr ((s', h'), n)) \<Longrightarrow>
    sys_step E w (put_thread k h' (w\<lparr>host := s'\<rparr>))"

inductive_cases sys_stepE: "sys_step E w w'"

section \<open>The invariant of the whole server\<close>

definition sys_inv :: "('q \<Rightarrow> task list) \<Rightarrow> ('o, 'q) server \<Rightarrow> bool" where
  "sys_inv elems w \<longleftrightarrow> server_inv w \<and> (\<exists>M. main_queues_ok elems M w)"

lemma main_queues_ok_mono: "main_queues_ok elems M w \<Longrightarrow> M \<le> M' \<Longrightarrow> main_queues_ok elems M' w"
  by (fastforce simp: main_queues_ok_def thread_queues_ok_def)

text \<open>Both sides of a round, on any thread of the pool.\<close>

lemma main_round:
  fixes w :: "('o, 'q) server"
  assumes "main_os E elems cap" "sys_inv elems w" "room w" "k \<in> fst ` set (pool w)"
  shows "\<exists>r. update_main (ring E) (get_thread k) (put_thread k) (dotask_main E k) w = Some r \<and>
    (case r of
       Inl e \<Rightarrow> e = Use_after_free \<and>
         (\<exists>th s. task_clientConnOnClose th s \<in> set (contents elems (m_queue_main (get_thread k w))))
     | Inr (w', n) \<Rightarrow> sys_inv elems w')"
proof -
  obtain M where M: "main_queues_ok elems M w" using assms(2) by (auto simp: sys_inv_def)
  let ?R = "\<lambda>i. case map_of (pool w) i of None \<Rightarrow> {} | Some h \<Rightarrow> set (contents elems (m_queue_main h))"
  have "main_os.main_progress elems (timers w) M ?R (map fst (pool w)) 100000 1024 w"
    using assms(2,3) M by (simp add: main_os.main_progress_def [OF assms(1)] sys_inv_def room_def)
  from main_os.update_main_returns [OF assms(1) this _ order_refl, of k] assms(4) obtain r where
    r: "update_main (ring E) (get_thread k) (put_thread k) (dotask_main E k) w = Some r"
      "case r of Inl e \<Rightarrow> e = Use_after_free \<and> (\<exists>th s. task_clientConnOnClose th s \<in> ?R k)
       | Inr (w', n) \<Rightarrow> main_os.main_progress elems (timers w) M ?R (map fst (pool w)) 100000 0 w' \<and> 0 \<le> n \<and>
           n \<le> int M + 1024" by auto
  then show ?thesis using get_thread_Some [OF assms(4)]
    by (cases r) (auto simp: main_os.main_progress_def [OF assms(1)] sys_inv_def)
qed

lemma thread_round:
  fixes w :: "('o, 'q) server"
  assumes "epoll_os E inb outb backlog elems cap" "sys_inv elems w" "room w" "k \<in> fst ` set (pool w)"
  shows "\<exists>s' h' n. epoll_thread_round E (host w, get_thread k w) = Some (Inr ((s', h'), n)) \<and>
    sys_inv elems (put_thread k h' (w\<lparr>host := s'\<rparr>))"
proof -
  let ?h = "get_thread k w"
  obtain M where M: "main_queues_ok elems M w" and inv: "server_inv w" using assms(2) by (auto simp: sys_inv_def)
  note h = get_thread_Some [OF assms(4)]
  have q: "thread_queues_ok elems M (known_sessions w) ?h" using M h by (simp add: main_queues_ok_def)
  then obtain b where b: "handler_inv b ?h" by (auto simp: thread_queues_ok_def)
  have p: "in_i32 (m_pressure ?h + 1024)" using assms(3) map_of_SomeD [OF h] by (auto simp: room_def)
  have t: "\<forall>t\<in>set (contents elems (m_queue_thread ?h)). thread_task t" using q by (simp add: thread_queues_ok_def)
  from epoll_thread_round_ok [OF assms(1) b p t, of "host w"] obtain s' h' n ts where
    r: "epoll_thread_round E (host w, ?h) = Some (Inr ((s', h'), n))" "handler_inv b h'" "reports elems ts ?h h'"
      "contents elems (m_queue_thread ?h) = ts @ contents elems (m_queue_thread h')" by blast
  let ?M = "max M (length (elems (m_queue (m_queue_main_complete h'))))"
  let ?w = "w\<lparr>host := s'\<rparr>"
  have same: "get_thread k ?w = ?h" "server_inv ?w" "pool ?w = pool w" "main_queues_ok elems ?M ?w"
    "known_sessions ?w = known_sessions w"
    using inv main_queues_ok_mono [OF M, of ?M]
    by (simp_all add: get_thread_def server_inv_def main_queues_ok_def known_sessions_def)
  have ks: "client_sessions ?h \<subseteq> known_sessions w" "\<forall>u\<in>set ts. known_task (known_sessions w) u"
    using q r(4) by (auto simp: thread_queues_ok_def)
  obtain us where us: "contents elems (m_queue_main h') = contents elems (m_queue_main ?h) @ us"
    "\<forall>u\<in>set us. report (thread_id ?h) u" "client_sessions h' \<subseteq> known_sessions w"
    "\<forall>u\<in>set us. about (known_sessions w) u" and id: "thread_id h' = thread_id ?h"
  proof -
    obtain us where us: "contents elems (m_queue_main h') = contents elems (m_queue_main ?h) @ us"
      "\<forall>u\<in>set us. report (thread_id ?h) u" "thread_id h' = thread_id ?h"
      "\<And>S. client_sessions ?h \<subseteq> S \<Longrightarrow> \<forall>u\<in>set ts. known_task S u \<Longrightarrow>
        client_sessions h' \<subseteq> S \<and> (\<forall>u\<in>set us. about S u)"
      using r(3) unfolding reports_def by auto
    show ?thesis using that [OF us(1,2) _ _ us(3)] us(4) [OF ks] by simp
  qed
  have "thread_queues_ok elems ?M (known_sessions ?w) h'"
    unfolding same(5) thread_queues_ok_def
  proof (intro conjI)
    show "\<forall>t\<in>set (contents elems (m_queue_main h')). main_task t \<and> about (known_sessions w) t"
      using q us(2,4) unfolding us(1) by (auto simp: thread_queues_ok_def report_def)
    show "\<forall>t\<in>set (contents elems (m_queue_thread h')). thread_task t \<and> known_task (known_sessions w) t"
      using q unfolding thread_queues_ok_def r(4) by simp
    show "\<exists>b. handler_inv b h'" using r(2) by blast
  qed (use us(3) in simp_all)
  then have "main_queues_ok elems ?M (put_thread k h' ?w)" by (rule main_queues_put [OF same(4)])
  moreover have "server_inv (put_thread k h' ?w)"
    by (rule server_inv_put [OF same(2)]) (use assms(4) same(1) id in simp_all)
  ultimately show ?thesis using r(1) by (auto simp: sys_inv_def)
qed

lemma sys_step_inv:
  assumes "main_os E elems cap" "epoll_os E inb outb backlog elems cap" "sys_step E w w'" "sys_inv elems w"
  shows "sys_inv elems w'"
  using assms(3)
proof (elim sys_stepE)
  fix k n
  assume "room w" "k \<in> fst ` set (pool w)"
    and u: "update_main (ring E) (get_thread k) (put_thread k) (dotask_main E k) w = Some (Inr (w', n))"
  from main_round [OF assms(1,4) this(1,2)] u show ?thesis by auto
next
  fix k s' h' n
  assume w': "w' = put_thread k h' (w\<lparr>host := s'\<rparr>)" and "room w" "k \<in> fst ` set (pool w)"
    and u: "epoll_thread_round E (host w, get_thread k w) = Some (Inr ((s', h'), n))"
  from thread_round [OF assms(2,4) this(2,3)] u show ?thesis unfolding w' by auto
qed

section \<open>Properties\<close>


lemma one_server_sys: "sys_inv (\<lambda>r. r) one_server" "room one_server" "3 \<in> fst ` set (pool one_server)"
proof -
  have "in_i32 (indet sim_env)" by (simp add: sim_env_def in_i32_def)
  from new_thread_ok(1) [OF this sim_env_ring]
  have "thread_queues_ok (\<lambda>r. r) 0 S ((new_EpollHandler sim_env)\<lparr>thread_id := 3\<rparr>)" for S .
  then have "main_queues_ok (\<lambda>r. r) 0 one_server"
    unfolding main_queues_ok_def by (simp add: one_server_def) (simp add: one_thread_def)
  then show "sys_inv (\<lambda>r. r) one_server" using one_server_inv by (auto simp: sys_inv_def)
  show "room one_server"
    by (simp add: room_def one_server_def)
      (simp add: one_thread_def new_EpollHandler_def thread.defs new_Thread_def sim_env_def in_i32_def)
  show "3 \<in> fst ` set (pool one_server)" by (simp add: one_server_def one_thread_def)
qed


end
