(* ===== verification/Connection.thy ===== *)
theory Connection
  imports System
begin

text \<open>
  The life of a connection through the threads: accepted by the epoll thread that has the listener, given a session by the main
  thread, entered by the epoll thread with the least load.
\<close>

context epoll_os
begin

text \<open>Inserting a connection whose descriptor can be registered.\<close>

lemma insert_connection:
  assumes inv: "handler_inv b g" "in_i32 (m_pressure g + 1)"
    and free: "m_MapDeviceSessionInfo g k = None" "m_MapDeviceInfo g f = None"
    and reg: "EpollRegister E s g f (or (or EPOLLIN EPOLLOUT) EPOLLET) = (s', True)"
  shows "\<exists>g' d. dotask_thread E (s, g) (task_clientConnInsert th f ty k ad) =
      Some (Inr ((s', g'), task_clientConnInsert (thread_id g) f ty k ad)) \<and> handler_inv b g' \<and>
    m_pressure g' = m_pressure g + 1 \<and> m_MapDeviceSessionInfo g' = (m_MapDeviceSessionInfo g)(k \<mapsto> next_dev g) \<and>
    m_MapDeviceInfo g' = (m_MapDeviceInfo g)(f \<mapsto> next_dev g) \<and> devs g' = (devs g)(next_dev g \<mapsto> d) \<and>
    fd d = f \<and> session_id d = k \<and> device_type d = ty \<and> sock_addr d = ad \<and> recv_pending d = [] \<and> send_pending d = []"
proof -
  obtain g' d where g': "addDevice E g f k ty ad = Inr (g', True)" "handler_inv b g'"
    "devs g' = (devs g)(next_dev g \<mapsto> d)" "m_MapDeviceInfo g' = (m_MapDeviceInfo g)(f \<mapsto> next_dev g)"
    "m_MapDeviceSessionInfo g' = (m_MapDeviceSessionInfo g)(k \<mapsto> next_dev g)" "m_pressure g' = m_pressure g + 1"
    "fd d = f" "session_id d = k" "device_type d = ty" "sock_addr d = ad" "recv_pending d = []" "send_pending d = []"
    using addDevice_new [OF inv free, of E ty ad] by metis
  then show ?thesis using reg
    by - (rule exI [of _ g'], rule exI [of _ d], simp add: dotask_thread_def dotask_switch_def AddClientConn_def Let_def)
qed

end

section \<open>Properties\<close>



end
