(* ===== verification/ClientTest.thy ===== *)
theory ClientTest
  imports MainThread
begin

text \<open>
  The load client of \<open>clientTest/client.cpp\<close>: a packet written to a socket in one \<open>send\<close>, the message variant with the
  same test of \<open>SerializeToArray\<close> as the server's, and the body of the five threads, which send a thousand
  heartbeats each.  What it prints is left out.  The lemmas compose it with the server: the bytes of the client
  are the frames that \<open>doRead\<close> takes apart, and the messages the main thread answers.

  \<open>connect\<close> is the one system call that the server does not make; it is an argument.
\<close>

section \<open>Sending\<close>

definition sendData :: "('o, 'q) env \<Rightarrow> 'o \<Rightarrow> int \<Rightarrow> mem option \<Rightarrow> int \<Rightarrow> ('o \<times> bool) res" where
  "sendData E s sock d sz =
     bind_res (deref d) (\<lambda>m.
     bind_res (mem_load m 0 sz) (\<lambda>cs.
     case os_send E s sock cs of (s, r) \<Rightarrow>
       let sendLen = (case r of Send_count n \<Rightarrow> n | Send_error e \<Rightarrow> -1)
       in Inr (s, sendLen = sz)))"

definition sendProto :: "('o, 'q) env \<Rightarrow> 'o \<Rightarrow> int \<Rightarrow> int \<Rightarrow> int \<Rightarrow> proto option \<Rightarrow> ('o \<times> bool) res" where
  "sendProto E s sock messageID errCode msg =
     (if sock \<le> 0 then Inr (s, False)
      else
        bind_res (NewPacket messageID errCode None 0) (\<lambda>p.
        bind_res
          (case msg of
             None \<Rightarrow> Inr (Some p)
           | Some g \<Rightarrow>
               let sendLen = ByteSize g in
               if sendLen \<le> 0 \<or> fst (SerializeToArray g sendLen) then Inr None
               else bind_res (Append p (Some (snd (SerializeToArray g sendLen))) sendLen) (\<lambda>p. Inr (Some p)))
          (\<lambda>r. case r of
             None \<Rightarrow> Inr (s, False)
           | Some p \<Rightarrow> sendData E s sock (data p) (message_len p))))"

section \<open>A client thread\<close>

fun client_loop :: "('o, 'q) env \<Rightarrow> nat \<Rightarrow> 'o \<Rightarrow> int \<Rightarrow> 'o res" where
  "client_loop E 0 s sock = Inr s"
| "client_loop E (Suc n) s sock =
     bind_res (sendProto E s sock (MESSAGE_ID_value MSGID_HEART_BEAT) 0 None) (\<lambda>(s, result).
     client_loop E n (os_usleep E s 1000) sock)"

definition mutiClient :: "('o, 'q) env \<Rightarrow> ('o \<Rightarrow> int \<Rightarrow> sockaddr_in \<Rightarrow> 'o \<times> int) \<Rightarrow> string \<Rightarrow> int \<Rightarrow> 'o \<Rightarrow> 'o res" where
  "mutiClient E connect global_addr global_port s =
     (case os_socket E s of
        (s, sock_cli) \<Rightarrow>
          let servaddr = \<lparr>sin_family = AF_INET, sin_port = htons E (word_of_int global_port),
                          sin_addr = inet_addr E global_addr\<rparr> in
          (case connect s sock_cli servaddr of
             (s, r) \<Rightarrow>
               if r < 0 then Inr s
               else bind_res (client_loop E 1000 s sock_cli) (\<lambda>s. Inr (os_close E s sock_cli))))"

section \<open>Lemmas\<close>

text \<open>A heartbeat on the wire is a packet without payload, and a frame of its own.\<close>

lemma heartbeat_packet:
  "\<exists>p. NewPacket 0 0 None 0 = Inr p \<and> message_len p = 14 \<and>
     data p = Some (map Some heartbeat_bytes @ replicate 242 None)"
proof -
  have "be32 14 = [0, 0, 0, 14]" and "be32 0 = [0, 0, 0, 0]" by (simp_all add: be32_def)
  then show ?thesis by (simp add: NewPacket_def Packet_of_code_eq heartbeat_bytes_def)
qed

lemma send_heartbeat:
  assumes "0 < sock"
  shows "sendProto E s sock (MESSAGE_ID_value MSGID_HEART_BEAT) 0 None =
    (case os_send E s sock (map Some heartbeat_bytes) of (s', r) \<Rightarrow>
       Inr (s', r = Send_count 14))"
proof -
  obtain p where p: "NewPacket 0 0 None 0 = Inr p" "message_len p = 14"
    "data p = Some (map Some heartbeat_bytes @ replicate 242 None)"
    using heartbeat_packet by blast
  have "length (map Some heartbeat_bytes) = 14" by (simp add: heartbeat_bytes_def)
  then have "mem_load (map Some heartbeat_bytes @ replicate 242 None) 0 14 = Inr (map Some heartbeat_bytes)"
    by (simp add: mem_load_def)
  then show ?thesis
    using assms p
    by (simp add: sendProto_def sendData_def split: prod.splits send_result.splits)
qed

lemma heartbeat_frames: "parse_stream (concat (replicate n heartbeat_bytes)) = (replicate n heartbeat_bytes, [], True)"
proof (induction n)
  case (Suc n)
  let ?bs = "heartbeat_bytes @ concat (replicate n heartbeat_bytes)"
  have l: "length heartbeat_bytes = 14" by (simp add: heartbeat_bytes_def)
  have "frame_len ?bs = 14" by (simp add: frame_len_def heartbeat_bytes_def un_be32_def)
  then show ?case using parse_stream_frame [of ?bs] Suc l by simp
qed simp

text \<open>
  A blocking stream socket: a \<open>send\<close> that does not fail takes everything; the other calls of the client send nothing.
\<close>

locale blocking_send = send_stream E outb for E :: "('o, 'q) env" and outb :: "'o \<Rightarrow> int \<Rightarrow> cell list" +
  assumes send_all: "cs \<noteq> [] \<Longrightarrow> \<exists>s'. os_send E s f cs = (s', Send_count (int (length cs)))"
    and usleep_out: "outb (os_usleep E s n) f = outb s f"
    and close_out: "outb (os_close E s g) f = outb s f"
begin

lemma sendProto_all:
  assumes "0 < sock"
  obtains s' where "sendProto E s sock (MESSAGE_ID_value MSGID_HEART_BEAT) 0 None = Inr (s', True)"
    "outb s' sock = outb s sock @ map Some heartbeat_bytes"
proof -
  have hb: "map Some heartbeat_bytes \<noteq> []" "length heartbeat_bytes = 14" by (simp_all add: heartbeat_bytes_def)
  obtain s' where s': "os_send E s sock (map Some heartbeat_bytes) = (s', Send_count 14)"
    using send_all [OF hb(1)] hb(2) by auto
  have "sendProto E s sock (MESSAGE_ID_value MSGID_HEART_BEAT) 0 None = Inr (s', True)"
    unfolding send_heartbeat [OF assms] s' by simp
  moreover have "outb s' sock = outb s sock @ map Some heartbeat_bytes"
    using send_count [OF hb(1) s'] hb(2) by simp
  ultimately show ?thesis by (rule that)
qed

lemma client_loop_sends:
  "0 < sock \<Longrightarrow> \<exists>s'. client_loop E n s sock = Inr s' \<and>
     outb s' sock = outb s sock @ map Some (concat (replicate n heartbeat_bytes))"
proof (induction n arbitrary: s)
  case (Suc n)
  obtain s1 where s1: "sendProto E s sock (MESSAGE_ID_value MSGID_HEART_BEAT) 0 None = Inr (s1, True)"
    "outb s1 sock = outb s sock @ map Some heartbeat_bytes" by (rule sendProto_all [OF Suc.prems])
  from Suc.IH [OF Suc.prems, of "os_usleep E s1 1000"] obtain s' where
    "client_loop E n (os_usleep E s1 1000) sock = Inr s'"
    "outb s' sock = outb s1 sock @ map Some (concat (replicate n heartbeat_bytes))"
    by (auto simp: usleep_out)
  then show ?case using s1 by simp
qed simp

lemma client_sends:
  assumes "os_socket E s = (s1, k)" and "0 < k"
    and "connect s1 k \<lparr>sin_family = AF_INET, sin_port = htons E (word_of_int port), sin_addr = inet_addr E ad\<rparr> = (s2, r)"
    and "0 \<le> r"
  shows "\<exists>s'. mutiClient E connect ad port s = Inr s' \<and>
    outb s' k = outb s2 k @ map Some (concat (replicate 1000 heartbeat_bytes))"
proof -
  from client_loop_sends [OF assms(2), of 1000 s2] obtain s3 where
    "client_loop E 1000 s2 k = Inr s3"
    "outb s3 k = outb s2 k @ map Some (concat (replicate 1000 heartbeat_bytes))" by blast
  then show ?thesis using assms by (simp add: mutiClient_def close_out)
qed

end

interpretation sim_blocking: blocking_send sim_env sim_out
  by unfold_locales (simp_all add: sim_env_def)

text \<open>The task of a heartbeat on the main thread.\<close>

lemma heartbeat_task:
  fixes w :: "('o, 'q) server"
  assumes inv: "server_inv w" and k: "m_MapSessionConnInfo (players w) k \<noteq> None"
  shows "dotask_main E j w (frame_task th k heartbeat_bytes) = Some (Inr (w, frame_task th k heartbeat_bytes))"
proof -
  let ?d = "map Some heartbeat_bytes @ [Some 0]"
  have l: "length heartbeat_bytes = 14" by (simp add: heartbeat_bytes_def)
  have ft: "frame_task th k heartbeat_bytes = task_clientConnPacket th k 14 (Some ?d)"
    using l by (simp add: frame_task_def)
  have mt: "main_task (task_clientConnPacket th k 14 (Some ?d))"
    using l by (auto simp: main_task_def)
  have "packet_code 14 ?d = 0"
    using field_at_heartbeat l by (simp add: packet_code_def)
  with server_packet [OF inv mt] k
  have "task_clientConnPacket_on_thread_call w k 14 (Some ?d) = Inr w" by simp
  moreover have "threads_inv (pool w)" using inv by (simp add: server_inv_def)
  ultimately show ?thesis
    unfolding ft dotask_main_eq [OF \<open>threads_inv (pool w)\<close> mt] by (simp add: OnExcute_main_def)
qed

section \<open>Properties\<close>



end
