(* ===== verification/Varint.thy ===== *)
theory Varint
  imports Prelude
begin

text \<open>
  The variable-length integers of the protocol buffer runtime under \<open>src/proto\<close>: \<open>Bits\<close> of \<open>stubs/port.h\<close>, the
  array writers and the size functions of \<open>io/coded_stream.h\<close>.  The reference encoding is \<open>varint\<close>, with
  \<open>read_varint\<close> as its decoder; every writer is shown to be \<open>emit\<close> of reference bytes, every size function their number.
\<close>

unbundle bit_operations_syntax

section \<open>The reference encoding\<close>

text \<open>Base 128 digits, least significant first, bit 7 set on all but the last.\<close>

fun varint :: "nat \<Rightarrow> byte list" where
  "varint n = (if n < 128 then [word_of_nat n] else word_of_nat (n mod 128 + 128) # varint (n div 128))"

declare varint.simps [simp del]

text \<open>At most \<open>k\<close> digits are read; the result is the value and the bytes after it.\<close>

fun read_varint :: "nat \<Rightarrow> byte list \<Rightarrow> (nat \<times> byte list) option" where
  "read_varint 0 bs = None"
| "read_varint (Suc k) [] = None"
| "read_varint (Suc k) (b # bs) =
     (if unat b < 128 then Some (unat b, bs)
      else map_option (\<lambda>(v, r). (unat b - 128 + 128 * v, r)) (read_varint k bs))"

text \<open>The number of significant bits.\<close>

fun bit_length :: "nat \<Rightarrow> nat" where
  "bit_length n = (if n = 0 then 0 else Suc (bit_length (n div 2)))"

declare bit_length.simps [simp del]

lemma varint_small [simp]: "n < 128 \<Longrightarrow> varint n = [word_of_nat n]"
  by (simp add: varint.simps)

lemma varint_large: "128 \<le> n \<Longrightarrow> varint n = word_of_nat (n mod 128 + 128) # varint (n div 128)"
  by (simp add: varint.simps)

lemma varint_not_Nil [simp]: "varint n \<noteq> []"
  by (simp add: varint.simps)

lemma read_varint_Nil [simp]: "read_varint k [] = None"
  by (cases k) simp_all

lemma bit_length_0 [simp]: "bit_length 0 = 0"
  by (simp add: bit_length.simps)

lemma bit_length_pos: "0 < n \<Longrightarrow> bit_length n = Suc (bit_length (n div 2))"
  by (simp add: bit_length.simps)

lemma bit_length_div: "bit_length (n div 2 ^ k) = bit_length n - k"
proof (induction k arbitrary: n)
  case (Suc k)
  have "bit_length (n div 2 ^ Suc k) = bit_length (n div 2 div 2 ^ k)"
    by (simp add: div_mult2_eq)
  also have "\<dots> = bit_length (n div 2) - k" by (rule Suc.IH)
  also have "\<dots> = bit_length n - Suc k" by (cases "n = 0") (simp_all add: bit_length_pos)
  finally show ?case .
qed simp

lemma bit_length_le_iff: "bit_length n \<le> k \<longleftrightarrow> n < 2 ^ k"
proof -
  have "bit_length n \<le> k \<longleftrightarrow> bit_length (n div 2 ^ k) = 0" by (simp add: bit_length_div)
  also have "\<dots> \<longleftrightarrow> n div 2 ^ k = 0"
    by (cases "n div 2 ^ k = 0") (simp_all add: bit_length_pos)
  also have "\<dots> \<longleftrightarrow> n < 2 ^ k" by (simp add: div_eq_0_iff)
  finally show ?thesis .
qed

lemma bit_length_eqI: "2 ^ k \<le> n \<Longrightarrow> n < 2 ^ Suc k \<Longrightarrow> bit_length n = Suc k"
  using bit_length_le_iff [of n k] bit_length_le_iff [of n "Suc k"] by simp

lemma length_varint: "length (varint n) = (bit_length n - 1) div 7 + 1"
proof (induction n rule: varint.induct)
  case (1 n)
  show ?case
  proof (cases "n < 128")
    case True
    then have "bit_length n \<le> 7" by (simp add: bit_length_le_iff)
    then show ?thesis using True by simp
  next
    case False
    then have "\<not> bit_length n \<le> 7" by (simp add: bit_length_le_iff)
    moreover have "bit_length (n div 128) = bit_length n - 7" using bit_length_div [of n 7] by simp
    moreover have "varint n = word_of_nat (n mod 128 + 128) # varint (n div 128)"
      using False by (simp add: varint_large)
    ultimately show ?thesis using "1.IH" [OF False] by simp
  qed
qed

lemma length_varint_le: "n < 2 ^ (7 * Suc k) \<Longrightarrow> length (varint n) \<le> Suc k"
  by (simp add: length_varint flip: bit_length_le_iff)

lemma unat_byte [simp]: "n < 256 \<Longrightarrow> unat (word_of_nat n :: byte) = n"
  by (simp add: unat_of_nat)

lemma read_varint_varint:
  "length (varint n) \<le> k \<Longrightarrow> read_varint k (varint n @ r) = Some (n, r)"
proof (induction n arbitrary: k rule: varint.induct)
  case (1 n)
  show ?case
  proof (cases "n < 128")
    case True
    then show ?thesis using "1.prems" by (cases k) simp_all
  next
    case False
    then have v: "varint n = word_of_nat (n mod 128 + 128) # varint (n div 128)"
      by (simp add: varint_large)
    with "1.prems" obtain k' where k: "k = Suc k'" "length (varint (n div 128)) \<le> k'"
      by (cases k) simp_all
    have "unat (word_of_nat (n mod 128 + 128) :: byte) = n mod 128 + 128"
      by (rule unat_byte) simp
    then show ?thesis using "1.IH" [OF False k(2)] by (simp add: v k(1) del: of_nat_add)
  qed
qed

section \<open>\<open>Bits\<close> (\<open>stubs/port.h\<close>)\<close>

text \<open>\<open>__builtin_clz\<close> and \<open>__builtin_clzll\<close>: the leading zeros of a non-zero word.\<close>

definition builtin_clz :: "'a::len word \<Rightarrow> nat" where
  "builtin_clz n = LENGTH('a) - bit_length (unat n)"

definition Log2FloorNonZero :: "32 word \<Rightarrow> 32 word" where
  "Log2FloorNonZero n = 31 XOR word_of_nat (builtin_clz n)"

definition Log2FloorNonZero64 :: "64 word \<Rightarrow> 32 word" where
  "Log2FloorNonZero64 n = 63 XOR word_of_nat (builtin_clz n)"

text \<open>The loop of the portable version runs \<open>i\<close> from 4 to 0.\<close>

fun Log2_loop :: "nat \<Rightarrow> 32 word \<Rightarrow> int \<Rightarrow> 32 word \<times> int" where
  "Log2_loop 0 val log = (val, log)"
| "Log2_loop (Suc i) val log =
     (let shift = 2 ^ i; x = drop_bit shift val
      in if x \<noteq> 0 then Log2_loop i x (log + int shift) else Log2_loop i val log)"

definition Log2FloorNonZero_Portable :: "32 word \<Rightarrow> int" where
  "Log2FloorNonZero_Portable n = (if n = 0 then - 1 else snd (Log2_loop 5 n 0))"

definition Log2FloorNonZero64_Portable :: "64 word \<Rightarrow> int" where
  "Log2FloorNonZero64_Portable n =
     (let topbits = ucast (drop_bit 32 n) :: 32 word
      in if topbits = 0 then uint (Log2FloorNonZero (ucast n))
         else 32 + uint (Log2FloorNonZero topbits))"

lemma unat_drop_bit: "unat (drop_bit k w) = unat w div 2 ^ k"
  by (simp only: unsigned_drop_bit_eq) (simp add: take_bit_nat_eq_self drop_bit_eq_div order_le_less_trans [OF div_le_dividend])

lemma bit_length_unat: "bit_length (unat (w :: 'a::len word)) \<le> LENGTH('a)"
  by (simp add: bit_length_le_iff)

text \<open>\<open>31 - x\<close> is \<open>31 XOR x\<close> for \<open>x\<close> up to 31, and the same for 63.\<close>

lemma xor_31: "k < 32 \<Longrightarrow> 31 XOR (word_of_nat k :: 32 word) = word_of_nat (31 - k)"
proof -
  have "\<forall>k\<in>{..<32}. 31 XOR (word_of_nat k :: 32 word) = word_of_nat (31 - k)" by code_simp
  then show "k < 32 \<Longrightarrow> ?thesis" by blast
qed

lemma xor_63: "k < 64 \<Longrightarrow> 63 XOR (word_of_nat k :: 32 word) = word_of_nat (63 - k)"
proof -
  have "\<forall>k\<in>{..<64}. 63 XOR (word_of_nat k :: 32 word) = word_of_nat (63 - k)" by code_simp
  then show "k < 64 \<Longrightarrow> ?thesis" by blast
qed

lemma unat_word32: "k < 100 \<Longrightarrow> unat (word_of_nat k :: 32 word) = k"
  by (simp add: unat_of_nat)

lemma bit_length_unat_pos: "w \<noteq> 0 \<Longrightarrow> 0 < bit_length (unat w)"
  by (simp add: bit_length_pos word_greater_zero_iff unat_gt_0)

lemma Log2FloorNonZero_eq: "n \<noteq> 0 \<Longrightarrow> unat (Log2FloorNonZero n) = bit_length (unat n) - 1"
  using bit_length_unat [of n] bit_length_unat_pos [of n]
  by (simp add: Log2FloorNonZero_def builtin_clz_def xor_31 unat_word32 del: of_nat_diff)

lemma Log2FloorNonZero64_eq: "n \<noteq> 0 \<Longrightarrow> unat (Log2FloorNonZero64 n) = bit_length (unat n) - 1"
  using bit_length_unat [of n] bit_length_unat_pos [of n]
  by (simp add: Log2FloorNonZero64_def builtin_clz_def xor_63 unat_word32 del: of_nat_diff)

lemma Log2_loop_eq:
  "val \<noteq> 0 \<Longrightarrow> unat val < 2 ^ 2 ^ i \<Longrightarrow> Log2_loop i val log = (1, log + int (bit_length (unat val) - 1))"
proof (induction i arbitrary: val log)
  case 0
  then have "unat val = 1" using unat_gt_0 [of val] by simp
  moreover from this have "val = 1" by (metis unat_1 word_unat_eq_iff)
  ultimately show ?case by (simp add: bit_length_pos)
next
  case (Suc i)
  let ?x = "drop_bit (2 ^ i) val"
  have x: "unat ?x = unat val div 2 ^ 2 ^ i" by (rule unat_drop_bit)
  show ?case
  proof (cases "?x = 0")
    case True
    then have "unat val < 2 ^ 2 ^ i" using x by (simp add: div_eq_0_iff)
    then show ?thesis using Suc.IH [OF Suc.prems(1)] True by simp
  next
    case False
    have "unat val < 2 ^ 2 ^ i * 2 ^ 2 ^ i" using Suc.prems(2) by (simp add: mult_2 flip: power_add)
    then have "unat ?x < 2 ^ 2 ^ i" unfolding x by (simp add: less_mult_imp_div_less)
    moreover have "bit_length (unat ?x) = bit_length (unat val) - 2 ^ i"
      unfolding x by (rule bit_length_div)
    moreover have "0 < bit_length (unat ?x)" by (rule bit_length_unat_pos [OF False])
    ultimately show ?thesis using Suc.IH [OF False] False by (simp add: Let_def)
  qed
qed

lemma Log2FloorNonZero_Portable_eq:
  "n \<noteq> 0 \<Longrightarrow> Log2FloorNonZero_Portable n = uint (Log2FloorNonZero n)"
proof -
  assume n: "n \<noteq> 0"
  have "unat n < 2 ^ LENGTH(32)" by (rule unsigned_less)
  then have "unat n < 2 ^ 2 ^ 5" by simp
  then have "Log2FloorNonZero_Portable n = int (bit_length (unat n) - 1)"
    using Log2_loop_eq [of n 5 0] n by (simp add: Log2FloorNonZero_Portable_def)
  also have "\<dots> = int (unat (Log2FloorNonZero n))" using Log2FloorNonZero_eq [OF n] by simp
  finally show ?thesis by simp
qed

section \<open>Writing to an array\<close>

text \<open>
  A target pointer is a buffer and an offset in it; a write outside the buffer is a fault.  \<open>emit\<close> is
  the reference: the bytes are stored one after the other and the pointer is left behind them.
\<close>

definition emit :: "byte list \<Rightarrow> mem \<Rightarrow> int \<Rightarrow> (mem \<times> int) res" where
  "emit bs m target = bind_res (mem_store m target (map Some bs)) (\<lambda>m. Inr (m, target + int (length bs)))"

text \<open>The loop shared by \<open>WriteVarint32ToArray\<close> and \<open>WriteVarint64ToArray\<close>, at any width.\<close>

function write_varint :: "'a::len word \<Rightarrow> mem \<Rightarrow> int \<Rightarrow> (mem \<times> int) res" where
  "write_varint val m target =
     (if 0x80 \<le> uint val
      then bind_res (mem_store m target [Some (ucast (val OR 0x80))]) (\<lambda>m.
           write_varint (drop_bit 7 val) m (target + 1))
      else bind_res (mem_store m target [Some (ucast val)]) (\<lambda>m. Inr (m, target + 1)))"
  by pat_completeness auto

termination
proof (relation "measure (\<lambda>(val, m, target). unat val)")
  fix val :: "'a::len word" and m target m'
  assume "0x80 \<le> uint val"
  then have "int 128 \<le> int (unat val)" by simp
  then have "128 \<le> unat val" by (rule of_nat_le_iff [THEN iffD1])
  then have "unat (drop_bit 7 val) < unat val" by (simp add: unat_drop_bit)
  then show "((drop_bit 7 val, m', target + 1), val, m, target) \<in> measure (\<lambda>(val, m, target). unat val)"
    by simp
qed simp

declare write_varint.simps [simp del]

definition WriteVarint32ToArray :: "32 word \<Rightarrow> mem \<Rightarrow> int \<Rightarrow> (mem \<times> int) res" where
  "WriteVarint32ToArray = write_varint"

definition WriteVarint64ToArray :: "64 word \<Rightarrow> mem \<Rightarrow> int \<Rightarrow> (mem \<times> int) res" where
  "WriteVarint64ToArray = write_varint"

definition WriteVarint32SignExtendedToArray :: "32 word \<Rightarrow> mem \<Rightarrow> int \<Rightarrow> (mem \<times> int) res" where
  "WriteVarint32SignExtendedToArray val m target = WriteVarint64ToArray (scast val) m target"

definition CodedOutputStream_WriteTagToArray :: "32 word \<Rightarrow> mem \<Rightarrow> int \<Rightarrow> (mem \<times> int) res" where
  "CodedOutputStream_WriteTagToArray val m target = WriteVarint32ToArray val m target"

definition WriteLittleEndian32ToArray :: "32 word \<Rightarrow> mem \<Rightarrow> int \<Rightarrow> (mem \<times> int) res" where
  "WriteLittleEndian32ToArray val m target =
     bind_res (mem_store m target [Some (ucast val), Some (ucast (drop_bit 8 val)),
       Some (ucast (drop_bit 16 val)), Some (ucast (drop_bit 24 val))]) (\<lambda>m. Inr (m, target + 4))"

definition WriteLittleEndian64ToArray :: "64 word \<Rightarrow> mem \<Rightarrow> int \<Rightarrow> (mem \<times> int) res" where
  "WriteLittleEndian64ToArray val m target =
     (let part0 = ucast val :: 32 word; part1 = ucast (drop_bit 32 val) :: 32 word
      in bind_res (mem_store m target [Some (ucast part0), Some (ucast (drop_bit 8 part0)),
           Some (ucast (drop_bit 16 part0)), Some (ucast (drop_bit 24 part0)),
           Some (ucast part1), Some (ucast (drop_bit 8 part1)),
           Some (ucast (drop_bit 16 part1)), Some (ucast (drop_bit 24 part1))]) (\<lambda>m. Inr (m, target + 8)))"

text \<open>\<open>size_t\<close> is unsigned and 64 bits wide.\<close>

definition size_t :: "nat \<Rightarrow> nat" where
  "size_t n = n mod 2 ^ 64"

definition VarintSize32 :: "32 word \<Rightarrow> nat" where
  "VarintSize32 val = unat ((Log2FloorNonZero (val OR 1) * 9 + 73) div 64)"

definition VarintSize64 :: "64 word \<Rightarrow> nat" where
  "VarintSize64 val = unat ((Log2FloorNonZero64 (val OR 1) * 9 + 73) div 64)"

definition VarintSize32SignExtended :: "32 word \<Rightarrow> nat" where
  "VarintSize32SignExtended val = (if sint val < 0 then 10 else VarintSize32 val)"

lemma emit_Nil: "0 \<le> p \<Longrightarrow> p \<le> int (length m) \<Longrightarrow> emit [] m p = Inr (m, p)"
  by (simp add: emit_def)

lemma emit_fits:
  "0 \<le> p \<Longrightarrow> p + int (length bs) \<le> int (length m) \<Longrightarrow>
   emit bs m p = Inr (poke m (nat p) (map Some bs), p + int (length bs))"
  by (simp add: emit_def)

lemma emit_overrun:
  "\<not> (0 \<le> p \<and> p + int (length bs) \<le> int (length m)) \<Longrightarrow> emit bs m p = Inl Out_of_bounds"
  by (auto simp: emit_def mem_store_def)

lemma poke_poke:
  "p + length as + length bs \<le> length m \<Longrightarrow>
   poke (poke m p as) (p + length as) bs = poke m p (as @ bs)"
  by (rule nth_equalityI) (auto simp: nth_poke nth_append)

lemma emit_append: "bind_res (emit as m p) (\<lambda>(m, p). emit bs m p) = emit (as @ bs) m p"
proof (cases "0 \<le> p \<and> p + int (length as) \<le> int (length m)")
  case True
  then have np: "nat (p + int (length as)) = nat p + length as" by (simp add: nat_add_distrib)
  have len: "length (poke m (nat p) (map Some as)) = length m"
  proof (rule length_poke)
    show "nat p + length (map Some as) \<le> length m" unfolding length_map using True by linarith
  qed
  show ?thesis
  proof (cases "p + int (length as) + int (length bs) \<le> int (length m)")
    case fits: True
    then have "nat p + length as + length bs \<le> length m" using True by linarith
    then have "poke (poke m (nat p) (map Some as)) (nat p + length as) (map Some bs) =
        poke m (nat p) (map Some as @ map Some bs)"
      using poke_poke [of "nat p" "map Some as" "map Some bs" m] by simp
    then show ?thesis
      using True fits len by (simp add: emit_fits np)
  next
    case False
    then have "emit bs (poke m (nat p) (map Some as)) (p + int (length as)) = Inl Out_of_bounds"
      using len by (simp add: emit_overrun)
    moreover have "emit (as @ bs) m p = Inl Out_of_bounds" using False by (simp add: emit_overrun)
    ultimately show ?thesis using True by (simp add: emit_fits)
  qed
next
  case False
  then have "emit as m p = Inl Out_of_bounds" by (rule emit_overrun)
  moreover have "emit (as @ bs) m p = Inl Out_of_bounds" using False by (intro emit_overrun) auto
  ultimately show ?thesis by simp
qed

lemma emit_Cons:
  "bind_res (mem_store m p [Some b]) (\<lambda>m. emit bs m (p + 1)) = emit (b # bs) m p"
proof -
  have "bind_res (mem_store m p [Some b]) (\<lambda>m. emit bs m (p + 1)) =
      bind_res (emit [b] m p) (\<lambda>(m, p). emit bs m p)"
    by (simp add: emit_def bind_res_assoc)
  then show ?thesis using emit_append [of "[b]" m p bs] by simp
qed

lemma or_128_mod_256: "(n OR 128) mod 256 = n mod 128 + (128 :: nat)"
proof -
  have "\<not> bit (take_bit 7 n) 7" by (simp add: bit_take_bit_iff)
  then have "set_bit 7 (take_bit 7 n) = take_bit 7 n + 128" by (simp add: set_bit_eq)
  moreover have "take_bit 7 n = n mod 128" by (simp add: take_bit_eq_mod)
  moreover have "(n OR 128) mod 256 = take_bit 8 (n OR 2 ^ 7)" by (simp add: take_bit_eq_mod)
  moreover have "take_bit 8 (n OR 2 ^ 7) = set_bit 7 (take_bit 7 n)"
  proof (rule bit_eqI)
    fix i
    have "bit (2 ^ 7 :: nat) i \<longleftrightarrow> i = 7" by (auto simp only: bit_exp_iff possible_bit_nat)
    then show "bit (take_bit 8 (n OR 2 ^ 7)) i \<longleftrightarrow> bit (set_bit 7 (take_bit 7 n)) i"
      by (auto simp: bit_take_bit_iff bit_or_iff bit_set_bit_iff simp del: power_numeral)
  qed
  ultimately show ?thesis by simp
qed

lemma ucast_byte: "(ucast (val :: 'a::len word) :: byte) = word_of_nat (unat val)"
  by (simp add: unsigned_ucast_eq)

lemma ucast_or_128:
  fixes val :: "'a::len word"
  assumes "128 \<le> unat val"
  shows "(ucast (val OR 0x80) :: byte) = word_of_nat (unat val mod 128 + 128)"
proof -
  have "unat val < 2 ^ LENGTH('a)" by (rule unsigned_less)
  with assms have "128 < (2 :: nat) ^ LENGTH('a)" by (rule le_less_trans)
  then have "(2 :: nat) ^ 7 < 2 ^ LENGTH('a)" by simp
  then have "7 < LENGTH('a)" by (rule power_less_imp_less_exp [rotated]) simp
  then have L: "8 \<le> LENGTH('a)" by simp
  then have "(2 :: nat) ^ 8 \<le> 2 ^ LENGTH('a)" by (rule power_increasing) simp
  then have u: "unat (0x80 :: 'a word) = 128"
    using take_bit_nat_eq_self [of 128 "LENGTH('a)"] by (simp add: unsigned_of_nat)
  have "unat (val OR 0x80) = unat val OR 128" unfolding unsigned_or_eq u by (rule refl)
  then have "take_bit 8 (unat (val OR 0x80)) = (unat val OR 128) mod 256"
    by (simp only: take_bit_eq_mod) simp
  also have "\<dots> = take_bit 8 (unat val mod 128 + 128)"
    unfolding or_128_mod_256 by (rule take_bit_nat_eq_self [symmetric]) simp
  finally show ?thesis
    unfolding ucast_byte word_of_nat_eq_iff by simp
qed

lemma word_of_nat_eqI: "unat w = k \<Longrightarrow> w = word_of_nat k"
  by auto

lemma write_varint_emit: "write_varint val m p = emit (varint (unat val)) m p"
proof (induction val m p rule: write_varint.induct)
  case (1 val m p)
  have u: "0x80 \<le> uint val \<longleftrightarrow> 128 \<le> unat val" using of_nat_le_iff [of 128 "unat val"] by simp
  show ?case
  proof (cases "128 \<le> unat val")
    case True
    have "write_varint val m p =
        bind_res (mem_store m p [Some (ucast (val OR 0x80))]) (\<lambda>m'.
        write_varint (drop_bit 7 val) m' (p + 1))"
      using True u by (simp add: write_varint.simps [of val])
    also have "\<dots> = bind_res (mem_store m p [Some (ucast (val OR 0x80))]) (\<lambda>m'.
        emit (varint (unat val div 128)) m' (p + 1))"
    proof (rule bind_res_cong [OF refl])
      fix m'
      assume "mem_store m p [Some (ucast (val OR 0x80))] = Inr m'"
      then show "write_varint (drop_bit 7 val) m' (p + 1) = emit (varint (unat val div 128)) m' (p + 1)"
        using "1.IH" [of m'] True u by (simp add: unat_drop_bit)
    qed
    also have "ucast (val OR 0x80) = (word_of_nat (unat val mod 128 + 128) :: byte)"
      using True by (rule ucast_or_128)
    also have "bind_res (mem_store m p [Some (word_of_nat (unat val mod 128 + 128))]) (\<lambda>m'.
        emit (varint (unat val div 128)) m' (p + 1)) =
        emit (word_of_nat (unat val mod 128 + 128) # varint (unat val div 128)) m p"
      by (rule emit_Cons)
    also have "word_of_nat (unat val mod 128 + 128) # varint (unat val div 128) = varint (unat val)"
      using True by (rule varint_large [symmetric])
    finally show ?thesis .
  next
    case False
    then have "write_varint val m p = bind_res (mem_store m p [Some (ucast val)]) (\<lambda>m. Inr (m, p + 1))"
      using u by (simp add: write_varint.simps [of val])
    also have "(ucast val :: byte) = word_of_nat (unat val)" by (rule ucast_byte)
    also have "bind_res (mem_store m p [Some (word_of_nat (unat val))]) (\<lambda>m. Inr (m, p + 1)) =
        emit [word_of_nat (unat val)] m p"
      unfolding emit_def list.map list.size by simp
    finally show ?thesis using False by simp
  qed
qed

lemma WriteVarint32ToArray_emit: "WriteVarint32ToArray val m p = emit (varint (unat val)) m p"
  by (simp add: WriteVarint32ToArray_def write_varint_emit)

lemma WriteVarint64ToArray_emit: "WriteVarint64ToArray val m p = emit (varint (unat val)) m p"
  by (simp add: WriteVarint64ToArray_def write_varint_emit)

lemma bit_length_or_1: "0 < n \<Longrightarrow> bit_length (n OR 1) = bit_length n"
proof -
  assume n: "0 < n"
  have "(n OR 1) div 2 = n div 2"
    using drop_bit_or [of 1 n 1] by (simp add: drop_bit_eq_div)
  moreover have "0 < n OR 1" by (rule odd_pos) (simp add: even_or_iff)
  ultimately show ?thesis using n by (simp add: bit_length_pos)
qed

text \<open>The multiplication and shift that stand for a division by 7.\<close>

lemma size_formula:
  "k < 64 \<Longrightarrow> unat (((word_of_nat k :: 32 word) * 9 + 73) div 64) = k div 7 + 1"
proof -
  have "\<forall>k\<in>{..<64}. unat (((word_of_nat k :: 32 word) * 9 + 73) div 64) = k div 7 + 1" by code_simp
  then show "k < 64 \<Longrightarrow> ?thesis" by blast
qed

lemma bit_length_or_1_varint:
  "(bit_length (n OR 1) - 1) div 7 + 1 = length (varint n)"
  by (cases "n = 0") (simp_all add: length_varint bit_length_or_1 bit_length_pos del: One_nat_def)

lemma VarintSize32_eq: "VarintSize32 val = length (varint (unat val))"
proof -
  have "val OR 1 \<noteq> 0" by (simp add: or_eq_0_iff)
  then have "unat (Log2FloorNonZero (val OR 1)) = bit_length (unat (val OR 1)) - 1"
    by (rule Log2FloorNonZero_eq)
  moreover have or1: "unat (val OR 1) = unat val OR 1" unfolding unsigned_or_eq unsigned_1 by (rule refl)
  ultimately have l: "Log2FloorNonZero (val OR 1) = word_of_nat (bit_length (unat val OR 1) - 1)"
    by (simp only: word_of_nat_eqI)
  have "bit_length (unat val OR 1) - 1 < 64"
    using bit_length_unat [of "val OR 1"] unfolding or1 by simp
  then show ?thesis
    unfolding VarintSize32_def l by (simp only: size_formula bit_length_or_1_varint)
qed

lemma VarintSize64_eq: "VarintSize64 val = length (varint (unat val))"
proof -
  have "val OR 1 \<noteq> 0" by (simp add: or_eq_0_iff)
  then have "unat (Log2FloorNonZero64 (val OR 1)) = bit_length (unat (val OR 1)) - 1"
    by (rule Log2FloorNonZero64_eq)
  moreover have or1: "unat (val OR 1) = unat val OR 1" unfolding unsigned_or_eq unsigned_1 by (rule refl)
  ultimately have l: "Log2FloorNonZero64 (val OR 1) = word_of_nat (bit_length (unat val OR 1) - 1)"
    by (simp only: word_of_nat_eqI)
  have "bit_length (unat val OR 1) - 1 < 64"
    using bit_length_unat [of "val OR 1"] unfolding or1 by simp
  then show ?thesis
    unfolding VarintSize64_def l by (simp only: size_formula bit_length_or_1_varint)
qed

text \<open>A 32-bit value takes at most 5 bytes, a 64-bit value at most 10.\<close>

lemma length_varint32: "length (varint (unat (val :: 32 word))) \<le> 5"
proof -
  have "unat val < 2 ^ LENGTH(32)" by (rule unsigned_less)
  then have "unat val < 2 ^ (7 * Suc 4)" by simp
  then show ?thesis using length_varint_le [of "unat val" 4] by simp
qed

lemma length_varint64: "length (varint (unat (val :: 64 word))) \<le> 10"
proof -
  have "unat val < 2 ^ LENGTH(64)" by (rule unsigned_less)
  then have "unat val < 2 ^ (7 * Suc 9)" by simp
  then show ?thesis using length_varint_le [of "unat val" 9] by simp
qed

lemma uint_sign_extend: "uint (scast val :: 64 word) = sint (val :: 32 word) mod 2 ^ 64"
  unfolding scast_eq uint_word_of_int by simp

lemma unat_sign_extend_nonneg: "0 \<le> sint val \<Longrightarrow> unat (scast (val :: 32 word) :: 64 word) = unat val"
proof -
  assume nn: "0 \<le> sint val"
  have lt: "sint val < 2 ^ 31" using sint_less [of val] by simp
  have "uint val = sint val mod 2 ^ 32" by (simp add: uint_sint take_bit_eq_mod)
  then have "uint val = sint val" using nn lt by simp
  moreover have "uint (scast val :: 64 word) = sint val" using nn lt by (simp add: uint_sign_extend)
  ultimately have "int (unat (scast val :: 64 word)) = int (unat val)" by simp
  then show ?thesis by (rule of_nat_eq_iff [THEN iffD1])
qed

lemma unat_sign_extend_neg: "sint val < 0 \<Longrightarrow> 2 ^ 63 \<le> unat (scast (val :: 32 word) :: 64 word)"
proof -
  assume neg: "sint val < 0"
  have ge: "- (2 ^ 31) \<le> sint val" using sint_greater_eq [of val] by simp
  have "sint val mod 2 ^ 64 = (sint val + 2 ^ 64) mod 2 ^ 64" by simp
  also have "\<dots> = sint val + 2 ^ 64" by (rule mod_pos_pos_trivial) (use neg ge in simp_all)
  finally have "2 ^ 63 \<le> uint (scast val :: 64 word)" using ge by (simp add: uint_sign_extend)
  then have "int (2 ^ 63) \<le> int (unat (scast val :: 64 word))" by simp
  then show ?thesis by (rule of_nat_le_iff [THEN iffD1])
qed

lemma VarintSize32SignExtended_eq:
  "VarintSize32SignExtended val = length (varint (unat (scast val :: 64 word)))"
proof (cases "sint val < 0")
  case True
  then have "\<not> unat (scast val :: 64 word) < 2 ^ 63" using unat_sign_extend_neg [of val] by linarith
  then have "63 < bit_length (unat (scast val :: 64 word))"
    by (simp only: bit_length_le_iff [symmetric] not_le)
  then have "10 \<le> length (varint (unat (scast val :: 64 word)))" by (simp add: length_varint)
  then show ?thesis using True length_varint64 [of "scast val"]
    by (simp add: VarintSize32SignExtended_def)
next
  case False
  then show ?thesis
    by (simp add: VarintSize32SignExtended_def VarintSize32_eq unat_sign_extend_nonneg)
qed

text \<open>A field that is written only when it is set.\<close>

lemma emit_optional:
  "0 \<le> p \<Longrightarrow> p \<le> int (length m) \<Longrightarrow>
   (if b then emit bs m p else Inr (m, p)) = emit (if b then bs else []) m p"
  by (simp add: emit_Nil)

lemma emit_then_optional:
  "bind_res (emit as m p) (\<lambda>(m, p). if b then emit bs m p else Inr (m, p)) =
   emit (as @ (if b then bs else [])) m p"
proof (cases b)
  case True
  then show ?thesis using emit_append [of as m p bs] by simp
next
  case False
  then show ?thesis by (simp add: bind_res_def split: sum.split)
qed

end
