(* ===== verification/CodedStream.thy ===== *)
theory CodedStream
  imports Varint
begin

text \<open>
  The streams of \<open>io/coded_stream.h\<close> as far as they are inline.  The part of the runtime that lives in the compiled
  library is the argument \<open>R\<close> of type \<open>runtime\<close>; the locale \<open>flat_reads\<close> states what the proofs rely on and
  derives that the inline readers decode \<open>read_varint\<close>.
\<close>

section \<open>\<open>CodedInputStream\<close>\<close>

text \<open>
  \<open>cis_buffer\<close> is the unread part of the buffer, from \<open>buffer_\<close> to \<open>buffer_end_\<close>; \<open>cis_input\<close> is the
  underlying stream, \<open>None\<close> for a flat array.
\<close>

record 'i CodedInputStream =
  cis_buffer :: "byte list"
  cis_input :: "'i option"
  total_bytes_read :: int
  overflow_bytes :: int
  last_tag :: "32 word"
  legitimate_message_end :: bool
  aliasing_enabled :: bool
  current_limit :: int
  buffer_size_after_limit :: int
  total_bytes_limit :: int
  recursion_budget :: int
  recursion_limit :: int
  extension_pool :: "nat option"
  extension_factory :: "nat option"

text \<open>
  The compiled library: the out-of-line methods of the input stream, \<open>WireFormatLite\<close> and
  \<open>WireFormat\<close>, the operations of \<open>UnknownFieldSet\<close> (of type \<open>'u\<close>) and the writers of
  an output stream (of type \<open>'w\<close>).
\<close>

record ('i, 'u, 'w) runtime =
  rt_default_recursion_limit :: int
  rt_Refresh :: "'i CodedInputStream \<Rightarrow> 'i CodedInputStream"
  rt_ReadVarint32Fallback :: "'i CodedInputStream \<Rightarrow> 32 word \<Rightarrow> 'i CodedInputStream \<times> int"
  rt_ReadVarint64Fallback :: "'i CodedInputStream \<Rightarrow> 'i CodedInputStream \<times> 64 word \<times> bool"
  rt_ReadVarintSizeAsIntFallback :: "'i CodedInputStream \<Rightarrow> 'i CodedInputStream \<times> int"
  rt_ReadLittleEndian32Fallback :: "'i CodedInputStream \<Rightarrow> 'i CodedInputStream \<times> 32 word \<times> bool"
  rt_ReadLittleEndian64Fallback :: "'i CodedInputStream \<Rightarrow> 'i CodedInputStream \<times> 64 word \<times> bool"
  rt_ReadTagFallback :: "'i CodedInputStream \<Rightarrow> 32 word \<Rightarrow> 'i CodedInputStream \<times> 32 word"
  rt_SkipFallback :: "'i CodedInputStream \<Rightarrow> int \<Rightarrow> int \<Rightarrow> 'i CodedInputStream \<times> bool"
  rt_ReadBytes :: "'i CodedInputStream \<Rightarrow> byte list \<Rightarrow> 'i CodedInputStream \<times> byte list \<times> bool"
  rt_VerifyUtf8String :: "byte list \<Rightarrow> bool"
  rt_SkipField :: "'i CodedInputStream \<Rightarrow> 32 word \<Rightarrow> 'u \<Rightarrow> 'i CodedInputStream \<times> 'u \<times> bool"
  rt_unknown_new :: 'u
  rt_unknown_merge :: "'u \<Rightarrow> 'u \<Rightarrow> 'u"
  rt_unknown_clear :: "'u \<Rightarrow> 'u"
  rt_unknown_bytes :: "'u \<Rightarrow> byte list"
  rt_unknown_size :: "'u \<Rightarrow> nat"
  rt_WriteStringWithSizeToArray :: "byte list \<Rightarrow> mem \<Rightarrow> int \<Rightarrow> (mem \<times> int) res"
  rt_WriteInt32 :: "int \<Rightarrow> 32 word \<Rightarrow> 'w \<Rightarrow> 'w"
  rt_WriteInt64 :: "int \<Rightarrow> 64 word \<Rightarrow> 'w \<Rightarrow> 'w"
  rt_WriteStringMaybeAliased :: "int \<Rightarrow> byte list \<Rightarrow> 'w \<Rightarrow> 'w"
  rt_SerializeUnknownFields :: "'u \<Rightarrow> 'w \<Rightarrow> 'w"
  rt_WriteVarint32SlowPath :: "32 word \<Rightarrow> 'w \<Rightarrow> 'w"
  rt_WriteVarint64SlowPath :: "64 word \<Rightarrow> 'w \<Rightarrow> 'w"
  rt_WriteRaw :: "byte list \<Rightarrow> 'w \<Rightarrow> 'w"
  rt_WriteAliasedRaw :: "byte list \<Rightarrow> 'w \<Rightarrow> 'w"

definition CodedInputStream_Advance :: "'i CodedInputStream \<Rightarrow> int \<Rightarrow> 'i CodedInputStream" where
  "CodedInputStream_Advance s amount = s\<lparr>cis_buffer := drop (nat amount) (cis_buffer s)\<rparr>"

definition BufferSize :: "'i CodedInputStream \<Rightarrow> int" where
  "BufferSize s = int (length (cis_buffer s))"

definition new_CodedInputStream :: "('i, 'u, 'w) runtime \<Rightarrow> 'i \<Rightarrow> 'i CodedInputStream" where
  "new_CodedInputStream R inp =
     rt_Refresh R \<lparr>cis_buffer = [], cis_input = Some inp, total_bytes_read = 0, overflow_bytes = 0,
       last_tag = 0, legitimate_message_end = False, aliasing_enabled = False,
       current_limit = 2147483647, buffer_size_after_limit = 0, total_bytes_limit = 2147483647,
       recursion_budget = rt_default_recursion_limit R, recursion_limit = rt_default_recursion_limit R,
       extension_pool = None, extension_factory = None\<rparr>"

definition new_CodedInputStream_flat :: "('i, 'u, 'w) runtime \<Rightarrow> byte list \<Rightarrow> 'i CodedInputStream" where
  "new_CodedInputStream_flat R bs =
     \<lparr>cis_buffer = bs, cis_input = None, total_bytes_read = int (length bs), overflow_bytes = 0,
      last_tag = 0, legitimate_message_end = False, aliasing_enabled = False,
      current_limit = int (length bs), buffer_size_after_limit = 0, total_bytes_limit = 2147483647,
      recursion_budget = rt_default_recursion_limit R, recursion_limit = rt_default_recursion_limit R,
      extension_pool = None, extension_factory = None\<rparr>"

definition IsFlat :: "'i CodedInputStream \<Rightarrow> bool" where
  "IsFlat s \<longleftrightarrow> cis_input s = None"

definition Skip :: "('i, 'u, 'w) runtime \<Rightarrow> 'i CodedInputStream \<Rightarrow> int \<Rightarrow> 'i CodedInputStream \<times> bool" where
  "Skip R s count =
     (if count < 0 then (s, False)
      else let original_buffer_size = BufferSize s
           in if count \<le> original_buffer_size then (CodedInputStream_Advance s count, True)
              else rt_SkipFallback R s count original_buffer_size)"

text \<open>The value that \<open>ReadVarint32\<close> stores is a result, next to whether it succeeded.\<close>

definition ReadVarint32 :: "('i, 'u, 'w) runtime \<Rightarrow> 'i CodedInputStream \<Rightarrow>
    'i CodedInputStream \<times> 32 word \<times> bool" where
  "ReadVarint32 R s =
     (let slow = (\<lambda>v. case rt_ReadVarint32Fallback R s v of
                         (s, result) \<Rightarrow> (s, word_of_int result, 0 \<le> result))
      in case cis_buffer s of
           b # _ \<Rightarrow> if b < 0x80 then (CodedInputStream_Advance s 1, ucast b, True) else slow (ucast b)
         | [] \<Rightarrow> slow 0)"

definition ReadVarint64 :: "('i, 'u, 'w) runtime \<Rightarrow> 'i CodedInputStream \<Rightarrow>
    'i CodedInputStream \<times> 64 word \<times> bool" where
  "ReadVarint64 R s =
     (case cis_buffer s of
        b # _ \<Rightarrow> if b < 0x80 then (CodedInputStream_Advance s 1, ucast b, True)
                 else rt_ReadVarint64Fallback R s
      | [] \<Rightarrow> rt_ReadVarint64Fallback R s)"

definition ReadVarintSizeAsInt :: "('i, 'u, 'w) runtime \<Rightarrow> 'i CodedInputStream \<Rightarrow>
    'i CodedInputStream \<times> int \<times> bool" where
  "ReadVarintSizeAsInt R s =
     (let slow = (case rt_ReadVarintSizeAsIntFallback R s of (s, val) \<Rightarrow> (s, val, 0 \<le> val))
      in case cis_buffer s of
           b # _ \<Rightarrow> if b < 0x80 then (CodedInputStream_Advance s 1, uint b, True) else slow
         | [] \<Rightarrow> slow)"

text \<open>The portable bodies; on a little-endian host the source copies the same bytes with \<open>memcpy\<close>.\<close>

definition ReadLittleEndian32FromArray :: "byte list \<Rightarrow> (byte list \<times> 32 word) res" where
  "ReadLittleEndian32FromArray bs =
     (case bs of
        b0 # b1 # b2 # b3 # r \<Rightarrow>
          Inr (r, ucast b0 OR push_bit 8 (ucast b1) OR push_bit 16 (ucast b2) OR push_bit 24 (ucast b3))
      | _ \<Rightarrow> Inl Out_of_bounds)"

definition ReadLittleEndian64FromArray :: "byte list \<Rightarrow> (byte list \<times> 64 word) res" where
  "ReadLittleEndian64FromArray bs =
     (case bs of
        b0 # b1 # b2 # b3 # b4 # b5 # b6 # b7 # r \<Rightarrow>
          let part0 = ucast b0 OR push_bit 8 (ucast b1) OR push_bit 16 (ucast b2) OR push_bit 24 (ucast b3) :: 32 word;
              part1 = ucast b4 OR push_bit 8 (ucast b5) OR push_bit 16 (ucast b6) OR push_bit 24 (ucast b7) :: 32 word
          in Inr (r, ucast part0 OR push_bit 32 (ucast part1))
      | _ \<Rightarrow> Inl Out_of_bounds)"

definition ReadLittleEndian32 :: "('i, 'u, 'w) runtime \<Rightarrow> 'i CodedInputStream \<Rightarrow>
    ('i CodedInputStream \<times> 32 word \<times> bool) res" where
  "ReadLittleEndian32 R s =
     (if 4 \<le> BufferSize s
      then bind_res (ReadLittleEndian32FromArray (cis_buffer s)) (\<lambda>(r, val). Inr (s\<lparr>cis_buffer := r\<rparr>, val, True))
      else Inr (rt_ReadLittleEndian32Fallback R s))"

definition ReadLittleEndian64 :: "('i, 'u, 'w) runtime \<Rightarrow> 'i CodedInputStream \<Rightarrow>
    ('i CodedInputStream \<times> 64 word \<times> bool) res" where
  "ReadLittleEndian64 R s =
     (if 8 \<le> BufferSize s
      then bind_res (ReadLittleEndian64FromArray (cis_buffer s)) (\<lambda>(r, val). Inr (s\<lparr>cis_buffer := r\<rparr>, val, True))
      else Inr (rt_ReadLittleEndian64Fallback R s))"

definition ReadTagNoLastTag :: "('i, 'u, 'w) runtime \<Rightarrow> 'i CodedInputStream \<Rightarrow>
    'i CodedInputStream \<times> 32 word" where
  "ReadTagNoLastTag R s =
     (case cis_buffer s of
        b # _ \<Rightarrow> if b < 0x80 then (CodedInputStream_Advance s 1, ucast b)
                 else rt_ReadTagFallback R s (ucast b)
      | [] \<Rightarrow> rt_ReadTagFallback R s 0)"

definition ReadTag :: "('i, 'u, 'w) runtime \<Rightarrow> 'i CodedInputStream \<Rightarrow> 'i CodedInputStream \<times> 32 word" where
  "ReadTag R s = (case ReadTagNoLastTag R s of (s, t) \<Rightarrow> (s\<lparr>last_tag := t\<rparr>, t))"

definition ReadTagWithCutoffNoLastTag :: "('i, 'u, 'w) runtime \<Rightarrow> 'i CodedInputStream \<Rightarrow> 32 word \<Rightarrow>
    'i CodedInputStream \<times> 32 word \<times> bool" where
  "ReadTagWithCutoffNoLastTag R s cutoff =
     (let slow = (\<lambda>first_byte_or_zero. case rt_ReadTagFallback R s first_byte_or_zero of
                    (s, tag) \<Rightarrow> (s, tag, tag - 1 < cutoff))
      in case cis_buffer s of
           [] \<Rightarrow> slow 0
         | b0 # r \<Rightarrow>
             if 0 < sint b0 then
               let tag = ucast b0 in (CodedInputStream_Advance s 1, tag, 0x7f \<le> cutoff \<or> tag \<le> cutoff)
             else (case r of
                     b1 # _ \<Rightarrow>
                       if 0x80 \<le> cutoff \<and> 0x80 \<le> (b0 AND NOT b1) then
                         let tag = 128 * ucast b1 + (ucast b0 - 0x80)
                         in (CodedInputStream_Advance s 2, tag, 0x3fff \<le> cutoff \<or> tag \<le> cutoff)
                       else slow (ucast b0)
                   | [] \<Rightarrow> slow (ucast b0)))"

definition ReadTagWithCutoff :: "('i, 'u, 'w) runtime \<Rightarrow> 'i CodedInputStream \<Rightarrow> 32 word \<Rightarrow>
    'i CodedInputStream \<times> 32 word \<times> bool" where
  "ReadTagWithCutoff R s cutoff =
     (case ReadTagWithCutoffNoLastTag R s cutoff of (s, t, ok) \<Rightarrow> (s\<lparr>last_tag := t\<rparr>, t, ok))"

definition LastTagWas :: "'i CodedInputStream \<Rightarrow> 32 word \<Rightarrow> bool" where
  "LastTagWas s expected \<longleftrightarrow> last_tag s = expected"

definition ConsumedEntireMessage :: "'i CodedInputStream \<Rightarrow> bool" where
  "ConsumedEntireMessage s = legitimate_message_end s"

definition ExpectTag :: "'i CodedInputStream \<Rightarrow> 32 word \<Rightarrow> 'i CodedInputStream \<times> bool" where
  "ExpectTag s expected =
     (if expected < 0x80 then
        (case cis_buffer s of
           b0 # _ \<Rightarrow> if ucast b0 = expected then (CodedInputStream_Advance s 1, True) else (s, False)
         | [] \<Rightarrow> (s, False))
      else if expected < 0x4000 then
        (case cis_buffer s of
           b0 # b1 # _ \<Rightarrow>
             if b0 = ucast (expected OR 0x80) \<and> b1 = ucast (drop_bit 7 expected)
             then (CodedInputStream_Advance s 2, True) else (s, False)
         | _ \<Rightarrow> (s, False))
      else (s, False))"

text \<open>\<open>ExpectTagFromArray\<close> reads without a bound; \<open>None\<close> inside is its \<open>NULL\<close>.\<close>

definition ExpectTagFromArray :: "byte list \<Rightarrow> 32 word \<Rightarrow> byte list option res" where
  "ExpectTagFromArray bs expected =
     (if expected < 0x80 then
        (case bs of b0 # r \<Rightarrow> Inr (if ucast b0 = expected then Some r else None) | [] \<Rightarrow> Inl Out_of_bounds)
      else if expected < 0x4000 then
        (case bs of
           [] \<Rightarrow> Inl Out_of_bounds
         | b0 # r \<Rightarrow>
             if b0 = ucast (expected OR 0x80) then
               (case r of
                  b1 # r \<Rightarrow> Inr (if b1 = ucast (drop_bit 7 expected) then Some r else None)
                | [] \<Rightarrow> Inl Out_of_bounds)
             else Inr None)
      else Inr None)"

definition ExpectAtEnd :: "'i CodedInputStream \<Rightarrow> 'i CodedInputStream \<times> bool" where
  "ExpectAtEnd s =
     (if cis_buffer s = [] \<and> (buffer_size_after_limit s \<noteq> 0 \<or> total_bytes_read s = current_limit s)
      then (s\<lparr>last_tag := 0, legitimate_message_end := True\<rparr>, True)
      else (s, False))"

definition CurrentPosition :: "'i CodedInputStream \<Rightarrow> int res" where
  "CurrentPosition s =
     bind_res (i32 (BufferSize s + buffer_size_after_limit s)) (\<lambda>n. i32 (total_bytes_read s - n))"

definition SetRecursionLimit :: "'i CodedInputStream \<Rightarrow> int \<Rightarrow> 'i CodedInputStream res" where
  "SetRecursionLimit s limit =
     bind_res (i32 (limit - recursion_limit s)) (\<lambda>d.
     bind_res (i32 (recursion_budget s + d)) (\<lambda>b.
     Inr (s\<lparr>recursion_budget := b, recursion_limit := limit\<rparr>)))"

definition IncrementRecursionDepth :: "'i CodedInputStream \<Rightarrow> ('i CodedInputStream \<times> bool) res" where
  "IncrementRecursionDepth s =
     bind_res (i32 (recursion_budget s - 1)) (\<lambda>b. Inr (s\<lparr>recursion_budget := b\<rparr>, 0 \<le> b))"

definition DecrementRecursionDepth :: "'i CodedInputStream \<Rightarrow> 'i CodedInputStream" where
  "DecrementRecursionDepth s =
     (if recursion_budget s < recursion_limit s then s\<lparr>recursion_budget := recursion_budget s + 1\<rparr> else s)"

definition SetExtensionRegistry :: "'i CodedInputStream \<Rightarrow> nat option \<Rightarrow> nat option \<Rightarrow> 'i CodedInputStream" where
  "SetExtensionRegistry s p f = s\<lparr>extension_pool := p, extension_factory := f\<rparr>"

section \<open>\<open>CodedOutputStream\<close>\<close>

text \<open>
  The stream owns a block \<open>cos_block\<close>; \<open>cos_pos\<close> is the offset \<open>buffer_\<close> points to and \<open>cos_size\<close> the
  number of bytes left behind it.  The underlying stream, reached only by out-of-line methods, is \<open>cos_output\<close>.
\<close>

record 'w CodedOutputStream =
  cos_output :: 'w
  cos_block :: mem
  cos_pos :: int
  cos_size :: int
  cos_total_bytes :: int
  cos_aliasing :: bool

definition CodedOutputStream_Advance :: "'w CodedOutputStream \<Rightarrow> int \<Rightarrow> 'w CodedOutputStream" where
  "CodedOutputStream_Advance o1 amount = o1\<lparr>cos_pos := cos_pos o1 + amount, cos_size := cos_size o1 - amount\<rparr>"

definition GetDirectBufferForNBytesAndAdvance :: "'w CodedOutputStream \<Rightarrow> int \<Rightarrow>
    'w CodedOutputStream \<times> int option" where
  "GetDirectBufferForNBytesAndAdvance o1 n =
     (if cos_size o1 < n then (o1, None) else (CodedOutputStream_Advance o1 n, Some (cos_pos o1)))"

definition WriteVarint32 :: "('i, 'u, 'w CodedOutputStream) runtime \<Rightarrow> 'w CodedOutputStream \<Rightarrow> 32 word \<Rightarrow>
    'w CodedOutputStream res" where
  "WriteVarint32 R o1 val =
     (if 5 \<le> cos_size o1 then
        bind_res (WriteVarint32ToArray val (cos_block o1) (cos_pos o1)) (\<lambda>(m, e).
        Inr (CodedOutputStream_Advance (o1\<lparr>cos_block := m\<rparr>) (e - cos_pos o1)))
      else Inr (rt_WriteVarint32SlowPath R val o1))"

definition WriteVarint64 :: "('i, 'u, 'w CodedOutputStream) runtime \<Rightarrow> 'w CodedOutputStream \<Rightarrow> 64 word \<Rightarrow>
    'w CodedOutputStream res" where
  "WriteVarint64 R o1 val =
     (if 10 \<le> cos_size o1 then
        bind_res (WriteVarint64ToArray val (cos_block o1) (cos_pos o1)) (\<lambda>(m, e).
        Inr (CodedOutputStream_Advance (o1\<lparr>cos_block := m\<rparr>) (e - cos_pos o1)))
      else Inr (rt_WriteVarint64SlowPath R val o1))"

definition WriteVarint32SignExtended :: "('i, 'u, 'w CodedOutputStream) runtime \<Rightarrow> 'w CodedOutputStream \<Rightarrow>
    32 word \<Rightarrow> 'w CodedOutputStream res" where
  "WriteVarint32SignExtended R o1 val = WriteVarint64 R o1 (scast val)"

definition CodedOutputStream_WriteTag :: "('i, 'u, 'w CodedOutputStream) runtime \<Rightarrow> 'w CodedOutputStream \<Rightarrow>
    32 word \<Rightarrow> 'w CodedOutputStream res" where
  "CodedOutputStream_WriteTag R o1 val = WriteVarint32 R o1 val"

definition WriteString :: "('i, 'u, 'w CodedOutputStream) runtime \<Rightarrow> 'w CodedOutputStream \<Rightarrow> byte list \<Rightarrow>
    'w CodedOutputStream" where
  "WriteString R o1 str = rt_WriteRaw R str o1"

definition WriteRawMaybeAliased :: "('i, 'u, 'w CodedOutputStream) runtime \<Rightarrow> 'w CodedOutputStream \<Rightarrow> byte list \<Rightarrow>
    'w CodedOutputStream" where
  "WriteRawMaybeAliased R o1 bs = (if cos_aliasing o1 then rt_WriteAliasedRaw R bs o1 else rt_WriteRaw R bs o1)"

definition ByteCount :: "'w CodedOutputStream \<Rightarrow> int res" where
  "ByteCount o1 = i32 (cos_total_bytes o1 - cos_size o1)"

text \<open>The rest of the block is at least as long as \<open>cos_size\<close> says.\<close>

definition cos_ok :: "'w CodedOutputStream \<Rightarrow> bool" where
  "cos_ok o1 \<longleftrightarrow> 0 \<le> cos_pos o1 \<and> 0 \<le> cos_size o1 \<and> cos_pos o1 + cos_size o1 \<le> int (length (cos_block o1))"

text \<open>The fast path: five, or ten, bytes are enough for every value.\<close>

lemma WriteVarint32_fast:
  assumes "cos_ok o1" and "5 \<le> cos_size o1"
  shows "WriteVarint32 R o1 val =
      Inr (CodedOutputStream_Advance
        (o1\<lparr>cos_block := poke (cos_block o1) (nat (cos_pos o1)) (map Some (varint (unat val)))\<rparr>)
        (int (length (varint (unat val)))))"
proof -
  have "cos_pos o1 + int (length (varint (unat val))) \<le> int (length (cos_block o1))"
    using assms length_varint32 [of val] unfolding cos_ok_def by linarith
  then show ?thesis
    using assms by (simp add: WriteVarint32_def WriteVarint32ToArray_emit emit_fits cos_ok_def)
qed

lemma WriteVarint64_fast:
  assumes "cos_ok o1" and "10 \<le> cos_size o1"
  shows "WriteVarint64 R o1 val =
      Inr (CodedOutputStream_Advance
        (o1\<lparr>cos_block := poke (cos_block o1) (nat (cos_pos o1)) (map Some (varint (unat val)))\<rparr>)
        (int (length (varint (unat val)))))"
proof -
  have "cos_pos o1 + int (length (varint (unat val))) \<le> int (length (cos_block o1))"
    using assms length_varint64 [of val] unfolding cos_ok_def by linarith
  then show ?thesis
    using assms by (simp add: WriteVarint64_def WriteVarint64ToArray_emit emit_fits cos_ok_def)
qed

section \<open>What the compiled readers do on a flat stream\<close>

text \<open>
  The documented behaviour (the comments of \<open>io/coded_stream.h\<close> and \<open>wire_format_lite.h\<close>): a varint of up to
  ten bytes is read and cut to the width, a tag of up to five bytes is read, the tag at the end of the stream is
  0 and marks a legitimate end, \<open>ReadBytes\<close> reads a length and as many bytes.
\<close>

definition first_byte :: "'i CodedInputStream \<Rightarrow> 32 word" where
  "first_byte s = (case cis_buffer s of [] \<Rightarrow> 0 | b # _ \<Rightarrow> ucast b)"

locale flat_reads =
  fixes R :: "('i, 'u, 'w) runtime"
  assumes varint32: "IsFlat s \<Longrightarrow> read_varint 10 (cis_buffer s) = Some (v, r) \<Longrightarrow>
      rt_ReadVarint32Fallback R s (first_byte s) = (s\<lparr>cis_buffer := r\<rparr>, int (v mod 2 ^ 32))"
    and varint64: "IsFlat s \<Longrightarrow> read_varint 10 (cis_buffer s) = Some (v, r) \<Longrightarrow>
      rt_ReadVarint64Fallback R s = (s\<lparr>cis_buffer := r\<rparr>, word_of_nat v, True)"
    and tag: "IsFlat s \<Longrightarrow> read_varint 5 (cis_buffer s) = Some (v, r) \<Longrightarrow>
      rt_ReadTagFallback R s (first_byte s) = (s\<lparr>cis_buffer := r\<rparr>, word_of_nat v)"
    and tag_end: "IsFlat s \<Longrightarrow> cis_buffer s = [] \<Longrightarrow> current_limit s = total_bytes_read s \<Longrightarrow>
      rt_ReadTagFallback R s 0 = (s\<lparr>legitimate_message_end := True\<rparr>, 0)"
    and read_bytes: "IsFlat s \<Longrightarrow> read_varint 10 (cis_buffer s) = Some (n, r) \<Longrightarrow> n \<le> length r \<Longrightarrow> n < 2 ^ 31 \<Longrightarrow>
      rt_ReadBytes R s v0 = (s\<lparr>cis_buffer := drop n r\<rparr>, take n r, True)"
begin

lemma ReadVarint32_eq:
  assumes "IsFlat s" and "read_varint 10 (cis_buffer s) = Some (v, r)"
  shows "ReadVarint32 R s = (s\<lparr>cis_buffer := r\<rparr>, word_of_nat v, True)"
proof (cases "cis_buffer s")
  case Nil
  then show ?thesis using assms(2) by (simp add: numeral_eq_Suc)
next
  case (Cons b bs)
  have slow: "rt_ReadVarint32Fallback R s (ucast b) = (s\<lparr>cis_buffer := r\<rparr>, int (v mod 2 ^ 32))"
    using varint32 [OF assms] Cons by (simp add: first_byte_def)
  have w: "word_of_nat (v mod 2 ^ 32) = (word_of_nat v :: 32 word)"
    unfolding word_of_nat_eq_iff by (simp add: take_bit_eq_mod)
  show ?thesis
  proof (cases "b < 0x80")
    case True
    then have "unat b < 128" by (simp add: word_less_nat_alt)
    then have "v = unat b" "r = bs" using assms(2) Cons by (simp_all add: numeral_eq_Suc)
    then show ?thesis using True Cons
      by (simp add: ReadVarint32_def CodedInputStream_Advance_def)
  next
    case False
    then show ?thesis using Cons slow w by (simp add: ReadVarint32_def)
  qed
qed

lemma ReadVarint64_eq:
  assumes "IsFlat s" and "read_varint 10 (cis_buffer s) = Some (v, r)"
  shows "ReadVarint64 R s = (s\<lparr>cis_buffer := r\<rparr>, word_of_nat v, True)"
proof (cases "cis_buffer s")
  case Nil
  then show ?thesis using assms(2) by (simp add: numeral_eq_Suc)
next
  case (Cons b bs)
  show ?thesis
  proof (cases "b < 0x80")
    case True
    then have "unat b < 128" by (simp add: word_less_nat_alt)
    then have "v = unat b" "r = bs" using assms(2) Cons by (simp_all add: numeral_eq_Suc)
    then show ?thesis using True Cons
      by (simp add: ReadVarint64_def CodedInputStream_Advance_def)
  next
    case False
    then show ?thesis using Cons varint64 [OF assms] by (simp add: ReadVarint64_def)
  qed
qed

lemma ReadTag_byte:
  assumes "cis_buffer s = b # bs" and "0 < sint b"
  shows "ReadTagWithCutoffNoLastTag R s 127 = (s\<lparr>cis_buffer := bs\<rparr>, ucast b, True)"
  using assms by (simp add: ReadTagWithCutoffNoLastTag_def CodedInputStream_Advance_def)

lemma ReadTag_end:
  assumes "IsFlat s" and "cis_buffer s = []" and "current_limit s = total_bytes_read s"
  shows "ReadTagWithCutoffNoLastTag R s 127 = (s\<lparr>legitimate_message_end := True\<rparr>, 0, False)"
  using assms by (simp add: ReadTagWithCutoffNoLastTag_def tag_end)

lemma ReadTagNoLastTag_eq:
  assumes "IsFlat s" and "read_varint 5 (cis_buffer s) = Some (v, r)"
  shows "ReadTagNoLastTag R s = (s\<lparr>cis_buffer := r\<rparr>, word_of_nat v)"
proof (cases "cis_buffer s")
  case Nil
  then show ?thesis using assms(2) by (simp add: numeral_eq_Suc)
next
  case (Cons b bs)
  show ?thesis
  proof (cases "b < 0x80")
    case True
    then have "unat b < 128" by (simp add: word_less_nat_alt)
    then have "v = unat b" "r = bs" using assms(2) Cons by (simp_all add: numeral_eq_Suc)
    then show ?thesis using True Cons
      by (simp add: ReadTagNoLastTag_def CodedInputStream_Advance_def)
  next
    case False
    then show ?thesis using Cons tag [OF assms] by (simp add: ReadTagNoLastTag_def first_byte_def)
  qed
qed

end

section \<open>A runtime that meets the hypotheses\<close>

text \<open>Unknown fields are kept as their bytes, an output stream is the list of the bytes written.\<close>

definition sim_skip :: "'i CodedInputStream \<Rightarrow> 32 word \<Rightarrow> byte list \<Rightarrow> 'i CodedInputStream \<times> byte list \<times> bool" where
  "sim_skip s tag u =
     (let bs = cis_buffer s;
          keep = (\<lambda>n. if n \<le> length bs
                  then (s\<lparr>cis_buffer := drop n bs\<rparr>, u @ varint (unat tag) @ take n bs, True) else (s, u, False))
      in case unat tag mod 8 of
           0 \<Rightarrow> (case read_varint 10 bs of Some (v, r) \<Rightarrow> keep (length bs - length r) | None \<Rightarrow> (s, u, False))
         | Suc 0 \<Rightarrow> keep 8
         | n \<Rightarrow> if n = 5 then keep 4
              else if n = 2 then
                (case read_varint 10 bs of
                   Some (v, r) \<Rightarrow> if v \<le> length r then keep (length bs - length r + v) else (s, u, False)
                 | None \<Rightarrow> (s, u, False))
              else (s, u, False))"

definition sim_runtime :: "('i, byte list, byte list) runtime" where
  "sim_runtime =
     \<lparr>rt_default_recursion_limit = 100,
      rt_Refresh = id,
      rt_ReadVarint32Fallback = (\<lambda>s f. case read_varint 10 (cis_buffer s) of
        Some (v, r) \<Rightarrow> (s\<lparr>cis_buffer := r\<rparr>, int (v mod 2 ^ 32)) | None \<Rightarrow> (s, - 1)),
      rt_ReadVarint64Fallback = (\<lambda>s. case read_varint 10 (cis_buffer s) of
        Some (v, r) \<Rightarrow> (s\<lparr>cis_buffer := r\<rparr>, word_of_nat v, True) | None \<Rightarrow> (s, 0, False)),
      rt_ReadVarintSizeAsIntFallback = (\<lambda>s. case read_varint 10 (cis_buffer s) of
        Some (v, r) \<Rightarrow> if v < 2 ^ 31 then (s\<lparr>cis_buffer := r\<rparr>, int v) else (s, - 1) | None \<Rightarrow> (s, - 1)),
      rt_ReadLittleEndian32Fallback = (\<lambda>s. (s, 0, False)),
      rt_ReadLittleEndian64Fallback = (\<lambda>s. (s, 0, False)),
      rt_ReadTagFallback = (\<lambda>s f. case read_varint 5 (cis_buffer s) of
        Some (v, r) \<Rightarrow> (s\<lparr>cis_buffer := r\<rparr>, word_of_nat v)
      | None \<Rightarrow> if cis_buffer s = [] \<and> current_limit s = total_bytes_read s
                then (s\<lparr>legitimate_message_end := True\<rparr>, 0) else (s, 0)),
      rt_SkipFallback = (\<lambda>s n k. (s\<lparr>cis_buffer := []\<rparr>, False)),
      rt_ReadBytes = (\<lambda>s v0. case read_varint 10 (cis_buffer s) of
        Some (n, r) \<Rightarrow> if n \<le> length r \<and> n < 2 ^ 31 then (s\<lparr>cis_buffer := drop n r\<rparr>, take n r, True)
                       else (s, v0, False)
      | None \<Rightarrow> (s, v0, False)),
      rt_VerifyUtf8String = list_all (\<lambda>b. b < 0x80),
      rt_SkipField = sim_skip,
      rt_unknown_new = [],
      rt_unknown_merge = (@),
      rt_unknown_clear = (\<lambda>_. []),
      rt_unknown_bytes = id,
      rt_unknown_size = length,
      rt_WriteStringWithSizeToArray = (\<lambda>str m p. emit (varint (length str) @ str) m p),
      rt_WriteInt32 = (\<lambda>f v w. w @ varint (unat (push_bit 3 (word_of_int f) OR 0 :: 32 word)) @
        varint (unat (scast v :: 64 word))),
      rt_WriteInt64 = (\<lambda>f v w. w @ varint (unat (push_bit 3 (word_of_int f) OR 0 :: 32 word)) @ varint (unat v)),
      rt_WriteStringMaybeAliased = (\<lambda>f str w. w @ varint (unat (push_bit 3 (word_of_int f) OR 2 :: 32 word)) @
        varint (length str) @ str),
      rt_SerializeUnknownFields = (\<lambda>u w. w @ u),
      rt_WriteVarint32SlowPath = (\<lambda>v w. w @ varint (unat v)),
      rt_WriteVarint64SlowPath = (\<lambda>v w. w @ varint (unat v)),
      rt_WriteRaw = (\<lambda>bs w. w @ bs),
      rt_WriteAliasedRaw = (\<lambda>bs w. w @ bs)\<rparr>"

interpretation sim_reads: flat_reads sim_runtime
  by unfold_locales (simp_all add: sim_runtime_def)

end
