(* ===== verification/WireFormat.thy ===== *)
theory WireFormat
  imports CodedStream
begin

text \<open>
  The inline part of \<open>wire_format_lite.h\<close> and \<open>wire_format_lite_inl.h\<close>: tags, the ZigZag transform, the reader of
  each primitive field type, the array writers and the sizes.  Values of a C++ type of width \<open>w\<close> are words of that
  width, signed where the source type is.  \<open>float\<close> and \<open>double\<close> fields are left out: no message has one.
\<close>

section \<open>Tags\<close>

datatype WireType =
    WIRETYPE_VARINT
  | WIRETYPE_FIXED64
  | WIRETYPE_LENGTH_DELIMITED
  | WIRETYPE_START_GROUP
  | WIRETYPE_END_GROUP
  | WIRETYPE_FIXED32

fun WireType_value :: "WireType \<Rightarrow> 32 word" where
  "WireType_value WIRETYPE_VARINT = 0"
| "WireType_value WIRETYPE_FIXED64 = 1"
| "WireType_value WIRETYPE_LENGTH_DELIMITED = 2"
| "WireType_value WIRETYPE_START_GROUP = 3"
| "WireType_value WIRETYPE_END_GROUP = 4"
| "WireType_value WIRETYPE_FIXED32 = 5"

datatype FieldType =
    TYPE_DOUBLE | TYPE_FLOAT | TYPE_INT64 | TYPE_UINT64 | TYPE_INT32 | TYPE_FIXED64 | TYPE_FIXED32
  | TYPE_BOOL | TYPE_STRING | TYPE_GROUP | TYPE_MESSAGE | TYPE_BYTES | TYPE_UINT32 | TYPE_ENUM
  | TYPE_SFIXED32 | TYPE_SFIXED64 | TYPE_SINT32 | TYPE_SINT64

definition kTagTypeBits :: nat where
  "kTagTypeBits = 3"

definition kTagTypeMask :: "32 word" where
  "kTagTypeMask = push_bit kTagTypeBits 1 - 1"

definition MakeTag :: "32 word \<Rightarrow> WireType \<Rightarrow> 32 word" where
  "MakeTag field_number ty = push_bit 3 field_number OR WireType_value ty"

text \<open>The cast to the enumeration keeps values that are no enumerator.\<close>

definition GetTagWireType :: "32 word \<Rightarrow> 32 word" where
  "GetTagWireType t = t AND kTagTypeMask"

definition GetTagFieldNumber :: "32 word \<Rightarrow> 32 word" where
  "GetTagFieldNumber t = drop_bit kTagTypeBits t"

definition TagSize :: "32 word \<Rightarrow> FieldType \<Rightarrow> nat" where
  "TagSize field_number ty =
     (let result = VarintSize32 (push_bit kTagTypeBits field_number)
      in if ty = TYPE_GROUP then result * 2 else result)"

section \<open>ZigZag\<close>

definition ZigZagEncode32 :: "32 word \<Rightarrow> 32 word" where
  "ZigZagEncode32 n = push_bit 1 n XOR signed_drop_bit 31 n"

definition ZigZagDecode32 :: "32 word \<Rightarrow> 32 word" where
  "ZigZagDecode32 n = drop_bit 1 n XOR (NOT (n AND 1) + 1)"

definition ZigZagEncode64 :: "64 word \<Rightarrow> 64 word" where
  "ZigZagEncode64 n = push_bit 1 n XOR signed_drop_bit 63 n"

definition ZigZagDecode64 :: "64 word \<Rightarrow> 64 word" where
  "ZigZagDecode64 n = drop_bit 1 n XOR (NOT (n AND 1) + 1)"

section \<open>Reading primitive fields\<close>

text \<open>The pointer that receives the value keeps its old value \<open>v0\<close> when the read fails.\<close>

definition ReadPrimitive_INT32 :: "('i, 'u, 'w) runtime \<Rightarrow> 'i CodedInputStream \<Rightarrow> 32 word \<Rightarrow>
    'i CodedInputStream \<times> 32 word \<times> bool" where
  "ReadPrimitive_INT32 R s v0 =
     (case ReadVarint32 R s of (s, temp, ok) \<Rightarrow> if \<not> ok then (s, v0, False) else (s, temp, True))"

definition ReadPrimitive_INT64 :: "('i, 'u, 'w) runtime \<Rightarrow> 'i CodedInputStream \<Rightarrow> 64 word \<Rightarrow>
    'i CodedInputStream \<times> 64 word \<times> bool" where
  "ReadPrimitive_INT64 R s v0 =
     (case ReadVarint64 R s of (s, temp, ok) \<Rightarrow> if \<not> ok then (s, v0, False) else (s, temp, True))"

definition ReadPrimitive_UINT32 :: "('i, 'u, 'w) runtime \<Rightarrow> 'i CodedInputStream \<Rightarrow> 32 word \<Rightarrow>
    'i CodedInputStream \<times> 32 word \<times> bool" where
  "ReadPrimitive_UINT32 R s v0 = ReadVarint32 R s"

definition ReadPrimitive_UINT64 :: "('i, 'u, 'w) runtime \<Rightarrow> 'i CodedInputStream \<Rightarrow> 64 word \<Rightarrow>
    'i CodedInputStream \<times> 64 word \<times> bool" where
  "ReadPrimitive_UINT64 R s v0 = ReadVarint64 R s"

definition ReadPrimitive_SINT32 :: "('i, 'u, 'w) runtime \<Rightarrow> 'i CodedInputStream \<Rightarrow> 32 word \<Rightarrow>
    'i CodedInputStream \<times> 32 word \<times> bool" where
  "ReadPrimitive_SINT32 R s v0 =
     (case ReadVarint32 R s of (s, temp, ok) \<Rightarrow>
        if \<not> ok then (s, v0, False) else (s, ZigZagDecode32 temp, True))"

definition ReadPrimitive_SINT64 :: "('i, 'u, 'w) runtime \<Rightarrow> 'i CodedInputStream \<Rightarrow> 64 word \<Rightarrow>
    'i CodedInputStream \<times> 64 word \<times> bool" where
  "ReadPrimitive_SINT64 R s v0 =
     (case ReadVarint64 R s of (s, temp, ok) \<Rightarrow>
        if \<not> ok then (s, v0, False) else (s, ZigZagDecode64 temp, True))"

definition ReadPrimitive_FIXED32 :: "('i, 'u, 'w) runtime \<Rightarrow> 'i CodedInputStream \<Rightarrow> 32 word \<Rightarrow>
    ('i CodedInputStream \<times> 32 word \<times> bool) res" where
  "ReadPrimitive_FIXED32 R s v0 = ReadLittleEndian32 R s"

definition ReadPrimitive_FIXED64 :: "('i, 'u, 'w) runtime \<Rightarrow> 'i CodedInputStream \<Rightarrow> 64 word \<Rightarrow>
    ('i CodedInputStream \<times> 64 word \<times> bool) res" where
  "ReadPrimitive_FIXED64 R s v0 = ReadLittleEndian64 R s"

definition ReadPrimitive_SFIXED32 :: "('i, 'u, 'w) runtime \<Rightarrow> 'i CodedInputStream \<Rightarrow> 32 word \<Rightarrow>
    ('i CodedInputStream \<times> 32 word \<times> bool) res" where
  "ReadPrimitive_SFIXED32 R s v0 =
     bind_res (ReadLittleEndian32 R s) (\<lambda>(s, temp, ok).
     Inr (if \<not> ok then (s, v0, False) else (s, temp, True)))"

definition ReadPrimitive_SFIXED64 :: "('i, 'u, 'w) runtime \<Rightarrow> 'i CodedInputStream \<Rightarrow> 64 word \<Rightarrow>
    ('i CodedInputStream \<times> 64 word \<times> bool) res" where
  "ReadPrimitive_SFIXED64 R s v0 =
     bind_res (ReadLittleEndian64 R s) (\<lambda>(s, temp, ok).
     Inr (if \<not> ok then (s, v0, False) else (s, temp, True)))"

definition ReadPrimitive_BOOL :: "('i, 'u, 'w) runtime \<Rightarrow> 'i CodedInputStream \<Rightarrow> bool \<Rightarrow>
    'i CodedInputStream \<times> bool \<times> bool" where
  "ReadPrimitive_BOOL R s v0 =
     (case ReadVarint64 R s of (s, temp, ok) \<Rightarrow> if \<not> ok then (s, v0, False) else (s, temp \<noteq> 0, True))"

definition ReadPrimitive_ENUM :: "('i, 'u, 'w) runtime \<Rightarrow> 'i CodedInputStream \<Rightarrow> 32 word \<Rightarrow>
    'i CodedInputStream \<times> 32 word \<times> bool" where
  "ReadPrimitive_ENUM R s v0 =
     (case ReadVarint32 R s of (s, temp, ok) \<Rightarrow> if \<not> ok then (s, v0, False) else (s, temp, True))"

definition ReadString :: "('i, 'u, 'w) runtime \<Rightarrow> 'i CodedInputStream \<Rightarrow> byte list \<Rightarrow>
    'i CodedInputStream \<times> byte list \<times> bool" where
  "ReadString R s v0 = rt_ReadBytes R s v0"

section \<open>Writing fields to an array\<close>

definition WriteTagToArray :: "32 word \<Rightarrow> WireType \<Rightarrow> mem \<Rightarrow> int \<Rightarrow> (mem \<times> int) res" where
  "WriteTagToArray field_number ty m target =
     CodedOutputStream_WriteTagToArray (MakeTag field_number ty) m target"

definition WriteInt32NoTagToArray :: "32 word \<Rightarrow> mem \<Rightarrow> int \<Rightarrow> (mem \<times> int) res" where
  "WriteInt32NoTagToArray v m target =
     WriteVarint32SignExtendedToArray v m target"

definition WriteInt64NoTagToArray :: "64 word \<Rightarrow> mem \<Rightarrow> int \<Rightarrow> (mem \<times> int) res" where
  "WriteInt64NoTagToArray v m target =
     WriteVarint64ToArray v m target"

definition WriteUInt32NoTagToArray :: "32 word \<Rightarrow> mem \<Rightarrow> int \<Rightarrow> (mem \<times> int) res" where
  "WriteUInt32NoTagToArray v m target =
     WriteVarint32ToArray v m target"

definition WriteUInt64NoTagToArray :: "64 word \<Rightarrow> mem \<Rightarrow> int \<Rightarrow> (mem \<times> int) res" where
  "WriteUInt64NoTagToArray v m target =
     WriteVarint64ToArray v m target"

definition WriteSInt32NoTagToArray :: "32 word \<Rightarrow> mem \<Rightarrow> int \<Rightarrow> (mem \<times> int) res" where
  "WriteSInt32NoTagToArray v m target =
     WriteVarint32ToArray (ZigZagEncode32 v) m target"

definition WriteSInt64NoTagToArray :: "64 word \<Rightarrow> mem \<Rightarrow> int \<Rightarrow> (mem \<times> int) res" where
  "WriteSInt64NoTagToArray v m target =
     WriteVarint64ToArray (ZigZagEncode64 v) m target"

definition WriteFixed32NoTagToArray :: "32 word \<Rightarrow> mem \<Rightarrow> int \<Rightarrow> (mem \<times> int) res" where
  "WriteFixed32NoTagToArray v m target =
     WriteLittleEndian32ToArray v m target"

definition WriteFixed64NoTagToArray :: "64 word \<Rightarrow> mem \<Rightarrow> int \<Rightarrow> (mem \<times> int) res" where
  "WriteFixed64NoTagToArray v m target =
     WriteLittleEndian64ToArray v m target"

definition WriteSFixed32NoTagToArray :: "32 word \<Rightarrow> mem \<Rightarrow> int \<Rightarrow> (mem \<times> int) res" where
  "WriteSFixed32NoTagToArray v m target =
     WriteLittleEndian32ToArray v m target"

definition WriteSFixed64NoTagToArray :: "64 word \<Rightarrow> mem \<Rightarrow> int \<Rightarrow> (mem \<times> int) res" where
  "WriteSFixed64NoTagToArray v m target =
     WriteLittleEndian64ToArray v m target"

definition WriteBoolNoTagToArray :: "bool \<Rightarrow> mem \<Rightarrow> int \<Rightarrow> (mem \<times> int) res" where
  "WriteBoolNoTagToArray v m target =
     WriteVarint32ToArray (if v then 1 else 0) m target"

definition WriteEnumNoTagToArray :: "32 word \<Rightarrow> mem \<Rightarrow> int \<Rightarrow> (mem \<times> int) res" where
  "WriteEnumNoTagToArray v m target =
     WriteVarint32SignExtendedToArray v m target"

definition WriteInt32ToArray :: "32 word \<Rightarrow> 32 word \<Rightarrow> mem \<Rightarrow> int \<Rightarrow> (mem \<times> int) res" where
  "WriteInt32ToArray field_number v m target =
     bind_res (WriteTagToArray field_number WIRETYPE_VARINT m target) (\<lambda>(m, target).
     WriteInt32NoTagToArray v m target)"

definition WriteInt64ToArray :: "32 word \<Rightarrow> 64 word \<Rightarrow> mem \<Rightarrow> int \<Rightarrow> (mem \<times> int) res" where
  "WriteInt64ToArray field_number v m target =
     bind_res (WriteTagToArray field_number WIRETYPE_VARINT m target) (\<lambda>(m, target).
     WriteInt64NoTagToArray v m target)"

definition WriteUInt32ToArray :: "32 word \<Rightarrow> 32 word \<Rightarrow> mem \<Rightarrow> int \<Rightarrow> (mem \<times> int) res" where
  "WriteUInt32ToArray field_number v m target =
     bind_res (WriteTagToArray field_number WIRETYPE_VARINT m target) (\<lambda>(m, target).
     WriteUInt32NoTagToArray v m target)"

definition WriteUInt64ToArray :: "32 word \<Rightarrow> 64 word \<Rightarrow> mem \<Rightarrow> int \<Rightarrow> (mem \<times> int) res" where
  "WriteUInt64ToArray field_number v m target =
     bind_res (WriteTagToArray field_number WIRETYPE_VARINT m target) (\<lambda>(m, target).
     WriteUInt64NoTagToArray v m target)"

definition WriteSInt32ToArray :: "32 word \<Rightarrow> 32 word \<Rightarrow> mem \<Rightarrow> int \<Rightarrow> (mem \<times> int) res" where
  "WriteSInt32ToArray field_number v m target =
     bind_res (WriteTagToArray field_number WIRETYPE_VARINT m target) (\<lambda>(m, target).
     WriteSInt32NoTagToArray v m target)"

definition WriteSInt64ToArray :: "32 word \<Rightarrow> 64 word \<Rightarrow> mem \<Rightarrow> int \<Rightarrow> (mem \<times> int) res" where
  "WriteSInt64ToArray field_number v m target =
     bind_res (WriteTagToArray field_number WIRETYPE_VARINT m target) (\<lambda>(m, target).
     WriteSInt64NoTagToArray v m target)"

definition WriteFixed32ToArray :: "32 word \<Rightarrow> 32 word \<Rightarrow> mem \<Rightarrow> int \<Rightarrow> (mem \<times> int) res" where
  "WriteFixed32ToArray field_number v m target =
     bind_res (WriteTagToArray field_number WIRETYPE_FIXED32 m target) (\<lambda>(m, target).
     WriteFixed32NoTagToArray v m target)"

definition WriteFixed64ToArray :: "32 word \<Rightarrow> 64 word \<Rightarrow> mem \<Rightarrow> int \<Rightarrow> (mem \<times> int) res" where
  "WriteFixed64ToArray field_number v m target =
     bind_res (WriteTagToArray field_number WIRETYPE_FIXED64 m target) (\<lambda>(m, target).
     WriteFixed64NoTagToArray v m target)"

definition WriteSFixed32ToArray :: "32 word \<Rightarrow> 32 word \<Rightarrow> mem \<Rightarrow> int \<Rightarrow> (mem \<times> int) res" where
  "WriteSFixed32ToArray field_number v m target =
     bind_res (WriteTagToArray field_number WIRETYPE_FIXED32 m target) (\<lambda>(m, target).
     WriteSFixed32NoTagToArray v m target)"

definition WriteSFixed64ToArray :: "32 word \<Rightarrow> 64 word \<Rightarrow> mem \<Rightarrow> int \<Rightarrow> (mem \<times> int) res" where
  "WriteSFixed64ToArray field_number v m target =
     bind_res (WriteTagToArray field_number WIRETYPE_FIXED64 m target) (\<lambda>(m, target).
     WriteSFixed64NoTagToArray v m target)"

definition WriteBoolToArray :: "32 word \<Rightarrow> bool \<Rightarrow> mem \<Rightarrow> int \<Rightarrow> (mem \<times> int) res" where
  "WriteBoolToArray field_number v m target =
     bind_res (WriteTagToArray field_number WIRETYPE_VARINT m target) (\<lambda>(m, target).
     WriteBoolNoTagToArray v m target)"

definition WriteEnumToArray :: "32 word \<Rightarrow> 32 word \<Rightarrow> mem \<Rightarrow> int \<Rightarrow> (mem \<times> int) res" where
  "WriteEnumToArray field_number v m target =
     bind_res (WriteTagToArray field_number WIRETYPE_VARINT m target) (\<lambda>(m, target).
     WriteEnumNoTagToArray v m target)"

definition WriteStringToArray :: "('i, 'u, 'w) runtime \<Rightarrow> 32 word \<Rightarrow> byte list \<Rightarrow> mem \<Rightarrow> int \<Rightarrow> (mem \<times> int) res" where
  "WriteStringToArray R field_number str m target =
     bind_res (WriteTagToArray field_number WIRETYPE_LENGTH_DELIMITED m target) (\<lambda>(m, target).
     rt_WriteStringWithSizeToArray R str m target)"

definition WriteBytesToArray :: "('i, 'u, 'w) runtime \<Rightarrow> 32 word \<Rightarrow> byte list \<Rightarrow> mem \<Rightarrow> int \<Rightarrow> (mem \<times> int) res" where
  "WriteBytesToArray R field_number str m target =
     bind_res (WriteTagToArray field_number WIRETYPE_LENGTH_DELIMITED m target) (\<lambda>(m, target).
     rt_WriteStringWithSizeToArray R str m target)"

section \<open>Sizes\<close>

definition Int32Size :: "32 word \<Rightarrow> nat" where
  "Int32Size v = VarintSize32SignExtended v"

definition Int64Size :: "64 word \<Rightarrow> nat" where
  "Int64Size v = VarintSize64 v"

definition UInt32Size :: "32 word \<Rightarrow> nat" where
  "UInt32Size v = VarintSize32 v"

definition UInt64Size :: "64 word \<Rightarrow> nat" where
  "UInt64Size v = VarintSize64 v"

definition SInt32Size :: "32 word \<Rightarrow> nat" where
  "SInt32Size v = VarintSize32 (ZigZagEncode32 v)"

definition SInt64Size :: "64 word \<Rightarrow> nat" where
  "SInt64Size v = VarintSize64 (ZigZagEncode64 v)"

definition EnumSize :: "32 word \<Rightarrow> nat" where
  "EnumSize v = VarintSize32SignExtended v"

text \<open>The cast of the length to 32 bits is the source's, with a comment that says what it costs.\<close>

definition LengthDelimitedSize :: "nat \<Rightarrow> nat" where
  "LengthDelimitedSize len = size_t (len + VarintSize32 (word_of_nat len))"

definition StringSize :: "byte list \<Rightarrow> nat" where
  "StringSize str = LengthDelimitedSize (length str)"

definition BytesSize :: "byte list \<Rightarrow> nat" where
  "BytesSize str = LengthDelimitedSize (length str)"

definition ToCachedSize :: "nat \<Rightarrow> int" where
  "ToCachedSize n = sint (word_of_nat n :: 32 word)"

section \<open>ZigZag is a bijection onto the small numbers\<close>

lemma bit_zigzag:
  fixes n :: "'a::len word"
  assumes "i < LENGTH('a)"
  shows "bit (push_bit 1 n XOR signed_drop_bit (LENGTH('a) - 1) n) i \<longleftrightarrow>
      (0 < i \<and> bit n (i - 1)) \<noteq> bit n (LENGTH('a) - 1)"
proof -
  have "bit (push_bit 1 n) i \<longleftrightarrow> 0 < i \<and> bit n (i - 1)"
    unfolding bit_push_bit_iff using assms by (auto simp add: Suc_le_eq)
  moreover have "bit (signed_drop_bit (LENGTH('a) - 1) n) i \<longleftrightarrow> bit n (LENGTH('a) - 1)"
    unfolding bit_signed_drop_bit_iff using assms by (cases i) simp_all
  ultimately show ?thesis by (simp only: bit_xor_iff)
qed

lemma zigzag_inverse:
  fixes n :: "'a::len word"
  assumes e: "e = push_bit 1 n XOR signed_drop_bit (LENGTH('a) - 1) n"
  shows "drop_bit 1 e XOR (NOT (e AND 1) + 1) = n"
proof (rule bit_word_eqI)
  fix i :: nat
  assume i: "i < LENGTH('a)"
  let ?s = "bit n (LENGTH('a) - 1)"
  have be: "bit e k \<longleftrightarrow> (0 < k \<and> bit n (k - 1)) \<noteq> ?s" if "k < LENGTH('a)" for k
    unfolding e by (rule bit_zigzag [OF that])
  have "bit e 0 = ?s" using be [of 0] by simp
  then have "e AND 1 = of_bool ?s" by (simp add: and_one_eq mod_2_eq_odd bit_0)
  then have neg: "NOT (e AND 1) + 1 = - of_bool ?s" by (simp add: minus_eq_not_plus_1)
  have m: "bit (NOT (e AND 1) + 1) i = ?s" unfolding neg using i by (cases ?s) simp_all
  have d: "bit (drop_bit 1 e) i = bit e (Suc i)" by (simp add: bit_drop_bit_eq)
  have "bit (drop_bit 1 e XOR (NOT (e AND 1) + 1)) i \<longleftrightarrow> bit e (Suc i) \<noteq> ?s"
    unfolding bit_xor_iff d m by (rule refl)
  also have "\<dots> \<longleftrightarrow> bit n i"
  proof (cases "Suc i < LENGTH('a)")
    case True
    then show ?thesis using be [of "Suc i"] by auto
  next
    case False
    then have "i = LENGTH('a) - 1" using i by simp
    moreover have "\<not> bit e (Suc i)" using False bit_imp_le_length [of e "Suc i"] by blast
    ultimately show ?thesis by simp
  qed
  finally show "bit (drop_bit 1 e XOR (NOT (e AND 1) + 1)) i = bit n i" .
qed

lemma ZigZag32: "ZigZagDecode32 (ZigZagEncode32 n) = n"
  unfolding ZigZagDecode32_def by (rule zigzag_inverse) (simp add: ZigZagEncode32_def)

lemma ZigZag64: "ZigZagDecode64 (ZigZagEncode64 n) = n"
  unfolding ZigZagDecode64_def by (rule zigzag_inverse) (simp add: ZigZagEncode64_def)

section \<open>Every writer is \<open>emit\<close>, every size the number of bytes\<close>

definition tag_bytes :: "32 word \<Rightarrow> WireType \<Rightarrow> byte list" where
  "tag_bytes field_number ty = varint (unat (MakeTag field_number ty))"

definition le32 :: "32 word \<Rightarrow> byte list" where
  "le32 v = [ucast v, ucast (drop_bit 8 v), ucast (drop_bit 16 v), ucast (drop_bit 24 v)]"

definition le64 :: "64 word \<Rightarrow> byte list" where
  "le64 v = le32 (ucast v) @ le32 (ucast (drop_bit 32 v))"

named_theorems emit_simps \<open>array writers as the bytes they emit\<close>

lemma WriteTagToArray_emit [emit_simps]: "WriteTagToArray f ty m p = emit (tag_bytes f ty) m p"
  by (simp add: WriteTagToArray_def CodedOutputStream_WriteTagToArray_def WriteVarint32ToArray_emit tag_bytes_def)

lemma NoTag_emit [emit_simps]:
  "WriteInt32NoTagToArray v m p = emit (varint (unat (scast v :: 64 word))) m p"
  "WriteInt64NoTagToArray v64 m p = emit (varint (unat v64)) m p"
  "WriteUInt32NoTagToArray v m p = emit (varint (unat v)) m p"
  "WriteUInt64NoTagToArray v64 m p = emit (varint (unat v64)) m p"
  "WriteSInt32NoTagToArray v m p = emit (varint (unat (ZigZagEncode32 v))) m p"
  "WriteSInt64NoTagToArray v64 m p = emit (varint (unat (ZigZagEncode64 v64))) m p"
  "WriteBoolNoTagToArray b m p = emit (varint (of_bool b)) m p"
  "WriteEnumNoTagToArray v m p = emit (varint (unat (scast v :: 64 word))) m p"
  by (simp_all add: WriteInt32NoTagToArray_def WriteInt64NoTagToArray_def WriteUInt32NoTagToArray_def
      WriteUInt64NoTagToArray_def WriteSInt32NoTagToArray_def WriteSInt64NoTagToArray_def
      WriteBoolNoTagToArray_def WriteEnumNoTagToArray_def WriteVarint32SignExtendedToArray_def
      WriteVarint32ToArray_emit WriteVarint64ToArray_emit)

lemma Fixed_emit [emit_simps]:
  "WriteFixed32NoTagToArray v m p = emit (le32 v) m p"
  "WriteSFixed32NoTagToArray v m p = emit (le32 v) m p"
  "WriteFixed64NoTagToArray v64 m p = emit (le64 v64) m p"
  "WriteSFixed64NoTagToArray v64 m p = emit (le64 v64) m p"
  by (simp_all add: WriteFixed32NoTagToArray_def WriteSFixed32NoTagToArray_def WriteFixed64NoTagToArray_def
      WriteSFixed64NoTagToArray_def WriteLittleEndian32ToArray_def WriteLittleEndian64ToArray_def
      emit_def le32_def le64_def Let_def)

lemma Field_emit [emit_simps]:
  "WriteInt32ToArray f v m p = emit (tag_bytes f WIRETYPE_VARINT @ varint (unat (scast v :: 64 word))) m p"
  "WriteInt64ToArray f v64 m p = emit (tag_bytes f WIRETYPE_VARINT @ varint (unat v64)) m p"
  by (simp_all add: WriteInt32ToArray_def WriteInt64ToArray_def emit_simps emit_append)

lemma Int32Size_eq: "Int32Size v = length (varint (unat (scast v :: 64 word)))"
  by (simp add: Int32Size_def VarintSize32SignExtended_eq)

lemma Int64Size_eq: "Int64Size v = length (varint (unat v))"
  by (simp add: Int64Size_def VarintSize64_eq)

lemma length_varint_31: "n < 2 ^ 31 \<Longrightarrow> length (varint n) \<le> 5"
  using length_varint_le [of n 4] by simp

lemma StringSize_eq:
  assumes "length str < 2 ^ 31"
  shows "StringSize str = length (varint (length str)) + length str"
proof -
  have "unat (word_of_nat (length str) :: 32 word) = length str"
    using assms by (simp add: unsigned_of_nat take_bit_nat_eq_self)
  then have "VarintSize32 (word_of_nat (length str)) = length (varint (length str))"
    by (simp add: VarintSize32_eq)
  moreover have "length (varint (length str)) \<le> 5" by (rule length_varint_31 [OF assms])
  ultimately show ?thesis
    using assms by (simp add: StringSize_def LengthDelimitedSize_def size_t_def)
qed

lemma ToCachedSize_small: "n < 2 ^ 31 \<Longrightarrow> ToCachedSize n = int n"
  unfolding ToCachedSize_def by (simp add: signed_of_nat signed_take_bit_int_eq_self)

section \<open>A value that was written is read back\<close>

text \<open>The bytes a writer left between the pointer it was given and the one it returned.\<close>

definition stored :: "(mem \<times> int) res \<Rightarrow> int \<Rightarrow> cell list" where
  "stored r p = (case r of Inr (m, q) \<Rightarrow> take (nat (q - p)) (drop (nat p) m) | Inl _ \<Rightarrow> [])"

lemma stored_emit: "emit bs m p = Inr x \<Longrightarrow> stored (emit bs m p) p = map Some bs"
proof -
  assume "emit bs m p = Inr x"
  then have ok: "0 \<le> p \<and> p + int (length bs) \<le> int (length m)"
    using emit_overrun [of p bs m] by fastforce
  then have "nat p + length (map Some bs) \<le> length m" unfolding length_map by linarith
  then show ?thesis using ok take_drop_poke_same [of "nat p" "map Some bs" m]
    by (simp add: emit_fits stored_def)
qed

lemma map_Some_eq: "map Some as = map Some bs \<longleftrightarrow> as = bs"
  by (simp add: inj_map_eq_map)

definition wrote :: "(mem \<times> int) res \<Rightarrow> int \<Rightarrow> byte list \<Rightarrow> bool" where
  "wrote w p bs \<longleftrightarrow> (case w of Inr _ \<Rightarrow> stored w p = map Some bs | Inl _ \<Rightarrow> False)"

lemma wrote_emit: "wrote (emit bs m p) p bs' \<Longrightarrow> bs' = bs"
proof -
  assume w: "wrote (emit bs m p) p bs'"
  then obtain x where x: "emit bs m p = Inr x"
    by (cases "emit bs m p") (simp_all add: wrote_def)
  have "stored (Inr x) p = map Some bs" using stored_emit [OF x] x by simp
  moreover have "stored (Inr x) p = map Some bs'" using w x by (simp add: wrote_def)
  ultimately show ?thesis by (simp add: map_Some_eq)
qed

lemma ucast_scast: "(ucast (scast v :: 64 word) :: 32 word) = (v :: 32 word)"
  by (rule bit_word_eqI) (simp add: bit_ucast_iff bit_word_scast_iff)

lemma cast_sign_extend: "(word_of_nat (unat (scast v :: 64 word)) :: 32 word) = (v :: 32 word)"
proof -
  have "(word_of_nat (unat (scast v :: 64 word)) :: 32 word) = ucast (scast v :: 64 word)"
    by (simp add: unsigned_ucast_eq)
  then show ?thesis by (simp add: ucast_scast)
qed

lemma read_varint64: "read_varint 10 (varint (unat (v :: 64 word)) @ r) = Some (unat v, r)"
  by (rule read_varint_varint [OF length_varint64])

lemma read_varint32: "read_varint 10 (varint (unat (v :: 32 word)) @ r) = Some (unat v, r)"
  by (rule read_varint_varint) (rule order_trans [OF length_varint32], simp)

lemma ReadLittleEndian32FromArray_le32: "ReadLittleEndian32FromArray (le32 (v :: 32 word) @ r) = Inr (r, v)"
proof -
  have "ucast (ucast v :: byte) OR push_bit 8 (ucast (ucast (drop_bit 8 v) :: byte)) OR
      push_bit 16 (ucast (ucast (drop_bit 16 v) :: byte)) OR push_bit 24 (ucast (ucast (drop_bit 24 v) :: byte)) = (v :: 32 word)" for v :: "32 word"
  proof (rule bit_word_eqI)
    fix n :: nat
    assume "n < LENGTH(32)"
    then consider "n < 8" | "8 \<le> n \<and> n < 16" | "16 \<le> n \<and> n < 24" | "24 \<le> n \<and> n < 32" by fastforce
    then show "bit ((ucast (ucast v :: byte) :: 32 word) OR push_bit 8 (ucast (ucast (drop_bit 8 v) :: byte)) OR
      push_bit 16 (ucast (ucast (drop_bit 16 v) :: byte)) OR push_bit 24 (ucast (ucast (drop_bit 24 v) :: byte))) n
      \<longleftrightarrow> bit v n"
      by cases (auto simp add: bit_simps)
  qed
  then show ?thesis by (simp add: ReadLittleEndian32FromArray_def le32_def)
qed

lemma ReadLittleEndian64FromArray_le64: "ReadLittleEndian64FromArray (le64 v @ r) = Inr (r, v)"
proof -
  have j: "ucast (ucast v :: 32 word) OR push_bit 32 (ucast (ucast (drop_bit 32 v) :: 32 word)) = (v :: 64 word)" for v :: "64 word"
  proof (rule bit_word_eqI)
    fix n :: nat
    assume "n < LENGTH(64)"
    then consider "n < 32" | "32 \<le> n \<and> n < 64" by fastforce
    then show "bit ((ucast (ucast v :: 32 word) :: 64 word) OR push_bit 32 (ucast (ucast (drop_bit 32 v) :: 32 word))) n \<longleftrightarrow> bit v n"
      by cases (auto simp add: bit_simps)
  qed
  have "ReadLittleEndian32FromArray (le32 (ucast v) @ []) = Inr ([], ucast v)"
    and "ReadLittleEndian32FromArray (le32 (ucast (drop_bit 32 v)) @ []) = Inr ([], ucast (drop_bit 32 v))"
    by (rule ReadLittleEndian32FromArray_le32)+
  then show ?thesis
    using j unfolding ReadLittleEndian64FromArray_def le64_def le32_def ReadLittleEndian32FromArray_def by (simp add: Let_def)
qed

lemma ReadLittleEndian_eq:
  "cis_buffer s = le32 v @ r \<Longrightarrow> ReadLittleEndian32 R s = Inr (s\<lparr>cis_buffer := r\<rparr>, v, True)"
  "cis_buffer s = le64 v64 @ r \<Longrightarrow> ReadLittleEndian64 R s = Inr (s\<lparr>cis_buffer := r\<rparr>, v64, True)"
proof -
  assume "cis_buffer s = le32 v @ r"
  moreover from this have "4 \<le> BufferSize s" by (simp add: BufferSize_def le32_def)
  ultimately show "ReadLittleEndian32 R s = Inr (s\<lparr>cis_buffer := r\<rparr>, v, True)"
    by (simp add: ReadLittleEndian32_def ReadLittleEndian32FromArray_le32)
next
  assume "cis_buffer s = le64 v64 @ r"
  moreover from this have "8 \<le> BufferSize s" by (simp add: BufferSize_def le32_def le64_def)
  ultimately show "ReadLittleEndian64 R s = Inr (s\<lparr>cis_buffer := r\<rparr>, v64, True)"
    by (simp add: ReadLittleEndian64_def ReadLittleEndian64FromArray_le64)
qed

lemma ReadVarint_eq:
  assumes "flat_reads R" and "IsFlat s"
  shows "cis_buffer s = varint (unat v) @ r \<Longrightarrow> ReadVarint32 R s = (s\<lparr>cis_buffer := r\<rparr>, v, True)"
    and "cis_buffer s = varint (unat w) @ r \<Longrightarrow> ReadVarint64 R s = (s\<lparr>cis_buffer := r\<rparr>, w, True)"
    and "cis_buffer s = varint (unat (scast v :: 64 word)) @ r \<Longrightarrow>
      ReadVarint32 R s = (s\<lparr>cis_buffer := r\<rparr>, v, True)"
  using flat_reads.ReadVarint32_eq [OF assms] flat_reads.ReadVarint64_eq [OF assms]
  by (simp_all add: read_varint64 read_varint32 cast_sign_extend ucast_scast)

lemma ReadVarint_Bool:
  assumes "flat_reads R" and "IsFlat s" and "cis_buffer s = varint (of_bool b) @ r"
  shows "ReadVarint64 R s = (s\<lparr>cis_buffer := r\<rparr>, of_bool b, True)"
  using ReadVarint_eq(2) [OF assms(1,2), of "of_bool b" r] assms(3) by (cases b) simp_all

text \<open>
  C20: For every primitive field type without a fraction, \<open>ReadPrimitive\<close> on a flat stream that starts with the bytes
  the array writer of the type has stored returns the value written and leaves the bytes that follow: the
  sign extension of \<open>int32\<close> to ten bytes, the ZigZag transform, the booleans and the fixed-width types included.
\<close>

theorem primitive_roundtrip:
  assumes "flat_reads R" and "IsFlat s" and "cis_buffer s = bs @ r"
  shows
    "(wrote (WriteInt32NoTagToArray v m p) p bs \<longrightarrow> ReadPrimitive_INT32 R s v0 = (s\<lparr>cis_buffer := r\<rparr>, v, True)) \<and>
     (wrote (WriteInt64NoTagToArray w m p) p bs \<longrightarrow> ReadPrimitive_INT64 R s w0 = (s\<lparr>cis_buffer := r\<rparr>, w, True)) \<and>
     (wrote (WriteUInt32NoTagToArray v m p) p bs \<longrightarrow> ReadPrimitive_UINT32 R s v0 = (s\<lparr>cis_buffer := r\<rparr>, v, True)) \<and>
     (wrote (WriteUInt64NoTagToArray w m p) p bs \<longrightarrow> ReadPrimitive_UINT64 R s w0 = (s\<lparr>cis_buffer := r\<rparr>, w, True)) \<and>
     (wrote (WriteSInt32NoTagToArray v m p) p bs \<longrightarrow> ReadPrimitive_SINT32 R s v0 = (s\<lparr>cis_buffer := r\<rparr>, v, True)) \<and>
     (wrote (WriteSInt64NoTagToArray w m p) p bs \<longrightarrow> ReadPrimitive_SINT64 R s w0 = (s\<lparr>cis_buffer := r\<rparr>, w, True)) \<and>
     (wrote (WriteBoolNoTagToArray b m p) p bs \<longrightarrow> ReadPrimitive_BOOL R s b0 = (s\<lparr>cis_buffer := r\<rparr>, b, True)) \<and>
     (wrote (WriteEnumNoTagToArray v m p) p bs \<longrightarrow> ReadPrimitive_ENUM R s v0 = (s\<lparr>cis_buffer := r\<rparr>, v, True)) \<and>
     (wrote (WriteFixed32NoTagToArray v m p) p bs \<longrightarrow> ReadPrimitive_FIXED32 R s v0 = Inr (s\<lparr>cis_buffer := r\<rparr>, v, True)) \<and>
     (wrote (WriteFixed64NoTagToArray w m p) p bs \<longrightarrow> ReadPrimitive_FIXED64 R s w0 = Inr (s\<lparr>cis_buffer := r\<rparr>, w, True)) \<and>
     (wrote (WriteSFixed32NoTagToArray v m p) p bs \<longrightarrow> ReadPrimitive_SFIXED32 R s v0 = Inr (s\<lparr>cis_buffer := r\<rparr>, v, True)) \<and>
     (wrote (WriteSFixed64NoTagToArray w m p) p bs \<longrightarrow> ReadPrimitive_SFIXED64 R s w0 = Inr (s\<lparr>cis_buffer := r\<rparr>, w, True))"
proof -
  note rd = ReadVarint_eq [OF assms(1,2)] ReadVarint_Bool [OF assms(1,2)] ReadLittleEndian_eq
  have b: "(of_bool b = (0 :: 64 word)) = (\<not> b)" by simp
  show ?thesis
    unfolding emit_simps ReadPrimitive_INT32_def ReadPrimitive_INT64_def ReadPrimitive_UINT32_def ReadPrimitive_UINT64_def ReadPrimitive_SINT32_def ReadPrimitive_SINT64_def ReadPrimitive_BOOL_def ReadPrimitive_ENUM_def ReadPrimitive_FIXED32_def ReadPrimitive_FIXED64_def ReadPrimitive_SFIXED32_def ReadPrimitive_SFIXED64_def
    by (intro conjI impI; drule wrote_emit) (use assms(3) in \<open>simp_all add: rd ZigZag32 ZigZag64 b\<close>)
qed

theorem primitive_roundtrip_witness:
  "ReadPrimitive_SINT32 sim_runtime (new_CodedInputStream_flat sim_runtime ([3, 7] :: byte list)) 0 =
    ((new_CodedInputStream_flat sim_runtime [3, 7])\<lparr>cis_buffer := [7]\<rparr>, - 2, True)"
proof -
  have "WriteSInt32NoTagToArray (- 2) [None, None] 0 = Inr ([Some 3, None], 1)" by code_simp
  then have "wrote (WriteSInt32NoTagToArray (- 2) [None, None] 0) 0 [3]"
    by (simp add: wrote_def stored_def)
  moreover have "IsFlat (new_CodedInputStream_flat sim_runtime ([3, 7] :: byte list))"
    and "cis_buffer (new_CodedInputStream_flat sim_runtime ([3, 7] :: byte list)) = [3] @ [7]"
    by (simp_all add: IsFlat_def new_CodedInputStream_flat_def)
  ultimately show ?thesis
    using primitive_roundtrip [OF sim_reads.flat_reads_axioms] by blast
qed


end
