(* ===== verification/MessageFields.thy ===== *)
theory MessageFields
  imports WireFormat
begin

text \<open>
  What the generated messages are made of: string fields (\<open>arenastring.h\<close>), the metadata with the unknown fields
  (\<open>metadata_lite.h\<close>, \<open>metadata.h\<close>), the cached size, and the contract \<open>proto_message\<close> that every generated message
  meets, with the facts a user of a message needs.
\<close>

section \<open>String fields\<close>

text \<open>
  \<open>None\<close> is the pointer to the shared empty string, which every caller passes as \<open>default_value\<close>; \<open>Some\<close> is a string
  of the field's own.  No message of the program lives on an arena.
\<close>

type_synonym ArenaStringPtr = "byte list option"

definition IsDefault :: "ArenaStringPtr \<Rightarrow> bool" where
  "IsDefault p \<longleftrightarrow> p = None"

definition UnsafeSetDefault :: "ArenaStringPtr \<Rightarrow> ArenaStringPtr" where
  "UnsafeSetDefault p = None"

definition CreateInstanceNoArena :: "byte list \<Rightarrow> ArenaStringPtr" where
  "CreateInstanceNoArena initial_value = Some initial_value"

definition GetNoArena :: "ArenaStringPtr \<Rightarrow> byte list" where
  "GetNoArena p = (case p of None \<Rightarrow> [] | Some v \<Rightarrow> v)"

definition SetNoArena :: "ArenaStringPtr \<Rightarrow> byte list \<Rightarrow> ArenaStringPtr" where
  "SetNoArena p val = (case p of None \<Rightarrow> CreateInstanceNoArena val | Some _ \<Rightarrow> Some val)"

text \<open>Two pointers are equal when both are the default one; strings of their own are distinct objects.\<close>

definition AssignWithDefault :: "ArenaStringPtr \<Rightarrow> ArenaStringPtr \<Rightarrow> ArenaStringPtr" where
  "AssignWithDefault p val =
     (let me = p; other = val
      in if me = None \<and> other = None then p else SetNoArena p (GetNoArena val))"

text \<open>\<open>MutableNoArena\<close>: the field afterwards; its content is what the returned pointer points to.\<close>

definition MutableNoArena :: "ArenaStringPtr \<Rightarrow> ArenaStringPtr" where
  "MutableNoArena p = (case p of None \<Rightarrow> CreateInstanceNoArena [] | Some v \<Rightarrow> Some v)"

definition ReleaseNonDefaultNoArena :: "ArenaStringPtr \<Rightarrow> ArenaStringPtr \<times> byte list option" where
  "ReleaseNonDefaultNoArena p = (None, p)"

definition ReleaseNoArena :: "ArenaStringPtr \<Rightarrow> ArenaStringPtr \<times> byte list option" where
  "ReleaseNoArena p = (if p = None then (p, None) else ReleaseNonDefaultNoArena p)"

definition SetAllocatedNoArena :: "ArenaStringPtr \<Rightarrow> byte list option \<Rightarrow> ArenaStringPtr" where
  "SetAllocatedNoArena p val = (case val of Some v \<Rightarrow> Some v | None \<Rightarrow> None)"

definition ClearToEmptyNoArena :: "ArenaStringPtr \<Rightarrow> ArenaStringPtr" where
  "ClearToEmptyNoArena p = (case p of None \<Rightarrow> None | Some _ \<Rightarrow> Some [])"

text \<open>\<open>Swap\<close> in a debug build swaps the contents, otherwise the pointers.\<close>

definition ArenaStringPtr_Swap :: "bool \<Rightarrow> ArenaStringPtr \<Rightarrow> ArenaStringPtr \<Rightarrow> ArenaStringPtr \<times> ArenaStringPtr" where
  "ArenaStringPtr_Swap debug p q =
     (if debug then
        (if IsDefault p \<and> IsDefault q then (p, q) else (MutableNoArena q, MutableNoArena p))
      else (q, p))"

lemma GetNoArena_simps [simp]:
  "GetNoArena None = []" "GetNoArena (Some v) = v"
  "GetNoArena (UnsafeSetDefault p) = []"
  "GetNoArena (SetNoArena p v) = v"
  "GetNoArena (AssignWithDefault p q) = GetNoArena q"
  "GetNoArena (MutableNoArena p) = GetNoArena p"
  "GetNoArena (ClearToEmptyNoArena p) = []"
  "GetNoArena (SetAllocatedNoArena p s) = GetNoArena s"
  by (simp_all add: GetNoArena_def UnsafeSetDefault_def SetNoArena_def CreateInstanceNoArena_def
      AssignWithDefault_def MutableNoArena_def ClearToEmptyNoArena_def SetAllocatedNoArena_def
      split: option.splits)

lemma ArenaStringPtr_Swap_get:
  "ArenaStringPtr_Swap debug p q = (p', q') \<Longrightarrow> GetNoArena p' = GetNoArena q \<and> GetNoArena q' = GetNoArena p"
  by (auto simp add: ArenaStringPtr_Swap_def IsDefault_def split: if_splits)

section \<open>Metadata: the unknown fields\<close>

text \<open>The tagged pointer: \<open>None\<close> is the tag \<open>kTagArena\<close> (no arena), \<open>Some\<close> a container with a field set.\<close>

type_synonym 'u InternalMetadata = "'u option"

definition have_unknown_fields :: "'u InternalMetadata \<Rightarrow> bool" where
  "have_unknown_fields d \<longleftrightarrow> d \<noteq> None"

definition unknown_fields :: "('i, 'u, 'w) runtime \<Rightarrow> 'u InternalMetadata \<Rightarrow> 'u" where
  "unknown_fields R d = (case d of Some u \<Rightarrow> u | None \<Rightarrow> rt_unknown_new R)"

definition mutable_unknown_fields_slow :: "('i, 'u, 'w) runtime \<Rightarrow> 'u InternalMetadata" where
  "mutable_unknown_fields_slow R = Some (rt_unknown_new R)"

definition mutable_unknown_fields :: "('i, 'u, 'w) runtime \<Rightarrow> 'u InternalMetadata \<Rightarrow> 'u InternalMetadata" where
  "mutable_unknown_fields R d = (case d of Some u \<Rightarrow> Some u | None \<Rightarrow> mutable_unknown_fields_slow R)"

definition DoMergeFrom :: "('i, 'u, 'w) runtime \<Rightarrow> 'u InternalMetadata \<Rightarrow> 'u \<Rightarrow> 'u InternalMetadata" where
  "DoMergeFrom R d other = map_option (\<lambda>u. rt_unknown_merge R u other) (mutable_unknown_fields R d)"

definition DoClear :: "('i, 'u, 'w) runtime \<Rightarrow> 'u InternalMetadata \<Rightarrow> 'u InternalMetadata" where
  "DoClear R d = map_option (rt_unknown_clear R) (mutable_unknown_fields R d)"

definition DoSwap :: "('i, 'u, 'w) runtime \<Rightarrow> 'u InternalMetadata \<Rightarrow> 'u InternalMetadata \<Rightarrow>
    'u InternalMetadata \<times> 'u InternalMetadata" where
  "DoSwap R d other = (other, mutable_unknown_fields R d)"

definition Metadata_MergeFrom :: "('i, 'u, 'w) runtime \<Rightarrow> 'u InternalMetadata \<Rightarrow> 'u InternalMetadata \<Rightarrow>
    'u InternalMetadata" where
  "Metadata_MergeFrom R d other = (if have_unknown_fields other then DoMergeFrom R d (unknown_fields R other) else d)"

definition Metadata_Clear :: "('i, 'u, 'w) runtime \<Rightarrow> 'u InternalMetadata \<Rightarrow> 'u InternalMetadata" where
  "Metadata_Clear R d = (if have_unknown_fields d then DoClear R d else d)"

definition Metadata_Swap :: "('i, 'u, 'w) runtime \<Rightarrow> 'u InternalMetadata \<Rightarrow> 'u InternalMetadata \<Rightarrow>
    'u InternalMetadata \<times> 'u InternalMetadata" where
  "Metadata_Swap R d other =
     (if have_unknown_fields d \<or> have_unknown_fields other
      then DoSwap R d (mutable_unknown_fields R other) else (d, other))"

text \<open>\<open>UnknownFieldSet\<close> as its header documents it, seen through the bytes of its serialization.\<close>

definition unknown_bytes :: "('i, 'u, 'w) runtime \<Rightarrow> 'u InternalMetadata \<Rightarrow> byte list" where
  "unknown_bytes R d = rt_unknown_bytes R (unknown_fields R d)"

locale unknown_sets =
  fixes R :: "('i, 'u, 'w) runtime"
  assumes bytes_clear: "rt_unknown_bytes R (rt_unknown_clear R u) = []"
    and bytes_merge: "rt_unknown_bytes R (rt_unknown_merge R u v) = rt_unknown_bytes R u @ rt_unknown_bytes R v"
    and bytes_new: "rt_unknown_bytes R (rt_unknown_new R) = []"
    and size_bytes: "rt_unknown_size R u = length (rt_unknown_bytes R u)"
begin

lemma unknown_simps [simp]:
  "unknown_bytes R None = []"
  "unknown_bytes R (Metadata_Clear R d) = []"
  "unknown_bytes R (Metadata_MergeFrom R d e) = unknown_bytes R d @ unknown_bytes R e"
  by (cases d; cases e; simp add: unknown_bytes_def unknown_fields_def Metadata_Clear_def Metadata_MergeFrom_def
      have_unknown_fields_def DoClear_def DoMergeFrom_def mutable_unknown_fields_def
      mutable_unknown_fields_slow_def bytes_clear bytes_merge bytes_new)+

lemma unknown_swap:
  "Metadata_Swap R d e = (d', e') \<Longrightarrow> unknown_bytes R d' = unknown_bytes R e \<and> unknown_bytes R e' = unknown_bytes R d"
  by (cases d; cases e; auto simp add: unknown_bytes_def unknown_fields_def Metadata_Swap_def
      have_unknown_fields_def DoSwap_def mutable_unknown_fields_def mutable_unknown_fields_slow_def)

text \<open>The optional last part of every serialization, and its size.\<close>

lemma unknown_part:
  "(if have_unknown_fields d then rt_unknown_bytes R (unknown_fields R d) else []) = unknown_bytes R d"
  "(if have_unknown_fields d then size_t (0 + rt_unknown_size R (unknown_fields R d)) else 0) =
   size_t (length (unknown_bytes R d))"
  by (cases d; simp add: have_unknown_fields_def unknown_bytes_def unknown_fields_def bytes_new size_bytes size_t_def)+

lemma emit_unknown:
  "bind_res (emit bs m p) (\<lambda>(m, p). if have_unknown_fields d
     then emit (rt_unknown_bytes R (unknown_fields R d)) m p else Inr (m, p)) = emit (bs @ unknown_bytes R d) m p"
  by (simp only: emit_then_optional unknown_part)

end

interpretation sim_unknown: unknown_sets sim_runtime
  by unfold_locales (simp_all add: sim_runtime_def)

section \<open>Writing through the compiled library\<close>

text \<open>
  The writers of \<open>wire_format_lite.cc\<close> append to the stream what the array writers store; \<open>written\<close> observes the
  bytes a stream has received.
\<close>

locale stream_writes =
  fixes R :: "('i, 'u, 'w) runtime" and written :: "'w \<Rightarrow> byte list"
  assumes int32: "written (rt_WriteInt32 R f v w) =
      written w @ tag_bytes (word_of_int f) WIRETYPE_VARINT @ varint (unat (scast v :: 64 word))"
    and int64: "written (rt_WriteInt64 R f v64 w) =
      written w @ tag_bytes (word_of_int f) WIRETYPE_VARINT @ varint (unat v64)"
    and aliased: "length str < 2 ^ 31 \<Longrightarrow> written (rt_WriteStringMaybeAliased R f str w) =
      written w @ tag_bytes (word_of_int f) WIRETYPE_LENGTH_DELIMITED @ varint (length str) @ str"
    and unknown: "written (rt_SerializeUnknownFields R u w) = written w @ rt_unknown_bytes R u"
    and sized: "length str < 2 ^ 31 \<Longrightarrow>
      rt_WriteStringWithSizeToArray R str m p = emit (varint (length str) @ str) m p"
begin

lemma WriteStringToArray_emit:
  "length str < 2 ^ 31 \<Longrightarrow> WriteStringToArray R f str m p =
   emit (tag_bytes f WIRETYPE_LENGTH_DELIMITED @ varint (length str) @ str) m p"
  by (simp add: WriteStringToArray_def emit_simps sized emit_append)

end

interpretation sim_writes: stream_writes sim_runtime id
  by unfold_locales (simp_all add: sim_runtime_def tag_bytes_def MakeTag_def)

text \<open>A runtime with all the documented behaviour.\<close>

locale protobuf_runtime = flat_reads R + unknown_sets R + stream_writes R written
  for R :: "('i, 'u, 'w) runtime" and written :: "'w \<Rightarrow> byte list"
begin

lemma written_unknown:
  "written (if have_unknown_fields d then rt_SerializeUnknownFields R (unknown_fields R d) w else w) =
   written w @ unknown_bytes R d"
  using unknown_part(1) [of d] by (auto simp add: unknown split: if_splits)

end

interpretation sim_protobuf: protobuf_runtime sim_runtime id
  by unfold_locales

text \<open>The members that every generated class declares; each class adds its fields.\<close>

record 'u generated_message =
  internal_metadata :: "'u InternalMetadata"
  cached_size :: int

lemma tag_bytes_1: "tag_bytes 1 WIRETYPE_VARINT = [8]" "tag_bytes 1 WIRETYPE_LENGTH_DELIMITED = [10]"
  "tag_bytes 2 WIRETYPE_LENGTH_DELIMITED = [18]"
  by code_simp+

section \<open>The contract of a generated message\<close>

text \<open>
  What the users of a message rely on, in terms of its operations: the bytes of the computed size are filled exactly,
  a smaller buffer is overrun, the stream receives the same bytes, and a parser started on them restores the content.
\<close>

definition fills_exactly :: "('m \<Rightarrow> 'm \<times> nat) \<Rightarrow> ('m \<Rightarrow> mem \<Rightarrow> int \<Rightarrow> (mem \<times> int) res) \<Rightarrow> ('m \<Rightarrow> 'w \<Rightarrow> 'w) \<Rightarrow>
    ('w \<Rightarrow> byte list) \<Rightarrow> 'm \<Rightarrow> bool" where
  "fills_exactly byte_size to_array to_stream written m \<longleftrightarrow>
     (\<exists>bs. length bs = snd (byte_size m) \<and>
        to_array m (fresh_mem (int (length bs))) 0 = Inr (map Some bs, int (length bs)) \<and>
        (\<forall>w. written (to_stream m w) = written w @ bs) \<and>
        (\<forall>n < length bs. to_array m (fresh_mem (int n)) 0 = Inl Out_of_bounds))"

definition survives_wire :: "('i, 'u, 'w) runtime \<Rightarrow> 'm \<Rightarrow> ('m \<Rightarrow> 'c) \<Rightarrow> ('m \<Rightarrow> 'm \<times> nat) \<Rightarrow>
    ('m \<Rightarrow> mem \<Rightarrow> int \<Rightarrow> (mem \<times> int) res) \<Rightarrow>
    ('i CodedInputStream \<Rightarrow> 'm \<Rightarrow> ('i CodedInputStream \<times> 'm \<times> bool) option) \<Rightarrow> 'm \<Rightarrow> bool" where
  "survives_wire R fresh content byte_size to_array parse m \<longleftrightarrow>
     (\<exists>bs s' m'. to_array m (fresh_mem (int (snd (byte_size m)))) 0 = Inr (map Some bs, int (length bs)) \<and>
        parse (new_CodedInputStream_flat R bs) fresh = Some (s', m', True) \<and>
        cis_buffer s' = [] \<and> content m' = content m)"

text \<open>
  \<open>content\<close> is what a user sees (the fields and the unknown bytes), \<open>wire\<close> its reference encoding, \<open>valid\<close> that
  every length is below 2 GiB, \<open>readable\<close> that the parser accepts it (no unknown fields, strings in UTF-8).
\<close>

locale proto_message =
  fixes fresh :: 'm and content :: "'m \<Rightarrow> 'c" and valid :: "'c \<Rightarrow> bool" and readable :: "'c \<Rightarrow> bool"
    and wire :: "'c \<Rightarrow> byte list" and merged :: "'c \<Rightarrow> 'c \<Rightarrow> 'c"
    and clear :: "'m \<Rightarrow> 'm" and merge_from :: "'m \<Rightarrow> 'm \<Rightarrow> 'm" and copy_from :: "bool \<Rightarrow> 'm \<Rightarrow> 'm \<Rightarrow> 'm"
    and byte_size :: "'m \<Rightarrow> 'm \<times> nat" and to_array :: "'m \<Rightarrow> mem \<Rightarrow> int \<Rightarrow> (mem \<times> int) res"
    and to_stream :: "'m \<Rightarrow> 'w \<Rightarrow> 'w" and written :: "'w \<Rightarrow> byte list"
    and parse :: "'i CodedInputStream \<Rightarrow> 'm \<Rightarrow> ('i CodedInputStream \<times> 'm \<times> bool) option"
    and swap :: "'m \<Rightarrow> 'm \<Rightarrow> 'm \<times> 'm"
  assumes clear_law: "content (clear m) = content fresh"
    and merge_law: "content (merge_from m from) = merged (content m) (content from)"
    and merged_fresh: "merged (content fresh) c = c"
    and merged_assoc: "merged (merged c1 c2) c3 = merged c1 (merged c2 c3)"
    and copy_law: "copy_from same m from = (if same then m else merge_from (clear m) from)"
    and size_law: "valid (content m) \<Longrightarrow>
      content (fst (byte_size m)) = content m \<and> snd (byte_size m) = length (wire (content m))"
    and array_law: "valid (content m) \<Longrightarrow> 0 \<le> p \<Longrightarrow> p \<le> int (length buf) \<Longrightarrow>
      to_array m buf p = emit (wire (content m)) buf p"
    and stream_law: "valid (content m) \<Longrightarrow> written (to_stream m w) = written w @ wire (content m)"
    and parse_law: "valid c \<Longrightarrow> readable c \<Longrightarrow> IsFlat s \<Longrightarrow> cis_buffer s = wire c @ r \<Longrightarrow>
      \<exists>m'. parse s m = parse (s\<lparr>cis_buffer := r\<rparr>) m' \<and> content m' = merged (content m) c"
    and end_law: "IsFlat s \<Longrightarrow> cis_buffer s = [] \<Longrightarrow> current_limit s = total_bytes_read s \<Longrightarrow>
      parse s m = Some (s\<lparr>legitimate_message_end := True\<rparr>, m, True)"
    and swap_law: "map_prod content content (swap a b) = (content b, content a)"
begin

lemma copy_content: "content (copy_from False m from) = content from"
  by (simp add: copy_law merge_law clear_law merged_fresh)

lemma exact_fit:
  assumes "valid (content m)"
  shows "fills_exactly byte_size to_array to_stream written m"
  unfolding fills_exactly_def
proof (intro exI conjI allI impI)
  let ?bs = "wire (content m)"
  show len: "length ?bs = snd (byte_size m)" using size_law [OF assms] by simp
  show "to_array m (fresh_mem (int (length ?bs))) 0 = Inr (map Some ?bs, int (length ?bs))"
    using assms by (simp add: array_law emit_fits mem_simps fresh_mem_def)
  show "written (to_stream m w) = written w @ ?bs" for w by (rule stream_law [OF assms])
  show "to_array m (fresh_mem (int n)) 0 = Inl Out_of_bounds" if "n < length ?bs" for n
    using that assms by (simp add: array_law emit_overrun)
qed

text \<open>Parsing the encodings of several contents one after the other merges them in order.\<close>

lemma parse_concat:
  assumes "\<forall>c\<in>set cs. valid c \<and> readable c" and "IsFlat s" and "cis_buffer s = concat (map wire cs)"
    and "current_limit s = total_bytes_read s"
  shows "\<exists>s' m'. parse s m = Some (s', m', True) \<and> cis_buffer s' = [] \<and> legitimate_message_end s' \<and>
      content m' = foldl merged (content m) cs"
  using assms
proof (induction cs arbitrary: s m)
  case Nil
  then show ?case using end_law [of s m] by simp
next
  case (Cons c cs)
  then obtain m' where m': "parse s m = parse (s\<lparr>cis_buffer := concat (map wire cs)\<rparr>) m'"
      "content m' = merged (content m) c"
    using parse_law [of c s "concat (map wire cs)" m] by auto
  show ?case
    using Cons.IH [of "s\<lparr>cis_buffer := concat (map wire cs)\<rparr>" m'] Cons.prems m'
    by (simp add: IsFlat_def)
qed

lemma survives:
  assumes "valid (content m)" and "readable (content m)"
  shows "survives_wire R fresh content byte_size to_array parse m"
proof -
  obtain s' m' where p: "parse (new_CodedInputStream_flat R (wire (content m))) fresh = Some (s', m', True)"
      "cis_buffer s' = []" "content m' = content m"
    using parse_concat [of "[content m]" "new_CodedInputStream_flat R (wire (content m))" fresh] assms
    by (auto simp add: IsFlat_def new_CodedInputStream_flat_def merged_fresh)
  have "to_array m (fresh_mem (int (snd (byte_size m)))) 0 =
      Inr (map Some (wire (content m)), int (length (wire (content m))))"
    using assms by (simp add: array_law size_law emit_fits mem_simps fresh_mem_def)
  then show ?thesis
    unfolding survives_wire_def using p by blast
qed

text \<open>Two encodings one after the other are the encoding of the merged message.\<close>

lemma concat_merges:
  assumes "valid (content a)" and "readable (content a)" and "valid (content b)" and "readable (content b)"
  shows "\<exists>s' m'. parse (new_CodedInputStream_flat R (wire (content a) @ wire (content b))) fresh = Some (s', m', True) \<and>
      content m' = content (merge_from a b)"
  using parse_concat [of "[content a, content b]" "new_CodedInputStream_flat R (wire (content a) @ wire (content b))" fresh]
    assms by (auto simp add: IsFlat_def new_CodedInputStream_flat_def merged_fresh merge_law)

end

end
