(* ===== verification/HeartBeat_C.thy ===== *)
theory HeartBeat_C
  imports MessageFields
begin

text \<open>
  The generated class \<open>stHeartBeat_C\<close> of \<open>src/proto/pb/messageStruct.pb.h\<close> and \<open>.pb.cc\<close>: the heart beat a client sends, with its time in field 1.
  Its operations meet the contract \<open>proto_message\<close>.
\<close>

record 'u stHeartBeat_C = "'u generated_message" +
  f_timenow :: "32 word"

section \<open>Accessors\<close>

definition stHeartBeat_C_clear_timenow :: "'u stHeartBeat_C \<Rightarrow> 'u stHeartBeat_C" where
  "stHeartBeat_C_clear_timenow m = m\<lparr>f_timenow := 0\<rparr>"

definition stHeartBeat_C_timenow :: "'u stHeartBeat_C \<Rightarrow> 32 word" where
  "stHeartBeat_C_timenow m = f_timenow m"

definition stHeartBeat_C_set_timenow :: "'u stHeartBeat_C \<Rightarrow> 32 word \<Rightarrow> 'u stHeartBeat_C" where
  "stHeartBeat_C_set_timenow m val = m\<lparr>f_timenow := val\<rparr>"

section \<open>Construction, copying, clearing\<close>

definition stHeartBeat_C_SharedCtor :: "'u stHeartBeat_C \<Rightarrow> 'u stHeartBeat_C" where
  "stHeartBeat_C_SharedCtor m = m\<lparr>f_timenow := 0\<rparr>"

definition new_stHeartBeat_C :: "'u stHeartBeat_C" where
  "new_stHeartBeat_C = stHeartBeat_C_SharedCtor \<lparr>internal_metadata = None, cached_size = 0, f_timenow = 0\<rparr>"

definition copy_stHeartBeat_C :: "('i, 'u, 'w) runtime \<Rightarrow> 'u stHeartBeat_C \<Rightarrow> 'u stHeartBeat_C" where
  "copy_stHeartBeat_C R from =
     \<lparr>internal_metadata = Metadata_MergeFrom R None (internal_metadata from), cached_size = 0,
      f_timenow = f_timenow from\<rparr>"

definition stHeartBeat_C_SetCachedSize :: "'u stHeartBeat_C \<Rightarrow> int \<Rightarrow> 'u stHeartBeat_C" where
  "stHeartBeat_C_SetCachedSize m n = m\<lparr>cached_size := n\<rparr>"

definition stHeartBeat_C_GetCachedSize :: "'u stHeartBeat_C \<Rightarrow> int" where
  "stHeartBeat_C_GetCachedSize m = cached_size m"

definition stHeartBeat_C_Clear :: "('i, 'u, 'w) runtime \<Rightarrow> 'u stHeartBeat_C \<Rightarrow> 'u stHeartBeat_C" where
  "stHeartBeat_C_Clear R m =
     (let m = m\<lparr>f_timenow := 0\<rparr>
      in m\<lparr>internal_metadata := Metadata_Clear R (internal_metadata m)\<rparr>)"

definition stHeartBeat_C_MergeFrom :: "('i, 'u, 'w) runtime \<Rightarrow> 'u stHeartBeat_C \<Rightarrow> 'u stHeartBeat_C \<Rightarrow> 'u stHeartBeat_C" where
  "stHeartBeat_C_MergeFrom R m from =
     (let m = m\<lparr>internal_metadata := Metadata_MergeFrom R (internal_metadata m) (internal_metadata from)\<rparr>
      in if stHeartBeat_C_timenow from \<noteq> 0 then stHeartBeat_C_set_timenow m (stHeartBeat_C_timenow from) else m)"

text \<open>The overload for any message: \<open>None\<close> is a failed cast, \<open>reflection\<close> what \<open>ReflectionOps::Merge\<close> does then.\<close>

definition stHeartBeat_C_MergeFrom_Message :: "('i, 'u, 'w) runtime \<Rightarrow> ('u stHeartBeat_C \<Rightarrow> 'u stHeartBeat_C) \<Rightarrow>
    'u stHeartBeat_C \<Rightarrow> 'u stHeartBeat_C option \<Rightarrow> 'u stHeartBeat_C" where
  "stHeartBeat_C_MergeFrom_Message R reflection m src =
     (case src of None \<Rightarrow> reflection m | Some from \<Rightarrow> stHeartBeat_C_MergeFrom R m from)"

text \<open>\<open>same\<close>: the argument is the object itself.\<close>

definition stHeartBeat_C_CopyFrom :: "('i, 'u, 'w) runtime \<Rightarrow> bool \<Rightarrow> 'u stHeartBeat_C \<Rightarrow> 'u stHeartBeat_C \<Rightarrow> 'u stHeartBeat_C" where
  "stHeartBeat_C_CopyFrom R same m from =
     (if same then m else stHeartBeat_C_MergeFrom R (stHeartBeat_C_Clear R m) from)"

definition stHeartBeat_C_CopyFrom_Message :: "('i, 'u, 'w) runtime \<Rightarrow> ('u stHeartBeat_C \<Rightarrow> 'u stHeartBeat_C) \<Rightarrow> bool \<Rightarrow>
    'u stHeartBeat_C \<Rightarrow> 'u stHeartBeat_C option \<Rightarrow> 'u stHeartBeat_C" where
  "stHeartBeat_C_CopyFrom_Message R reflection same m src =
     (if same then m else stHeartBeat_C_MergeFrom_Message R reflection (stHeartBeat_C_Clear R m) src)"

definition stHeartBeat_C_assign :: "('i, 'u, 'w) runtime \<Rightarrow> bool \<Rightarrow> 'u stHeartBeat_C \<Rightarrow> 'u stHeartBeat_C \<Rightarrow> 'u stHeartBeat_C" where
  "stHeartBeat_C_assign R same m from = stHeartBeat_C_CopyFrom R same m from"

definition stHeartBeat_C_IsInitialized :: "'u stHeartBeat_C \<Rightarrow> bool" where
  "stHeartBeat_C_IsInitialized m = True"

definition stHeartBeat_C_InternalSwap :: "('i, 'u, 'w) runtime \<Rightarrow> 'u stHeartBeat_C \<Rightarrow> 'u stHeartBeat_C \<Rightarrow>
    'u stHeartBeat_C \<times> 'u stHeartBeat_C" where
  "stHeartBeat_C_InternalSwap R m other =
     (case Metadata_Swap R (internal_metadata m) (internal_metadata other) of
        (d, e) \<Rightarrow> (m\<lparr>internal_metadata := d, f_timenow := f_timenow other\<rparr>,
                   other\<lparr>internal_metadata := e, f_timenow := f_timenow m\<rparr>))"

definition stHeartBeat_C_Swap :: "('i, 'u, 'w) runtime \<Rightarrow> bool \<Rightarrow> 'u stHeartBeat_C \<Rightarrow> 'u stHeartBeat_C \<Rightarrow>
    'u stHeartBeat_C \<times> 'u stHeartBeat_C" where
  "stHeartBeat_C_Swap R same m other = (if same then (m, other) else stHeartBeat_C_InternalSwap R m other)"

text \<open>Move assignment: no message has an arena, so the two are swapped.\<close>

definition stHeartBeat_C_move_assign :: "('i, 'u, 'w) runtime \<Rightarrow> bool \<Rightarrow> 'u stHeartBeat_C \<Rightarrow> 'u stHeartBeat_C \<Rightarrow>
    'u stHeartBeat_C \<times> 'u stHeartBeat_C" where
  "stHeartBeat_C_move_assign R same m from = (if \<not> same then stHeartBeat_C_InternalSwap R m from else (m, from))"

definition stHeartBeat_C_move :: "('i, 'u, 'w) runtime \<Rightarrow> 'u stHeartBeat_C \<Rightarrow> 'u stHeartBeat_C \<times> 'u stHeartBeat_C" where
  "stHeartBeat_C_move R from = stHeartBeat_C_move_assign R False new_stHeartBeat_C from"

section \<open>Parsing and serializing\<close>

text \<open>The loop of \<open>MergePartialFromCodedStream\<close>; \<open>None\<close> is a stream that never ends.\<close>

definition stHeartBeat_C_unusual :: "('i, 'u, 'w) runtime \<Rightarrow> 'i CodedInputStream \<Rightarrow> 32 word \<Rightarrow> 'u stHeartBeat_C \<Rightarrow>
    'i CodedInputStream \<times> 'u stHeartBeat_C \<times> bool" where
  "stHeartBeat_C_unusual R s t m =
     (case rt_SkipField R s t (unknown_fields R (mutable_unknown_fields R (internal_metadata m))) of
        (s, u, ok) \<Rightarrow> (s, m\<lparr>internal_metadata := Some u\<rparr>, ok))"

partial_function (option) stHeartBeat_C_MergePartialFromCodedStream :: "('i, 'u, 'w) runtime \<Rightarrow> 'i CodedInputStream \<Rightarrow>
    'u stHeartBeat_C \<Rightarrow> ('i CodedInputStream \<times> 'u stHeartBeat_C \<times> bool) option" where
  "stHeartBeat_C_MergePartialFromCodedStream R s m =
     (case ReadTagWithCutoffNoLastTag R s 127 of
        (s, t, below) \<Rightarrow>
          if below \<and> GetTagFieldNumber t = 1 \<and> (ucast t :: byte) = 8 then
            (case ReadPrimitive_INT32 R s (f_timenow m) of
               (s, val, ok) \<Rightarrow>
                 if \<not> ok then Some (s, m\<lparr>f_timenow := val\<rparr>, False)
                 else stHeartBeat_C_MergePartialFromCodedStream R s (m\<lparr>f_timenow := val\<rparr>))
          else if t = 0 then Some (s, m, True)
          else (case stHeartBeat_C_unusual R s t m of
                  (s, m, ok) \<Rightarrow> if \<not> ok then Some (s, m, False) else stHeartBeat_C_MergePartialFromCodedStream R s m))"

definition stHeartBeat_C_SerializeWithCachedSizes :: "('i, 'u, 'w) runtime \<Rightarrow> 'u stHeartBeat_C \<Rightarrow> 'w \<Rightarrow> 'w" where
  "stHeartBeat_C_SerializeWithCachedSizes R m output =
     (let output = (if stHeartBeat_C_timenow m \<noteq> 0 then rt_WriteInt32 R 1 (stHeartBeat_C_timenow m) output else output)
      in if have_unknown_fields (internal_metadata m)
         then rt_SerializeUnknownFields R (unknown_fields R (internal_metadata m)) output else output)"

definition stHeartBeat_C_InternalSerializeWithCachedSizesToArray :: "('i, 'u, 'w) runtime \<Rightarrow> 'u stHeartBeat_C \<Rightarrow> mem \<Rightarrow> int \<Rightarrow>
    (mem \<times> int) res" where
  "stHeartBeat_C_InternalSerializeWithCachedSizesToArray R m buf target =
     bind_res (if stHeartBeat_C_timenow m \<noteq> 0 then WriteInt32ToArray 1 (stHeartBeat_C_timenow m) buf target else Inr (buf, target))
       (\<lambda>(buf, target).
     if have_unknown_fields (internal_metadata m)
     then emit (rt_unknown_bytes R (unknown_fields R (internal_metadata m))) buf target else Inr (buf, target))"

definition stHeartBeat_C_ByteSizeLong :: "('i, 'u, 'w) runtime \<Rightarrow> 'u stHeartBeat_C \<Rightarrow> 'u stHeartBeat_C \<times> nat" where
  "stHeartBeat_C_ByteSizeLong R m =
     (let total_size = 0;
          total_size = (if have_unknown_fields (internal_metadata m)
            then size_t (total_size + rt_unknown_size R (unknown_fields R (internal_metadata m))) else total_size);
          total_size = (if stHeartBeat_C_timenow m \<noteq> 0 then size_t (total_size + (1 + Int32Size (stHeartBeat_C_timenow m))) else total_size)
      in (stHeartBeat_C_SetCachedSize m (ToCachedSize total_size), total_size))"

section \<open>The contract\<close>

text \<open>What a user sees of a message, its reference encoding, and the messages below 2 GiB.\<close>

definition stHeartBeat_C_content :: "('i, 'u, 'w) runtime \<Rightarrow> 'u stHeartBeat_C \<Rightarrow> 32 word \<times> byte list" where
  "stHeartBeat_C_content R m = (f_timenow m, unknown_bytes R (internal_metadata m))"

definition stHeartBeat_C_wire :: "32 word \<times> byte list \<Rightarrow> byte list" where
  "stHeartBeat_C_wire = (\<lambda>(v, u). (if v \<noteq> 0 then 8 # varint (unat (scast v :: 64 word)) else []) @ u)"

definition stHeartBeat_C_valid :: "32 word \<times> byte list \<Rightarrow> bool" where
  "stHeartBeat_C_valid = (\<lambda>(v, u). length u < 2 ^ 31)"

definition stHeartBeat_C_readable :: "32 word \<times> byte list \<Rightarrow> bool" where
  "stHeartBeat_C_readable = (\<lambda>(v, u). u = [])"

definition stHeartBeat_C_merged :: "32 word \<times> byte list \<Rightarrow> 32 word \<times> byte list \<Rightarrow> 32 word \<times> byte list" where
  "stHeartBeat_C_merged = (\<lambda>(v, u) (v', u'). (if v' \<noteq> 0 then v' else v, u @ u'))"

lemmas stHeartBeat_C_defs = stHeartBeat_C_content_def stHeartBeat_C_wire_def stHeartBeat_C_valid_def
  stHeartBeat_C_readable_def stHeartBeat_C_merged_def stHeartBeat_C_timenow_def stHeartBeat_C_set_timenow_def
  new_stHeartBeat_C_def stHeartBeat_C_SharedCtor_def

context protobuf_runtime
begin

lemma stHeartBeat_C_parse_field:
  assumes "IsFlat s" and "cis_buffer s = 8 # varint (unat (scast v :: 64 word)) @ r"
  shows "stHeartBeat_C_MergePartialFromCodedStream R s m =
    stHeartBeat_C_MergePartialFromCodedStream R (s\<lparr>cis_buffer := r\<rparr>) (m\<lparr>f_timenow := v\<rparr>)"
proof -
  let ?s = "s\<lparr>cis_buffer := varint (unat (scast v :: 64 word)) @ r\<rparr>"
  have "ReadTagWithCutoffNoLastTag R s 127 = (?s, 8, True)"
    using ReadTag_byte [OF assms(2)] by simp
  moreover have "ReadVarint32 R ?s = (s\<lparr>cis_buffer := r\<rparr>, v, True)"
    using ReadVarint_eq(3) [OF flat_reads_axioms, of ?s v r] assms(1) by (simp add: IsFlat_def)
  then have "ReadPrimitive_INT32 R ?s v0 = (s\<lparr>cis_buffer := r\<rparr>, v, True)" for v0
    by (simp add: ReadPrimitive_INT32_def)
  moreover have "GetTagFieldNumber 8 = 1" by code_simp
  ultimately show ?thesis
    by (subst stHeartBeat_C_MergePartialFromCodedStream.simps) simp
qed

lemma stHeartBeat_C_parse_end:
  assumes "IsFlat s" and "cis_buffer s = []" and "current_limit s = total_bytes_read s"
  shows "stHeartBeat_C_MergePartialFromCodedStream R s m = Some (s\<lparr>legitimate_message_end := True\<rparr>, m, True)"
  using ReadTag_end [OF assms] by (subst stHeartBeat_C_MergePartialFromCodedStream.simps) simp

lemma stHeartBeat_C_size:
  assumes "stHeartBeat_C_valid (stHeartBeat_C_content R m)"
  shows "snd (stHeartBeat_C_ByteSizeLong R m) = length (stHeartBeat_C_wire (stHeartBeat_C_content R m))"
proof -
  have "length (varint (unat (scast (f_timenow m) :: 64 word))) \<le> 10" by (rule length_varint64)
  moreover have "length (unknown_bytes R (internal_metadata m)) < 2 ^ 31"
    using assms by (simp add: stHeartBeat_C_defs)
  ultimately show ?thesis
    unfolding stHeartBeat_C_ByteSizeLong_def Let_def unknown_part
    by (simp add: stHeartBeat_C_defs Int32Size_eq size_t_def)
qed

end

sublocale protobuf_runtime < hb_c: proto_message new_stHeartBeat_C "stHeartBeat_C_content R" stHeartBeat_C_valid
  stHeartBeat_C_readable stHeartBeat_C_wire stHeartBeat_C_merged "stHeartBeat_C_Clear R" "stHeartBeat_C_MergeFrom R"
  "stHeartBeat_C_CopyFrom R" "stHeartBeat_C_ByteSizeLong R" "stHeartBeat_C_InternalSerializeWithCachedSizesToArray R"
  "stHeartBeat_C_SerializeWithCachedSizes R" written "stHeartBeat_C_MergePartialFromCodedStream R"
  "stHeartBeat_C_InternalSwap R"
proof unfold_locales
  fix m src :: "'u stHeartBeat_C"
  show "stHeartBeat_C_content R (stHeartBeat_C_Clear R m) = stHeartBeat_C_content R new_stHeartBeat_C"
    by (simp add: stHeartBeat_C_defs stHeartBeat_C_Clear_def)
  show "stHeartBeat_C_content R (stHeartBeat_C_MergeFrom R m src) =
      stHeartBeat_C_merged (stHeartBeat_C_content R m) (stHeartBeat_C_content R src)"
    by (simp add: stHeartBeat_C_defs stHeartBeat_C_MergeFrom_def Let_def)
next
  fix c c1 c2 c3 :: "32 word \<times> byte list"
  show "stHeartBeat_C_merged (stHeartBeat_C_content R new_stHeartBeat_C) c = c"
    by (simp add: stHeartBeat_C_defs split: prod.split)
  show "stHeartBeat_C_merged (stHeartBeat_C_merged c1 c2) c3 = stHeartBeat_C_merged c1 (stHeartBeat_C_merged c2 c3)"
    by (simp add: stHeartBeat_C_defs split: prod.split)
next
  fix same and m src :: "'u stHeartBeat_C"
  show "stHeartBeat_C_CopyFrom R same m src = (if same then m else stHeartBeat_C_MergeFrom R (stHeartBeat_C_Clear R m) src)"
    by (rule stHeartBeat_C_CopyFrom_def)
next
  fix m :: "'u stHeartBeat_C"
  assume "stHeartBeat_C_valid (stHeartBeat_C_content R m)"
  then show "stHeartBeat_C_content R (fst (stHeartBeat_C_ByteSizeLong R m)) = stHeartBeat_C_content R m \<and>
      snd (stHeartBeat_C_ByteSizeLong R m) = length (stHeartBeat_C_wire (stHeartBeat_C_content R m))"
    by (simp add: stHeartBeat_C_size) (simp add: stHeartBeat_C_ByteSizeLong_def Let_def stHeartBeat_C_SetCachedSize_def stHeartBeat_C_content_def)
next
  fix m :: "'u stHeartBeat_C" and p buf
  assume "0 \<le> p" "p \<le> int (length (buf :: mem))"
  then show "stHeartBeat_C_InternalSerializeWithCachedSizesToArray R m buf p =
      emit (stHeartBeat_C_wire (stHeartBeat_C_content R m)) buf p"
    by (simp only: stHeartBeat_C_InternalSerializeWithCachedSizesToArray_def emit_simps tag_bytes_1 emit_optional
      emit_unknown) (simp add: stHeartBeat_C_defs)
next
  fix m :: "'u stHeartBeat_C" and w :: 'w
  show "written (stHeartBeat_C_SerializeWithCachedSizes R m w) = written w @ stHeartBeat_C_wire (stHeartBeat_C_content R m)"
    by (simp add: stHeartBeat_C_SerializeWithCachedSizes_def Let_def written_unknown int32 tag_bytes_1 stHeartBeat_C_defs)
next
  fix c r and s :: "'i CodedInputStream" and m :: "'u stHeartBeat_C"
  assume "stHeartBeat_C_readable c" "IsFlat s" "cis_buffer s = stHeartBeat_C_wire c @ r"
  then show "\<exists>m'. stHeartBeat_C_MergePartialFromCodedStream R s m =
        stHeartBeat_C_MergePartialFromCodedStream R (s\<lparr>cis_buffer := r\<rparr>) m' \<and>
      stHeartBeat_C_content R m' = stHeartBeat_C_merged (stHeartBeat_C_content R m) c"
    using stHeartBeat_C_parse_field [of s "fst c" r m]
    by (cases "fst c = 0") (auto simp add: stHeartBeat_C_defs split: prod.splits)
next
  fix s :: "'i CodedInputStream" and m :: "'u stHeartBeat_C"
  assume "IsFlat s" "cis_buffer s = []" "current_limit s = total_bytes_read s"
  then show "stHeartBeat_C_MergePartialFromCodedStream R s m = Some (s\<lparr>legitimate_message_end := True\<rparr>, m, True)"
    by (rule stHeartBeat_C_parse_end)
next
  fix a b :: "'u stHeartBeat_C"
  show "map_prod (stHeartBeat_C_content R) (stHeartBeat_C_content R) (stHeartBeat_C_InternalSwap R a b) =
      (stHeartBeat_C_content R b, stHeartBeat_C_content R a)"
    using unknown_swap [of "internal_metadata a" "internal_metadata b"]
    by (simp add: stHeartBeat_C_InternalSwap_def stHeartBeat_C_content_def split: prod.splits)
qed
end
