(* ===== verification/HeartBeat_S.thy ===== *)
theory HeartBeat_S
  imports MessageFields
begin

text \<open>
  The generated class \<open>stHeartBeat_S\<close> of \<open>src/proto/pb/messageStruct.pb.h\<close> and \<open>.pb.cc\<close>: the heart beat the server answers, with its time in field 1.
  Its operations meet the contract \<open>proto_message\<close>.
\<close>

record 'u stHeartBeat_S = "'u generated_message" +
  f_timenow :: "32 word"

section \<open>Accessors\<close>

definition stHeartBeat_S_clear_timenow :: "'u stHeartBeat_S \<Rightarrow> 'u stHeartBeat_S" where
  "stHeartBeat_S_clear_timenow m = m\<lparr>f_timenow := 0\<rparr>"

definition stHeartBeat_S_timenow :: "'u stHeartBeat_S \<Rightarrow> 32 word" where
  "stHeartBeat_S_timenow m = f_timenow m"

definition stHeartBeat_S_set_timenow :: "'u stHeartBeat_S \<Rightarrow> 32 word \<Rightarrow> 'u stHeartBeat_S" where
  "stHeartBeat_S_set_timenow m val = m\<lparr>f_timenow := val\<rparr>"

section \<open>Construction, copying, clearing\<close>

definition stHeartBeat_S_SharedCtor :: "'u stHeartBeat_S \<Rightarrow> 'u stHeartBeat_S" where
  "stHeartBeat_S_SharedCtor m = m\<lparr>f_timenow := 0\<rparr>"

definition new_stHeartBeat_S :: "'u stHeartBeat_S" where
  "new_stHeartBeat_S = stHeartBeat_S_SharedCtor \<lparr>internal_metadata = None, cached_size = 0, f_timenow = 0\<rparr>"

definition copy_stHeartBeat_S :: "('i, 'u, 'w) runtime \<Rightarrow> 'u stHeartBeat_S \<Rightarrow> 'u stHeartBeat_S" where
  "copy_stHeartBeat_S R from =
     \<lparr>internal_metadata = Metadata_MergeFrom R None (internal_metadata from), cached_size = 0,
      f_timenow = f_timenow from\<rparr>"

definition stHeartBeat_S_SetCachedSize :: "'u stHeartBeat_S \<Rightarrow> int \<Rightarrow> 'u stHeartBeat_S" where
  "stHeartBeat_S_SetCachedSize m n = m\<lparr>cached_size := n\<rparr>"

definition stHeartBeat_S_GetCachedSize :: "'u stHeartBeat_S \<Rightarrow> int" where
  "stHeartBeat_S_GetCachedSize m = cached_size m"

definition stHeartBeat_S_Clear :: "('i, 'u, 'w) runtime \<Rightarrow> 'u stHeartBeat_S \<Rightarrow> 'u stHeartBeat_S" where
  "stHeartBeat_S_Clear R m =
     (let m = m\<lparr>f_timenow := 0\<rparr>
      in m\<lparr>internal_metadata := Metadata_Clear R (internal_metadata m)\<rparr>)"

definition stHeartBeat_S_MergeFrom :: "('i, 'u, 'w) runtime \<Rightarrow> 'u stHeartBeat_S \<Rightarrow> 'u stHeartBeat_S \<Rightarrow> 'u stHeartBeat_S" where
  "stHeartBeat_S_MergeFrom R m from =
     (let m = m\<lparr>internal_metadata := Metadata_MergeFrom R (internal_metadata m) (internal_metadata from)\<rparr>
      in if stHeartBeat_S_timenow from \<noteq> 0 then stHeartBeat_S_set_timenow m (stHeartBeat_S_timenow from) else m)"

text \<open>The overload for any message: \<open>None\<close> is a failed cast, \<open>reflection\<close> what \<open>ReflectionOps::Merge\<close> does then.\<close>

definition stHeartBeat_S_MergeFrom_Message :: "('i, 'u, 'w) runtime \<Rightarrow> ('u stHeartBeat_S \<Rightarrow> 'u stHeartBeat_S) \<Rightarrow>
    'u stHeartBeat_S \<Rightarrow> 'u stHeartBeat_S option \<Rightarrow> 'u stHeartBeat_S" where
  "stHeartBeat_S_MergeFrom_Message R reflection m src =
     (case src of None \<Rightarrow> reflection m | Some from \<Rightarrow> stHeartBeat_S_MergeFrom R m from)"

text \<open>\<open>same\<close>: the argument is the object itself.\<close>

definition stHeartBeat_S_CopyFrom :: "('i, 'u, 'w) runtime \<Rightarrow> bool \<Rightarrow> 'u stHeartBeat_S \<Rightarrow> 'u stHeartBeat_S \<Rightarrow> 'u stHeartBeat_S" where
  "stHeartBeat_S_CopyFrom R same m from =
     (if same then m else stHeartBeat_S_MergeFrom R (stHeartBeat_S_Clear R m) from)"

definition stHeartBeat_S_CopyFrom_Message :: "('i, 'u, 'w) runtime \<Rightarrow> ('u stHeartBeat_S \<Rightarrow> 'u stHeartBeat_S) \<Rightarrow> bool \<Rightarrow>
    'u stHeartBeat_S \<Rightarrow> 'u stHeartBeat_S option \<Rightarrow> 'u stHeartBeat_S" where
  "stHeartBeat_S_CopyFrom_Message R reflection same m src =
     (if same then m else stHeartBeat_S_MergeFrom_Message R reflection (stHeartBeat_S_Clear R m) src)"

definition stHeartBeat_S_assign :: "('i, 'u, 'w) runtime \<Rightarrow> bool \<Rightarrow> 'u stHeartBeat_S \<Rightarrow> 'u stHeartBeat_S \<Rightarrow> 'u stHeartBeat_S" where
  "stHeartBeat_S_assign R same m from = stHeartBeat_S_CopyFrom R same m from"

definition stHeartBeat_S_IsInitialized :: "'u stHeartBeat_S \<Rightarrow> bool" where
  "stHeartBeat_S_IsInitialized m = True"

definition stHeartBeat_S_InternalSwap :: "('i, 'u, 'w) runtime \<Rightarrow> 'u stHeartBeat_S \<Rightarrow> 'u stHeartBeat_S \<Rightarrow>
    'u stHeartBeat_S \<times> 'u stHeartBeat_S" where
  "stHeartBeat_S_InternalSwap R m other =
     (case Metadata_Swap R (internal_metadata m) (internal_metadata other) of
        (d, e) \<Rightarrow> (m\<lparr>internal_metadata := d, f_timenow := f_timenow other\<rparr>,
                   other\<lparr>internal_metadata := e, f_timenow := f_timenow m\<rparr>))"

definition stHeartBeat_S_Swap :: "('i, 'u, 'w) runtime \<Rightarrow> bool \<Rightarrow> 'u stHeartBeat_S \<Rightarrow> 'u stHeartBeat_S \<Rightarrow>
    'u stHeartBeat_S \<times> 'u stHeartBeat_S" where
  "stHeartBeat_S_Swap R same m other = (if same then (m, other) else stHeartBeat_S_InternalSwap R m other)"

text \<open>Move assignment: no message has an arena, so the two are swapped.\<close>

definition stHeartBeat_S_move_assign :: "('i, 'u, 'w) runtime \<Rightarrow> bool \<Rightarrow> 'u stHeartBeat_S \<Rightarrow> 'u stHeartBeat_S \<Rightarrow>
    'u stHeartBeat_S \<times> 'u stHeartBeat_S" where
  "stHeartBeat_S_move_assign R same m from = (if \<not> same then stHeartBeat_S_InternalSwap R m from else (m, from))"

definition stHeartBeat_S_move :: "('i, 'u, 'w) runtime \<Rightarrow> 'u stHeartBeat_S \<Rightarrow> 'u stHeartBeat_S \<times> 'u stHeartBeat_S" where
  "stHeartBeat_S_move R from = stHeartBeat_S_move_assign R False new_stHeartBeat_S from"

section \<open>Parsing and serializing\<close>

text \<open>The loop of \<open>MergePartialFromCodedStream\<close>; \<open>None\<close> is a stream that never ends.\<close>

definition stHeartBeat_S_unusual :: "('i, 'u, 'w) runtime \<Rightarrow> 'i CodedInputStream \<Rightarrow> 32 word \<Rightarrow> 'u stHeartBeat_S \<Rightarrow>
    'i CodedInputStream \<times> 'u stHeartBeat_S \<times> bool" where
  "stHeartBeat_S_unusual R s t m =
     (case rt_SkipField R s t (unknown_fields R (mutable_unknown_fields R (internal_metadata m))) of
        (s, u, ok) \<Rightarrow> (s, m\<lparr>internal_metadata := Some u\<rparr>, ok))"

partial_function (option) stHeartBeat_S_MergePartialFromCodedStream :: "('i, 'u, 'w) runtime \<Rightarrow> 'i CodedInputStream \<Rightarrow>
    'u stHeartBeat_S \<Rightarrow> ('i CodedInputStream \<times> 'u stHeartBeat_S \<times> bool) option" where
  "stHeartBeat_S_MergePartialFromCodedStream R s m =
     (case ReadTagWithCutoffNoLastTag R s 127 of
        (s, t, below) \<Rightarrow>
          if below \<and> GetTagFieldNumber t = 1 \<and> (ucast t :: byte) = 8 then
            (case ReadPrimitive_INT32 R s (f_timenow m) of
               (s, val, ok) \<Rightarrow>
                 if \<not> ok then Some (s, m\<lparr>f_timenow := val\<rparr>, False)
                 else stHeartBeat_S_MergePartialFromCodedStream R s (m\<lparr>f_timenow := val\<rparr>))
          else if t = 0 then Some (s, m, True)
          else (case stHeartBeat_S_unusual R s t m of
                  (s, m, ok) \<Rightarrow> if \<not> ok then Some (s, m, False) else stHeartBeat_S_MergePartialFromCodedStream R s m))"

definition stHeartBeat_S_SerializeWithCachedSizes :: "('i, 'u, 'w) runtime \<Rightarrow> 'u stHeartBeat_S \<Rightarrow> 'w \<Rightarrow> 'w" where
  "stHeartBeat_S_SerializeWithCachedSizes R m output =
     (let output = (if stHeartBeat_S_timenow m \<noteq> 0 then rt_WriteInt32 R 1 (stHeartBeat_S_timenow m) output else output)
      in if have_unknown_fields (internal_metadata m)
         then rt_SerializeUnknownFields R (unknown_fields R (internal_metadata m)) output else output)"

definition stHeartBeat_S_InternalSerializeWithCachedSizesToArray :: "('i, 'u, 'w) runtime \<Rightarrow> 'u stHeartBeat_S \<Rightarrow> mem \<Rightarrow> int \<Rightarrow>
    (mem \<times> int) res" where
  "stHeartBeat_S_InternalSerializeWithCachedSizesToArray R m buf target =
     bind_res (if stHeartBeat_S_timenow m \<noteq> 0 then WriteInt32ToArray 1 (stHeartBeat_S_timenow m) buf target else Inr (buf, target))
       (\<lambda>(buf, target).
     if have_unknown_fields (internal_metadata m)
     then emit (rt_unknown_bytes R (unknown_fields R (internal_metadata m))) buf target else Inr (buf, target))"

definition stHeartBeat_S_ByteSizeLong :: "('i, 'u, 'w) runtime \<Rightarrow> 'u stHeartBeat_S \<Rightarrow> 'u stHeartBeat_S \<times> nat" where
  "stHeartBeat_S_ByteSizeLong R m =
     (let total_size = 0;
          total_size = (if have_unknown_fields (internal_metadata m)
            then size_t (total_size + rt_unknown_size R (unknown_fields R (internal_metadata m))) else total_size);
          total_size = (if stHeartBeat_S_timenow m \<noteq> 0 then size_t (total_size + (1 + Int32Size (stHeartBeat_S_timenow m))) else total_size)
      in (stHeartBeat_S_SetCachedSize m (ToCachedSize total_size), total_size))"

section \<open>The contract\<close>

text \<open>What a user sees of a message, its reference encoding, and the messages below 2 GiB.\<close>

definition stHeartBeat_S_content :: "('i, 'u, 'w) runtime \<Rightarrow> 'u stHeartBeat_S \<Rightarrow> 32 word \<times> byte list" where
  "stHeartBeat_S_content R m = (f_timenow m, unknown_bytes R (internal_metadata m))"

definition stHeartBeat_S_wire :: "32 word \<times> byte list \<Rightarrow> byte list" where
  "stHeartBeat_S_wire = (\<lambda>(v, u). (if v \<noteq> 0 then 8 # varint (unat (scast v :: 64 word)) else []) @ u)"

definition stHeartBeat_S_valid :: "32 word \<times> byte list \<Rightarrow> bool" where
  "stHeartBeat_S_valid = (\<lambda>(v, u). length u < 2 ^ 31)"

definition stHeartBeat_S_readable :: "32 word \<times> byte list \<Rightarrow> bool" where
  "stHeartBeat_S_readable = (\<lambda>(v, u). u = [])"

definition stHeartBeat_S_merged :: "32 word \<times> byte list \<Rightarrow> 32 word \<times> byte list \<Rightarrow> 32 word \<times> byte list" where
  "stHeartBeat_S_merged = (\<lambda>(v, u) (v', u'). (if v' \<noteq> 0 then v' else v, u @ u'))"

lemmas stHeartBeat_S_defs = stHeartBeat_S_content_def stHeartBeat_S_wire_def stHeartBeat_S_valid_def
  stHeartBeat_S_readable_def stHeartBeat_S_merged_def stHeartBeat_S_timenow_def stHeartBeat_S_set_timenow_def
  new_stHeartBeat_S_def stHeartBeat_S_SharedCtor_def

context protobuf_runtime
begin

lemma stHeartBeat_S_parse_field:
  assumes "IsFlat s" and "cis_buffer s = 8 # varint (unat (scast v :: 64 word)) @ r"
  shows "stHeartBeat_S_MergePartialFromCodedStream R s m =
    stHeartBeat_S_MergePartialFromCodedStream R (s\<lparr>cis_buffer := r\<rparr>) (m\<lparr>f_timenow := v\<rparr>)"
proof -
  let ?s = "s\<lparr>cis_buffer := varint (unat (scast v :: 64 word)) @ r\<rparr>"
  have "ReadTagWithCutoffNoLastTag R s 127 = (?s, 8, True)"
    using ReadTag_byte [OF assms(2)] by simp
  moreover have "ReadVarint32 R ?s = (s\<lparr>cis_buffer := r\<rparr>, v, True)"
    using ReadVarint_eq(3) [OF flat_reads_axioms, of ?s v r] assms(1) by (simp add: IsFlat_def)
  then have "ReadPrimitive_INT32 R ?s v0 = (s\<lparr>cis_buffer := r\<rparr>, v, True)" for v0
    by (simp add: ReadPrimitive_INT32_def)
  moreover have "GetTagFieldNumber 8 = 1" by code_simp
  ultimately show ?thesis
    by (subst stHeartBeat_S_MergePartialFromCodedStream.simps) simp
qed

lemma stHeartBeat_S_parse_end:
  assumes "IsFlat s" and "cis_buffer s = []" and "current_limit s = total_bytes_read s"
  shows "stHeartBeat_S_MergePartialFromCodedStream R s m = Some (s\<lparr>legitimate_message_end := True\<rparr>, m, True)"
  using ReadTag_end [OF assms] by (subst stHeartBeat_S_MergePartialFromCodedStream.simps) simp

lemma stHeartBeat_S_size:
  assumes "stHeartBeat_S_valid (stHeartBeat_S_content R m)"
  shows "snd (stHeartBeat_S_ByteSizeLong R m) = length (stHeartBeat_S_wire (stHeartBeat_S_content R m))"
proof -
  have "length (varint (unat (scast (f_timenow m) :: 64 word))) \<le> 10" by (rule length_varint64)
  moreover have "length (unknown_bytes R (internal_metadata m)) < 2 ^ 31"
    using assms by (simp add: stHeartBeat_S_defs)
  ultimately show ?thesis
    unfolding stHeartBeat_S_ByteSizeLong_def Let_def unknown_part
    by (simp add: stHeartBeat_S_defs Int32Size_eq size_t_def)
qed

end

sublocale protobuf_runtime < hb_s: proto_message new_stHeartBeat_S "stHeartBeat_S_content R" stHeartBeat_S_valid
  stHeartBeat_S_readable stHeartBeat_S_wire stHeartBeat_S_merged "stHeartBeat_S_Clear R" "stHeartBeat_S_MergeFrom R"
  "stHeartBeat_S_CopyFrom R" "stHeartBeat_S_ByteSizeLong R" "stHeartBeat_S_InternalSerializeWithCachedSizesToArray R"
  "stHeartBeat_S_SerializeWithCachedSizes R" written "stHeartBeat_S_MergePartialFromCodedStream R"
  "stHeartBeat_S_InternalSwap R"
proof unfold_locales
  fix m src :: "'u stHeartBeat_S"
  show "stHeartBeat_S_content R (stHeartBeat_S_Clear R m) = stHeartBeat_S_content R new_stHeartBeat_S"
    by (simp add: stHeartBeat_S_defs stHeartBeat_S_Clear_def)
  show "stHeartBeat_S_content R (stHeartBeat_S_MergeFrom R m src) =
      stHeartBeat_S_merged (stHeartBeat_S_content R m) (stHeartBeat_S_content R src)"
    by (simp add: stHeartBeat_S_defs stHeartBeat_S_MergeFrom_def Let_def)
next
  fix c c1 c2 c3 :: "32 word \<times> byte list"
  show "stHeartBeat_S_merged (stHeartBeat_S_content R new_stHeartBeat_S) c = c"
    by (simp add: stHeartBeat_S_defs split: prod.split)
  show "stHeartBeat_S_merged (stHeartBeat_S_merged c1 c2) c3 = stHeartBeat_S_merged c1 (stHeartBeat_S_merged c2 c3)"
    by (simp add: stHeartBeat_S_defs split: prod.split)
next
  fix same and m src :: "'u stHeartBeat_S"
  show "stHeartBeat_S_CopyFrom R same m src = (if same then m else stHeartBeat_S_MergeFrom R (stHeartBeat_S_Clear R m) src)"
    by (rule stHeartBeat_S_CopyFrom_def)
next
  fix m :: "'u stHeartBeat_S"
  assume "stHeartBeat_S_valid (stHeartBeat_S_content R m)"
  then show "stHeartBeat_S_content R (fst (stHeartBeat_S_ByteSizeLong R m)) = stHeartBeat_S_content R m \<and>
      snd (stHeartBeat_S_ByteSizeLong R m) = length (stHeartBeat_S_wire (stHeartBeat_S_content R m))"
    by (simp add: stHeartBeat_S_size) (simp add: stHeartBeat_S_ByteSizeLong_def Let_def stHeartBeat_S_SetCachedSize_def stHeartBeat_S_content_def)
next
  fix m :: "'u stHeartBeat_S" and p buf
  assume "0 \<le> p" "p \<le> int (length (buf :: mem))"
  then show "stHeartBeat_S_InternalSerializeWithCachedSizesToArray R m buf p =
      emit (stHeartBeat_S_wire (stHeartBeat_S_content R m)) buf p"
    by (simp only: stHeartBeat_S_InternalSerializeWithCachedSizesToArray_def emit_simps tag_bytes_1 emit_optional
      emit_unknown) (simp add: stHeartBeat_S_defs)
next
  fix m :: "'u stHeartBeat_S" and w :: 'w
  show "written (stHeartBeat_S_SerializeWithCachedSizes R m w) = written w @ stHeartBeat_S_wire (stHeartBeat_S_content R m)"
    by (simp add: stHeartBeat_S_SerializeWithCachedSizes_def Let_def written_unknown int32 tag_bytes_1 stHeartBeat_S_defs)
next
  fix c r and s :: "'i CodedInputStream" and m :: "'u stHeartBeat_S"
  assume "stHeartBeat_S_readable c" "IsFlat s" "cis_buffer s = stHeartBeat_S_wire c @ r"
  then show "\<exists>m'. stHeartBeat_S_MergePartialFromCodedStream R s m =
        stHeartBeat_S_MergePartialFromCodedStream R (s\<lparr>cis_buffer := r\<rparr>) m' \<and>
      stHeartBeat_S_content R m' = stHeartBeat_S_merged (stHeartBeat_S_content R m) c"
    using stHeartBeat_S_parse_field [of s "fst c" r m]
    by (cases "fst c = 0") (auto simp add: stHeartBeat_S_defs split: prod.splits)
next
  fix s :: "'i CodedInputStream" and m :: "'u stHeartBeat_S"
  assume "IsFlat s" "cis_buffer s = []" "current_limit s = total_bytes_read s"
  then show "stHeartBeat_S_MergePartialFromCodedStream R s m = Some (s\<lparr>legitimate_message_end := True\<rparr>, m, True)"
    by (rule stHeartBeat_S_parse_end)
next
  fix a b :: "'u stHeartBeat_S"
  show "map_prod (stHeartBeat_S_content R) (stHeartBeat_S_content R) (stHeartBeat_S_InternalSwap R a b) =
      (stHeartBeat_S_content R b, stHeartBeat_S_content R a)"
    using unknown_swap [of "internal_metadata a" "internal_metadata b"]
    by (simp add: stHeartBeat_S_InternalSwap_def stHeartBeat_S_content_def split: prod.splits)
qed
end
