(* ===== verification/Login_C.thy ===== *)
theory Login_C
  imports MessageFields
begin

text \<open>
  The generated class \<open>stLogin_C\<close> of \<open>src/proto/pb/messageStruct.pb.h\<close> and \<open>.pb.cc\<close>: the login request, with the
  user name in field 1 and the password in field 2.  Its operations meet the contract \<open>proto_message\<close>.
\<close>

record 'u stLogin_C = "'u generated_message" +
  f_username :: ArenaStringPtr
  f_password :: ArenaStringPtr

section \<open>Accessors\<close>

text \<open>The \<open>std::string\<close> made of a NUL-terminated array, and of \<open>n\<close> bytes at a pointer.\<close>

definition string_of_char :: "byte list \<Rightarrow> byte list res" where
  "string_of_char bs = (if 0 \<in> set bs then Inr (takeWhile (\<lambda>b. b \<noteq> 0) bs) else Inl Out_of_bounds)"

definition string_of_pointer :: "byte list \<Rightarrow> nat \<Rightarrow> byte list res" where
  "string_of_pointer bs n = (if n \<le> length bs then Inr (take n bs) else Inl Out_of_bounds)"

definition stLogin_C_clear_username :: "'u stLogin_C \<Rightarrow> 'u stLogin_C" where
  "stLogin_C_clear_username m = m\<lparr>f_username := ClearToEmptyNoArena (f_username m)\<rparr>"

definition stLogin_C_username :: "'u stLogin_C \<Rightarrow> byte list" where
  "stLogin_C_username m = GetNoArena (f_username m)"

definition stLogin_C_set_username :: "'u stLogin_C \<Rightarrow> byte list \<Rightarrow> 'u stLogin_C" where
  "stLogin_C_set_username m val = m\<lparr>f_username := SetNoArena (f_username m) val\<rparr>"

definition stLogin_C_set_username_move :: "'u stLogin_C \<Rightarrow> byte list \<Rightarrow> 'u stLogin_C" where
  "stLogin_C_set_username_move m val = m\<lparr>f_username := SetNoArena (f_username m) val\<rparr>"

definition stLogin_C_set_username_char :: "'u stLogin_C \<Rightarrow> byte list option \<Rightarrow> 'u stLogin_C res" where
  "stLogin_C_set_username_char m val =
     bind_res (deref val) (\<lambda>bs. bind_res (string_of_char bs) (\<lambda>str.
     Inr (m\<lparr>f_username := SetNoArena (f_username m) str\<rparr>)))"

definition stLogin_C_set_username_pointer :: "'u stLogin_C \<Rightarrow> byte list option \<Rightarrow> nat \<Rightarrow> 'u stLogin_C res" where
  "stLogin_C_set_username_pointer m val n =
     bind_res (deref val) (\<lambda>bs. bind_res (string_of_pointer bs n) (\<lambda>str.
     Inr (m\<lparr>f_username := SetNoArena (f_username m) str\<rparr>)))"

definition stLogin_C_mutable_username :: "'u stLogin_C \<Rightarrow> 'u stLogin_C" where
  "stLogin_C_mutable_username m = m\<lparr>f_username := MutableNoArena (f_username m)\<rparr>"

definition stLogin_C_release_username :: "'u stLogin_C \<Rightarrow> 'u stLogin_C \<times> byte list option" where
  "stLogin_C_release_username m =
     (case ReleaseNoArena (f_username m) of (p, released) \<Rightarrow> (m\<lparr>f_username := p\<rparr>, released))"

definition stLogin_C_set_allocated_username :: "'u stLogin_C \<Rightarrow> byte list option \<Rightarrow> 'u stLogin_C" where
  "stLogin_C_set_allocated_username m val = m\<lparr>f_username := SetAllocatedNoArena (f_username m) val\<rparr>"

definition stLogin_C_clear_password :: "'u stLogin_C \<Rightarrow> 'u stLogin_C" where
  "stLogin_C_clear_password m = m\<lparr>f_password := ClearToEmptyNoArena (f_password m)\<rparr>"

definition stLogin_C_password :: "'u stLogin_C \<Rightarrow> byte list" where
  "stLogin_C_password m = GetNoArena (f_password m)"

definition stLogin_C_set_password :: "'u stLogin_C \<Rightarrow> byte list \<Rightarrow> 'u stLogin_C" where
  "stLogin_C_set_password m val = m\<lparr>f_password := SetNoArena (f_password m) val\<rparr>"

definition stLogin_C_set_password_move :: "'u stLogin_C \<Rightarrow> byte list \<Rightarrow> 'u stLogin_C" where
  "stLogin_C_set_password_move m val = m\<lparr>f_password := SetNoArena (f_password m) val\<rparr>"

definition stLogin_C_set_password_char :: "'u stLogin_C \<Rightarrow> byte list option \<Rightarrow> 'u stLogin_C res" where
  "stLogin_C_set_password_char m val =
     bind_res (deref val) (\<lambda>bs. bind_res (string_of_char bs) (\<lambda>str.
     Inr (m\<lparr>f_password := SetNoArena (f_password m) str\<rparr>)))"

definition stLogin_C_set_password_pointer :: "'u stLogin_C \<Rightarrow> byte list option \<Rightarrow> nat \<Rightarrow> 'u stLogin_C res" where
  "stLogin_C_set_password_pointer m val n =
     bind_res (deref val) (\<lambda>bs. bind_res (string_of_pointer bs n) (\<lambda>str.
     Inr (m\<lparr>f_password := SetNoArena (f_password m) str\<rparr>)))"

definition stLogin_C_mutable_password :: "'u stLogin_C \<Rightarrow> 'u stLogin_C" where
  "stLogin_C_mutable_password m = m\<lparr>f_password := MutableNoArena (f_password m)\<rparr>"

definition stLogin_C_release_password :: "'u stLogin_C \<Rightarrow> 'u stLogin_C \<times> byte list option" where
  "stLogin_C_release_password m =
     (case ReleaseNoArena (f_password m) of (p, released) \<Rightarrow> (m\<lparr>f_password := p\<rparr>, released))"

definition stLogin_C_set_allocated_password :: "'u stLogin_C \<Rightarrow> byte list option \<Rightarrow> 'u stLogin_C" where
  "stLogin_C_set_allocated_password m val = m\<lparr>f_password := SetAllocatedNoArena (f_password m) val\<rparr>"

section \<open>Construction, copying, clearing\<close>

definition stLogin_C_SharedCtor :: "'u stLogin_C \<Rightarrow> 'u stLogin_C" where
  "stLogin_C_SharedCtor m =
     m\<lparr>f_username := UnsafeSetDefault (f_username m), f_password := UnsafeSetDefault (f_password m)\<rparr>"

definition new_stLogin_C :: "'u stLogin_C" where
  "new_stLogin_C =
     stLogin_C_SharedCtor \<lparr>internal_metadata = None, cached_size = 0, f_username = None, f_password = None\<rparr>"

definition copy_stLogin_C :: "('i, 'u, 'w) runtime \<Rightarrow> 'u stLogin_C \<Rightarrow> 'u stLogin_C" where
  "copy_stLogin_C R src =
     (let m = \<lparr>internal_metadata = Metadata_MergeFrom R None (internal_metadata src), cached_size = 0,
               f_username = None, f_password = None\<rparr>;
          m = m\<lparr>f_username := UnsafeSetDefault (f_username m)\<rparr>;
          m = (if 0 < length (stLogin_C_username src)
               then m\<lparr>f_username := AssignWithDefault (f_username m) (f_username src)\<rparr> else m);
          m = m\<lparr>f_password := UnsafeSetDefault (f_password m)\<rparr>
      in if 0 < length (stLogin_C_password src)
         then m\<lparr>f_password := AssignWithDefault (f_password m) (f_password src)\<rparr> else m)"

definition stLogin_C_SetCachedSize :: "'u stLogin_C \<Rightarrow> int \<Rightarrow> 'u stLogin_C" where
  "stLogin_C_SetCachedSize m n = m\<lparr>cached_size := n\<rparr>"

definition stLogin_C_GetCachedSize :: "'u stLogin_C \<Rightarrow> int" where
  "stLogin_C_GetCachedSize m = cached_size m"

definition stLogin_C_Clear :: "('i, 'u, 'w) runtime \<Rightarrow> 'u stLogin_C \<Rightarrow> 'u stLogin_C" where
  "stLogin_C_Clear R m =
     (let m = m\<lparr>f_username := ClearToEmptyNoArena (f_username m)\<rparr>;
          m = m\<lparr>f_password := ClearToEmptyNoArena (f_password m)\<rparr>
      in m\<lparr>internal_metadata := Metadata_Clear R (internal_metadata m)\<rparr>)"

definition stLogin_C_MergeFrom :: "('i, 'u, 'w) runtime \<Rightarrow> 'u stLogin_C \<Rightarrow> 'u stLogin_C \<Rightarrow> 'u stLogin_C" where
  "stLogin_C_MergeFrom R m src =
     (let m = m\<lparr>internal_metadata := Metadata_MergeFrom R (internal_metadata m) (internal_metadata src)\<rparr>;
          m = (if 0 < length (stLogin_C_username src)
               then m\<lparr>f_username := AssignWithDefault (f_username m) (f_username src)\<rparr> else m)
      in if 0 < length (stLogin_C_password src)
         then m\<lparr>f_password := AssignWithDefault (f_password m) (f_password src)\<rparr> else m)"

text \<open>The overload for any message: \<open>None\<close> is a failed cast, \<open>reflection\<close> what \<open>ReflectionOps::Merge\<close> does then.\<close>

definition stLogin_C_MergeFrom_Message :: "('i, 'u, 'w) runtime \<Rightarrow> ('u stLogin_C \<Rightarrow> 'u stLogin_C) \<Rightarrow>
    'u stLogin_C \<Rightarrow> 'u stLogin_C option \<Rightarrow> 'u stLogin_C" where
  "stLogin_C_MergeFrom_Message R reflection m other =
     (case other of None \<Rightarrow> reflection m | Some src \<Rightarrow> stLogin_C_MergeFrom R m src)"

text \<open>\<open>same\<close>: the argument is the object itself.\<close>

definition stLogin_C_CopyFrom :: "('i, 'u, 'w) runtime \<Rightarrow> bool \<Rightarrow> 'u stLogin_C \<Rightarrow> 'u stLogin_C \<Rightarrow> 'u stLogin_C" where
  "stLogin_C_CopyFrom R same m src = (if same then m else stLogin_C_MergeFrom R (stLogin_C_Clear R m) src)"

definition stLogin_C_CopyFrom_Message :: "('i, 'u, 'w) runtime \<Rightarrow> ('u stLogin_C \<Rightarrow> 'u stLogin_C) \<Rightarrow> bool \<Rightarrow>
    'u stLogin_C \<Rightarrow> 'u stLogin_C option \<Rightarrow> 'u stLogin_C" where
  "stLogin_C_CopyFrom_Message R reflection same m other =
     (if same then m else stLogin_C_MergeFrom_Message R reflection (stLogin_C_Clear R m) other)"

definition stLogin_C_assign :: "('i, 'u, 'w) runtime \<Rightarrow> bool \<Rightarrow> 'u stLogin_C \<Rightarrow> 'u stLogin_C \<Rightarrow> 'u stLogin_C" where
  "stLogin_C_assign R same m src = stLogin_C_CopyFrom R same m src"

definition stLogin_C_IsInitialized :: "'u stLogin_C \<Rightarrow> bool" where
  "stLogin_C_IsInitialized m = True"

definition stLogin_C_InternalSwap :: "('i, 'u, 'w) runtime \<Rightarrow> bool \<Rightarrow> 'u stLogin_C \<Rightarrow> 'u stLogin_C \<Rightarrow>
    'u stLogin_C \<times> 'u stLogin_C" where
  "stLogin_C_InternalSwap R debug m other =
     (case Metadata_Swap R (internal_metadata m) (internal_metadata other) of (d, e) \<Rightarrow>
      case ArenaStringPtr_Swap debug (f_username m) (f_username other) of (u, u') \<Rightarrow>
      case ArenaStringPtr_Swap debug (f_password m) (f_password other) of (p, p') \<Rightarrow>
        (m\<lparr>internal_metadata := d, f_username := u, f_password := p\<rparr>,
         other\<lparr>internal_metadata := e, f_username := u', f_password := p'\<rparr>))"

definition stLogin_C_Swap :: "('i, 'u, 'w) runtime \<Rightarrow> bool \<Rightarrow> bool \<Rightarrow> 'u stLogin_C \<Rightarrow> 'u stLogin_C \<Rightarrow>
    'u stLogin_C \<times> 'u stLogin_C" where
  "stLogin_C_Swap R debug same m other = (if same then (m, other) else stLogin_C_InternalSwap R debug m other)"

text \<open>Move assignment: no message has an arena, so the two are swapped.\<close>

definition stLogin_C_move_assign :: "('i, 'u, 'w) runtime \<Rightarrow> bool \<Rightarrow> bool \<Rightarrow> 'u stLogin_C \<Rightarrow> 'u stLogin_C \<Rightarrow>
    'u stLogin_C \<times> 'u stLogin_C" where
  "stLogin_C_move_assign R debug same m src = (if \<not> same then stLogin_C_InternalSwap R debug m src else (m, src))"

definition stLogin_C_move :: "('i, 'u, 'w) runtime \<Rightarrow> bool \<Rightarrow> 'u stLogin_C \<Rightarrow> 'u stLogin_C \<times> 'u stLogin_C" where
  "stLogin_C_move R debug src = stLogin_C_move_assign R debug False new_stLogin_C src"

section \<open>Parsing and serializing\<close>

text \<open>
  The loop of \<open>MergePartialFromCodedStream\<close>; \<open>None\<close> is a stream that never ends.  A string is read into the field
  first and then checked to be UTF-8.
\<close>

definition stLogin_C_unusual :: "('i, 'u, 'w) runtime \<Rightarrow> 'i CodedInputStream \<Rightarrow> 32 word \<Rightarrow> 'u stLogin_C \<Rightarrow>
    'i CodedInputStream \<times> 'u stLogin_C \<times> bool" where
  "stLogin_C_unusual R s t m =
     (case rt_SkipField R s t (unknown_fields R (mutable_unknown_fields R (internal_metadata m))) of
        (s, u, ok) \<Rightarrow> (s, m\<lparr>internal_metadata := Some u\<rparr>, ok))"

definition stLogin_C_read_username :: "('i, 'u, 'w) runtime \<Rightarrow> 'i CodedInputStream \<Rightarrow> 'u stLogin_C \<Rightarrow>
    'i CodedInputStream \<times> 'u stLogin_C \<times> bool" where
  "stLogin_C_read_username R s m =
     (let m = stLogin_C_mutable_username m
      in case ReadString R s (GetNoArena (f_username m)) of (s, str, ok) \<Rightarrow>
           let m = m\<lparr>f_username := Some str\<rparr>
           in (s, m, ok \<and> rt_VerifyUtf8String R (stLogin_C_username m)))"

definition stLogin_C_read_password :: "('i, 'u, 'w) runtime \<Rightarrow> 'i CodedInputStream \<Rightarrow> 'u stLogin_C \<Rightarrow>
    'i CodedInputStream \<times> 'u stLogin_C \<times> bool" where
  "stLogin_C_read_password R s m =
     (let m = stLogin_C_mutable_password m
      in case ReadString R s (GetNoArena (f_password m)) of (s, str, ok) \<Rightarrow>
           let m = m\<lparr>f_password := Some str\<rparr>
           in (s, m, ok \<and> rt_VerifyUtf8String R (stLogin_C_password m)))"

partial_function (option) stLogin_C_MergePartialFromCodedStream :: "('i, 'u, 'w) runtime \<Rightarrow> 'i CodedInputStream \<Rightarrow>
    'u stLogin_C \<Rightarrow> ('i CodedInputStream \<times> 'u stLogin_C \<times> bool) option" where
  "stLogin_C_MergePartialFromCodedStream R s m =
     (case ReadTagWithCutoffNoLastTag R s 127 of
        (s, t, below) \<Rightarrow>
          if below \<and> GetTagFieldNumber t = 1 \<and> (ucast t :: byte) = 10 then
            (case stLogin_C_read_username R s m of
               (s, m, ok) \<Rightarrow> if \<not> ok then Some (s, m, False) else stLogin_C_MergePartialFromCodedStream R s m)
          else if below \<and> GetTagFieldNumber t = 2 \<and> (ucast t :: byte) = 18 then
            (case stLogin_C_read_password R s m of
               (s, m, ok) \<Rightarrow> if \<not> ok then Some (s, m, False) else stLogin_C_MergePartialFromCodedStream R s m)
          else if t = 0 then Some (s, m, True)
          else (case stLogin_C_unusual R s t m of
                  (s, m, ok) \<Rightarrow> if \<not> ok then Some (s, m, False) else stLogin_C_MergePartialFromCodedStream R s m))"

text \<open>A string that is not UTF-8 is reported when it is written, but it is written.\<close>

definition stLogin_C_SerializeWithCachedSizes :: "('i, 'u, 'w) runtime \<Rightarrow> 'u stLogin_C \<Rightarrow> 'w \<Rightarrow> 'w" where
  "stLogin_C_SerializeWithCachedSizes R m output =
     (let output = (if 0 < length (stLogin_C_username m)
            then rt_WriteStringMaybeAliased R 1 (stLogin_C_username m) output else output);
          output = (if 0 < length (stLogin_C_password m)
            then rt_WriteStringMaybeAliased R 2 (stLogin_C_password m) output else output)
      in if have_unknown_fields (internal_metadata m)
         then rt_SerializeUnknownFields R (unknown_fields R (internal_metadata m)) output else output)"

definition stLogin_C_InternalSerializeWithCachedSizesToArray :: "('i, 'u, 'w) runtime \<Rightarrow> 'u stLogin_C \<Rightarrow> mem \<Rightarrow> int \<Rightarrow>
    (mem \<times> int) res" where
  "stLogin_C_InternalSerializeWithCachedSizesToArray R m buf target =
     bind_res (if 0 < length (stLogin_C_username m)
       then WriteStringToArray R 1 (stLogin_C_username m) buf target else Inr (buf, target)) (\<lambda>(buf, target).
     bind_res (if 0 < length (stLogin_C_password m)
       then WriteStringToArray R 2 (stLogin_C_password m) buf target else Inr (buf, target)) (\<lambda>(buf, target).
     if have_unknown_fields (internal_metadata m)
     then emit (rt_unknown_bytes R (unknown_fields R (internal_metadata m))) buf target else Inr (buf, target)))"

definition stLogin_C_ByteSizeLong :: "('i, 'u, 'w) runtime \<Rightarrow> 'u stLogin_C \<Rightarrow> 'u stLogin_C \<times> nat" where
  "stLogin_C_ByteSizeLong R m =
     (let total_size = 0;
          total_size = (if have_unknown_fields (internal_metadata m)
            then size_t (total_size + rt_unknown_size R (unknown_fields R (internal_metadata m))) else total_size);
          total_size = (if 0 < length (stLogin_C_username m)
            then size_t (total_size + (1 + StringSize (stLogin_C_username m))) else total_size);
          total_size = (if 0 < length (stLogin_C_password m)
            then size_t (total_size + (1 + StringSize (stLogin_C_password m))) else total_size)
      in (stLogin_C_SetCachedSize m (ToCachedSize total_size), total_size))"

section \<open>The contract\<close>

text \<open>What a user sees of a message, its reference encoding, and the messages whose parts are below 2 GiB.\<close>

definition stLogin_C_content :: "('i, 'u, 'w) runtime \<Rightarrow> 'u stLogin_C \<Rightarrow> byte list \<times> byte list \<times> byte list" where
  "stLogin_C_content R m =
     (GetNoArena (f_username m), GetNoArena (f_password m), unknown_bytes R (internal_metadata m))"

definition string_field :: "byte \<Rightarrow> byte list \<Rightarrow> byte list" where
  "string_field t str = (if 0 < length str then t # varint (length str) @ str else [])"

definition stLogin_C_wire :: "byte list \<times> byte list \<times> byte list \<Rightarrow> byte list" where
  "stLogin_C_wire = (\<lambda>(n, p, u). string_field 10 n @ string_field 18 p @ u)"

definition stLogin_C_valid :: "byte list \<times> byte list \<times> byte list \<Rightarrow> bool" where
  "stLogin_C_valid = (\<lambda>(n, p, u). length n < 2 ^ 31 \<and> length p < 2 ^ 31 \<and> length u < 2 ^ 31)"

definition stLogin_C_readable :: "('i, 'u, 'w) runtime \<Rightarrow> byte list \<times> byte list \<times> byte list \<Rightarrow> bool" where
  "stLogin_C_readable R = (\<lambda>(n, p, u). rt_VerifyUtf8String R n \<and> rt_VerifyUtf8String R p \<and> u = [])"

definition stLogin_C_merged :: "byte list \<times> byte list \<times> byte list \<Rightarrow> byte list \<times> byte list \<times> byte list \<Rightarrow>
    byte list \<times> byte list \<times> byte list" where
  "stLogin_C_merged =
     (\<lambda>(n, p, u) (n', p', u'). (if n' \<noteq> [] then n' else n, if p' \<noteq> [] then p' else p, u @ u'))"

lemmas stLogin_C_defs = stLogin_C_content_def stLogin_C_wire_def stLogin_C_valid_def stLogin_C_readable_def
  stLogin_C_merged_def stLogin_C_username_def stLogin_C_password_def new_stLogin_C_def stLogin_C_SharedCtor_def
  string_field_def

context protobuf_runtime
begin

lemma ReadString_eq:
  assumes "IsFlat s" and "cis_buffer s = varint (length str) @ str @ r" and "length str < 2 ^ 31"
  shows "ReadString R s v0 = (s\<lparr>cis_buffer := r\<rparr>, str, True)"
proof -
  have "length (varint (length str)) \<le> 10" using length_varint_31 [OF assms(3)] by simp
  then have "read_varint 10 (cis_buffer s) = Some (length str, str @ r)"
    unfolding assms(2) by (rule read_varint_varint)
  then show ?thesis using read_bytes [OF assms(1)] assms(3) by (simp add: ReadString_def)
qed

lemma stLogin_C_parse_username:
  assumes "IsFlat s" and "cis_buffer s = 10 # varint (length str) @ str @ r" and "length str < 2 ^ 31"
    and "rt_VerifyUtf8String R str"
  shows "stLogin_C_MergePartialFromCodedStream R s m =
    stLogin_C_MergePartialFromCodedStream R (s\<lparr>cis_buffer := r\<rparr>) (m\<lparr>f_username := Some str\<rparr>)"
proof -
  let ?s = "s\<lparr>cis_buffer := varint (length str) @ str @ r\<rparr>"
  have "ReadTagWithCutoffNoLastTag R s 127 = (?s, 10, True)"
    using ReadTag_byte [OF assms(2)] by simp
  moreover have "ReadString R ?s v0 = (s\<lparr>cis_buffer := r\<rparr>, str, True)" for v0
    using ReadString_eq [of ?s str r v0] assms(1,3) by (simp add: IsFlat_def)
  then have "stLogin_C_read_username R ?s m = (s\<lparr>cis_buffer := r\<rparr>, m\<lparr>f_username := Some str\<rparr>, True)"
    using assms(4) by (simp add: stLogin_C_read_username_def Let_def stLogin_C_mutable_username_def stLogin_C_username_def)
  moreover have "GetTagFieldNumber 10 = 1" by code_simp
  ultimately show ?thesis
    by (subst stLogin_C_MergePartialFromCodedStream.simps) simp
qed

lemma stLogin_C_parse_password:
  assumes "IsFlat s" and "cis_buffer s = 18 # varint (length str) @ str @ r" and "length str < 2 ^ 31"
    and "rt_VerifyUtf8String R str"
  shows "stLogin_C_MergePartialFromCodedStream R s m =
    stLogin_C_MergePartialFromCodedStream R (s\<lparr>cis_buffer := r\<rparr>) (m\<lparr>f_password := Some str\<rparr>)"
proof -
  let ?s = "s\<lparr>cis_buffer := varint (length str) @ str @ r\<rparr>"
  have "ReadTagWithCutoffNoLastTag R s 127 = (?s, 18, True)"
    using ReadTag_byte [OF assms(2)] by simp
  moreover have "ReadString R ?s v0 = (s\<lparr>cis_buffer := r\<rparr>, str, True)" for v0
    using ReadString_eq [of ?s str r v0] assms(1,3) by (simp add: IsFlat_def)
  then have "stLogin_C_read_password R ?s m = (s\<lparr>cis_buffer := r\<rparr>, m\<lparr>f_password := Some str\<rparr>, True)"
    using assms(4) by (simp add: stLogin_C_read_password_def Let_def stLogin_C_mutable_password_def stLogin_C_password_def)
  moreover have "GetTagFieldNumber 18 = 2" by code_simp
  ultimately show ?thesis
    by (subst stLogin_C_MergePartialFromCodedStream.simps) simp
qed

lemma stLogin_C_parse_end:
  assumes "IsFlat s" and "cis_buffer s = []" and "current_limit s = total_bytes_read s"
  shows "stLogin_C_MergePartialFromCodedStream R s m = Some (s\<lparr>legitimate_message_end := True\<rparr>, m, True)"
  using ReadTag_end [OF assms] by (subst stLogin_C_MergePartialFromCodedStream.simps) simp

lemma stLogin_C_parse_both:
  assumes "stLogin_C_valid c" and "stLogin_C_readable R c" and "IsFlat s" and "cis_buffer s = stLogin_C_wire c @ r"
  shows "\<exists>m'. stLogin_C_MergePartialFromCodedStream R s m =
        stLogin_C_MergePartialFromCodedStream R (s\<lparr>cis_buffer := r\<rparr>) m' \<and>
      stLogin_C_content R m' = stLogin_C_merged (stLogin_C_content R m) c"
proof -
  obtain n p u where c: "c = (n, p, u)" by (cases c)
  define m1 where "m1 = (if n = [] then m else m\<lparr>f_username := Some n\<rparr>)"
  define m2 where "m2 = (if p = [] then m1 else m1\<lparr>f_password := Some p\<rparr>)"
  let ?s = "s\<lparr>cis_buffer := string_field 18 p @ r\<rparr>"
  have buf: "cis_buffer s = string_field 10 n @ string_field 18 p @ r" and ok: "length n < 2 ^ 31" "length p < 2 ^ 31"
      "rt_VerifyUtf8String R n" "rt_VerifyUtf8String R p"
    using assms unfolding c stLogin_C_valid_def stLogin_C_readable_def stLogin_C_wire_def by simp_all
  have "stLogin_C_MergePartialFromCodedStream R s m = stLogin_C_MergePartialFromCodedStream R ?s m1"
  proof (cases "n = []")
    case True
    then have "?s = s" using buf by (cases s) (simp add: string_field_def)
    then show ?thesis using True by (simp add: m1_def)
  next
    case False
    then have "cis_buffer s = 10 # varint (length n) @ n @ string_field 18 p @ r"
      using buf by (simp add: string_field_def [of 10])
    from stLogin_C_parse_username [OF assms(3) this ok(1,3)] show ?thesis using False by (simp add: m1_def)
  qed
  also have "\<dots> = stLogin_C_MergePartialFromCodedStream R (s\<lparr>cis_buffer := r\<rparr>) m2"
  proof (cases "p = []")
    case True
    then show ?thesis by (simp add: m2_def string_field_def)
  next
    case False
    then have "IsFlat ?s" "cis_buffer ?s = 18 # varint (length p) @ p @ r"
      using assms(3) by (simp_all add: string_field_def IsFlat_def)
    from stLogin_C_parse_password [OF this ok(2,4)] show ?thesis using False by (simp add: m2_def)
  qed
  finally show ?thesis
    using assms(2) by (intro exI [of _ m2]) (simp add: m1_def m2_def c stLogin_C_defs)
qed

lemma stLogin_C_size:
  assumes "stLogin_C_valid (stLogin_C_content R m)"
  shows "snd (stLogin_C_ByteSizeLong R m) = length (stLogin_C_wire (stLogin_C_content R m))"
proof -
  let ?n = "GetNoArena (f_username m)" and ?p = "GetNoArena (f_password m)"
  have l: "length ?n < 2 ^ 31" "length ?p < 2 ^ 31" "length (unknown_bytes R (internal_metadata m)) < 2 ^ 31"
    using assms by (simp_all add: stLogin_C_defs)
  note v = length_varint_31 [OF l(1)] length_varint_31 [OF l(2)]
  have "snd (stLogin_C_ByteSizeLong R m) =
      (let n = length (unknown_bytes R (internal_metadata m));
           n = (if 0 < length ?n then n + (1 + (length (varint (length ?n)) + length ?n)) else n)
       in if 0 < length ?p then n + (1 + (length (varint (length ?p)) + length ?p)) else n)"
    using l v unfolding stLogin_C_ByteSizeLong_def Let_def unknown_part stLogin_C_username_def
      stLogin_C_password_def snd_conv StringSize_eq [OF l(1)] StringSize_eq [OF l(2)]
    by (simp add: size_t_def split: if_splits)
  also have "\<dots> = length (stLogin_C_wire (stLogin_C_content R m))"
    by (simp add: stLogin_C_defs Let_def)
  finally show ?thesis .
qed

lemma stLogin_C_array:
  assumes "stLogin_C_valid (stLogin_C_content R m)" and "0 \<le> q" and "q \<le> int (length buf)"
  shows "stLogin_C_InternalSerializeWithCachedSizesToArray R m buf q = emit (stLogin_C_wire (stLogin_C_content R m)) buf q"
proof -
  let ?n = "GetNoArena (f_username m)" and ?p = "GetNoArena (f_password m)"
  have l: "length ?n < 2 ^ 31" "length ?p < 2 ^ 31"
    using assms(1) by (simp_all add: stLogin_C_defs)
  have assoc: "bind_res x (\<lambda>(b, t). bind_res (f b t) (\<lambda>(b, t). g b t)) = bind_res (bind_res x (\<lambda>(b, t). f b t)) (\<lambda>(b, t). g b t)"
    for x :: "(mem \<times> int) res" and f :: "mem \<Rightarrow> int \<Rightarrow> (mem \<times> int) res" and g :: "mem \<Rightarrow> int \<Rightarrow> (mem \<times> int) res"
    by (simp add: bind_res_def split: sum.split prod.split)
  show ?thesis
    unfolding stLogin_C_InternalSerializeWithCachedSizesToArray_def stLogin_C_username_def stLogin_C_password_def
      WriteStringToArray_emit [OF l(1)] WriteStringToArray_emit [OF l(2)] tag_bytes_1 assoc
      emit_optional [OF assms(2,3)] emit_then_optional unknown_part
    by (simp add: stLogin_C_defs)
qed

end

sublocale protobuf_runtime < lg_c: proto_message new_stLogin_C "stLogin_C_content R" stLogin_C_valid
  "stLogin_C_readable R" stLogin_C_wire stLogin_C_merged "stLogin_C_Clear R" "stLogin_C_MergeFrom R"
  "stLogin_C_CopyFrom R" "stLogin_C_ByteSizeLong R" "stLogin_C_InternalSerializeWithCachedSizesToArray R"
  "stLogin_C_SerializeWithCachedSizes R" written "stLogin_C_MergePartialFromCodedStream R"
  "stLogin_C_InternalSwap R debug" for debug
proof unfold_locales
  fix m src :: "'u stLogin_C"
  show "stLogin_C_content R (stLogin_C_Clear R m) = stLogin_C_content R new_stLogin_C"
    by (simp add: stLogin_C_defs stLogin_C_Clear_def)
  show "stLogin_C_content R (stLogin_C_MergeFrom R m src) =
      stLogin_C_merged (stLogin_C_content R m) (stLogin_C_content R src)"
    by (simp add: stLogin_C_defs stLogin_C_MergeFrom_def Let_def)
next
  fix c c1 c2 c3 :: "byte list \<times> byte list \<times> byte list"
  show "stLogin_C_merged (stLogin_C_content R new_stLogin_C) c = c"
    by (simp add: stLogin_C_defs split: prod.split)
  show "stLogin_C_merged (stLogin_C_merged c1 c2) c3 = stLogin_C_merged c1 (stLogin_C_merged c2 c3)"
    by (simp add: stLogin_C_defs split: prod.split)
next
  fix same and m src :: "'u stLogin_C"
  show "stLogin_C_CopyFrom R same m src = (if same then m else stLogin_C_MergeFrom R (stLogin_C_Clear R m) src)"
    by (rule stLogin_C_CopyFrom_def)
next
  fix m :: "'u stLogin_C"
  assume "stLogin_C_valid (stLogin_C_content R m)"
  then show "stLogin_C_content R (fst (stLogin_C_ByteSizeLong R m)) = stLogin_C_content R m \<and>
      snd (stLogin_C_ByteSizeLong R m) = length (stLogin_C_wire (stLogin_C_content R m))"
    by (simp add: stLogin_C_size)
      (simp add: stLogin_C_ByteSizeLong_def Let_def stLogin_C_SetCachedSize_def stLogin_C_content_def)
next
  fix m :: "'u stLogin_C" and p buf
  assume "stLogin_C_valid (stLogin_C_content R m)" "0 \<le> p" "p \<le> int (length (buf :: mem))"
  then show "stLogin_C_InternalSerializeWithCachedSizesToArray R m buf p =
      emit (stLogin_C_wire (stLogin_C_content R m)) buf p"
    by (rule stLogin_C_array)
next
  fix m :: "'u stLogin_C" and w :: 'w
  assume "stLogin_C_valid (stLogin_C_content R m)"
  then have "length (GetNoArena (f_username m)) < 2 ^ 31" "length (GetNoArena (f_password m)) < 2 ^ 31"
    by (simp_all add: stLogin_C_defs)
  then show "written (stLogin_C_SerializeWithCachedSizes R m w) = written w @ stLogin_C_wire (stLogin_C_content R m)"
    by (simp add: stLogin_C_SerializeWithCachedSizes_def Let_def written_unknown aliased tag_bytes_1 stLogin_C_defs)
next
  fix c r and s :: "'i CodedInputStream" and m :: "'u stLogin_C"
  assume "stLogin_C_valid c" "stLogin_C_readable R c" "IsFlat s" "cis_buffer s = stLogin_C_wire c @ r"
  then show "\<exists>m'. stLogin_C_MergePartialFromCodedStream R s m =
        stLogin_C_MergePartialFromCodedStream R (s\<lparr>cis_buffer := r\<rparr>) m' \<and>
      stLogin_C_content R m' = stLogin_C_merged (stLogin_C_content R m) c"
    by (rule stLogin_C_parse_both)
next
  fix s :: "'i CodedInputStream" and m :: "'u stLogin_C"
  assume "IsFlat s" "cis_buffer s = []" "current_limit s = total_bytes_read s"
  then show "stLogin_C_MergePartialFromCodedStream R s m = Some (s\<lparr>legitimate_message_end := True\<rparr>, m, True)"
    by (rule stLogin_C_parse_end)
next
  fix debug and a b :: "'u stLogin_C"
  show "map_prod (stLogin_C_content R) (stLogin_C_content R) (stLogin_C_InternalSwap R debug a b) =
      (stLogin_C_content R b, stLogin_C_content R a)"
    using unknown_swap [of "internal_metadata a" "internal_metadata b"]
      ArenaStringPtr_Swap_get [of debug "f_username a" "f_username b"]
      ArenaStringPtr_Swap_get [of debug "f_password a" "f_password b"]
    by (simp add: stLogin_C_InternalSwap_def stLogin_C_content_def split: prod.splits)
qed

end
