(* ===== verification/Login_S.thy ===== *)
theory Login_S
  imports MessageFields
begin

text \<open>
  The generated class \<open>stLogin_S\<close> of \<open>src/proto/pb/messageStruct.pb.h\<close> and \<open>.pb.cc\<close>: the answer to a login, with the player id in field 1.
  Its operations meet the contract \<open>proto_message\<close>.
\<close>

record 'u stLogin_S = "'u generated_message" +
  f_player_id :: "64 word"

section \<open>Accessors\<close>

definition stLogin_S_clear_player_id :: "'u stLogin_S \<Rightarrow> 'u stLogin_S" where
  "stLogin_S_clear_player_id m = m\<lparr>f_player_id := 0\<rparr>"

definition stLogin_S_player_id :: "'u stLogin_S \<Rightarrow> 64 word" where
  "stLogin_S_player_id m = f_player_id m"

definition stLogin_S_set_player_id :: "'u stLogin_S \<Rightarrow> 64 word \<Rightarrow> 'u stLogin_S" where
  "stLogin_S_set_player_id m val = m\<lparr>f_player_id := val\<rparr>"

section \<open>Construction, copying, clearing\<close>

definition stLogin_S_SharedCtor :: "'u stLogin_S \<Rightarrow> 'u stLogin_S" where
  "stLogin_S_SharedCtor m = m\<lparr>f_player_id := 0\<rparr>"

definition new_stLogin_S :: "'u stLogin_S" where
  "new_stLogin_S = stLogin_S_SharedCtor \<lparr>internal_metadata = None, cached_size = 0, f_player_id = 0\<rparr>"

definition copy_stLogin_S :: "('i, 'u, 'w) runtime \<Rightarrow> 'u stLogin_S \<Rightarrow> 'u stLogin_S" where
  "copy_stLogin_S R from =
     \<lparr>internal_metadata = Metadata_MergeFrom R None (internal_metadata from), cached_size = 0,
      f_player_id = f_player_id from\<rparr>"

definition stLogin_S_SetCachedSize :: "'u stLogin_S \<Rightarrow> int \<Rightarrow> 'u stLogin_S" where
  "stLogin_S_SetCachedSize m n = m\<lparr>cached_size := n\<rparr>"

definition stLogin_S_GetCachedSize :: "'u stLogin_S \<Rightarrow> int" where
  "stLogin_S_GetCachedSize m = cached_size m"

definition stLogin_S_Clear :: "('i, 'u, 'w) runtime \<Rightarrow> 'u stLogin_S \<Rightarrow> 'u stLogin_S" where
  "stLogin_S_Clear R m =
     (let m = m\<lparr>f_player_id := 0\<rparr>
      in m\<lparr>internal_metadata := Metadata_Clear R (internal_metadata m)\<rparr>)"

definition stLogin_S_MergeFrom :: "('i, 'u, 'w) runtime \<Rightarrow> 'u stLogin_S \<Rightarrow> 'u stLogin_S \<Rightarrow> 'u stLogin_S" where
  "stLogin_S_MergeFrom R m from =
     (let m = m\<lparr>internal_metadata := Metadata_MergeFrom R (internal_metadata m) (internal_metadata from)\<rparr>
      in if stLogin_S_player_id from \<noteq> 0 then stLogin_S_set_player_id m (stLogin_S_player_id from) else m)"

text \<open>The overload for any message: \<open>None\<close> is a failed cast, \<open>reflection\<close> what \<open>ReflectionOps::Merge\<close> does then.\<close>

definition stLogin_S_MergeFrom_Message :: "('i, 'u, 'w) runtime \<Rightarrow> ('u stLogin_S \<Rightarrow> 'u stLogin_S) \<Rightarrow>
    'u stLogin_S \<Rightarrow> 'u stLogin_S option \<Rightarrow> 'u stLogin_S" where
  "stLogin_S_MergeFrom_Message R reflection m src =
     (case src of None \<Rightarrow> reflection m | Some from \<Rightarrow> stLogin_S_MergeFrom R m from)"

text \<open>\<open>same\<close>: the argument is the object itself.\<close>

definition stLogin_S_CopyFrom :: "('i, 'u, 'w) runtime \<Rightarrow> bool \<Rightarrow> 'u stLogin_S \<Rightarrow> 'u stLogin_S \<Rightarrow> 'u stLogin_S" where
  "stLogin_S_CopyFrom R same m from =
     (if same then m else stLogin_S_MergeFrom R (stLogin_S_Clear R m) from)"

definition stLogin_S_CopyFrom_Message :: "('i, 'u, 'w) runtime \<Rightarrow> ('u stLogin_S \<Rightarrow> 'u stLogin_S) \<Rightarrow> bool \<Rightarrow>
    'u stLogin_S \<Rightarrow> 'u stLogin_S option \<Rightarrow> 'u stLogin_S" where
  "stLogin_S_CopyFrom_Message R reflection same m src =
     (if same then m else stLogin_S_MergeFrom_Message R reflection (stLogin_S_Clear R m) src)"

definition stLogin_S_assign :: "('i, 'u, 'w) runtime \<Rightarrow> bool \<Rightarrow> 'u stLogin_S \<Rightarrow> 'u stLogin_S \<Rightarrow> 'u stLogin_S" where
  "stLogin_S_assign R same m from = stLogin_S_CopyFrom R same m from"

definition stLogin_S_IsInitialized :: "'u stLogin_S \<Rightarrow> bool" where
  "stLogin_S_IsInitialized m = True"

definition stLogin_S_InternalSwap :: "('i, 'u, 'w) runtime \<Rightarrow> 'u stLogin_S \<Rightarrow> 'u stLogin_S \<Rightarrow>
    'u stLogin_S \<times> 'u stLogin_S" where
  "stLogin_S_InternalSwap R m other =
     (case Metadata_Swap R (internal_metadata m) (internal_metadata other) of
        (d, e) \<Rightarrow> (m\<lparr>internal_metadata := d, f_player_id := f_player_id other\<rparr>,
                   other\<lparr>internal_metadata := e, f_player_id := f_player_id m\<rparr>))"

definition stLogin_S_Swap :: "('i, 'u, 'w) runtime \<Rightarrow> bool \<Rightarrow> 'u stLogin_S \<Rightarrow> 'u stLogin_S \<Rightarrow>
    'u stLogin_S \<times> 'u stLogin_S" where
  "stLogin_S_Swap R same m other = (if same then (m, other) else stLogin_S_InternalSwap R m other)"

text \<open>Move assignment: no message has an arena, so the two are swapped.\<close>

definition stLogin_S_move_assign :: "('i, 'u, 'w) runtime \<Rightarrow> bool \<Rightarrow> 'u stLogin_S \<Rightarrow> 'u stLogin_S \<Rightarrow>
    'u stLogin_S \<times> 'u stLogin_S" where
  "stLogin_S_move_assign R same m from = (if \<not> same then stLogin_S_InternalSwap R m from else (m, from))"

definition stLogin_S_move :: "('i, 'u, 'w) runtime \<Rightarrow> 'u stLogin_S \<Rightarrow> 'u stLogin_S \<times> 'u stLogin_S" where
  "stLogin_S_move R from = stLogin_S_move_assign R False new_stLogin_S from"

section \<open>Parsing and serializing\<close>

text \<open>The loop of \<open>MergePartialFromCodedStream\<close>; \<open>None\<close> is a stream that never ends.\<close>

definition stLogin_S_unusual :: "('i, 'u, 'w) runtime \<Rightarrow> 'i CodedInputStream \<Rightarrow> 32 word \<Rightarrow> 'u stLogin_S \<Rightarrow>
    'i CodedInputStream \<times> 'u stLogin_S \<times> bool" where
  "stLogin_S_unusual R s t m =
     (case rt_SkipField R s t (unknown_fields R (mutable_unknown_fields R (internal_metadata m))) of
        (s, u, ok) \<Rightarrow> (s, m\<lparr>internal_metadata := Some u\<rparr>, ok))"

partial_function (option) stLogin_S_MergePartialFromCodedStream :: "('i, 'u, 'w) runtime \<Rightarrow> 'i CodedInputStream \<Rightarrow>
    'u stLogin_S \<Rightarrow> ('i CodedInputStream \<times> 'u stLogin_S \<times> bool) option" where
  "stLogin_S_MergePartialFromCodedStream R s m =
     (case ReadTagWithCutoffNoLastTag R s 127 of
        (s, t, below) \<Rightarrow>
          if below \<and> GetTagFieldNumber t = 1 \<and> (ucast t :: byte) = 8 then
            (case ReadPrimitive_INT64 R s (f_player_id m) of
               (s, val, ok) \<Rightarrow>
                 if \<not> ok then Some (s, m\<lparr>f_player_id := val\<rparr>, False)
                 else stLogin_S_MergePartialFromCodedStream R s (m\<lparr>f_player_id := val\<rparr>))
          else if t = 0 then Some (s, m, True)
          else (case stLogin_S_unusual R s t m of
                  (s, m, ok) \<Rightarrow> if \<not> ok then Some (s, m, False) else stLogin_S_MergePartialFromCodedStream R s m))"

definition stLogin_S_SerializeWithCachedSizes :: "('i, 'u, 'w) runtime \<Rightarrow> 'u stLogin_S \<Rightarrow> 'w \<Rightarrow> 'w" where
  "stLogin_S_SerializeWithCachedSizes R m output =
     (let output = (if stLogin_S_player_id m \<noteq> 0 then rt_WriteInt64 R 1 (stLogin_S_player_id m) output else output)
      in if have_unknown_fields (internal_metadata m)
         then rt_SerializeUnknownFields R (unknown_fields R (internal_metadata m)) output else output)"

definition stLogin_S_InternalSerializeWithCachedSizesToArray :: "('i, 'u, 'w) runtime \<Rightarrow> 'u stLogin_S \<Rightarrow> mem \<Rightarrow> int \<Rightarrow>
    (mem \<times> int) res" where
  "stLogin_S_InternalSerializeWithCachedSizesToArray R m buf target =
     bind_res (if stLogin_S_player_id m \<noteq> 0 then WriteInt64ToArray 1 (stLogin_S_player_id m) buf target else Inr (buf, target))
       (\<lambda>(buf, target).
     if have_unknown_fields (internal_metadata m)
     then emit (rt_unknown_bytes R (unknown_fields R (internal_metadata m))) buf target else Inr (buf, target))"

definition stLogin_S_ByteSizeLong :: "('i, 'u, 'w) runtime \<Rightarrow> 'u stLogin_S \<Rightarrow> 'u stLogin_S \<times> nat" where
  "stLogin_S_ByteSizeLong R m =
     (let total_size = 0;
          total_size = (if have_unknown_fields (internal_metadata m)
            then size_t (total_size + rt_unknown_size R (unknown_fields R (internal_metadata m))) else total_size);
          total_size = (if stLogin_S_player_id m \<noteq> 0 then size_t (total_size + (1 + Int64Size (stLogin_S_player_id m))) else total_size)
      in (stLogin_S_SetCachedSize m (ToCachedSize total_size), total_size))"

section \<open>The contract\<close>

text \<open>What a user sees of a message, its reference encoding, and the messages below 2 GiB.\<close>

definition stLogin_S_content :: "('i, 'u, 'w) runtime \<Rightarrow> 'u stLogin_S \<Rightarrow> 64 word \<times> byte list" where
  "stLogin_S_content R m = (f_player_id m, unknown_bytes R (internal_metadata m))"

definition stLogin_S_wire :: "64 word \<times> byte list \<Rightarrow> byte list" where
  "stLogin_S_wire = (\<lambda>(v, u). (if v \<noteq> 0 then 8 # varint (unat v) else []) @ u)"

definition stLogin_S_valid :: "64 word \<times> byte list \<Rightarrow> bool" where
  "stLogin_S_valid = (\<lambda>(v, u). length u < 2 ^ 31)"

definition stLogin_S_readable :: "64 word \<times> byte list \<Rightarrow> bool" where
  "stLogin_S_readable = (\<lambda>(v, u). u = [])"

definition stLogin_S_merged :: "64 word \<times> byte list \<Rightarrow> 64 word \<times> byte list \<Rightarrow> 64 word \<times> byte list" where
  "stLogin_S_merged = (\<lambda>(v, u) (v', u'). (if v' \<noteq> 0 then v' else v, u @ u'))"

lemmas stLogin_S_defs = stLogin_S_content_def stLogin_S_wire_def stLogin_S_valid_def
  stLogin_S_readable_def stLogin_S_merged_def stLogin_S_player_id_def stLogin_S_set_player_id_def
  new_stLogin_S_def stLogin_S_SharedCtor_def

context protobuf_runtime
begin

lemma stLogin_S_parse_field:
  assumes "IsFlat s" and "cis_buffer s = 8 # varint (unat v) @ r"
  shows "stLogin_S_MergePartialFromCodedStream R s m =
    stLogin_S_MergePartialFromCodedStream R (s\<lparr>cis_buffer := r\<rparr>) (m\<lparr>f_player_id := v\<rparr>)"
proof -
  let ?s = "s\<lparr>cis_buffer := varint (unat v) @ r\<rparr>"
  have "ReadTagWithCutoffNoLastTag R s 127 = (?s, 8, True)"
    using ReadTag_byte [OF assms(2)] by simp
  moreover have "ReadVarint64 R ?s = (s\<lparr>cis_buffer := r\<rparr>, v, True)"
    using ReadVarint_eq(2) [OF flat_reads_axioms, of ?s v r] assms(1) by (simp add: IsFlat_def)
  then have "ReadPrimitive_INT64 R ?s v0 = (s\<lparr>cis_buffer := r\<rparr>, v, True)" for v0
    by (simp add: ReadPrimitive_INT64_def)
  moreover have "GetTagFieldNumber 8 = 1" by code_simp
  ultimately show ?thesis
    by (subst stLogin_S_MergePartialFromCodedStream.simps) simp
qed

lemma stLogin_S_parse_end:
  assumes "IsFlat s" and "cis_buffer s = []" and "current_limit s = total_bytes_read s"
  shows "stLogin_S_MergePartialFromCodedStream R s m = Some (s\<lparr>legitimate_message_end := True\<rparr>, m, True)"
  using ReadTag_end [OF assms] by (subst stLogin_S_MergePartialFromCodedStream.simps) simp

lemma stLogin_S_size:
  assumes "stLogin_S_valid (stLogin_S_content R m)"
  shows "snd (stLogin_S_ByteSizeLong R m) = length (stLogin_S_wire (stLogin_S_content R m))"
proof -
  have "length (varint (unat (f_player_id m))) \<le> 10" by (rule length_varint64)
  moreover have "length (unknown_bytes R (internal_metadata m)) < 2 ^ 31"
    using assms by (simp add: stLogin_S_defs)
  ultimately show ?thesis
    unfolding stLogin_S_ByteSizeLong_def Let_def unknown_part
    by (simp add: stLogin_S_defs Int64Size_eq size_t_def)
qed

end

sublocale protobuf_runtime < lg_s: proto_message new_stLogin_S "stLogin_S_content R" stLogin_S_valid
  stLogin_S_readable stLogin_S_wire stLogin_S_merged "stLogin_S_Clear R" "stLogin_S_MergeFrom R"
  "stLogin_S_CopyFrom R" "stLogin_S_ByteSizeLong R" "stLogin_S_InternalSerializeWithCachedSizesToArray R"
  "stLogin_S_SerializeWithCachedSizes R" written "stLogin_S_MergePartialFromCodedStream R"
  "stLogin_S_InternalSwap R"
proof unfold_locales
  fix m src :: "'u stLogin_S"
  show "stLogin_S_content R (stLogin_S_Clear R m) = stLogin_S_content R new_stLogin_S"
    by (simp add: stLogin_S_defs stLogin_S_Clear_def)
  show "stLogin_S_content R (stLogin_S_MergeFrom R m src) =
      stLogin_S_merged (stLogin_S_content R m) (stLogin_S_content R src)"
    by (simp add: stLogin_S_defs stLogin_S_MergeFrom_def Let_def)
next
  fix c c1 c2 c3 :: "64 word \<times> byte list"
  show "stLogin_S_merged (stLogin_S_content R new_stLogin_S) c = c"
    by (simp add: stLogin_S_defs split: prod.split)
  show "stLogin_S_merged (stLogin_S_merged c1 c2) c3 = stLogin_S_merged c1 (stLogin_S_merged c2 c3)"
    by (simp add: stLogin_S_defs split: prod.split)
next
  fix same and m src :: "'u stLogin_S"
  show "stLogin_S_CopyFrom R same m src = (if same then m else stLogin_S_MergeFrom R (stLogin_S_Clear R m) src)"
    by (rule stLogin_S_CopyFrom_def)
next
  fix m :: "'u stLogin_S"
  assume "stLogin_S_valid (stLogin_S_content R m)"
  then show "stLogin_S_content R (fst (stLogin_S_ByteSizeLong R m)) = stLogin_S_content R m \<and>
      snd (stLogin_S_ByteSizeLong R m) = length (stLogin_S_wire (stLogin_S_content R m))"
    by (simp add: stLogin_S_size) (simp add: stLogin_S_ByteSizeLong_def Let_def stLogin_S_SetCachedSize_def stLogin_S_content_def)
next
  fix m :: "'u stLogin_S" and p buf
  assume "0 \<le> p" "p \<le> int (length (buf :: mem))"
  then show "stLogin_S_InternalSerializeWithCachedSizesToArray R m buf p =
      emit (stLogin_S_wire (stLogin_S_content R m)) buf p"
    by (simp only: stLogin_S_InternalSerializeWithCachedSizesToArray_def emit_simps tag_bytes_1 emit_optional
      emit_unknown) (simp add: stLogin_S_defs)
next
  fix m :: "'u stLogin_S" and w :: 'w
  show "written (stLogin_S_SerializeWithCachedSizes R m w) = written w @ stLogin_S_wire (stLogin_S_content R m)"
    by (simp add: stLogin_S_SerializeWithCachedSizes_def Let_def written_unknown int64 tag_bytes_1 stLogin_S_defs)
next
  fix c r and s :: "'i CodedInputStream" and m :: "'u stLogin_S"
  assume "stLogin_S_readable c" "IsFlat s" "cis_buffer s = stLogin_S_wire c @ r"
  then show "\<exists>m'. stLogin_S_MergePartialFromCodedStream R s m =
        stLogin_S_MergePartialFromCodedStream R (s\<lparr>cis_buffer := r\<rparr>) m' \<and>
      stLogin_S_content R m' = stLogin_S_merged (stLogin_S_content R m) c"
    using stLogin_S_parse_field [of s "fst c" r m]
    by (cases "fst c = 0") (auto simp add: stLogin_S_defs split: prod.splits)
next
  fix s :: "'i CodedInputStream" and m :: "'u stLogin_S"
  assume "IsFlat s" "cis_buffer s = []" "current_limit s = total_bytes_read s"
  then show "stLogin_S_MergePartialFromCodedStream R s m = Some (s\<lparr>legitimate_message_end := True\<rparr>, m, True)"
    by (rule stLogin_S_parse_end)
next
  fix a b :: "'u stLogin_S"
  show "map_prod (stLogin_S_content R) (stLogin_S_content R) (stLogin_S_InternalSwap R a b) =
      (stLogin_S_content R b, stLogin_S_content R a)"
    using unknown_swap [of "internal_metadata a" "internal_metadata b"]
    by (simp add: stLogin_S_InternalSwap_def stLogin_S_content_def split: prod.splits)
qed
end
