(* ===== verification/ProtoMessages.thy ===== *)
theory ProtoMessages
  imports HeartBeat_C HeartBeat_S Login_C Login_S
begin

text \<open>
  The four messages of \<open>src/proto/messageStruct.proto\<close> together: what a user of any of them relies on, derived from the
  contract \<open>proto_message\<close>, and the checks that are specific to the strings of the login request.
\<close>

context protobuf_runtime
begin

lemmas exact_fits = hb_c.exact_fit hb_s.exact_fit lg_c.exact_fit lg_s.exact_fit

lemmas survive = hb_c.survives hb_s.survives lg_c.survives lg_s.survives

lemma login_parses:
  assumes "stLogin_C_valid c" and "stLogin_C_readable R c"
  shows "\<exists>s' m'. stLogin_C_MergePartialFromCodedStream R (new_CodedInputStream_flat R (stLogin_C_wire c)) new_stLogin_C =
      Some (s', m', True)"
  using lg_c.parse_concat [of "[c]" "new_CodedInputStream_flat R (stLogin_C_wire c)" new_stLogin_C] assms
  by (auto simp add: IsFlat_def new_CodedInputStream_flat_def)

lemmas login_laws = lg_c.copy_content lg_c.concat_merges lg_c.swap_law

end

text \<open>One message of each class, with fields that are set.\<close>

definition sample_hc :: "byte list stHeartBeat_C" where
  "sample_hc = stHeartBeat_C_set_timenow new_stHeartBeat_C (- 1)"

definition sample_hs :: "byte list stHeartBeat_S" where
  "sample_hs = stHeartBeat_S_set_timenow new_stHeartBeat_S 300"

definition sample_lc :: "byte list stLogin_C" where
  "sample_lc = stLogin_C_set_password (stLogin_C_set_username new_stLogin_C [97, 98]) [99]"

definition sample_ls :: "byte list stLogin_S" where
  "sample_ls = stLogin_S_set_player_id new_stLogin_S 4294967296"

definition sim_rt :: "(unit, byte list, byte list) runtime" where
  "sim_rt = sim_runtime"

lemma sim_rt_ok: "protobuf_runtime sim_rt id"
  unfolding sim_rt_def by (rule sim_protobuf.protobuf_runtime_axioms)

lemma samples_ok:
  "stHeartBeat_C_valid (stHeartBeat_C_content sim_rt sample_hc) \<and> stHeartBeat_C_readable (stHeartBeat_C_content sim_rt sample_hc)"
  "stHeartBeat_S_valid (stHeartBeat_S_content sim_rt sample_hs) \<and> stHeartBeat_S_readable (stHeartBeat_S_content sim_rt sample_hs)"
  "stLogin_C_valid (stLogin_C_content sim_rt sample_lc) \<and> stLogin_C_readable sim_rt (stLogin_C_content sim_rt sample_lc)"
  "stLogin_S_valid (stLogin_S_content sim_rt sample_ls) \<and> stLogin_S_readable (stLogin_S_content sim_rt sample_ls)"
  by (simp_all add: sample_hc_def sample_hs_def sample_lc_def sample_ls_def stHeartBeat_C_defs stHeartBeat_S_defs
      stLogin_C_defs stLogin_S_defs stLogin_C_set_username_def stLogin_C_set_password_def sim_rt_def)
    (simp add: sim_runtime_def)

section \<open>All four messages\<close>

text \<open>
  C8: \<open>ByteSizeLong\<close> is exact for every message below 2 GiB: a buffer of that size is filled to the last byte by
  \<open>InternalSerializeWithCachedSizesToArray\<close>, every smaller one is overrun, and \<open>SerializeWithCachedSizes\<close>
  appends the same bytes to a stream.
\<close>

theorem serialization_exact:
  assumes "protobuf_runtime R written"
    and "stHeartBeat_C_valid (stHeartBeat_C_content R hc)" and "stHeartBeat_S_valid (stHeartBeat_S_content R hs)"
    and "stLogin_C_valid (stLogin_C_content R lc)" and "stLogin_S_valid (stLogin_S_content R ls)"
  shows "fills_exactly (stHeartBeat_C_ByteSizeLong R) (stHeartBeat_C_InternalSerializeWithCachedSizesToArray R)
       (stHeartBeat_C_SerializeWithCachedSizes R) written hc \<and>
     fills_exactly (stHeartBeat_S_ByteSizeLong R) (stHeartBeat_S_InternalSerializeWithCachedSizesToArray R)
       (stHeartBeat_S_SerializeWithCachedSizes R) written hs \<and>
     fills_exactly (stLogin_C_ByteSizeLong R) (stLogin_C_InternalSerializeWithCachedSizesToArray R)
       (stLogin_C_SerializeWithCachedSizes R) written lc \<and>
     fills_exactly (stLogin_S_ByteSizeLong R) (stLogin_S_InternalSerializeWithCachedSizesToArray R)
       (stLogin_S_SerializeWithCachedSizes R) written ls"
  using protobuf_runtime.exact_fits [OF assms(1)] assms(2-5) by blast

theorem serialization_exact_witness:
  "fills_exactly (stHeartBeat_C_ByteSizeLong sim_rt) (stHeartBeat_C_InternalSerializeWithCachedSizesToArray sim_rt)
       (stHeartBeat_C_SerializeWithCachedSizes sim_rt) id sample_hc \<and>
     fills_exactly (stHeartBeat_S_ByteSizeLong sim_rt) (stHeartBeat_S_InternalSerializeWithCachedSizesToArray sim_rt)
       (stHeartBeat_S_SerializeWithCachedSizes sim_rt) id sample_hs \<and>
     fills_exactly (stLogin_C_ByteSizeLong sim_rt) (stLogin_C_InternalSerializeWithCachedSizesToArray sim_rt)
       (stLogin_C_SerializeWithCachedSizes sim_rt) id sample_lc \<and>
     fills_exactly (stLogin_S_ByteSizeLong sim_rt) (stLogin_S_InternalSerializeWithCachedSizesToArray sim_rt)
       (stLogin_S_SerializeWithCachedSizes sim_rt) id sample_ls"
  by (rule serialization_exact [OF sim_rt_ok]) (simp_all add: samples_ok)

text \<open>
  C9: A message without unknown fields, its strings in UTF-8, survives the wire: parsing the bytes it serializes to
  succeeds, consumes them all and restores every field.
\<close>

theorem message_roundtrip:
  assumes "protobuf_runtime R written"
    and "stHeartBeat_C_valid (stHeartBeat_C_content R hc) \<and> stHeartBeat_C_readable (stHeartBeat_C_content R hc)"
    and "stHeartBeat_S_valid (stHeartBeat_S_content R hs) \<and> stHeartBeat_S_readable (stHeartBeat_S_content R hs)"
    and "stLogin_C_valid (stLogin_C_content R lc) \<and> stLogin_C_readable R (stLogin_C_content R lc)"
    and "stLogin_S_valid (stLogin_S_content R ls) \<and> stLogin_S_readable (stLogin_S_content R ls)"
  shows "survives_wire R new_stHeartBeat_C (stHeartBeat_C_content R) (stHeartBeat_C_ByteSizeLong R)
       (stHeartBeat_C_InternalSerializeWithCachedSizesToArray R) (stHeartBeat_C_MergePartialFromCodedStream R) hc \<and>
     survives_wire R new_stHeartBeat_S (stHeartBeat_S_content R) (stHeartBeat_S_ByteSizeLong R)
       (stHeartBeat_S_InternalSerializeWithCachedSizesToArray R) (stHeartBeat_S_MergePartialFromCodedStream R) hs \<and>
     survives_wire R new_stLogin_C (stLogin_C_content R) (stLogin_C_ByteSizeLong R)
       (stLogin_C_InternalSerializeWithCachedSizesToArray R) (stLogin_C_MergePartialFromCodedStream R) lc \<and>
     survives_wire R new_stLogin_S (stLogin_S_content R) (stLogin_S_ByteSizeLong R)
       (stLogin_S_InternalSerializeWithCachedSizesToArray R) (stLogin_S_MergePartialFromCodedStream R) ls"
  using protobuf_runtime.survive [OF assms(1)] assms(2-5) by blast

theorem message_roundtrip_witness:
  "survives_wire sim_rt new_stHeartBeat_C (stHeartBeat_C_content sim_rt) (stHeartBeat_C_ByteSizeLong sim_rt)
       (stHeartBeat_C_InternalSerializeWithCachedSizesToArray sim_rt) (stHeartBeat_C_MergePartialFromCodedStream sim_rt) sample_hc \<and>
     survives_wire sim_rt new_stHeartBeat_S (stHeartBeat_S_content sim_rt) (stHeartBeat_S_ByteSizeLong sim_rt)
       (stHeartBeat_S_InternalSerializeWithCachedSizesToArray sim_rt) (stHeartBeat_S_MergePartialFromCodedStream sim_rt) sample_hs \<and>
     survives_wire sim_rt new_stLogin_C (stLogin_C_content sim_rt) (stLogin_C_ByteSizeLong sim_rt)
       (stLogin_C_InternalSerializeWithCachedSizesToArray sim_rt) (stLogin_C_MergePartialFromCodedStream sim_rt) sample_lc \<and>
     survives_wire sim_rt new_stLogin_S (stLogin_S_content sim_rt) (stLogin_S_ByteSizeLong sim_rt)
       (stLogin_S_InternalSerializeWithCachedSizesToArray sim_rt) (stLogin_S_MergePartialFromCodedStream sim_rt) sample_ls"
  by (rule message_roundtrip [OF sim_rt_ok samples_ok])



section \<open>The strings of a login request\<close>

definition utf8_strings :: "('i, 'u, 'w) runtime \<Rightarrow> 'u stLogin_C \<Rightarrow> bool" where
  "utf8_strings R m \<longleftrightarrow> rt_VerifyUtf8String R (stLogin_C_username m) \<and> rt_VerifyUtf8String R (stLogin_C_password m)"

lemma read_string_utf8:
  "stLogin_C_read_username R s m = (s', m', True) \<Longrightarrow> utf8_strings R m \<Longrightarrow> utf8_strings R m'"
  "stLogin_C_read_password R s m = (s', m', True) \<Longrightarrow> utf8_strings R m \<Longrightarrow> utf8_strings R m'"
  by (auto simp add: stLogin_C_read_username_def stLogin_C_read_password_def stLogin_C_mutable_username_def
      stLogin_C_mutable_password_def utf8_strings_def stLogin_C_username_def stLogin_C_password_def Let_def
      split: prod.splits)

lemma unusual_utf8:
  "stLogin_C_unusual R s t m = (s', m', ok) \<Longrightarrow> utf8_strings R m' = utf8_strings R m"
  by (auto simp add: stLogin_C_unusual_def utf8_strings_def stLogin_C_username_def stLogin_C_password_def split: prod.splits)

lemma parse_utf8:
  assumes "stLogin_C_MergePartialFromCodedStream R s m = Some y"
  shows "snd (snd y) \<longrightarrow> utf8_strings R m \<longrightarrow> utf8_strings R (fst (snd y))"
proof (rule stLogin_C_MergePartialFromCodedStream.raw_induct
    [where P = "\<lambda>R s m y. snd (snd y) \<longrightarrow> utf8_strings R m \<longrightarrow> utf8_strings R (fst (snd y))", OF _ assms])
  fix rec :: "('i, 'u, 'w) runtime \<Rightarrow> 'i CodedInputStream \<Rightarrow> 'u stLogin_C \<Rightarrow> ('i CodedInputStream \<times> 'u stLogin_C \<times> bool) option"
    and R :: "('i, 'u, 'w) runtime" and s m y
  assume IH: "\<And>R s m y. rec R s m = Some y \<Longrightarrow> snd (snd y) \<longrightarrow> utf8_strings R m \<longrightarrow> utf8_strings R (fst (snd y))"
    and step: "(case ReadTagWithCutoffNoLastTag R s 127 of
        (s, t, below) \<Rightarrow>
          if below \<and> GetTagFieldNumber t = 1 \<and> (ucast t :: byte) = 10 then
            (case stLogin_C_read_username R s m of
               (s, m, ok) \<Rightarrow> if \<not> ok then Some (s, m, False) else rec R s m)
          else if below \<and> GetTagFieldNumber t = 2 \<and> (ucast t :: byte) = 18 then
            (case stLogin_C_read_password R s m of
               (s, m, ok) \<Rightarrow> if \<not> ok then Some (s, m, False) else rec R s m)
          else if t = 0 then Some (s, m, True)
          else (case stLogin_C_unusual R s t m of
                  (s, m, ok) \<Rightarrow> if \<not> ok then Some (s, m, False) else rec R s m)) = Some y"
  obtain s1 t below where tg: "ReadTagWithCutoffNoLastTag R s 127 = (s1, t, below)" by (rule prod_cases3)
  obtain s2 m2 ok2 where u: "stLogin_C_read_username R s1 m = (s2, m2, ok2)" by (rule prod_cases3)
  obtain s3 m3 ok3 where p: "stLogin_C_read_password R s1 m = (s3, m3, ok3)" by (rule prod_cases3)
  obtain s4 m4 ok4 where n: "stLogin_C_unusual R s1 t m = (s4, m4, ok4)" by (rule prod_cases3)
  have next_ok: "utf8_strings R m \<Longrightarrow> ok2 \<Longrightarrow> utf8_strings R m2" "utf8_strings R m \<Longrightarrow> ok3 \<Longrightarrow> utf8_strings R m3"
      "utf8_strings R m \<Longrightarrow> utf8_strings R m4"
    using read_string_utf8 u p unusual_utf8 [OF n] by simp_all
  show "snd (snd y) \<longrightarrow> utf8_strings R m \<longrightarrow> utf8_strings R (fst (snd y))"
    using step next_ok IH [of R s2 m2 y] IH [of R s3 m3 y] IH [of R s4 m4 y]
    unfolding tg u p n prod.case by (auto split: if_splits)
qed

text \<open>
  C27: The proto3 type of the string fields: whatever bytes arrive, in whatever order and number the fields come, and whatever
  the compiled part of the runtime does, a login request that was parsed successfully holds strings that passed
  the UTF-8 check, when it started with such strings.
\<close>

theorem parsed_strings_utf8:
  "stLogin_C_MergePartialFromCodedStream R s m = Some (s', m', True) \<Longrightarrow> utf8_strings R m \<Longrightarrow> utf8_strings R m'"
  using parse_utf8 [of R s m "(s', m', True)"] by simp

theorem parsed_strings_utf8_witness:
  "\<exists>s' m'. stLogin_C_MergePartialFromCodedStream sim_rt (new_CodedInputStream_flat sim_rt [18, 1, 99]) new_stLogin_C =
      Some (s', m', True) \<and> utf8_strings sim_rt m'"
proof -
  obtain s' m' where p: "stLogin_C_MergePartialFromCodedStream sim_rt (new_CodedInputStream_flat sim_rt [18, 1, 99])
      new_stLogin_C = Some (s', m', True)"
    using protobuf_runtime.login_parses [OF sim_rt_ok, of "([], [99], [])"]
    by (auto simp add: stLogin_C_defs sim_rt_def sim_runtime_def)
  moreover have "utf8_strings sim_rt (new_stLogin_C :: byte list stLogin_C)"
    by (simp add: utf8_strings_def stLogin_C_defs sim_rt_def sim_runtime_def)
  ultimately show ?thesis using parsed_strings_utf8 by blast
qed

end
