(* ===== verification/RepeatedField.thy ===== *)
theory RepeatedField
  imports Prelude
begin

text \<open>
  \<open>RepeatedField\<close> of \<open>repeated_field.h\<close>, for elements of plain types: a growing array with an optional arena.
  As in a release build the checks \<open>GOOGLE_DCHECK\<close> are absent: an access is a fault when it leaves the allocation or reads a
  slot that was never written, not when it leaves the used part.  A pointer to an element is its index.
  The lemmas show that every operation computes the list operation of its comment.
\<close>

section \<open>Representation\<close>

text \<open>
  \<open>ptr\<close> is the arena while nothing is allocated (\<open>NULL\<close> is \<open>None\<close>), and afterwards the elements of a \<open>Rep\<close> with the arena
  in its header.
\<close>

datatype 'a Pointer = Arena_pointer "nat option" | Element_pointer "nat option" "'a option list"

record 'a RepeatedField =
  current_size :: int
  total_size :: int
  ptr :: "'a Pointer"

definition kMinRepeatedFieldAllocationSize :: int where [simp]: "kMinRepeatedFieldAllocationSize = 4"

definition elements :: "'a RepeatedField \<Rightarrow> 'a option list res" where
  "elements f = (case ptr f of Element_pointer a es \<Rightarrow> Inr es | Arena_pointer a \<Rightarrow> Inl Null_deref)"

definition set_elements :: "'a RepeatedField \<Rightarrow> 'a option list \<Rightarrow> 'a RepeatedField" where
  "set_elements f es =
     (case ptr f of Element_pointer a _ \<Rightarrow> f\<lparr>ptr := Element_pointer a es\<rparr> | Arena_pointer a \<Rightarrow> f)"

definition GetArenaNoVirtual :: "'a RepeatedField \<Rightarrow> nat option res" where
  "GetArenaNoVirtual f =
     (if total_size f = 0
      then (case ptr f of Arena_pointer a \<Rightarrow> Inr a | Element_pointer a _ \<Rightarrow> Inl Null_deref)
      else (case ptr f of Element_pointer a _ \<Rightarrow> Inr a | Arena_pointer a \<Rightarrow> Inl Null_deref))"

text \<open>One slot of an allocation, and \<open>memcpy\<close> from one allocation to another.\<close>

definition slot_get :: "'a option list \<Rightarrow> int \<Rightarrow> 'a res" where
  "slot_get es i =
     (if 0 \<le> i \<and> i < int (length es)
      then (case es ! nat i of None \<Rightarrow> Inl Uninit_read | Some v \<Rightarrow> Inr v) else Inl Out_of_bounds)"

definition slot_set :: "'a option list \<Rightarrow> int \<Rightarrow> 'a option \<Rightarrow> 'a option list res" where
  "slot_set es i v =
     (if 0 \<le> i \<and> i < int (length es) then Inr (es[nat i := v]) else Inl Out_of_bounds)"

definition CopyArray :: "'a option list \<Rightarrow> int \<Rightarrow> 'a option list \<Rightarrow> int \<Rightarrow> int \<Rightarrow> 'a option list res" where
  "CopyArray to_elems i from_elems j array_size =
     (if 0 \<le> i \<and> 0 \<le> j \<and> 0 \<le> array_size \<and> i + array_size \<le> int (length to_elems) \<and>
         j + array_size \<le> int (length from_elems)
      then Inr (poke to_elems (nat i) (take (nat array_size) (drop (nat j) from_elems)))
      else Inl Out_of_bounds)"

definition MoveArray :: "'a option list \<Rightarrow> int \<Rightarrow> 'a option list \<Rightarrow> int \<Rightarrow> int \<Rightarrow> 'a option list res" where
  "MoveArray to_elems i from_elems j array_size = CopyArray to_elems i from_elems j array_size"

section \<open>Operations\<close>

definition new_RepeatedField :: "'a RepeatedField" where
  "new_RepeatedField = \<lparr>current_size = 0, total_size = 0, ptr = Arena_pointer None\<rparr>"

definition new_RepeatedField_arena :: "nat option \<Rightarrow> 'a RepeatedField" where
  "new_RepeatedField_arena a = \<lparr>current_size = 0, total_size = 0, ptr = Arena_pointer a\<rparr>"

definition rf_empty :: "'a RepeatedField \<Rightarrow> bool" where
  "rf_empty f \<longleftrightarrow> current_size f = 0"

definition rf_size :: "'a RepeatedField \<Rightarrow> int" where
  "rf_size f = current_size f"

definition Capacity :: "'a RepeatedField \<Rightarrow> int" where
  "Capacity f = total_size f"

text \<open>The old elements are reached only when there are some; the new ones are not initialised.\<close>

definition Reserve :: "'a RepeatedField \<Rightarrow> int \<Rightarrow> 'a RepeatedField res" where
  "Reserve f new_size =
     (if new_size \<le> total_size f then Inr f
      else
        bind_res (GetArenaNoVirtual f) (\<lambda>a.
        bind_res (i32 (total_size f * 2)) (\<lambda>twice.
        let new_size = max kMinRepeatedFieldAllocationSize (max twice new_size);
            fresh = replicate (nat new_size) None in
        bind_res
          (if 0 < current_size f
           then bind_res (elements f) (\<lambda>es. MoveArray fresh 0 es 0 (current_size f)) else Inr fresh) (\<lambda>es.
        Inr (f\<lparr>total_size := new_size, ptr := Element_pointer a es\<rparr>)))))"

definition AddAlreadyReserved :: "'a RepeatedField \<Rightarrow> 'a \<Rightarrow> 'a RepeatedField res" where
  "AddAlreadyReserved f v =
     bind_res (elements f) (\<lambda>es.
     bind_res (slot_set es (current_size f) (Some v)) (\<lambda>es.
     bind_res (i32 (current_size f + 1)) (\<lambda>n.
     Inr ((set_elements f es)\<lparr>current_size := n\<rparr>))))"

definition AddAlreadyReserved_slot :: "'a RepeatedField \<Rightarrow> ('a RepeatedField \<times> int) res" where
  "AddAlreadyReserved_slot f =
     bind_res (elements f) (\<lambda>es.
     bind_res (i32 (current_size f + 1)) (\<lambda>n.
     Inr (f\<lparr>current_size := n\<rparr>, current_size f)))"

definition AddNAlreadyReserved :: "'a RepeatedField \<Rightarrow> int \<Rightarrow> ('a RepeatedField \<times> int) res" where
  "AddNAlreadyReserved f n =
     bind_res (i32 (current_size f + n)) (\<lambda>c. Inr (f\<lparr>current_size := c\<rparr>, current_size f))"

definition Resize :: "'a RepeatedField \<Rightarrow> int \<Rightarrow> 'a \<Rightarrow> 'a RepeatedField res" where
  "Resize f new_size v =
     bind_res
       (if current_size f < new_size then
          bind_res (Reserve f new_size) (\<lambda>f.
          bind_res (elements f) (\<lambda>es.
          if 0 \<le> current_size f \<and> new_size \<le> int (length es)
          then Inr (set_elements f
            (poke es (nat (current_size f)) (replicate (nat (new_size - current_size f)) (Some v))))
          else Inl Out_of_bounds))
        else Inr f)
       (\<lambda>f. Inr (f\<lparr>current_size := new_size\<rparr>))"

definition Get :: "'a RepeatedField \<Rightarrow> int \<Rightarrow> 'a res" where
  "Get f index = bind_res (elements f) (\<lambda>es. slot_get es index)"

definition Mutable :: "'a RepeatedField \<Rightarrow> int \<Rightarrow> int res" where
  "Mutable f index = bind_res (elements f) (\<lambda>es. Inr index)"

definition Set :: "'a RepeatedField \<Rightarrow> int \<Rightarrow> 'a \<Rightarrow> 'a RepeatedField res" where
  "Set f index v =
     bind_res (elements f) (\<lambda>es.
     bind_res (slot_set es index (Some v)) (\<lambda>es. Inr (set_elements f es)))"

definition Add :: "'a RepeatedField \<Rightarrow> 'a \<Rightarrow> 'a RepeatedField res" where
  "Add f v =
     bind_res
       (if current_size f = total_size f
        then bind_res (i32 (total_size f + 1)) (Reserve f) else Inr f) (\<lambda>f.
     bind_res (elements f) (\<lambda>es.
     bind_res (slot_set es (current_size f) (Some v)) (\<lambda>es.
     bind_res (i32 (current_size f + 1)) (\<lambda>n.
     Inr ((set_elements f es)\<lparr>current_size := n\<rparr>)))))"

definition Add_slot :: "'a RepeatedField \<Rightarrow> ('a RepeatedField \<times> int) res" where
  "Add_slot f =
     bind_res
       (if current_size f = total_size f
        then bind_res (i32 (total_size f + 1)) (Reserve f) else Inr f) (\<lambda>f.
     bind_res (elements f) (\<lambda>es.
     bind_res (i32 (current_size f + 1)) (\<lambda>n.
     Inr (f\<lparr>current_size := n\<rparr>, current_size f))))"

definition RemoveLast :: "'a RepeatedField \<Rightarrow> 'a RepeatedField res" where
  "RemoveLast f = bind_res (i32 (current_size f - 1)) (\<lambda>n. Inr (f\<lparr>current_size := n\<rparr>))"

definition Truncate :: "'a RepeatedField \<Rightarrow> int \<Rightarrow> 'a RepeatedField" where
  "Truncate f new_size = (if 0 < current_size f then f\<lparr>current_size := new_size\<rparr> else f)"

text \<open>The two loops of \<open>ExtractSubrange\<close>: \<open>n\<close> elements from index \<open>i\<close> on, copied out or moved down by \<open>num\<close>.\<close>

fun copy_out :: "'a RepeatedField \<Rightarrow> int \<Rightarrow> nat \<Rightarrow> 'a list res" where
  "copy_out f i 0 = Inr []"
| "copy_out f i (Suc n) =
     bind_res (Get f i) (\<lambda>v. bind_res (copy_out f (i + 1) n) (\<lambda>vs. Inr (v # vs)))"

fun slide :: "'a RepeatedField \<Rightarrow> int \<Rightarrow> int \<Rightarrow> nat \<Rightarrow> 'a RepeatedField res" where
  "slide f num i 0 = Inr f"
| "slide f num i (Suc n) =
     bind_res (Get f i) (\<lambda>v. bind_res (Set f (i - num) v) (\<lambda>f. slide f num (i + 1) n))"

definition ExtractSubrange :: "'a RepeatedField \<Rightarrow> int \<Rightarrow> int \<Rightarrow> bool \<Rightarrow> ('a RepeatedField \<times> 'a list) res" where
  "ExtractSubrange f start num wanted =
     bind_res (if wanted then copy_out f start (nat num) else Inr []) (\<lambda>vs.
     if 0 < num then
       bind_res (i32 (start + num)) (\<lambda>i.
       bind_res (slide f num i (nat (current_size f - i))) (\<lambda>f.
       bind_res (i32 (current_size f - num)) (\<lambda>n.
       Inr (Truncate f n, vs))))
     else Inr (f, vs))"

definition Clear :: "'a RepeatedField \<Rightarrow> 'a RepeatedField" where
  "Clear f = f\<lparr>current_size := 0\<rparr>"

definition MergeFrom :: "'a RepeatedField \<Rightarrow> 'a RepeatedField \<Rightarrow> 'a RepeatedField res" where
  "MergeFrom f other =
     (if current_size other \<noteq> 0 then
        let existing_size = rf_size f in
        bind_res (i32 (existing_size + rf_size other)) (\<lambda>n.
        bind_res (Reserve f n) (\<lambda>f.
        bind_res (AddNAlreadyReserved f (rf_size other)) (\<lambda>(f, _).
        bind_res (Mutable f existing_size) (\<lambda>i.
        bind_res (elements f) (\<lambda>es.
        bind_res (elements other) (\<lambda>other_es.
        bind_res (CopyArray es i other_es 0 (rf_size other)) (\<lambda>es.
        Inr (set_elements f es))))))))
      else Inr f)"

text \<open>\<open>CopyFrom\<close> and the assignments compare addresses first: \<open>self\<close> says that they are the same.\<close>

definition CopyFrom :: "bool \<Rightarrow> 'a RepeatedField \<Rightarrow> 'a RepeatedField \<Rightarrow> 'a RepeatedField res" where
  "CopyFrom self f other = (if self then Inr f else MergeFrom (Clear f) other)"

definition copy_RepeatedField :: "'a RepeatedField \<Rightarrow> 'a RepeatedField res" where
  "copy_RepeatedField other =
     (let f = new_RepeatedField in
      if current_size other \<noteq> 0 then
        bind_res (Reserve f (rf_size other)) (\<lambda>f.
        bind_res (AddNAlreadyReserved f (rf_size other)) (\<lambda>(f, _).
        bind_res (Mutable f 0) (\<lambda>i.
        bind_res (elements f) (\<lambda>es.
        bind_res (elements other) (\<lambda>other_es.
        bind_res (CopyArray es i other_es 0 (rf_size other)) (\<lambda>es.
        Inr (set_elements f es)))))))
      else Inr f)"

text \<open>The constructor from a range; \<open>CalculateReserve\<close> knows the length of a forward range only.\<close>

definition CalculateReserve :: "bool \<Rightarrow> 'a list \<Rightarrow> int" where
  "CalculateReserve forward xs = (if forward then int (length xs) else -1)"

fun add_all :: "('f \<Rightarrow> 'a \<Rightarrow> 'f res) \<Rightarrow> 'f \<Rightarrow> 'a list \<Rightarrow> 'f res" where
  "add_all add f [] = Inr f"
| "add_all add f (x # xs) = bind_res (add f x) (\<lambda>f. add_all add f xs)"

definition range_RepeatedField :: "bool \<Rightarrow> 'a list \<Rightarrow> 'a RepeatedField res" where
  "range_RepeatedField forward xs =
     (let reserve = CalculateReserve forward xs in
      if reserve \<noteq> -1
      then bind_res (Reserve new_RepeatedField reserve) (\<lambda>f. add_all AddAlreadyReserved f xs)
      else add_all Add new_RepeatedField xs)"

definition RepeatedField_assign :: "bool \<Rightarrow> 'a RepeatedField \<Rightarrow> 'a RepeatedField \<Rightarrow> 'a RepeatedField res" where
  "RepeatedField_assign self f other = (if \<not> self then CopyFrom self f other else Inr f)"

text \<open>Operations on two fields return both.\<close>

definition RepeatedField_InternalSwap :: "'a RepeatedField \<Rightarrow> 'a RepeatedField \<Rightarrow> 'a RepeatedField \<times> 'a RepeatedField" where
  "RepeatedField_InternalSwap f other =
     (f\<lparr>ptr := ptr other, current_size := current_size other, total_size := total_size other\<rparr>,
      other\<lparr>ptr := ptr f, current_size := current_size f, total_size := total_size f\<rparr>)"

definition UnsafeArenaSwap :: "bool \<Rightarrow> 'a RepeatedField \<Rightarrow> 'a RepeatedField \<Rightarrow> 'a RepeatedField \<times> 'a RepeatedField" where
  "UnsafeArenaSwap self f other = (if self then (f, other) else RepeatedField_InternalSwap f other)"

definition RepeatedField_Swap :: "bool \<Rightarrow> 'a RepeatedField \<Rightarrow> 'a RepeatedField \<Rightarrow> ('a RepeatedField \<times> 'a RepeatedField) res" where
  "RepeatedField_Swap self f other =
     (if self then Inr (f, other)
      else
        bind_res (GetArenaNoVirtual f) (\<lambda>a.
        bind_res (GetArenaNoVirtual other) (\<lambda>b.
        if a = b then Inr (RepeatedField_InternalSwap f other)
        else
          bind_res (MergeFrom (new_RepeatedField_arena b) f) (\<lambda>temp.
          bind_res (CopyFrom False f other) (\<lambda>f.
          case UnsafeArenaSwap False other temp of (other, temp) \<Rightarrow> Inr (f, other))))))"

definition move_RepeatedField :: "'a RepeatedField \<Rightarrow> ('a RepeatedField \<times> 'a RepeatedField) res" where
  "move_RepeatedField other =
     bind_res (GetArenaNoVirtual other) (\<lambda>b.
     if b \<noteq> None
     then bind_res (CopyFrom False new_RepeatedField other) (\<lambda>f. Inr (f, other))
     else Inr (RepeatedField_InternalSwap new_RepeatedField other))"

definition RepeatedField_move_assign :: "bool \<Rightarrow> 'a RepeatedField \<Rightarrow> 'a RepeatedField \<Rightarrow>
    ('a RepeatedField \<times> 'a RepeatedField) res" where
  "RepeatedField_move_assign self f other =
     (if \<not> self then
        bind_res (GetArenaNoVirtual f) (\<lambda>a.
        bind_res (GetArenaNoVirtual other) (\<lambda>b.
        if a \<noteq> b then bind_res (CopyFrom False f other) (\<lambda>f. Inr (f, other))
        else Inr (RepeatedField_InternalSwap f other)))
      else Inr (f, other))"

definition SwapElements :: "'a RepeatedField \<Rightarrow> int \<Rightarrow> int \<Rightarrow> 'a RepeatedField res" where
  "SwapElements f index1 index2 =
     bind_res (elements f) (\<lambda>es.
     if 0 \<le> index1 \<and> index1 < int (length es) \<and> 0 \<le> index2 \<and> index2 < int (length es)
     then Inr (set_elements f (es[nat index1 := es ! nat index2, nat index2 := es ! nat index1]))
     else Inl Out_of_bounds)"

text \<open>Iterators are offsets; \<open>None\<close> is the \<open>NULL\<close> of a field without an allocation.\<close>

definition rf_begin :: "'a RepeatedField \<Rightarrow> int option" where
  "rf_begin f = (if 0 < total_size f then Some 0 else None)"

definition rf_end :: "'a RepeatedField \<Rightarrow> int option" where
  "rf_end f = (if 0 < total_size f then Some (current_size f) else None)"

definition mutable_data :: "'a RepeatedField \<Rightarrow> 'a option list option res" where
  "mutable_data f = (if 0 < total_size f then bind_res (elements f) (\<lambda>es. Inr (Some es)) else Inr None)"

definition unsafe_data :: "'a RepeatedField \<Rightarrow> 'a option list res" where
  "unsafe_data f = elements f"

text \<open>\<open>erase\<close> of \<open>[first, until)\<close>, as offsets; the result is the offset after the removed range.\<close>

definition erase_range :: "'a RepeatedField \<Rightarrow> int \<Rightarrow> int \<Rightarrow> ('a RepeatedField \<times> int) res" where
  "erase_range f first until =
     (let first_offset = first in
      if first \<noteq> until then
        bind_res (elements f) (\<lambda>es.
        bind_res (CopyArray es first_offset es until (current_size f - until)) (\<lambda>es.
        Inr (Truncate (set_elements f es) (first_offset + (current_size f - until)), first_offset)))
      else Inr (f, first_offset))"

definition erase_one :: "'a RepeatedField \<Rightarrow> int \<Rightarrow> ('a RepeatedField \<times> int) res" where
  "erase_one f position = erase_range f position (position + 1)"

definition SpaceUsedExcludingSelfLong :: "nat \<Rightarrow> nat \<Rightarrow> 'a RepeatedField \<Rightarrow> nat" where
  "SpaceUsedExcludingSelfLong sizeof_Element kRepHeaderSize f =
     (if 0 < total_size f then (nat (total_size f) * sizeof_Element + kRepHeaderSize) mod 2 ^ 64 else 0)"

section \<open>The list a field holds\<close>

text \<open>
  \<open>holds f xs\<close>: the used part of the field is \<open>xs\<close>, inside an allocation of \<open>total_size\<close> slots, whose pointer is that of an
  arena exactly when nothing is allocated.
\<close>

definition holds :: "'a RepeatedField \<Rightarrow> 'a list \<Rightarrow> bool" where
  "holds f xs \<longleftrightarrow> current_size f = int (length xs) \<and> total_size f \<le> 2147483647 \<and>
     (case ptr f of
        Arena_pointer a \<Rightarrow> total_size f = 0 \<and> xs = []
      | Element_pointer a es \<Rightarrow> total_size f = int (length es) \<and> es \<noteq> [] \<and> length xs \<le> length es \<and>
          take (length xs) es = map Some xs)"

definition rf_arena :: "'a RepeatedField \<Rightarrow> nat option" where
  "rf_arena f = (case ptr f of Arena_pointer a \<Rightarrow> a | Element_pointer a _ \<Rightarrow> a)"

lemma holds_new [simp]: "holds new_RepeatedField []" "holds (new_RepeatedField_arena a) []"
  by (simp_all add: holds_def new_RepeatedField_def new_RepeatedField_arena_def)

lemma holds_arena: "holds f xs \<Longrightarrow> GetArenaNoVirtual f = Inr (rf_arena f)"
  by (cases "ptr f") (simp_all add: holds_def GetArenaNoVirtual_def rf_arena_def)

lemma holds_elements:
  assumes "holds f xs" "0 < total_size f"
  obtains a es where "ptr f = Element_pointer a es" "elements f = Inr es" "total_size f = int (length es)"
    "length xs \<le> length es" "take (length xs) es = map Some xs"
  using assms by (cases "ptr f") (simp_all add: holds_def elements_def)

lemma holds_size: "holds f xs \<Longrightarrow> rf_size f = int (length xs)" "holds f xs \<Longrightarrow> current_size f = int (length xs)"
  by (simp_all add: holds_def rf_size_def)

lemma holds_bounds: "holds f xs \<Longrightarrow> int (length xs) \<le> total_size f \<and> 0 \<le> total_size f \<and> total_size f \<le> 2147483647"
  by (cases "ptr f") (simp_all add: holds_def)

text \<open>Writing the used part of an allocation.\<close>

lemma holds_write:
  assumes "holds f xs" "0 < total_size f" "int (length es) = total_size f" "length ys \<le> length es"
    "take (length ys) es = map Some ys" "n = int (length ys)"
  shows "holds ((set_elements f es)\<lparr>current_size := n\<rparr>) ys" "rf_arena ((set_elements f es)\<lparr>current_size := n\<rparr>) = rf_arena f"
proof -
  obtain a old where p: "ptr f = Element_pointer a old" by (rule holds_elements [OF assms(1,2)])
  have "es \<noteq> []" using assms(2,3) by auto
  then show "holds ((set_elements f es)\<lparr>current_size := n\<rparr>) ys"
    using assms holds_bounds [OF assms(1)] p by (simp add: holds_def set_elements_def)
  show "rf_arena ((set_elements f es)\<lparr>current_size := n\<rparr>) = rf_arena f"
    using p by (simp add: set_elements_def rf_arena_def)
qed

lemma take_list_update_Some:
  "take n es = map Some xs \<Longrightarrow> i < n \<Longrightarrow> n = length xs \<Longrightarrow> take n (es[i := Some v]) = map Some (xs[i := v])"
  by (simp add: take_update_swap map_update)

section \<open>Growing\<close>

text \<open>
  \<open>Reserve\<close> keeps the list and the arena, never shrinks, and at least doubles when it allocates.
\<close>

lemma Reserve_ok:
  assumes "holds f xs" and "n \<le> 2147483647" and "total_size f < n \<longrightarrow> total_size f \<le> 1073741823"
  obtains f' where "Reserve f n = Inr f'" "holds f' xs" "n \<le> total_size f'" "rf_arena f' = rf_arena f"
    "total_size f' = (if n \<le> total_size f then total_size f else max 4 (max (2 * total_size f) n))"
proof (cases "n \<le> total_size f")
  case True
  then show ?thesis using that [of f] assms(1) by (simp add: Reserve_def)
next
  case False
  let ?n = "max 4 (max (2 * total_size f) n)"
  have n: "0 < ?n" "?n \<le> 2147483647" "n \<le> ?n" "in_i32 (total_size f * 2)"
    using assms False holds_bounds [OF assms(1)] by (auto simp: in_i32_def)
  define es where "es = (if xs = [] then replicate (nat ?n) None else poke (replicate (nat ?n) None) 0 (map Some xs))"
  let ?f = "f\<lparr>total_size := ?n, ptr := Element_pointer (rf_arena f) es\<rparr>"
  have len: "length xs \<le> nat ?n" using holds_bounds [OF assms(1)] False by linarith
  then have les: "length es = nat ?n" by (simp add: es_def poke_def)
  have move: "MoveArray (replicate (nat ?n) None) 0 old 0 (int (length xs)) = Inr es"
    if "length xs \<le> length old" "take (length xs) old = map Some xs" for old
    using that len by (auto simp: MoveArray_def CopyArray_def es_def poke_def)
  have "Reserve f n = Inr ?f"
  proof (cases "xs = []")
    case True
    then show ?thesis using False n(4) assms(1)
      by (simp add: Reserve_def holds_arena holds_size es_def mult.commute Let_def)
  next
    case ne: False
    then have "0 < total_size f" using holds_bounds [OF assms(1)] by (cases xs) auto
    then obtain a old where old: "elements f = Inr old" "length xs \<le> length old" "take (length xs) old = map Some xs"
      by (rule holds_elements [OF assms(1)])
    then show ?thesis using False ne n(4) assms(1) move [OF old(2,3)]
      by (simp add: Reserve_def holds_arena holds_size mult.commute Let_def)
  qed
  moreover have "holds ?f xs"
  proof -
    have "es \<noteq> []" using les n(1) by auto
    moreover have "take (length xs) es = map Some xs" using len by (simp add: es_def poke_def)
    ultimately show ?thesis
      using n les len by (simp add: holds_def holds_size [OF assms(1)])
  qed
  ultimately show ?thesis using that [of ?f] n(3) False by (simp add: rf_arena_def)
qed

section \<open>Elements\<close>

lemma Get_ok:
  assumes "holds f xs" "0 \<le> i" "i < int (length xs)"
  shows "Get f i = Inr (xs ! nat i)"
proof -
  have "0 < total_size f" using holds_bounds [OF assms(1)] assms(2,3) by linarith
  then obtain a es where es: "elements f = Inr es" "length xs \<le> length es" "take (length xs) es = map Some xs"
    by (rule holds_elements [OF assms(1)])
  have i: "nat i < length xs" "i < int (length es)" using assms(2,3) es(2) by linarith+
  then have "es ! nat i = take (length xs) es ! nat i" by simp
  then have "es ! nat i = Some (xs ! nat i)" using es(3) i(1) by simp
  then show ?thesis using es(1) i(2) assms(2) by (simp add: Get_def slot_get_def)
qed

text \<open>A slot is written, inside the used part or right behind it.\<close>

lemma write_slot:
  assumes "holds f xs" "0 < total_size f" "ys = (xs @ [v])[i := v]" "i < length ys" "int (length ys) \<le> total_size f \<or> i < length xs"
  obtains es where "elements f = Inr es" "slot_set es (int i) (Some v) = Inr (es[i := Some v])"
    "i < length xs \<Longrightarrow> holds ((set_elements f (es[i := Some v]))\<lparr>current_size := int (length xs)\<rparr>) (xs[i := v])"
    "i = length xs \<Longrightarrow> holds ((set_elements f (es[i := Some v]))\<lparr>current_size := int (length xs) + 1\<rparr>) (xs @ [v])"
    "rf_arena ((set_elements f (es[i := Some v]))\<lparr>current_size := n\<rparr>) = rf_arena f"
proof -
  obtain a es where es: "ptr f = Element_pointer a es" "elements f = Inr es" "total_size f = int (length es)"
    "length xs \<le> length es" "take (length xs) es = map Some xs"
    by (rule holds_elements [OF assms(1,2)])
  have l: "int (length (es[i := Some v])) = total_size f" using es(3) by simp
  have i: "i < length es" using assms(3-5) es(3,4) by auto
  have "slot_set es (int i) (Some v) = Inr (es[i := Some v])" using i by (simp add: slot_set_def)
  moreover have "holds ((set_elements f (es[i := Some v]))\<lparr>current_size := int (length xs)\<rparr>) (xs[i := v])"
    if "i < length xs"
    by (rule holds_write [OF assms(1,2) l]) (use es(4,5) that in \<open>simp_all add: take_list_update_Some\<close>)
  moreover have "holds ((set_elements f (es[i := Some v]))\<lparr>current_size := int (length xs) + 1\<rparr>) (xs @ [v])"
    if e: "i = length xs"
  proof (rule holds_write [OF assms(1,2) l])
    show "length (xs @ [v]) \<le> length (es[i := Some v])" using i e by simp
    show "take (length (xs @ [v])) (es[i := Some v]) = map Some (xs @ [v])"
      using i e es(5) by (simp add: take_Suc_conv_app_nth)
  qed simp
  moreover have "rf_arena ((set_elements f (es[i := Some v]))\<lparr>current_size := n\<rparr>) = rf_arena f"
    using es(1) by (simp add: rf_arena_def set_elements_def)
  ultimately show ?thesis using that es(2) by blast
qed

lemma Set_ok:
  assumes "holds f xs" "0 \<le> i" "i < int (length xs)"
  obtains f' where "Set f i v = Inr f'" "holds f' (xs[nat i := v])" "rf_arena f' = rf_arena f"
    "total_size f' = total_size f"
proof -
  have t: "0 < total_size f" using holds_bounds [OF assms(1)] assms(2,3) by linarith
  obtain es where es: "elements f = Inr es" "slot_set es (int (nat i)) (Some v) = Inr (es[nat i := Some v])"
    "nat i < length xs \<Longrightarrow> holds ((set_elements f (es[nat i := Some v]))\<lparr>current_size := int (length xs)\<rparr>) (xs[nat i := v])"
    "rf_arena ((set_elements f (es[nat i := Some v]))\<lparr>current_size := int (length xs)\<rparr>) = rf_arena f"
    by (rule write_slot [OF assms(1) t refl, where i = "nat i" and n = "int (length xs)" and v = v])
      (use assms(2,3) in auto)
  let ?f = "set_elements f (es[nat i := Some v])"
  have c: "?f\<lparr>current_size := int (length xs)\<rparr> = ?f"
    using holds_size(2) [OF assms(1)] by (cases "ptr f") (simp_all add: set_elements_def)
  have "total_size ?f = total_size f" by (cases "ptr f") (simp_all add: set_elements_def)
  then show ?thesis using that [of ?f] es assms(2,3) unfolding c by (simp add: Set_def)
qed

lemma AddAlreadyReserved_ok:
  assumes "holds f xs" "int (length xs) < total_size f"
  obtains f' where "AddAlreadyReserved f v = Inr f'" "holds f' (xs @ [v])" "rf_arena f' = rf_arena f"
    "total_size f' = total_size f"
proof -
  have t: "0 < total_size f" using assms(2) by linarith
  obtain es where es: "elements f = Inr es" "slot_set es (int (length xs)) (Some v) = Inr (es[length xs := Some v])"
    "holds ((set_elements f (es[length xs := Some v]))\<lparr>current_size := int (length xs) + 1\<rparr>) (xs @ [v])"
    "rf_arena ((set_elements f (es[length xs := Some v]))\<lparr>current_size := int (length xs) + 1\<rparr>) = rf_arena f"
    by (rule write_slot [OF assms(1) t refl, where i = "length xs" and n = "int (length xs) + 1" and v = v])
      (use assms(2) in auto)
  have "in_i32 (int (length xs) + 1)" using holds_bounds [OF assms(1)] assms(2) by (simp add: in_i32_def)
  moreover have "total_size (set_elements f (es[length xs := Some v])) = total_size f"
    by (cases "ptr f") (simp_all add: set_elements_def)
  ultimately show ?thesis using that es
    by (simp add: AddAlreadyReserved_def holds_size [OF assms(1)])
qed

lemma Add_eq:
  "Add f v = bind_res (if current_size f = total_size f
     then bind_res (i32 (total_size f + 1)) (Reserve f) else Inr f) (\<lambda>f. AddAlreadyReserved f v)"
  by (simp add: Add_def AddAlreadyReserved_def)

lemma Add_ok:
  assumes "holds f xs" "length xs < 1073741824"
  obtains f' where "Add f v = Inr f'" "holds f' (xs @ [v])" "rf_arena f' = rf_arena f"
    "total_size f' = (if int (length xs) = total_size f then max 4 (2 * total_size f) else total_size f)"
proof (cases "int (length xs) = total_size f")
  case True
  then have i: "in_i32 (total_size f + 1)" using assms(2) by (simp add: in_i32_def)
  obtain g where g: "Reserve f (total_size f + 1) = Inr g" "holds g xs" "total_size f + 1 \<le> total_size g"
    "rf_arena g = rf_arena f" "total_size g = max 4 (max (2 * total_size f) (total_size f + 1))"
    by (rule Reserve_ok [OF assms(1), of "total_size f + 1"]) (use True assms(2) in auto)
  have "int (length xs) < total_size g" using g(3) True by linarith
  then obtain f' where "AddAlreadyReserved g v = Inr f'" "holds f' (xs @ [v])" "rf_arena f' = rf_arena g"
    "total_size f' = total_size g" by (rule AddAlreadyReserved_ok [OF g(2)])
  with that g True i holds_size(2) [OF assms(1)] show ?thesis by (auto simp: Add_eq max_def)
next
  case False
  then have "int (length xs) < total_size f" using holds_bounds [OF assms(1)] by linarith
  then obtain f' where "AddAlreadyReserved f v = Inr f'" "holds f' (xs @ [v])" "rf_arena f' = rf_arena f"
    "total_size f' = total_size f" by (rule AddAlreadyReserved_ok [OF assms(1)])
  with that False holds_size(2) [OF assms(1)] show ?thesis by (auto simp: Add_eq)
qed

section \<open>Shrinking\<close>

lemma holds_shrink:
  assumes "holds f xs" "n \<le> length xs"
  shows "holds (f\<lparr>current_size := int n\<rparr>) (take n xs)" "rf_arena (f\<lparr>current_size := int n\<rparr>) = rf_arena f"
proof -
  have "take n es = map Some (take n xs)" if "take (length xs) es = map Some xs" for es
    using arg_cong [OF that, of "take n"] assms(2) by (simp add: take_map min_absorb1)
  then show "holds (f\<lparr>current_size := int n\<rparr>) (take n xs)"
    using assms by (cases "ptr f") (simp_all add: holds_def)
qed (simp add: rf_arena_def)

lemma Clear_ok: "holds f xs \<Longrightarrow> holds (Clear f) []"
  using holds_shrink(1) [of f xs 0] by (simp add: Clear_def)

lemma Truncate_ok:
  assumes "holds f xs" "0 \<le> n" "n \<le> int (length xs)"
  shows "holds (Truncate f n) (take (nat n) xs)" "rf_arena (Truncate f n) = rf_arena f"
  using holds_shrink [OF assms(1), of "nat n"] assms(2,3) assms(1) holds_size(2) [OF assms(1)]
  by (auto simp: Truncate_def)

lemma RemoveLast_ok:
  assumes "holds f xs" "xs \<noteq> []"
  obtains f' where "RemoveLast f = Inr f'" "holds f' (butlast xs)" "rf_arena f' = rf_arena f"
proof -
  have n: "current_size f - 1 = int (length xs - 1)" using assms(2) holds_size(2) [OF assms(1)] by (cases xs) auto
  moreover have "in_i32 (int (length xs - 1))" using holds_bounds [OF assms(1)] unfolding in_i32_def by linarith
  ultimately have "RemoveLast f = Inr (f\<lparr>current_size := int (length xs - 1)\<rparr>)" by (simp add: RemoveLast_def)
  moreover note holds_shrink [OF assms(1), of "length xs - 1"]
  moreover have "take (length xs - 1) xs = butlast xs" by (rule butlast_conv_take [symmetric])
  ultimately show ?thesis using that by simp
qed

section \<open>Ranges\<close>

lemma copy_out_ok:
  "holds f xs \<Longrightarrow> i + n \<le> length xs \<Longrightarrow> copy_out f (int i) n = Inr (take n (drop i xs))"
proof (induction n arbitrary: i)
  case (Suc n)
  have "Get f (int i) = Inr (xs ! i)" using Get_ok [OF Suc.prems(1), of "int i"] Suc.prems(2) by simp
  moreover have "copy_out f (int i + 1) n = Inr (take n (drop (Suc i) xs))"
    using Suc.IH [OF Suc.prems(1), of "Suc i"] Suc.prems(2) by (simp add: add.commute)
  moreover have "take (Suc n) (drop i xs) = xs ! i # take n (drop (Suc i) xs)"
    using Suc.prems(2) Cons_nth_drop_Suc [of i xs, symmetric] by simp
  ultimately show ?case by simp
qed simp

lemma slide_ok:
  "holds f xs \<Longrightarrow> 0 < k \<Longrightarrow> k \<le> i \<Longrightarrow> i + n = length xs \<Longrightarrow>
   \<exists>f' zs. slide f (int k) (int i) n = Inr f' \<and> holds f' zs \<and> length zs = length xs \<and>
     take (length xs - k) zs = take (i - k) xs @ drop i xs \<and> rf_arena f' = rf_arena f \<and> total_size f' = total_size f"
proof (induction n arbitrary: f xs i)
  case (Suc n)
  have i: "i < length xs" "i - k < i" using Suc.prems by linarith+
  have g: "Get f (int i) = Inr (xs ! i)" using Get_ok [OF Suc.prems(1), of "int i"] i by simp
  have ik: "int i - int k = int (i - k)" using Suc.prems(3) by simp
  obtain f1 where f1: "Set f (int (i - k)) (xs ! i) = Inr f1" "holds f1 (xs[i - k := xs ! i])"
      "rf_arena f1 = rf_arena f" "total_size f1 = total_size f"
    by (rule Set_ok [OF Suc.prems(1), of "int (i - k)" "xs ! i"]) (use i in auto)
  let ?xs = "xs[i - k := xs ! i]"
  have "Suc i + n = length ?xs" using Suc.prems(4) by simp
  from Suc.IH [OF f1(2) Suc.prems(2) _ this] Suc.prems(3) obtain f' zs where
    f': "slide f1 (int k) (int (Suc i)) n = Inr f'" "holds f' zs" "length zs = length xs"
      "take (length xs - k) zs = take (Suc i - k) ?xs @ drop (Suc i) ?xs" "rf_arena f' = rf_arena f1"
      "total_size f' = total_size f1" by auto
  have "take (Suc i - k) ?xs @ drop (Suc i) ?xs = take (i - k) xs @ drop i xs"
    using i Suc.prems(2,3) Cons_nth_drop_Suc [OF i(1)] by (simp add: Suc_diff_le take_Suc_conv_app_nth)
  then have "take (length xs - k) zs = take (i - k) xs @ drop i xs" using f'(4) by simp
  moreover have "slide f (int k) (int i) (Suc n) = Inr f'"
    using g f1(1) f'(1) by (simp add: ik add.commute)
  ultimately show ?case using f' f1 by - (rule exI [of _ f'], rule exI [of _ zs], simp)
qed auto

lemma ExtractSubrange_ok:
  assumes "holds f xs" "0 \<le> start" "0 \<le> num" "start + num \<le> int (length xs)"
  obtains f' where "ExtractSubrange f start num wanted =
      Inr (f', if wanted then take (nat num) (drop (nat start) xs) else [])"
    "holds f' (take (nat start) xs @ drop (nat (start + num)) xs)" "rf_arena f' = rf_arena f"
proof -
  define vs where "vs = (if wanted then take (nat num) (drop (nat start) xs) else [])"
  obtain s k where sk: "start = int s" "num = int k" using assms(2,3) nonneg_int_cases by metis
  have le: "s + k \<le> length xs" using assms(4) sk by linarith
  have vs: "(if wanted then copy_out f start (nat num) else Inr []) = Inr vs"
    using copy_out_ok [OF assms(1) le] by (simp add: vs_def sk)
  show ?thesis
  proof (cases "k = 0")
    case True
    then show ?thesis using that [of f] vs assms(1) by (simp add: ExtractSubrange_def sk vs_def)
  next
    case False
    have b: "in_i32 (int s + int k)" "in_i32 (int (length xs - k))"
      using le holds_bounds [OF assms(1)] unfolding in_i32_def by linarith+
    have "s + k + (length xs - (s + k)) = length xs" using le by simp
    with slide_ok [OF assms(1), of k "s + k" "length xs - (s + k)"] False obtain f1 zs where
      f1: "slide f (int k) (int s + int k) (length xs - (s + k)) = Inr f1" "holds f1 zs" "length zs = length xs"
        "take (length xs - k) zs = take s xs @ drop (s + k) xs" "rf_arena f1 = rf_arena f" by auto
    have n: "nat (current_size f - (int s + int k)) = length xs - (s + k)" "current_size f1 - int k = int (length xs - k)"
      using le f1(3) holds_size(2) [OF assms(1)] holds_size(2) [OF f1(2)] by linarith+
    have "0 < num" using False sk by simp
    then have "ExtractSubrange f start num wanted = Inr (Truncate f1 (int (length xs - k)), vs)"
      unfolding ExtractSubrange_def vs unfolding sk
      by (simp only: bind_res_simps if_True i32_simps b(1) n(1) f1(1)) (simp only: bind_res_simps n(2) i32_simps b(2))
    moreover have "holds (Truncate f1 (int (length xs - k))) (take s xs @ drop (s + k) xs)"
      "rf_arena (Truncate f1 (int (length xs - k))) = rf_arena f"
      using Truncate_ok [OF f1(2), of "int (length xs - k)"] f1(3-5) by simp_all
    moreover have "nat (int s + int k) = s + k" by simp
    ultimately show ?thesis using that by (simp add: vs_def sk)
  qed
qed

lemma erase_range_ok:
  assumes "holds f xs" "0 \<le> first" "first \<le> until" "until \<le> int (length xs)"
  obtains f' where "erase_range f first until = Inr (f', first)"
    "holds f' (take (nat first) xs @ drop (nat until) xs)" "rf_arena f' = rf_arena f"
proof (cases "first = until")
  case True
  then show ?thesis using that [of f] assms(1) by (simp add: erase_range_def)
next
  case False
  obtain a b where ab: "first = int a" "until = int b" using assms(2,3) nonneg_int_cases by (metis order_trans)
  have le: "a < b" "b \<le> length xs" using assms(3,4) False ab by linarith+
  have t: "0 < total_size f" using holds_bounds [OF assms(1)] le by linarith
  obtain r es where es: "ptr f = Element_pointer r es" "elements f = Inr es" "total_size f = int (length es)"
    "length xs \<le> length es" "take (length xs) es = map Some xs"
    by (rule holds_elements [OF assms(1) t])
  let ?m = "poke es a (take (length xs - b) (drop b es))"
  have n: "int (length xs) - int b = int (length xs - b)" using le by linarith
  have l: "length (take (length xs - b) (drop b es)) = length xs - b" using es(4) by simp
  then have lm: "length ?m = length es" using le es(4) by (simp add: poke_def)
  have "take (length xs - b) (drop b es) = drop b (take (length xs) es)" by (simp add: drop_take)
  then have d: "take (length xs - b) (drop b es) = map Some (drop b xs)" by (simp add: es(5) drop_map)
  have ta: "take a es = map Some (take a xs)"
    using arg_cong [OF es(5), of "take a"] le by (simp add: take_map min_absorb1)
  let ?ys = "take a xs @ drop b xs"
  have ly: "length ?ys = a + (length xs - b)" using le by simp
  have "take (a + (length xs - b)) ?m = map Some ?ys" using le es(4) by (simp add: poke_def d ta)
  then have "take (length ?ys) ?m = map Some ?ys" unfolding ly .
  moreover have "int (length ?m) = total_size f" "length ?ys \<le> length ?m" using lm es(3,4) le unfolding ly by linarith+
  ultimately have h: "holds ((set_elements f ?m)\<lparr>current_size := int (a + (length xs - b))\<rparr>) ?ys"
    "rf_arena ((set_elements f ?m)\<lparr>current_size := int (a + (length xs - b))\<rparr>) = rf_arena f"
    using holds_write [OF assms(1) t, of ?m ?ys "int (a + (length xs - b))"] unfolding ly by blast+
  have cs: "current_size f - until = int (length xs - b)" "0 < current_size f"
    using le holds_size(2) [OF assms(1)] ab by linarith+
  have "int a + int (length xs - b) \<le> int (length es)" "int b + int (length xs - b) \<le> int (length es)"
    using le es(4) by linarith+
  then have cp: "CopyArray es first es until (int (length xs - b)) = Inr ?m"
    unfolding CopyArray_def ab nat_int by simp
  have "first + int (length xs - b) = int (a + (length xs - b))" using ab by simp
  moreover have "0 < current_size (set_elements f ?m)" using cs(2) es(1) by (simp add: set_elements_def)
  ultimately have "erase_range f first until =
      Inr ((set_elements f ?m)\<lparr>current_size := int (a + (length xs - b))\<rparr>, first)"
    using False unfolding erase_range_def Let_def es(2) bind_res_simps cs(1) cp Truncate_def by simp
  then show ?thesis using that h by (simp add: ab)
qed

lemma Resize_ok:
  assumes "holds f xs" "0 \<le> n" "n \<le> 1073741824"
  obtains f' where "Resize f n v = Inr f'" "holds f' (take (nat n) xs @ replicate (nat n - length xs) v)"
    "rf_arena f' = rf_arena f"
proof (cases "int (length xs) < n")
  case False
  then have "Resize f n v = Inr (f\<lparr>current_size := int (nat n)\<rparr>)"
    using assms(2) holds_size(2) [OF assms(1)] by (simp add: Resize_def)
  moreover have "nat n \<le> length xs" using False by linarith
  ultimately show ?thesis using that holds_shrink [OF assms(1), of "nat n"] by simp
next
  case True
  obtain g where g: "Reserve f n = Inr g" "holds g xs" "n \<le> total_size g" "rf_arena g = rf_arena f"
    by (rule Reserve_ok [OF assms(1), of n]) (use assms(3) in auto)
  have t: "0 < total_size g" using g(3) True by linarith
  obtain r es where es: "ptr g = Element_pointer r es" "elements g = Inr es" "total_size g = int (length es)"
    "length xs \<le> length es" "take (length xs) es = map Some xs"
    by (rule holds_elements [OF g(2) t])
  define m where "m = poke es (length xs) (replicate (nat n - length xs) (Some v))"
  let ?ys = "xs @ replicate (nat n - length xs) v"
  have le: "nat n \<le> length es" "length xs \<le> nat n" using g(3) es(3) True by linarith+
  have lm: "int (length m) = total_size g" "length ?ys \<le> length m" using le es(3) by (simp_all add: m_def poke_def)
  have "take (length ?ys) m = map Some ?ys" using le es(4,5) by (simp add: m_def poke_def)
  from holds_write [OF g(2) t lm this, of n] True assms(2)
  have h: "holds ((set_elements g m)\<lparr>current_size := n\<rparr>) ?ys"
    "rf_arena ((set_elements g m)\<lparr>current_size := n\<rparr>) = rf_arena g" by simp_all
  have "nat (n - int (length xs)) = nat n - length xs" using True by linarith
  then have "Resize f n v = Inr ((set_elements g m)\<lparr>current_size := n\<rparr>)"
    using True g(1,3) es(2,3) holds_size(2) [OF assms(1)] holds_size(2) [OF g(2)]
    by (simp add: Resize_def m_def)
  then show ?thesis using that h g(4) le(2) by simp
qed

section \<open>Two fields\<close>

text \<open>The common end of \<open>MergeFrom\<close> and the copy constructor.\<close>

lemma append_copy:
  assumes "holds g xs" "holds h ys" "ys \<noteq> []" "int (length xs + length ys) \<le> total_size g"
  obtains f' where "bind_res (AddNAlreadyReserved g (int (length ys))) (\<lambda>(f, _).
      bind_res (Mutable f (int (length xs))) (\<lambda>i. bind_res (elements f) (\<lambda>es.
      bind_res (elements h) (\<lambda>other_es. bind_res (CopyArray es i other_es 0 (int (length ys))) (\<lambda>es.
      Inr (set_elements f es)))))) = Inr f'"
    "holds f' (xs @ ys)" "rf_arena f' = rf_arena g"
proof -
  have ly: "0 < length ys" using assms(3) by simp
  have t: "0 < total_size g" "0 < total_size h" using assms(4) ly holds_bounds [OF assms(2)] by linarith+
  obtain r es where es: "ptr g = Element_pointer r es" "elements g = Inr es" "total_size g = int (length es)"
    "length xs \<le> length es" "take (length xs) es = map Some xs" by (rule holds_elements [OF assms(1) t(1)])
  obtain q ds where ds: "ptr h = Element_pointer q ds" "elements h = Inr ds" "total_size h = int (length ds)"
    "length ys \<le> length ds" "take (length ys) ds = map Some ys" by (rule holds_elements [OF assms(2) t(2)])
  define m where "m = poke es (length xs) (map Some ys)"
  let ?n = "int (length (xs @ ys))"
  have le: "length xs + length ys \<le> length es" using assms(4) es(3) by linarith
  have i: "i32 (int (length xs) + int (length ys)) = Inr ?n"
    using assms(4) holds_bounds [OF assms(1)] by (simp add: in_i32_def)
  have an: "AddNAlreadyReserved g (int (length ys)) = Inr (g\<lparr>current_size := ?n\<rparr>, int (length xs))"
    unfolding AddNAlreadyReserved_def holds_size(2) [OF assms(1)] i by simp
  have e: "elements (g\<lparr>current_size := ?n\<rparr>) = Inr es" using es(1) by (simp add: elements_def)
  have c: "CopyArray es (int (length xs)) ds 0 (int (length ys)) = Inr m"
    using le ds(4,5) by (simp add: CopyArray_def m_def)
  have s: "set_elements (g\<lparr>current_size := ?n\<rparr>) m = (set_elements g m)\<lparr>current_size := ?n\<rparr>"
    using es(1) by (simp add: set_elements_def)
  have "int (length m) = total_size g" "length (xs @ ys) \<le> length m" using le es(3) by (simp_all add: m_def poke_def)
  moreover have "take (length (xs @ ys)) m = map Some (xs @ ys)" using le es(5) by (simp add: m_def poke_def)
  ultimately have "holds ((set_elements g m)\<lparr>current_size := ?n\<rparr>) (xs @ ys)"
    "rf_arena ((set_elements g m)\<lparr>current_size := ?n\<rparr>) = rf_arena g"
    using holds_write [OF assms(1) t(1), of m "xs @ ys" ?n] by blast+
  then show ?thesis using that unfolding an bind_res_simps prod.case Mutable_def e ds(2) c s by blast
qed

lemma MergeFrom_ok:
  assumes "holds f xs" "holds h ys" "length xs + length ys \<le> 1073741824"
  obtains f' where "MergeFrom f h = Inr f'" "holds f' (xs @ ys)" "rf_arena f' = rf_arena f"
proof (cases "ys = []")
  case True
  then show ?thesis using that [of f] assms(1) holds_size(2) [OF assms(2)] by (simp add: MergeFrom_def)
next
  case False
  let ?n = "int (length xs + length ys)"
  obtain g where g: "Reserve f ?n = Inr g" "holds g xs" "?n \<le> total_size g" "rf_arena g = rf_arena f"
    by (rule Reserve_ok [OF assms(1), of ?n]) (use assms(3) in auto)
  have i: "i32 (int (length xs) + int (length ys)) = Inr ?n"
    using assms(3) by (simp add: in_i32_def)
  obtain f' where f': "bind_res (AddNAlreadyReserved g (int (length ys))) (\<lambda>(f, _).
      bind_res (Mutable f (int (length xs))) (\<lambda>i. bind_res (elements f) (\<lambda>es.
      bind_res (elements h) (\<lambda>other_es. bind_res (CopyArray es i other_es 0 (int (length ys))) (\<lambda>es.
      Inr (set_elements f es)))))) = Inr f'" "holds f' (xs @ ys)" "rf_arena f' = rf_arena g"
    by (rule append_copy [OF g(2) assms(2) False g(3)])
  have ne: "int (length ys) \<noteq> 0" using False by simp
  have "MergeFrom f h = Inr f'"
    using ne f'(1) unfolding MergeFrom_def Let_def holds_size [OF assms(1)] holds_size [OF assms(2)] i bind_res_simps g(1)
    by simp
  then show ?thesis using that f'(2,3) g(4) by simp
qed

lemma copy_RepeatedField_ok:
  fixes h :: "'a RepeatedField"
  assumes "holds h ys" "length ys \<le> 1073741824"
  obtains f where "copy_RepeatedField h = Inr f" "holds f ys" "rf_arena f = None"
proof (cases "ys = []")
  case True
  then show ?thesis using that [of new_RepeatedField] holds_size(2) [OF assms(1)] holds_new(1)
    by (simp add: copy_RepeatedField_def) (simp add: rf_arena_def new_RepeatedField_def)
next
  case False
  let ?n = "int (length ys)"
  obtain g where g: "Reserve (new_RepeatedField :: 'a RepeatedField) ?n = Inr g" "holds g []" "?n \<le> total_size g"
      "rf_arena g = rf_arena (new_RepeatedField :: 'a RepeatedField)"
    by (rule Reserve_ok [OF holds_new(1), of ?n]) (use assms(2) in \<open>simp_all add: new_RepeatedField_def\<close>)
  have "int (length [] + length ys) \<le> total_size g" using g(3) by simp
  then obtain f' where f': "bind_res (AddNAlreadyReserved g (int (length ys))) (\<lambda>(f, _).
      bind_res (Mutable f (int (length ([] :: 'a list)))) (\<lambda>i. bind_res (elements f) (\<lambda>es.
      bind_res (elements h) (\<lambda>other_es. bind_res (CopyArray es i other_es 0 (int (length ys))) (\<lambda>es.
      Inr (set_elements f es)))))) = Inr f'" "holds f' ([] @ ys)" "rf_arena f' = rf_arena g"
    by (rule append_copy [OF g(2) assms(1) False])
  have ne: "int (length ys) \<noteq> 0" using False by simp
  have "copy_RepeatedField h = Inr f'"
    using ne f'(1) unfolding copy_RepeatedField_def Let_def holds_size [OF assms(1)] g(1) bind_res_simps by simp
  moreover have "rf_arena (new_RepeatedField :: 'a RepeatedField) = None"
    by (simp add: rf_arena_def new_RepeatedField_def)
  ultimately show ?thesis using that f'(2,3) g(4) by simp
qed

lemma CopyFrom_ok:
  assumes "holds f xs" "holds h ys" "length ys \<le> 1073741824"
  obtains f' where "CopyFrom False f h = Inr f'" "holds f' ys" "rf_arena f' = rf_arena f"
proof -
  have "length [] + length ys \<le> 1073741824" using assms(3) by simp
  then obtain f' where "MergeFrom (Clear f) h = Inr f'" "holds f' ([] @ ys)" "rf_arena f' = rf_arena (Clear f)"
    by (rule MergeFrom_ok [OF Clear_ok [OF assms(1)] assms(2)])
  then show ?thesis using that by (simp add: CopyFrom_def Clear_def rf_arena_def)
qed

lemma RepeatedField_InternalSwap_eq:
  "RepeatedField_InternalSwap f (h :: 'a RepeatedField) = (h, f)"
  by (cases f; cases h) (simp add: RepeatedField_InternalSwap_def)

text \<open>\<open>Swap\<close> exchanges the lists; each field stays on its arena.\<close>

lemma RepeatedField_Swap_ok:
  assumes "holds f xs" "holds h ys" "length xs \<le> 1073741824" "length ys \<le> 1073741824"
  obtains f' h' where "RepeatedField_Swap False f h = Inr (f', h')" "holds f' ys" "holds h' xs"
    "rf_arena f' = rf_arena f" "rf_arena h' = rf_arena h"
proof (cases "rf_arena f = rf_arena h")
  case True
  have "RepeatedField_Swap False f h = Inr (h, f)"
    unfolding RepeatedField_Swap_def holds_arena [OF assms(1)] holds_arena [OF assms(2)] bind_res_simps
    by (simp add: True RepeatedField_InternalSwap_eq)
  then show ?thesis by (rule that [OF _ assms(2,1)]) (simp_all add: True)
next
  case False
  have "length [] + length xs \<le> 1073741824" using assms(3) by simp
  then obtain g where g: "MergeFrom (new_RepeatedField_arena (rf_arena h)) f = Inr g" "holds g ([] @ xs)"
    "rf_arena g = rf_arena (new_RepeatedField_arena (rf_arena h) :: 'a RepeatedField)"
    by (rule MergeFrom_ok [OF holds_new(2) assms(1)])
  obtain f' where f': "CopyFrom False f h = Inr f'" "holds f' ys" "rf_arena f' = rf_arena f"
    by (rule CopyFrom_ok [OF assms(1,2,4)])
  have "RepeatedField_Swap False f h = Inr (f', g)"
    using False g(1) f'(1)
    by (simp add: RepeatedField_Swap_def holds_arena [OF assms(1)] holds_arena [OF assms(2)] UnsafeArenaSwap_def
        RepeatedField_InternalSwap_eq)
  then show ?thesis using that f' g by (simp add: rf_arena_def new_RepeatedField_arena_def)
qed

lemma move_RepeatedField_ok:
  assumes "holds h ys" "length ys \<le> 1073741824"
  obtains f h' where "move_RepeatedField h = Inr (f, h')" "holds f ys" "rf_arena f = None"
proof (cases "rf_arena h = None")
  case True
  then show ?thesis using that [of h new_RepeatedField] assms(1)
    by (simp add: move_RepeatedField_def holds_arena [OF assms(1)] RepeatedField_InternalSwap_eq)
next
  case False
  obtain f where "CopyFrom False new_RepeatedField h = Inr f" "holds f ys"
      "rf_arena f = rf_arena (new_RepeatedField :: 'a RepeatedField)"
    by (rule CopyFrom_ok [OF holds_new(1) assms])
  then show ?thesis using that False assms(1)
    by (simp add: move_RepeatedField_def holds_arena [OF assms(1)]) (simp add: rf_arena_def new_RepeatedField_def)
qed

lemma SwapElements_ok:
  assumes "holds f xs" "0 \<le> i" "i < int (length xs)" "0 \<le> j" "j < int (length xs)"
  obtains f' where "SwapElements f i j = Inr f'" "holds f' (xs[nat i := xs ! nat j, nat j := xs ! nat i])"
proof -
  have t: "0 < total_size f" using holds_bounds [OF assms(1)] assms(2,3) by linarith
  obtain r es where es: "ptr f = Element_pointer r es" "elements f = Inr es" "total_size f = int (length es)"
    "length xs \<le> length es" "take (length xs) es = map Some xs" by (rule holds_elements [OF assms(1) t])
  define m where "m = es[nat i := es ! nat j, nat j := es ! nat i]"
  let ?ys = "xs[nat i := xs ! nat j, nat j := xs ! nat i]"
  have ij: "nat i < length xs" "nat j < length xs" using assms by linarith+
  have nth: "es ! k = Some (xs ! k)" if "k < length xs" for k
    using arg_cong [OF es(5), of "\<lambda>l. l ! k"] that es(4) by simp
  have "take (length xs) m = map Some ?ys"
    using ij es(5) by (simp add: m_def take_update_swap nth map_update)
  then have h: "holds ((set_elements f m)\<lparr>current_size := int (length xs)\<rparr>) ?ys"
    using holds_write(1) [OF assms(1) t, of m ?ys "int (length xs)"] es(3,4) by (simp add: m_def)
  have b: "i < int (length es)" "j < int (length es)" using assms es(4) by linarith+
  have "SwapElements f i j = Inr (set_elements f m)"
    using es(2) assms(2,4) b by (simp add: SwapElements_def m_def)
  moreover have "set_elements f m = (set_elements f m)\<lparr>current_size := int (length xs)\<rparr>"
    using holds_size(2) [OF assms(1)] es(1) by (simp add: set_elements_def)
  ultimately show ?thesis using that h by simp
qed

section \<open>Filling a field\<close>

text \<open>What a reader of repeated values relies on: appending works up to a limit.\<close>

locale growing =
  fixes rep :: "'f \<Rightarrow> 'a list \<Rightarrow> bool" and add :: "'f \<Rightarrow> 'a \<Rightarrow> 'f res" and limit :: nat
  assumes add_ok: "rep f xs \<Longrightarrow> length xs < limit \<Longrightarrow> \<exists>f'. add f v = Inr f' \<and> rep f' (xs @ [v])"
begin

lemma add_all_ok:
  "rep f xs \<Longrightarrow> length xs + length ys \<le> limit \<Longrightarrow> \<exists>f'. add_all add f ys = Inr f' \<and> rep f' (xs @ ys)"
proof (induction ys arbitrary: f xs)
  case (Cons y ys)
  have "length xs < limit" using Cons.prems(2) by simp
  from add_ok [OF Cons.prems(1) this] obtain g where g: "add f y = Inr g" "rep g (xs @ [y])" by blast
  with Cons.IH [OF g(2)] Cons.prems(2) show ?case by auto
qed simp

end

interpretation rf_add: growing holds Add 1073741824
  by unfold_locales (metis Add_ok)

text \<open>Appending one by one doubles the capacity only when it is used up.\<close>

definition tight :: "'a RepeatedField \<Rightarrow> 'a list \<Rightarrow> bool" where
  "tight f xs \<longleftrightarrow> holds f xs \<and> (if xs = [] then total_size f = 0 else total_size f \<le> max 4 (2 * (int (length xs) - 1)))"

interpretation rf_tight: growing tight Add 1073741824
proof
  fix f :: "'a RepeatedField" and xs v
  assume t: "tight f xs" and l: "length xs < 1073741824"
  have h: "holds f xs" using t by (simp add: tight_def)
  obtain f' where f': "Add f v = Inr f'" "holds f' (xs @ [v])" "rf_arena f' = rf_arena f"
    "total_size f' = (if int (length xs) = total_size f then max 4 (2 * total_size f) else total_size f)"
    by (rule Add_ok [OF h l])
  have "total_size f' \<le> max 4 (2 * int (length xs))"
    using t f'(4) holds_bounds [OF h] by (cases "xs = []") (auto simp: tight_def max_def split: if_splits)
  then show "\<exists>f'. Add f v = Inr f' \<and> tight f' (xs @ [v])" using f'(1,2) by (auto simp: tight_def)
qed

interpretation rf_filled: growing "\<lambda>f xs. holds f xs \<and> total_size f = t \<and> int n \<le> t" AddAlreadyReserved n for t n
proof
  fix f :: "'a RepeatedField" and xs v
  assume h: "holds f xs \<and> total_size f = t \<and> int n \<le> t" "length xs < n"
  then have "int (length xs) < total_size f" by linarith
  with h(1) obtain f' where "AddAlreadyReserved f v = Inr f'" "holds f' (xs @ [v])" "total_size f' = total_size f"
    using AddAlreadyReserved_ok by metis
  with h(1) show "\<exists>f'. AddAlreadyReserved f v = Inr f' \<and> holds f' (xs @ [v]) \<and> total_size f' = t \<and> int n \<le> t" by auto
qed

lemma range_RepeatedField_ok:
  fixes xs :: "'a list"
  assumes "length xs \<le> 1073741824"
  obtains f where "range_RepeatedField forward xs = Inr f" "holds f xs"
proof (cases forward)
  case True
  obtain g :: "'a RepeatedField" where g: "Reserve new_RepeatedField (int (length xs)) = Inr g" "holds g []"
      "int (length xs) \<le> total_size g"
    by (rule Reserve_ok [OF holds_new(1), of "int (length xs)"])
      (use assms in \<open>simp_all add: new_RepeatedField_def\<close>)
  then show ?thesis
    using that rf_filled.add_all_ok [of g "[]" "total_size g" "length xs" xs] True
    by (auto simp: range_RepeatedField_def CalculateReserve_def)
next
  case False
  then show ?thesis
    using that rf_add.add_all_ok [OF holds_new(1), of xs] assms
    by (auto simp: range_RepeatedField_def CalculateReserve_def)
qed

section \<open>The field implements the list\<close>

text \<open>
  Operations as a user calls them, and what they mean for a list: \<open>None\<close> outside the
  preconditions that the debug checks state, and above \<open>2^30\<close> elements.
\<close>

datatype 'a rf_op = Op_Add 'a | Op_Set int 'a | Op_RemoveLast | Op_Truncate int | Op_Resize int 'a | Op_Clear
  | Op_Reserve int | Op_Extract int int | Op_Erase int int | Op_SwapElements int int | Op_Merge "'a list" | Op_Copy "'a list"

fun rf_run :: "'a rf_op \<Rightarrow> 'a RepeatedField \<Rightarrow> 'a RepeatedField res" where
  "rf_run (Op_Add v) f = Add f v"
| "rf_run (Op_Set i v) f = Set f i v"
| "rf_run Op_RemoveLast f = RemoveLast f"
| "rf_run (Op_Truncate n) f = Inr (Truncate f n)"
| "rf_run (Op_Resize n v) f = Resize f n v"
| "rf_run Op_Clear f = Inr (Clear f)"
| "rf_run (Op_Reserve n) f = Reserve f n"
| "rf_run (Op_Extract i n) f = bind_res (ExtractSubrange f i n True) (\<lambda>(f, vs). Inr f)"
| "rf_run (Op_Erase i j) f = bind_res (erase_range f i j) (\<lambda>(f, k). Inr f)"
| "rf_run (Op_SwapElements i j) f = SwapElements f i j"
| "rf_run (Op_Merge ys) f = bind_res (range_RepeatedField True ys) (MergeFrom f)"
| "rf_run (Op_Copy ys) f = bind_res (range_RepeatedField False ys) (CopyFrom False f)"

definition guarded :: "bool \<Rightarrow> 'a list \<Rightarrow> 'a list option" where
  "guarded c ys = (if c \<and> length ys \<le> 1073741824 then Some ys else None)"

fun rf_spec :: "'a rf_op \<Rightarrow> 'a list \<Rightarrow> 'a list option" where
  "rf_spec (Op_Add v) xs = guarded True (xs @ [v])"
| "rf_spec (Op_Set i v) xs = guarded (0 \<le> i \<and> i < int (length xs)) (xs[nat i := v])"
| "rf_spec Op_RemoveLast xs = guarded (xs \<noteq> []) (butlast xs)"
| "rf_spec (Op_Truncate n) xs = guarded (0 \<le> n \<and> n \<le> int (length xs)) (take (nat n) xs)"
| "rf_spec (Op_Resize n v) xs = guarded (0 \<le> n \<and> n \<le> 1073741824) (take (nat n) xs @ replicate (nat n - length xs) v)"
| "rf_spec Op_Clear xs = guarded True []"
| "rf_spec (Op_Reserve n) xs = guarded (n \<le> 1073741824) xs"
| "rf_spec (Op_Extract i n) xs = guarded (0 \<le> i \<and> 0 \<le> n \<and> i + n \<le> int (length xs)) (take (nat i) xs @ drop (nat (i + n)) xs)"
| "rf_spec (Op_Erase i j) xs = guarded (0 \<le> i \<and> i \<le> j \<and> j \<le> int (length xs)) (take (nat i) xs @ drop (nat j) xs)"
| "rf_spec (Op_SwapElements i j) xs = guarded (0 \<le> i \<and> i < int (length xs) \<and> 0 \<le> j \<and> j < int (length xs))
     (xs[nat i := xs ! nat j, nat j := xs ! nat i])"
| "rf_spec (Op_Merge ys) xs = guarded True (xs @ ys)"
| "rf_spec (Op_Copy ys) xs = guarded True ys"

lemma guarded_Some: "guarded c ys = Some zs \<longleftrightarrow> c \<and> length ys \<le> 1073741824 \<and> zs = ys"
  by (auto simp: guarded_def)

lemma rf_run_refines:
  assumes "holds f xs" "rf_spec p xs = Some ys"
  shows "\<exists>f'. rf_run p f = Inr f' \<and> holds f' ys"
proof (cases p)
  case (Op_Add v)
  then have "length xs < 1073741824" "ys = xs @ [v]" using assms(2) by (simp_all add: guarded_Some)
  then show ?thesis using Op_Add by (metis Add_ok [OF assms(1)] rf_run.simps(1))
next
  case (Op_Set i v)
  then have i: "0 \<le> i" "i < int (length xs)" "ys = xs[nat i := v]" using assms(2) by (simp_all add: guarded_Some)
  show ?thesis unfolding Op_Set rf_run.simps i(3) by (rule Set_ok [OF assms(1) i(1,2)]) blast
next
  case Op_RemoveLast
  then have i: "xs \<noteq> []" "ys = butlast xs" using assms(2) by (simp_all add: guarded_Some)
  show ?thesis unfolding Op_RemoveLast rf_run.simps i(2) by (rule RemoveLast_ok [OF assms(1) i(1)]) blast
next
  case (Op_Truncate n)
  then show ?thesis using assms(2) Truncate_ok(1) [OF assms(1)] by (simp add: guarded_Some)
next
  case (Op_Resize n v)
  then have i: "0 \<le> n" "n \<le> 1073741824" "ys = take (nat n) xs @ replicate (nat n - length xs) v"
    using assms(2) by (simp_all add: guarded_Some)
  show ?thesis unfolding Op_Resize rf_run.simps i(3) by (rule Resize_ok [OF assms(1) i(1,2)]) blast
next
  case Op_Clear
  then show ?thesis using assms(2) Clear_ok [OF assms(1)] by (simp add: guarded_Some)
next
  case (Op_Reserve n)
  then have i: "n \<le> 2147483647" "total_size f < n \<longrightarrow> total_size f \<le> 1073741823" "ys = xs"
    using assms(2) by (auto simp add: guarded_Some)
  show ?thesis unfolding Op_Reserve rf_run.simps i(3) by (rule Reserve_ok [OF assms(1) i(1,2)]) blast
next
  case (Op_Extract i n)
  then have i: "0 \<le> i" "0 \<le> n" "i + n \<le> int (length xs)" "ys = take (nat i) xs @ drop (nat (i + n)) xs"
    using assms(2) by (simp_all add: guarded_Some)
  show ?thesis unfolding Op_Extract rf_run.simps i(4)
    by (rule ExtractSubrange_ok [OF assms(1) i(1-3), of True]) simp
next
  case (Op_Erase i j)
  then have i: "0 \<le> i" "i \<le> j" "j \<le> int (length xs)" "ys = take (nat i) xs @ drop (nat j) xs"
    using assms(2) by (simp_all add: guarded_Some)
  show ?thesis unfolding Op_Erase rf_run.simps i(4) by (rule erase_range_ok [OF assms(1) i(1-3)]) simp
next
  case (Op_SwapElements i j)
  then have i: "0 \<le> i" "i < int (length xs)" "0 \<le> j" "j < int (length xs)"
    "ys = xs[nat i := xs ! nat j, nat j := xs ! nat i]" using assms(2) by (simp_all add: guarded_Some)
  show ?thesis unfolding Op_SwapElements rf_run.simps i(5) by (rule SwapElements_ok [OF assms(1) i(1-4)]) blast
next
  case (Op_Merge zs)
  then have i: "length zs \<le> 1073741824" "length xs + length zs \<le> 1073741824" "ys = xs @ zs"
    using assms(2) by (simp_all add: guarded_Some)
  obtain h where h: "range_RepeatedField True zs = Inr h" "holds h zs" by (rule range_RepeatedField_ok [OF i(1)])
  show ?thesis unfolding Op_Merge rf_run.simps i(3) h(1) bind_res_simps
    by (rule MergeFrom_ok [OF assms(1) h(2) i(2)]) blast
next
  case (Op_Copy zs)
  then have i: "length zs \<le> 1073741824" "ys = zs" using assms(2) by (simp_all add: guarded_Some)
  obtain h where h: "range_RepeatedField False zs = Inr h" "holds h zs" by (rule range_RepeatedField_ok [OF i(1)])
  show ?thesis unfolding Op_Copy rf_run.simps i(2) h(1) bind_res_simps
    by (rule CopyFrom_ok [OF assms(1) h(2) i(1)]) blast
qed

fun rf_runs :: "'a rf_op list \<Rightarrow> 'a RepeatedField \<Rightarrow> 'a RepeatedField res" where
  "rf_runs [] f = Inr f"
| "rf_runs (p # ps) f = bind_res (rf_run p f) (rf_runs ps)"

fun rf_specs :: "'a rf_op list \<Rightarrow> 'a list \<Rightarrow> 'a list option" where
  "rf_specs [] xs = Some xs"
| "rf_specs (p # ps) xs = (case rf_spec p xs of None \<Rightarrow> None | Some ys \<Rightarrow> rf_specs ps ys)"

lemma rf_runs_refines:
  "holds f xs \<Longrightarrow> rf_specs ps xs = Some ys \<Longrightarrow> \<exists>f'. rf_runs ps f = Inr f' \<and> holds f' ys"
proof (induction ps arbitrary: f xs)
  case (Cons p ps)
  from Cons.prems(2) obtain zs where zs: "rf_spec p xs = Some zs" "rf_specs ps zs = Some ys"
    by (auto split: option.splits)
  from rf_run_refines [OF Cons.prems(1) zs(1)] obtain g where g: "rf_run p f = Inr g" "holds g zs" by blast
  with Cons.IH [OF g(2) zs(2)] show ?case by auto
qed simp

section \<open>Properties\<close>

text \<open>
  C26: the capacity of a repeated field.  Filled from a range of known length it has room for exactly the elements, at least four;
  filled element by element it has room for the elements and less than twice as much, so that doubling never
  overflows and the slots written are a linear number, up to \<open>2^30\<close> elements.
\<close>

theorem repeated_capacity_bounds:
  assumes "length xs \<le> 1073741824" and "xs \<noteq> []"
  shows "\<exists>f g. range_RepeatedField True xs = Inr f \<and> Capacity f = max 4 (int (length xs)) \<and>
    range_RepeatedField False xs = Inr g \<and> int (length xs) \<le> Capacity g \<and>
    Capacity g \<le> max 4 (2 * (int (length xs) - 1)) \<and> copy_out f 0 (length xs) = copy_out g 0 (length xs)"
proof -
  obtain r :: "'a RepeatedField" where r: "Reserve new_RepeatedField (int (length xs)) = Inr r" "holds r []"
      "total_size r = max 4 (int (length xs))"
  proof (rule Reserve_ok [OF holds_new(1), of "int (length xs)"])
    show "int (length xs) \<le> 2147483647" using assms(1) by simp
  qed (use assms(2) in \<open>auto simp: new_RepeatedField_def max_def split: if_splits\<close>)
  have "int (length xs) \<le> total_size r" using r(3) by simp
  then obtain f where f: "add_all AddAlreadyReserved r xs = Inr f" "holds f xs" "total_size f = total_size r"
    using rf_filled.add_all_ok [of r "[]" "total_size r" "length xs" xs] r(2) by auto
  have "tight (new_RepeatedField :: 'a RepeatedField) []" by (simp add: tight_def new_RepeatedField_def holds_def)
  then obtain g where g: "add_all Add new_RepeatedField xs = Inr g" "tight g xs"
    using rf_tight.add_all_ok [of new_RepeatedField "[]" xs] assms(1) by auto
  have h: "holds g xs" using g(2) by (simp add: tight_def)
  have "range_RepeatedField True xs = Inr f" "range_RepeatedField False xs = Inr g"
    using r(1) f(1) g(1) by (simp_all add: range_RepeatedField_def CalculateReserve_def)
  moreover have "copy_out f 0 (length xs) = copy_out g 0 (length xs)"
    using copy_out_ok [OF f(2), of 0 "length xs"] copy_out_ok [OF h, of 0 "length xs"] by simp
  ultimately show ?thesis using r(3) f(3) g(2) holds_bounds [OF h] assms(2) by (auto simp: Capacity_def tight_def)
qed

theorem repeated_capacity_bounds_witness:
  "\<exists>g. range_RepeatedField False [1, 2, 3, 4, 5 :: int] = Inr g \<and> 5 \<le> Capacity g \<and> Capacity g \<le> 8"
  using repeated_capacity_bounds [of "[1, 2, 3, 4, 5 :: int]"] by auto

text \<open>
  C21: a repeated field is a list.  Any sequence of appends, updates, removals, truncations, resizes, reservations,
  extractions, erasures, exchanges, merges and copies that is legal for a list of at most \<open>2^30\<close> elements runs on the field without a
  fault (no access outside the allocation or to a slot that was never written, no overflow in the growth by doubling),
  and afterwards the size and the elements that \<open>Get\<close> returns are those of the list.
\<close>

theorem repeated_field_refines:
  assumes "rf_specs ps [] = Some ys"
  shows "\<exists>f. rf_runs ps new_RepeatedField = Inr f \<and> rf_size f = int (length ys) \<and>
    (\<forall>i. 0 \<le> i \<and> i < int (length ys) \<longrightarrow> Get f i = Inr (ys ! nat i)) \<and>
    copy_out f 0 (length ys) = Inr ys \<and> int (length ys) \<le> Capacity f"
proof -
  from rf_runs_refines [OF holds_new(1) assms] obtain f where
    f: "rf_runs ps new_RepeatedField = Inr f" "holds f ys" by blast
  have "copy_out f 0 (length ys) = Inr ys" using copy_out_ok [OF f(2), of 0 "length ys"] by simp
  then show ?thesis using f(1) holds_size(1) [OF f(2)] Get_ok [OF f(2)] holds_bounds [OF f(2)]
    by (auto simp: Capacity_def)
qed

theorem repeated_field_refines_witness:
  "\<exists>f. rf_runs [Op_Merge [1, 2, 3, 4, 5 :: int], Op_Add 6, Op_Extract 1 2, Op_Set 0 9, Op_Resize 5 7, Op_RemoveLast]
     new_RepeatedField = Inr f \<and> copy_out f 0 (length [9, 4, 5, 6 :: int]) = Inr [9, 4, 5, 6]"
proof -
  have "rf_specs [Op_Merge [1, 2, 3, 4, 5 :: int], Op_Add 6, Op_Extract 1 2, Op_Set 0 9, Op_Resize 5 7, Op_RemoveLast] [] =
      Some [9, 4, 5, 6]"
    by (simp add: guarded_def)
  from repeated_field_refines [OF this] show ?thesis by blast
qed

end
