(* ===== verification/RepeatedWire.thy ===== *)
theory RepeatedWire
  imports WireFormat RepeatedField
begin

unbundle bit_operations_syntax

text \<open>
  Repeated fields on the wire: the parts of \<open>wire_format_lite_inl.h\<close> that read a run of values with the same tag into a
  \<open>RepeatedField\<close>, with the loop for values of a fixed size that works on the buffer itself, and that write
  a field value by value, with or without tags.  The functions that are templates over the element type take
  the reader or writer of one value as an argument.
\<close>

section \<open>Reading\<close>

definition GetDirectBufferPointerInline :: "'i CodedInputStream \<Rightarrow> byte list \<times> int" where
  "GetDirectBufferPointerInline s = (cis_buffer s, BufferSize s)"

definition ReadPrimitiveFromArray_FIXED32 :: "byte list \<Rightarrow> (byte list \<times> 32 word) res" where
  "ReadPrimitiveFromArray_FIXED32 buffer = ReadLittleEndian32FromArray buffer"

definition ReadPrimitiveFromArray_FIXED64 :: "byte list \<Rightarrow> (byte list \<times> 64 word) res" where
  "ReadPrimitiveFromArray_FIXED64 buffer = ReadLittleEndian64FromArray buffer"

definition ReadPrimitiveFromArray_SFIXED32 :: "byte list \<Rightarrow> (byte list \<times> 32 word) res" where
  "ReadPrimitiveFromArray_SFIXED32 buffer =
     bind_res (ReadLittleEndian32FromArray buffer) (\<lambda>(buffer, temp). Inr (buffer, temp))"

definition ReadPrimitiveFromArray_SFIXED64 :: "byte list \<Rightarrow> (byte list \<times> 64 word) res" where
  "ReadPrimitiveFromArray_SFIXED64 buffer =
     bind_res (ReadLittleEndian64FromArray buffer) (\<lambda>(buffer, temp). Inr (buffer, temp))"

text \<open>The loop of \<open>ReadRepeatedPrimitive\<close>; the counter is \<open>elements_already_reserved\<close>.\<close>

fun read_reserved :: "('i CodedInputStream \<Rightarrow> 'a \<Rightarrow> ('i CodedInputStream \<times> 'a \<times> bool) res) \<Rightarrow> 32 word \<Rightarrow> nat \<Rightarrow>
    'i CodedInputStream \<Rightarrow> 'a \<Rightarrow> 'a RepeatedField \<Rightarrow> ('i CodedInputStream \<times> 'a RepeatedField \<times> bool) res" where
  "read_reserved rd tag 0 s v f = Inr (s, f, True)"
| "read_reserved rd tag (Suc k) s v f =
     (case ExpectTag s tag of
        (s, expected) \<Rightarrow>
          if \<not> expected then Inr (s, f, True)
          else bind_res (rd s v) (\<lambda>(s, v, ok).
            if \<not> ok then Inr (s, f, False)
            else bind_res (AddAlreadyReserved f v) (\<lambda>f. read_reserved rd tag k s v f)))"

text \<open>The variable \<open>value\<close> of the source has no initial value; \<open>v\<close> stands for what it holds.\<close>

definition ReadRepeatedPrimitive :: "('i CodedInputStream \<Rightarrow> 'a \<Rightarrow> ('i CodedInputStream \<times> 'a \<times> bool) res) \<Rightarrow> 32 word \<Rightarrow>
    'i CodedInputStream \<Rightarrow> 'a \<Rightarrow> 'a RepeatedField \<Rightarrow> ('i CodedInputStream \<times> 'a RepeatedField \<times> bool) res" where
  "ReadRepeatedPrimitive rd tag s v f =
     bind_res (rd s v) (\<lambda>(s, v, ok).
     if \<not> ok then Inr (s, f, False)
     else bind_res (Add f v) (\<lambda>f.
       bind_res (i32 (Capacity f - rf_size f)) (\<lambda>elements_already_reserved.
       read_reserved rd tag (nat elements_already_reserved) s v f)))"

text \<open>The loop over the buffer; the result is \<open>num_read\<close> and the field.\<close>

fun read_array :: "(byte list \<Rightarrow> (byte list \<times> 'a) res) \<Rightarrow> 32 word \<Rightarrow> nat \<Rightarrow> byte list \<Rightarrow> 'a RepeatedField \<Rightarrow>
    (int \<times> 'a RepeatedField) res" where
  "read_array rd tag 0 buffer f = Inr (0, f)"
| "read_array rd tag (Suc n) buffer f =
     bind_res (ExpectTagFromArray buffer tag) (\<lambda>b.
     case b of
       None \<Rightarrow> Inr (0, f)
     | Some buffer \<Rightarrow>
         bind_res (rd buffer) (\<lambda>(buffer, v).
         bind_res (AddAlreadyReserved f v) (\<lambda>f.
         bind_res (read_array rd tag n buffer f) (\<lambda>(num_read, f). Inr (num_read + 1, f)))))"

definition ReadRepeatedFixedSizePrimitive :: "('i, 'u, 'w) runtime \<Rightarrow>
    ('i CodedInputStream \<Rightarrow> 'a \<Rightarrow> ('i CodedInputStream \<times> 'a \<times> bool) res) \<Rightarrow> (byte list \<Rightarrow> (byte list \<times> 'a) res) \<Rightarrow> int \<Rightarrow>
    int \<Rightarrow> 32 word \<Rightarrow> 'i CodedInputStream \<Rightarrow> 'a \<Rightarrow> 'a RepeatedField \<Rightarrow> ('i CodedInputStream \<times> 'a RepeatedField \<times> bool) res" where
  "ReadRepeatedFixedSizePrimitive R rd rd_array sizeof_value tag_size tag s v f =
     bind_res (rd s v) (\<lambda>(s, v, ok).
     if \<not> ok then Inr (s, f, False)
     else bind_res (Add f v) (\<lambda>f.
       case GetDirectBufferPointerInline s of
         (buffer, sz) \<Rightarrow>
           if 0 < sz then
             let per_value_size = tag_size + sizeof_value in
             bind_res (i32 (Capacity f - rf_size f)) (\<lambda>room.
             bind_res (c_div sz per_value_size) (\<lambda>complete.
             let elements_available = min room complete in
             bind_res (read_array rd_array tag (nat elements_available) buffer f) (\<lambda>(num_read, f).
             let read_bytes = num_read * per_value_size in
             Inr (if 0 < read_bytes then fst (Skip R s read_bytes) else s, f, True))))
           else Inr (s, f, True)))"

definition ReadRepeatedPrimitive_FIXED32 :: "('i, 'u, 'w) runtime \<Rightarrow> int \<Rightarrow> 32 word \<Rightarrow> 'i CodedInputStream \<Rightarrow>
    32 word \<Rightarrow> 32 word RepeatedField \<Rightarrow> ('i CodedInputStream \<times> 32 word RepeatedField \<times> bool) res" where
  "ReadRepeatedPrimitive_FIXED32 R tag_size tag s v f =
     ReadRepeatedFixedSizePrimitive R (ReadPrimitive_FIXED32 R) ReadPrimitiveFromArray_FIXED32 4 tag_size tag s v f"

definition ReadRepeatedPrimitive_FIXED64 :: "('i, 'u, 'w) runtime \<Rightarrow> int \<Rightarrow> 32 word \<Rightarrow> 'i CodedInputStream \<Rightarrow>
    64 word \<Rightarrow> 64 word RepeatedField \<Rightarrow> ('i CodedInputStream \<times> 64 word RepeatedField \<times> bool) res" where
  "ReadRepeatedPrimitive_FIXED64 R tag_size tag s v f =
     ReadRepeatedFixedSizePrimitive R (ReadPrimitive_FIXED64 R) ReadPrimitiveFromArray_FIXED64 8 tag_size tag s v f"

definition ReadRepeatedPrimitive_SFIXED32 :: "('i, 'u, 'w) runtime \<Rightarrow> int \<Rightarrow> 32 word \<Rightarrow> 'i CodedInputStream \<Rightarrow>
    32 word \<Rightarrow> 32 word RepeatedField \<Rightarrow> ('i CodedInputStream \<times> 32 word RepeatedField \<times> bool) res" where
  "ReadRepeatedPrimitive_SFIXED32 R tag_size tag s v f =
     ReadRepeatedFixedSizePrimitive R (ReadPrimitive_SFIXED32 R) ReadPrimitiveFromArray_SFIXED32 4 tag_size tag s v f"

definition ReadRepeatedPrimitive_SFIXED64 :: "('i, 'u, 'w) runtime \<Rightarrow> int \<Rightarrow> 32 word \<Rightarrow> 'i CodedInputStream \<Rightarrow>
    64 word \<Rightarrow> 64 word RepeatedField \<Rightarrow> ('i CodedInputStream \<times> 64 word RepeatedField \<times> bool) res" where
  "ReadRepeatedPrimitive_SFIXED64 R tag_size tag s v f =
     ReadRepeatedFixedSizePrimitive R (ReadPrimitive_SFIXED64 R) ReadPrimitiveFromArray_SFIXED64 8 tag_size tag s v f"

section \<open>Writing\<close>

text \<open>
  The do-loops over the elements; \<open>i\<close> is the index and \<open>n\<close> the number of rounds after this one.
\<close>

fun write_elements :: "('a \<Rightarrow> mem \<Rightarrow> int \<Rightarrow> (mem \<times> int) res) \<Rightarrow> 'a option list \<Rightarrow> int \<Rightarrow> nat \<Rightarrow> mem \<Rightarrow> int \<Rightarrow> (mem \<times> int) res" where
  "write_elements wr es i 0 m target = bind_res (slot_get es i) (\<lambda>v. wr v m target)"
| "write_elements wr es i (Suc n) m target =
     bind_res (slot_get es i) (\<lambda>v. bind_res (wr v m target) (\<lambda>(m, target).
     write_elements wr es (i + 1) n m target))"

definition WritePrimitiveNoTagToArray :: "'a RepeatedField \<Rightarrow> ('a \<Rightarrow> mem \<Rightarrow> int \<Rightarrow> (mem \<times> int) res) \<Rightarrow> mem \<Rightarrow> int \<Rightarrow>
    (mem \<times> int) res" where
  "WritePrimitiveNoTagToArray f wr m target =
     bind_res (unsafe_data f) (\<lambda>es. write_elements wr es 0 (nat (rf_size f - 1)) m target)"

text \<open>
  On a little-endian host the elements are copied as they lie in memory, \<open>raw\<close> being the bytes of one; otherwise
  each is written.
\<close>

definition WriteFixedNoTagToArray :: "bool \<Rightarrow> ('a \<Rightarrow> byte list) \<Rightarrow> 'a RepeatedField \<Rightarrow>
    ('a \<Rightarrow> mem \<Rightarrow> int \<Rightarrow> (mem \<times> int) res) \<Rightarrow> mem \<Rightarrow> int \<Rightarrow> (mem \<times> int) res" where
  "WriteFixedNoTagToArray little_endian raw f wr m target =
     (if little_endian then
        bind_res (unsafe_data f) (\<lambda>es.
        let n = nat (rf_size f) in
        if n \<le> length es
        then bind_res (mem_store m target
               (concat (map (\<lambda>e. case e of Some v \<Rightarrow> map Some (raw v) | None \<Rightarrow> [None]) (take n es)))) (\<lambda>m.
             Inr (m, target + int (length (concat (map (\<lambda>e. case e of Some v \<Rightarrow> raw v | None \<Rightarrow> [0]) (take n es))))))
        else Inl Out_of_bounds)
      else WritePrimitiveNoTagToArray f wr m target)"

definition WritePrimitiveToArray :: "32 word \<Rightarrow> 'a RepeatedField \<Rightarrow> (32 word \<Rightarrow> 'a \<Rightarrow> mem \<Rightarrow> int \<Rightarrow> (mem \<times> int) res) \<Rightarrow>
    mem \<Rightarrow> int \<Rightarrow> (mem \<times> int) res" where
  "WritePrimitiveToArray field_number f wr m target =
     (let n = rf_size f in
      if n = 0 then Inr (m, target)
      else bind_res (unsafe_data f) (\<lambda>es. write_elements (wr field_number) es 0 (nat (n - 1)) m target))"

definition WriteRepeatedInt32NoTagToArray :: "32 word RepeatedField \<Rightarrow> mem \<Rightarrow> int \<Rightarrow> (mem \<times> int) res" where
  "WriteRepeatedInt32NoTagToArray f m target = WritePrimitiveNoTagToArray f WriteInt32NoTagToArray m target"

definition WriteRepeatedInt64NoTagToArray :: "64 word RepeatedField \<Rightarrow> mem \<Rightarrow> int \<Rightarrow> (mem \<times> int) res" where
  "WriteRepeatedInt64NoTagToArray f m target = WritePrimitiveNoTagToArray f WriteInt64NoTagToArray m target"

definition WriteRepeatedUInt32NoTagToArray :: "32 word RepeatedField \<Rightarrow> mem \<Rightarrow> int \<Rightarrow> (mem \<times> int) res" where
  "WriteRepeatedUInt32NoTagToArray f m target = WritePrimitiveNoTagToArray f WriteUInt32NoTagToArray m target"

definition WriteRepeatedUInt64NoTagToArray :: "64 word RepeatedField \<Rightarrow> mem \<Rightarrow> int \<Rightarrow> (mem \<times> int) res" where
  "WriteRepeatedUInt64NoTagToArray f m target = WritePrimitiveNoTagToArray f WriteUInt64NoTagToArray m target"

definition WriteRepeatedSInt32NoTagToArray :: "32 word RepeatedField \<Rightarrow> mem \<Rightarrow> int \<Rightarrow> (mem \<times> int) res" where
  "WriteRepeatedSInt32NoTagToArray f m target = WritePrimitiveNoTagToArray f WriteSInt32NoTagToArray m target"

definition WriteRepeatedSInt64NoTagToArray :: "64 word RepeatedField \<Rightarrow> mem \<Rightarrow> int \<Rightarrow> (mem \<times> int) res" where
  "WriteRepeatedSInt64NoTagToArray f m target = WritePrimitiveNoTagToArray f WriteSInt64NoTagToArray m target"

definition WriteRepeatedFixed32NoTagToArray :: "bool \<Rightarrow> 32 word RepeatedField \<Rightarrow> mem \<Rightarrow> int \<Rightarrow> (mem \<times> int) res" where
  "WriteRepeatedFixed32NoTagToArray little_endian f m target =
     WriteFixedNoTagToArray little_endian le32 f WriteFixed32NoTagToArray m target"

definition WriteRepeatedFixed64NoTagToArray :: "bool \<Rightarrow> 64 word RepeatedField \<Rightarrow> mem \<Rightarrow> int \<Rightarrow> (mem \<times> int) res" where
  "WriteRepeatedFixed64NoTagToArray little_endian f m target =
     WriteFixedNoTagToArray little_endian le64 f WriteFixed64NoTagToArray m target"

definition WriteRepeatedSFixed32NoTagToArray :: "bool \<Rightarrow> 32 word RepeatedField \<Rightarrow> mem \<Rightarrow> int \<Rightarrow> (mem \<times> int) res" where
  "WriteRepeatedSFixed32NoTagToArray little_endian f m target =
     WriteFixedNoTagToArray little_endian le32 f WriteSFixed32NoTagToArray m target"

definition WriteRepeatedSFixed64NoTagToArray :: "bool \<Rightarrow> 64 word RepeatedField \<Rightarrow> mem \<Rightarrow> int \<Rightarrow> (mem \<times> int) res" where
  "WriteRepeatedSFixed64NoTagToArray little_endian f m target =
     WriteFixedNoTagToArray little_endian le64 f WriteSFixed64NoTagToArray m target"

definition WriteRepeatedBoolNoTagToArray :: "bool RepeatedField \<Rightarrow> mem \<Rightarrow> int \<Rightarrow> (mem \<times> int) res" where
  "WriteRepeatedBoolNoTagToArray f m target = WritePrimitiveNoTagToArray f WriteBoolNoTagToArray m target"

definition WriteRepeatedEnumNoTagToArray :: "32 word RepeatedField \<Rightarrow> mem \<Rightarrow> int \<Rightarrow> (mem \<times> int) res" where
  "WriteRepeatedEnumNoTagToArray f m target = WritePrimitiveNoTagToArray f WriteEnumNoTagToArray m target"

definition WriteRepeatedInt32ToArray :: "32 word \<Rightarrow> 32 word RepeatedField \<Rightarrow> mem \<Rightarrow> int \<Rightarrow> (mem \<times> int) res" where
  "WriteRepeatedInt32ToArray field_number f m target = WritePrimitiveToArray field_number f WriteInt32ToArray m target"

definition WriteRepeatedInt64ToArray :: "32 word \<Rightarrow> 64 word RepeatedField \<Rightarrow> mem \<Rightarrow> int \<Rightarrow> (mem \<times> int) res" where
  "WriteRepeatedInt64ToArray field_number f m target = WritePrimitiveToArray field_number f WriteInt64ToArray m target"

definition WriteRepeatedUInt32ToArray :: "32 word \<Rightarrow> 32 word RepeatedField \<Rightarrow> mem \<Rightarrow> int \<Rightarrow> (mem \<times> int) res" where
  "WriteRepeatedUInt32ToArray field_number f m target = WritePrimitiveToArray field_number f WriteUInt32ToArray m target"

definition WriteRepeatedUInt64ToArray :: "32 word \<Rightarrow> 64 word RepeatedField \<Rightarrow> mem \<Rightarrow> int \<Rightarrow> (mem \<times> int) res" where
  "WriteRepeatedUInt64ToArray field_number f m target = WritePrimitiveToArray field_number f WriteUInt64ToArray m target"

definition WriteRepeatedSInt32ToArray :: "32 word \<Rightarrow> 32 word RepeatedField \<Rightarrow> mem \<Rightarrow> int \<Rightarrow> (mem \<times> int) res" where
  "WriteRepeatedSInt32ToArray field_number f m target = WritePrimitiveToArray field_number f WriteSInt32ToArray m target"

definition WriteRepeatedSInt64ToArray :: "32 word \<Rightarrow> 64 word RepeatedField \<Rightarrow> mem \<Rightarrow> int \<Rightarrow> (mem \<times> int) res" where
  "WriteRepeatedSInt64ToArray field_number f m target = WritePrimitiveToArray field_number f WriteSInt64ToArray m target"

definition WriteRepeatedFixed32ToArray :: "32 word \<Rightarrow> 32 word RepeatedField \<Rightarrow> mem \<Rightarrow> int \<Rightarrow> (mem \<times> int) res" where
  "WriteRepeatedFixed32ToArray field_number f m target = WritePrimitiveToArray field_number f WriteFixed32ToArray m target"

definition WriteRepeatedFixed64ToArray :: "32 word \<Rightarrow> 64 word RepeatedField \<Rightarrow> mem \<Rightarrow> int \<Rightarrow> (mem \<times> int) res" where
  "WriteRepeatedFixed64ToArray field_number f m target = WritePrimitiveToArray field_number f WriteFixed64ToArray m target"

definition WriteRepeatedSFixed32ToArray :: "32 word \<Rightarrow> 32 word RepeatedField \<Rightarrow> mem \<Rightarrow> int \<Rightarrow> (mem \<times> int) res" where
  "WriteRepeatedSFixed32ToArray field_number f m target = WritePrimitiveToArray field_number f WriteSFixed32ToArray m target"

definition WriteRepeatedSFixed64ToArray :: "32 word \<Rightarrow> 64 word RepeatedField \<Rightarrow> mem \<Rightarrow> int \<Rightarrow> (mem \<times> int) res" where
  "WriteRepeatedSFixed64ToArray field_number f m target = WritePrimitiveToArray field_number f WriteSFixed64ToArray m target"

definition WriteRepeatedBoolToArray :: "32 word \<Rightarrow> bool RepeatedField \<Rightarrow> mem \<Rightarrow> int \<Rightarrow> (mem \<times> int) res" where
  "WriteRepeatedBoolToArray field_number f m target = WritePrimitiveToArray field_number f WriteBoolToArray m target"

definition WriteRepeatedEnumToArray :: "32 word \<Rightarrow> 32 word RepeatedField \<Rightarrow> mem \<Rightarrow> int \<Rightarrow> (mem \<times> int) res" where
  "WriteRepeatedEnumToArray field_number f m target = WritePrimitiveToArray field_number f WriteEnumToArray m target"

named_theorems repeated_defs \<open>the instances of the templates\<close>

declare
  WriteRepeatedInt32NoTagToArray_def [repeated_defs] WriteRepeatedInt32ToArray_def [repeated_defs]
  WriteRepeatedInt64NoTagToArray_def [repeated_defs] WriteRepeatedInt64ToArray_def [repeated_defs]
  WriteRepeatedUInt32NoTagToArray_def [repeated_defs] WriteRepeatedUInt32ToArray_def [repeated_defs]
  WriteRepeatedUInt64NoTagToArray_def [repeated_defs] WriteRepeatedUInt64ToArray_def [repeated_defs]
  WriteRepeatedSInt32NoTagToArray_def [repeated_defs] WriteRepeatedSInt32ToArray_def [repeated_defs]
  WriteRepeatedSInt64NoTagToArray_def [repeated_defs] WriteRepeatedSInt64ToArray_def [repeated_defs]
  WriteRepeatedFixed32NoTagToArray_def [repeated_defs] WriteRepeatedFixed32ToArray_def [repeated_defs]
  WriteRepeatedFixed64NoTagToArray_def [repeated_defs] WriteRepeatedFixed64ToArray_def [repeated_defs]
  WriteRepeatedSFixed32NoTagToArray_def [repeated_defs] WriteRepeatedSFixed32ToArray_def [repeated_defs]
  WriteRepeatedSFixed64NoTagToArray_def [repeated_defs] WriteRepeatedSFixed64ToArray_def [repeated_defs]
  WriteRepeatedBoolNoTagToArray_def [repeated_defs] WriteRepeatedBoolToArray_def [repeated_defs]
  WriteRepeatedEnumNoTagToArray_def [repeated_defs] WriteRepeatedEnumToArray_def [repeated_defs]

section \<open>Tags\<close>

lemma tag_cases:
  assumes "tag < (0x4000 :: 32 word)"
  shows "varint (unat tag) = (if tag < 0x80 then [ucast tag] else [ucast (tag OR 0x80), ucast (drop_bit 7 tag)])"
proof (cases "tag < 0x80")
  case True
  then have "unat tag < 128" by (simp add: word_less_nat_alt)
  then show ?thesis using True by (simp only: varint_small ucast_byte if_True)
next
  case False
  then have n: "128 \<le> unat tag" "unat tag < 16384" using assms by (simp_all add: word_less_nat_alt not_less)
  then have d: "unat tag div 128 < 128" by simp
  have "unat (drop_bit 7 tag) = unat tag div 128" unfolding unat_drop_bit by simp
  then have "(ucast (drop_bit 7 tag) :: byte) = word_of_nat (unat tag div 128)" by (simp only: ucast_byte)
  then show ?thesis
    using False varint_large [OF n(1)] ucast_or_128 [OF n(1)] varint_small [OF d] by (simp only: if_False)
qed

lemma ucast_byte_back: "tag < (0x80 :: 32 word) \<Longrightarrow> ucast (ucast tag :: byte) = tag"
proof -
  assume "tag < 0x80"
  then have "unat tag < 256" by (simp add: word_less_nat_alt)
  then show ?thesis by (intro iffD2 [OF word_unat_eq_iff]) (simp add: unsigned_ucast_eq unsigned_take_bit_eq take_bit_nat_eq_self)
qed

lemma ExpectTag_eq:
  assumes "tag < 0x4000" and "cis_buffer s = varint (unat tag) @ r"
  shows "ExpectTag s tag = (s\<lparr>cis_buffer := r\<rparr>, True)"
  using assms tag_cases [OF assms(1)] ucast_byte_back [of tag]
  by (cases "tag < 0x80") (simp_all add: ExpectTag_def CodedInputStream_Advance_def)

lemma ExpectTagFromArray_eq:
  assumes "tag < 0x4000" and "bs = varint (unat tag) @ r"
  shows "ExpectTagFromArray bs tag = Inr (Some r)"
  using assms tag_cases [OF assms(1)] ucast_byte_back [of tag]
  by (cases "tag < 0x80") (simp_all add: ExpectTagFromArray_def)

lemma ExpectTag_no:
  "\<not> snd (ExpectTag s tag) \<Longrightarrow> ExpectTag s tag = (s, False)"
  by (auto simp: ExpectTag_def split: list.splits if_splits)

lemma ExpectTagFromArray_no:
  "\<not> snd (ExpectTag s tag) \<Longrightarrow> 2 \<le> length (cis_buffer s) \<Longrightarrow> ExpectTagFromArray (cis_buffer s) tag = Inr None"
  by (auto simp: ExpectTag_def ExpectTagFromArray_def split: list.splits if_splits)

section \<open>Runs of values\<close>

text \<open>The bytes of values that each follow their tag.\<close>

definition tagged :: "('a \<Rightarrow> byte list) \<Rightarrow> 32 word \<Rightarrow> 'a list \<Rightarrow> byte list" where
  "tagged enc tag ws = concat (map (\<lambda>w. varint (unat tag) @ enc w) ws)"

lemma tagged_simps [simp]:
  "tagged enc tag [] = []" "tagged enc tag (w # ws) = varint (unat tag) @ enc w @ tagged enc tag ws"
  by (simp_all add: tagged_def)

text \<open>A stream after a run: nothing follows that could be taken for another value, or the room is used up.\<close>

definition run_ends :: "32 word \<Rightarrow> 'i CodedInputStream \<Rightarrow> 'a list \<Rightarrow> int \<Rightarrow> bool" where
  "run_ends tag s ws room \<longleftrightarrow> int (length ws) \<le> room \<and> (int (length ws) < room \<longrightarrow> \<not> snd (ExpectTag s tag))"

lemma same_buffer: "cis_buffer s = r \<Longrightarrow> s\<lparr>cis_buffer := r\<rparr> = s"
  by (cases s) simp

lemma IsFlat_buffer [simp]: "IsFlat (s\<lparr>cis_buffer := r\<rparr>) = IsFlat s"
  by (simp add: IsFlat_def)

text \<open>The reader of one value restores the encoding \<open>enc\<close>.\<close>

locale field_codec =
  fixes rd :: "'i CodedInputStream \<Rightarrow> 'a \<Rightarrow> ('i CodedInputStream \<times> 'a \<times> bool) res" and enc :: "'a \<Rightarrow> byte list"
  assumes rd_ok: "IsFlat s \<Longrightarrow> cis_buffer s = enc v @ r \<Longrightarrow> rd s v0 = Inr (s\<lparr>cis_buffer := r\<rparr>, v, True)"
begin

lemma read_reserved_run:
  "tag < 0x4000 \<Longrightarrow> IsFlat s \<Longrightarrow> cis_buffer s = tagged enc tag ws @ r \<Longrightarrow>
   run_ends tag (s\<lparr>cis_buffer := r\<rparr>) ws (int k) \<Longrightarrow>
   read_reserved rd tag k s v f = bind_res (add_all AddAlreadyReserved f ws) (\<lambda>f. Inr (s\<lparr>cis_buffer := r\<rparr>, f, True))"
proof (induction ws arbitrary: s v f k)
  case Nil
  then have s: "s\<lparr>cis_buffer := r\<rparr> = s" by (simp add: same_buffer)
  show ?case
  proof (cases k)
    case 0
    then show ?thesis using s by simp
  next
    case (Suc k')
    then have "\<not> snd (ExpectTag s tag)" using Nil.prems(4) s by (simp add: run_ends_def)
    then show ?thesis using Suc s ExpectTag_no [of s tag] by simp
  qed
next
  case (Cons w ws)
  from Cons.prems(4) obtain k' where k: "k = Suc k'" by (cases k) (simp_all add: run_ends_def)
  let ?s = "s\<lparr>cis_buffer := enc w @ tagged enc tag ws @ r\<rparr>" and ?t = "s\<lparr>cis_buffer := tagged enc tag ws @ r\<rparr>"
  have e: "ExpectTag s tag = (?s, True)" using Cons.prems(1,3) by (simp add: ExpectTag_eq)
  have r: "rd ?s v = Inr (?t, w, True)" using rd_ok [of ?s w "tagged enc tag ws @ r" v] Cons.prems(2) by simp
  have "run_ends tag (?t\<lparr>cis_buffer := r\<rparr>) ws (int k')" using Cons.prems(4) k by (simp add: run_ends_def)
  then have "read_reserved rd tag k' ?t w g =
      bind_res (add_all AddAlreadyReserved g ws) (\<lambda>f. Inr (s\<lparr>cis_buffer := r\<rparr>, f, True))" for g
    using Cons.IH [of ?t k' w g] Cons.prems(1,2) by simp
  then have "read_reserved rd tag k' ?t w =
      (\<lambda>g. bind_res (add_all AddAlreadyReserved g ws) (\<lambda>f. Inr (s\<lparr>cis_buffer := r\<rparr>, f, True)))" by (rule ext)
  then show ?case using k e r by (simp add: bind_res_assoc)
qed

text \<open>A value and the run that follows it are appended, as far as there is room.\<close>

lemma ReadRepeatedPrimitive_run:
  assumes "tag < 0x4000" "IsFlat s" "cis_buffer s = enc v @ tagged enc tag ws @ r" "Add f v = Inr g"
    and "run_ends tag (s\<lparr>cis_buffer := r\<rparr>) ws (Capacity g - rf_size g)" "in_i32 (Capacity g - rf_size g)"
  shows "ReadRepeatedPrimitive rd tag s v0 f =
    bind_res (add_all AddAlreadyReserved g ws) (\<lambda>f. Inr (s\<lparr>cis_buffer := r\<rparr>, f, True))"
proof -
  let ?t = "s\<lparr>cis_buffer := tagged enc tag ws @ r\<rparr>"
  have n: "int (nat (Capacity g - rf_size g)) = Capacity g - rf_size g" using assms(5) by (simp add: run_ends_def)
  have "read_reserved rd tag (nat (Capacity g - rf_size g)) ?t v g =
      bind_res (add_all AddAlreadyReserved g ws) (\<lambda>f. Inr (s\<lparr>cis_buffer := r\<rparr>, f, True))"
    using read_reserved_run [of tag ?t ws r "nat (Capacity g - rf_size g)" v g] assms(1,2,5) n by simp
  then show ?thesis using rd_ok [OF assms(2,3), of v0] assms(4,6) by (simp add: ReadRepeatedPrimitive_def)
qed

text \<open>A field that was filled from a run is the list, when the room was there.\<close>

lemma ReadRepeatedPrimitive_holds:
  assumes "tag < 0x4000" "IsFlat s" "cis_buffer s = enc v @ tagged enc tag ws @ r" "holds f xs"
    and "int (length xs) < total_size f" "run_ends tag (s\<lparr>cis_buffer := r\<rparr>) ws (total_size f - int (length xs) - 1)"
  shows "\<exists>f'. ReadRepeatedPrimitive rd tag s v0 f = Inr (s\<lparr>cis_buffer := r\<rparr>, f', True) \<and> holds f' (xs @ v # ws)"
proof -
  obtain g where g: "AddAlreadyReserved f v = Inr g" "holds g (xs @ [v])" "total_size g = total_size f"
    by (rule AddAlreadyReserved_ok [OF assms(4,5)])
  have a: "Add f v = Inr g" using assms(5) holds_size(2) [OF assms(4)] g(1) by (simp add: Add_eq)
  have c: "Capacity g - rf_size g = total_size f - int (length xs) - 1"
    using g(3) holds_size(1) [OF g(2)] by (simp add: Capacity_def)
  have i: "in_i32 (Capacity g - rf_size g)"
    unfolding c in_i32_def using holds_bounds [OF assms(4)] assms(5) by linarith
  have "length (xs @ [v]) + length ws \<le> nat (total_size f)" "int (nat (total_size f)) \<le> total_size g"
    using assms(5,6) g(3) unfolding run_ends_def length_append by auto
  then obtain f' where "add_all AddAlreadyReserved g ws = Inr f'" "holds f' ((xs @ [v]) @ ws)"
    using rf_filled.add_all_ok [of g "xs @ [v]" "total_size g" "nat (total_size f)" ws] g(2) by blast
  then show ?thesis
    using ReadRepeatedPrimitive_run [OF assms(1-3) a] assms(6) i unfolding c by simp
qed

end

text \<open>Values of a fixed size, which can also be read from the buffer.\<close>

locale fixed_codec = field_codec rd enc
  for rd :: "'i CodedInputStream \<Rightarrow> 'a \<Rightarrow> ('i CodedInputStream \<times> 'a \<times> bool) res" and enc :: "'a \<Rightarrow> byte list" +
  fixes rd_array :: "byte list \<Rightarrow> (byte list \<times> 'a) res" and sz :: nat
  assumes rd_array_ok: "rd_array (enc v @ r) = Inr (r, v)" and enc_length: "length (enc v) = sz" and sz: "2 \<le> sz"
begin

lemma read_array_run:
  "tag < 0x4000 \<Longrightarrow> length ws \<le> n \<Longrightarrow> (length ws < n \<Longrightarrow> \<not> snd (ExpectTag (s\<lparr>cis_buffer := r\<rparr>) tag) \<and> 2 \<le> length r) \<Longrightarrow>
   read_array rd_array tag n (tagged enc tag ws @ r) f =
     bind_res (add_all AddAlreadyReserved f ws) (\<lambda>f. Inr (int (length ws), f))"
proof (induction ws arbitrary: n f)
  case Nil
  show ?case
  proof (cases n)
    case (Suc k)
    then have "ExpectTagFromArray r tag = Inr None"
      using Nil.prems(3) ExpectTagFromArray_no [of "s\<lparr>cis_buffer := r\<rparr>" tag] by simp
    then show ?thesis using Suc by simp
  qed simp
next
  case (Cons w ws)
  from Cons.prems(2) obtain k where k: "n = Suc k" by (cases n) simp_all
  have e: "ExpectTagFromArray (tagged enc tag (w # ws) @ r) tag = Inr (Some (enc w @ tagged enc tag ws @ r))"
    using Cons.prems(1) by (simp add: ExpectTagFromArray_eq)
  have "read_array rd_array tag k (tagged enc tag ws @ r) g =
      bind_res (add_all AddAlreadyReserved g ws) (\<lambda>f. Inr (int (length ws), f))" for g
    using Cons.IH [of k g] Cons.prems k by simp
  then show ?case using k e rd_array_ok [of w "tagged enc tag ws @ r"] by (simp add: bind_res_assoc add.commute)
qed

lemma length_tagged: "length (tagged enc tag ws) = length ws * (length (varint (unat tag)) + sz)"
  by (induction ws) (simp_all add: enc_length)

text \<open>The loop over the buffer does what the loop over the stream does.\<close>

lemma fast_path:
  assumes "tag < 0x4000" "IsFlat s" "cis_buffer s = enc v @ tagged enc tag ws @ r" "Add f v = Inr g"
    and "run_ends tag (s\<lparr>cis_buffer := r\<rparr>) ws (Capacity g - rf_size g)" "in_i32 (Capacity g - rf_size g)"
  shows "ReadRepeatedFixedSizePrimitive R rd rd_array (int sz) (int (UInt32Size tag)) tag s v0 f =
    ReadRepeatedPrimitive rd tag s v0 f"
proof -
  let ?room = "Capacity g - rf_size g" and ?bs = "tagged enc tag ws @ r"
  let ?t = "s\<lparr>cis_buffer := ?bs\<rparr>"
  define per where "per = length (varint (unat tag)) + sz"
  have per: "int (UInt32Size tag) + int sz = int per" "2 \<le> per"
    using sz by (simp_all add: per_def UInt32Size_def VarintSize32_eq)
  have room: "int (length ws) \<le> ?room" "int (length ws) < ?room \<longrightarrow> \<not> snd (ExpectTag (s\<lparr>cis_buffer := r\<rparr>) tag)"
    using assms(5) by (simp_all add: run_ends_def)
  have lb: "length ?bs = length ws * per + length r" by (simp add: length_tagged per_def)
  have div: "length ?bs div per = length ws + length r div per" using per(2) unfolding lb by simp
  define n where "n = nat (min ?room (int (length ?bs div per)))"
  have "length ws \<le> n" using room(1) unfolding n_def div by simp
  moreover have "\<not> snd (ExpectTag (s\<lparr>cis_buffer := r\<rparr>) tag) \<and> 2 \<le> length r" if "length ws < n"
  proof -
    have "int (length ws) < ?room" "0 < length r div per" using that unfolding n_def div by simp_all
    then show ?thesis using room(2) per(2) by (cases "length r < per") auto
  qed
  ultimately have ra: "read_array rd_array tag n ?bs g =
      bind_res (add_all AddAlreadyReserved g ws) (\<lambda>f. Inr (int (length ws), f))"
    using read_array_run [OF assms(1), of ws n r s g] by blast
  have skip: "(if 0 < int (length ws) * int per then fst (Skip R ?t (int (length ws) * int per)) else ?t) =
      s\<lparr>cis_buffer := r\<rparr>"
  proof (cases "ws = []")
    case False
    have "int (length ws) * int per \<le> BufferSize ?t" unfolding BufferSize_def using lb by simp
    moreover have "nat (int (length ws) * int per) = length (tagged enc tag ws)"
      unfolding of_nat_mult [symmetric] nat_int by (simp add: length_tagged per_def)
    moreover have "\<not> int (length ws) * int per < 0" by (simp add: not_less)
    ultimately show ?thesis using False per(2) by (simp add: Skip_def Let_def CodedInputStream_Advance_def)
  qed simp
  have cd: "c_div (int (length ?bs)) (int per) = Inr (int (length ?bs div per))"
    using per(2) by (simp add: c_div_nonneg zdiv_int)
  have r: "rd s v0 = Inr (?t, v, True)" by (rule rd_ok [OF assms(2,3)])
  have d: "GetDirectBufferPointerInline ?t = (?bs, int (length ?bs))"
    by (simp add: GetDirectBufferPointerInline_def BufferSize_def)
  show ?thesis
  proof (cases "?bs = []")
    case True
    then have "ws = []" "r = []" by (cases ws; simp)+
    then show ?thesis
      unfolding ReadRepeatedPrimitive_run [OF assms] ReadRepeatedFixedSizePrimitive_def r bind_res_simps prod.case assms(4) d
      by simp
  next
    case False
    then have pos: "0 < int (length ?bs)" by (simp only: of_nat_0_less_iff length_greater_0_conv not_False_eq_True)
    show ?thesis
      unfolding ReadRepeatedPrimitive_run [OF assms] ReadRepeatedFixedSizePrimitive_def r bind_res_simps prod.case assms(4) d
        Let_def per(1) cd i32_simps(1) [OF assms(6)] n_def [symmetric] ra not_True_eq_False if_False if_P [OF pos]
      by (simp only: bind_res_assoc bind_res_simps prod.case skip)
  qed
qed

end

section \<open>The field types\<close>

lemma value_codecs:
  assumes "flat_reads R"
  shows "field_codec (\<lambda>s v. Inr (ReadPrimitive_INT32 R s v)) (\<lambda>v. varint (unat (scast v :: 64 word)))"
    and "field_codec (\<lambda>s v. Inr (ReadPrimitive_INT64 R s v)) (\<lambda>v. varint (unat v))"
    and "field_codec (\<lambda>s v. Inr (ReadPrimitive_UINT32 R s v)) (\<lambda>v. varint (unat v))"
    and "field_codec (\<lambda>s v. Inr (ReadPrimitive_UINT64 R s v)) (\<lambda>v. varint (unat v))"
    and "field_codec (\<lambda>s v. Inr (ReadPrimitive_SINT32 R s v)) (\<lambda>v. varint (unat (ZigZagEncode32 v)))"
    and "field_codec (\<lambda>s v. Inr (ReadPrimitive_SINT64 R s v)) (\<lambda>v. varint (unat (ZigZagEncode64 v)))"
    and "field_codec (\<lambda>s v. Inr (ReadPrimitive_BOOL R s v)) (\<lambda>v. varint (of_bool v))"
    and "field_codec (\<lambda>s v. Inr (ReadPrimitive_ENUM R s v)) (\<lambda>v. varint (unat (scast v :: 64 word)))"
  by (simp_all add: field_codec_def ReadPrimitive_INT32_def ReadPrimitive_INT64_def ReadPrimitive_UINT32_def
      ReadPrimitive_UINT64_def ReadPrimitive_SINT32_def ReadPrimitive_SINT64_def ReadPrimitive_BOOL_def
      ReadPrimitive_ENUM_def ReadVarint_eq [OF assms] ReadVarint_Bool [OF assms] ZigZag32 ZigZag64)

lemma length_le: "length (le32 v) = 4" "length (le64 w) = 8"
  by (simp_all add: le32_def le64_def)

interpretation fixed32: fixed_codec "ReadPrimitive_FIXED32 R" le32 ReadPrimitiveFromArray_FIXED32 4 for R
  by unfold_locales (simp_all add: ReadPrimitive_FIXED32_def ReadPrimitiveFromArray_FIXED32_def ReadLittleEndian_eq
      ReadLittleEndian32FromArray_le32 length_le)

interpretation fixed64: fixed_codec "ReadPrimitive_FIXED64 R" le64 ReadPrimitiveFromArray_FIXED64 8 for R
  by unfold_locales (simp_all add: ReadPrimitive_FIXED64_def ReadPrimitiveFromArray_FIXED64_def ReadLittleEndian_eq
      ReadLittleEndian64FromArray_le64 length_le)

interpretation sfixed32: fixed_codec "ReadPrimitive_SFIXED32 R" le32 ReadPrimitiveFromArray_SFIXED32 4 for R
  by unfold_locales (simp_all add: ReadPrimitive_SFIXED32_def ReadPrimitiveFromArray_SFIXED32_def ReadLittleEndian_eq
      ReadLittleEndian32FromArray_le32 length_le)

interpretation sfixed64: fixed_codec "ReadPrimitive_SFIXED64 R" le64 ReadPrimitiveFromArray_SFIXED64 8 for R
  by unfold_locales (simp_all add: ReadPrimitive_SFIXED64_def ReadPrimitiveFromArray_SFIXED64_def ReadLittleEndian_eq
      ReadLittleEndian64FromArray_le64 length_le)

interpretation sim_int32: field_codec "\<lambda>s v. Inr (ReadPrimitive_INT32 sim_runtime s v)" "\<lambda>v. varint (unat (scast v :: 64 word))"
  by (rule value_codecs(1) [OF sim_reads.flat_reads_axioms])

section \<open>Writers\<close>

lemma write_elements_emit:
  assumes wr: "\<And>v m p. wr v m p = emit (enc v) m p"
  shows "length vs = Suc n \<Longrightarrow> (\<forall>j<Suc n. i + j < length es \<and> es ! (i + j) = Some (vs ! j)) \<Longrightarrow>
    write_elements wr es (int i) n m p = emit (concat (map enc vs)) m p"
proof (induction n arbitrary: i vs m p)
  case 0
  then obtain v where v: "vs = [v]" by (cases vs) simp_all
  have "slot_get es (int i) = Inr v" using 0(2) v by (simp add: slot_get_def)
  then show ?case using v wr by simp
next
  case (Suc n)
  then obtain v us where v: "vs = v # us" by (cases vs) simp_all
  have g: "slot_get es (int i) = Inr v" using Suc.prems(2) v by (force simp add: slot_get_def)
  have "\<forall>j<Suc n. Suc i + j < length es \<and> es ! (Suc i + j) = Some (us ! j)"
  proof (intro allI impI)
    fix j assume "j < Suc n"
    then show "Suc i + j < length es \<and> es ! (Suc i + j) = Some (us ! j)"
      using Suc.prems(2) [rule_format, of "Suc j"] v by simp
  qed
  moreover have "length us = Suc n" using Suc.prems(1) v by simp
  ultimately have "write_elements wr es (int (Suc i)) n m' p' = emit (concat (map enc us)) m' p'" for m' p'
    using Suc.IH by blast
  then have ih: "write_elements wr es (int i + 1) n m' p' = emit (concat (map enc us)) m' p'" for m' p'
    by (simp add: add.commute)
  show ?case unfolding write_elements.simps g bind_res_simps wr [of v m p] ih v by (simp add: emit_append)
qed

lemma holds_slots:
  assumes "holds g ys" "ys \<noteq> []"
  obtains es where "unsafe_data g = Inr es" "length ys \<le> length es" "take (length ys) es = map Some ys"
    "\<forall>j<Suc (length ys - 1). 0 + j < length es \<and> es ! (0 + j) = Some (ys ! j)"
proof -
  have "0 < length ys" using assms(2) by simp
  then have "0 < total_size g" using holds_bounds [OF assms(1)] by linarith
  then obtain a es where es: "elements g = Inr es" "length ys \<le> length es" "take (length ys) es = map Some ys"
    by (rule holds_elements [OF assms(1)])
  have "es ! j = Some (ys ! j)" if "j < length ys" for j
    using arg_cong [OF es(3), of "\<lambda>l. l ! j"] that es(2) by simp
  then show ?thesis using that es assms(2) by (simp add: unsafe_data_def)
qed

lemma WritePrimitiveNoTag_emit:
  assumes "holds g ys" "ys \<noteq> []" and wr: "\<And>v m p. wr v m p = emit (enc v) m p"
  shows "WritePrimitiveNoTagToArray g wr m p = emit (concat (map enc ys)) m p"
proof -
  obtain es where es: "unsafe_data g = Inr es" "\<forall>j<Suc (length ys - 1). 0 + j < length es \<and> es ! (0 + j) = Some (ys ! j)"
    by (rule holds_slots [OF assms(1,2)])
  have n: "nat (rf_size g - 1) = length ys - 1" "length ys = Suc (length ys - 1)"
    using holds_size(1) [OF assms(1)] assms(2) by (simp_all add: Suc_le_eq nat_diff_distrib)
  have "write_elements wr es (int 0) (length ys - 1) m p = emit (concat (map enc ys)) m p"
    by (rule write_elements_emit [OF wr n(2) es(2)])
  then show ?thesis using es(1) n(1) by (simp add: WritePrimitiveNoTagToArray_def)
qed

lemma WritePrimitive_emit:
  assumes "holds g ys" "ys \<noteq> []" and wr: "\<And>v m p. wr fld v m p = emit (tag_bytes fld ty @ enc v) m p"
  shows "WritePrimitiveToArray fld g wr m p = emit (tagged enc (MakeTag fld ty) ys) m p"
proof -
  have "WritePrimitiveToArray fld g wr m p = WritePrimitiveNoTagToArray g (wr fld) m p"
    using holds_size(1) [OF assms(1)] assms(2)
    by (simp add: WritePrimitiveToArray_def WritePrimitiveNoTagToArray_def Let_def)
  also have "\<dots> = emit (concat (map (\<lambda>v. tag_bytes fld ty @ enc v) ys)) m p"
    by (rule WritePrimitiveNoTag_emit [OF assms(1,2) wr])
  finally show ?thesis by (simp add: tagged_def tag_bytes_def)
qed

text \<open>Copying the memory of the elements is writing them one by one, when one element is written as it lies in memory.\<close>

lemma WriteFixedNoTag_emit:
  assumes "holds g ys" "ys \<noteq> []" and wr: "\<And>v m p. wr v m p = emit (raw v) m p"
  shows "WriteFixedNoTagToArray b raw g wr m p = emit (concat (map raw ys)) m p"
proof (cases b)
  case True
  obtain es where es: "unsafe_data g = Inr es" "length ys \<le> length es" "take (length ys) es = map Some ys"
    by (rule holds_slots [OF assms(1,2)])
  have n: "nat (rf_size g) = length ys" using holds_size(1) [OF assms(1)] by simp
  show ?thesis
    using True es(2) unfolding WriteFixedNoTagToArray_def es(1) bind_res_simps Let_def n es(3)
    by (simp add: emit_def comp_def map_concat)
next
  case False
  then show ?thesis using WritePrimitiveNoTag_emit [OF assms] by (simp add: WriteFixedNoTagToArray_def)
qed

lemma Tagged_emit:
  "WriteInt32ToArray f v m p = emit (tag_bytes f WIRETYPE_VARINT @ varint (unat (scast v :: 64 word))) m p"
  "WriteInt64ToArray f w m p = emit (tag_bytes f WIRETYPE_VARINT @ varint (unat w)) m p"
  "WriteUInt32ToArray f v m p = emit (tag_bytes f WIRETYPE_VARINT @ varint (unat v)) m p"
  "WriteUInt64ToArray f w m p = emit (tag_bytes f WIRETYPE_VARINT @ varint (unat w)) m p"
  "WriteSInt32ToArray f v m p = emit (tag_bytes f WIRETYPE_VARINT @ varint (unat (ZigZagEncode32 v))) m p"
  "WriteSInt64ToArray f w m p = emit (tag_bytes f WIRETYPE_VARINT @ varint (unat (ZigZagEncode64 w))) m p"
  "WriteBoolToArray f b m p = emit (tag_bytes f WIRETYPE_VARINT @ varint (of_bool b)) m p"
  "WriteEnumToArray f v m p = emit (tag_bytes f WIRETYPE_VARINT @ varint (unat (scast v :: 64 word))) m p"
  "WriteFixed32ToArray f v m p = emit (tag_bytes f WIRETYPE_FIXED32 @ le32 v) m p"
  "WriteFixed64ToArray f w m p = emit (tag_bytes f WIRETYPE_FIXED64 @ le64 w) m p"
  "WriteSFixed32ToArray f v m p = emit (tag_bytes f WIRETYPE_FIXED32 @ le32 v) m p"
  "WriteSFixed64ToArray f w m p = emit (tag_bytes f WIRETYPE_FIXED64 @ le64 w) m p"
  by (simp_all add: WriteInt32ToArray_def WriteInt64ToArray_def WriteUInt32ToArray_def WriteUInt64ToArray_def
      WriteSInt32ToArray_def WriteSInt64ToArray_def WriteBoolToArray_def WriteEnumToArray_def WriteFixed32ToArray_def
      WriteFixed64ToArray_def WriteSFixed32ToArray_def WriteSFixed64ToArray_def emit_simps emit_append)

section \<open>Properties\<close>

text \<open>
  \<open>restores tag rd wr\<close>: what \<open>wr\<close> stores for a field is, after its first tag, read by \<open>rd\<close> as the same elements, appended to
  any field that has room for them, unless what follows looks like another element and the room is not used up.
\<close>

definition restores :: "32 word \<Rightarrow> ('i CodedInputStream \<Rightarrow> 'a \<Rightarrow> 'a RepeatedField \<Rightarrow>
    ('i CodedInputStream \<times> 'a RepeatedField \<times> bool) res) \<Rightarrow> ('a RepeatedField \<Rightarrow> mem \<Rightarrow> int \<Rightarrow> (mem \<times> int) res) \<Rightarrow> bool" where
  "restores tag rd wr \<longleftrightarrow> (\<forall>s f g xs ys bs r m p v0.
     IsFlat s \<and> holds f xs \<and> holds g ys \<and> ys \<noteq> [] \<and> wrote (wr g m p) p (varint (unat tag) @ bs) \<and>
     cis_buffer s = bs @ r \<and> run_ends tag (s\<lparr>cis_buffer := r\<rparr>) ys (total_size f - int (length xs)) \<longrightarrow>
     (\<exists>f'. rd s v0 f = Inr (s\<lparr>cis_buffer := r\<rparr>, f', True) \<and> holds f' (xs @ ys)))"

context field_codec
begin

lemma restores_values:
  assumes tag: "tag < 0x4000" and wr: "\<And>g ys m p. holds g ys \<Longrightarrow> ys \<noteq> [] \<Longrightarrow> wr g m p = emit (tagged enc tag ys) m p"
  shows "restores tag (ReadRepeatedPrimitive rd tag) wr"
  unfolding restores_def
proof (intro allI impI, elim conjE)
  fix s :: "'i CodedInputStream" and f g :: "'a RepeatedField" and xs ys bs r m p v0
  assume a: "IsFlat s" "holds f xs" "holds g ys" "ys \<noteq> []" "wrote (wr g m p) p (varint (unat tag) @ bs)"
    "cis_buffer s = bs @ r" "run_ends tag (s\<lparr>cis_buffer := r\<rparr>) ys (total_size f - int (length xs))"
  obtain v ws where v: "ys = v # ws" using a(4) by (cases ys) simp_all
  have "varint (unat tag) @ bs = tagged enc tag ys" using a(5) wrote_emit unfolding wr [OF a(3,4)] by blast
  then have b: "cis_buffer s = enc v @ tagged enc tag ws @ r" using a(6) v by simp
  have "int (length xs) < total_size f" "run_ends tag (s\<lparr>cis_buffer := r\<rparr>) ws (total_size f - int (length xs) - 1)"
    using a(7) unfolding run_ends_def v by simp_all
  from ReadRepeatedPrimitive_holds [OF tag a(1) b a(2) this]
  show "\<exists>f'. ReadRepeatedPrimitive rd tag s v0 f = Inr (s\<lparr>cis_buffer := r\<rparr>, f', True) \<and> holds f' (xs @ ys)"
    unfolding v .
qed

end

context fixed_codec
begin

lemma restores_fixed:
  assumes tag: "tag < 0x4000" and wr: "\<And>g ys m p. holds g ys \<Longrightarrow> ys \<noteq> [] \<Longrightarrow> wr g m p = emit (tagged enc tag ys) m p"
  shows "restores tag (ReadRepeatedFixedSizePrimitive R rd rd_array (int sz) (int (UInt32Size tag)) tag) wr"
  unfolding restores_def
proof (intro allI impI, elim conjE)
  fix s :: "'i CodedInputStream" and f g :: "'a RepeatedField" and xs ys bs r m p v0
  assume a: "IsFlat s" "holds f xs" "holds g ys" "ys \<noteq> []" "wrote (wr g m p) p (varint (unat tag) @ bs)"
    "cis_buffer s = bs @ r" "run_ends tag (s\<lparr>cis_buffer := r\<rparr>) ys (total_size f - int (length xs))"
  obtain v ws where v: "ys = v # ws" using a(4) by (cases ys) simp_all
  have "varint (unat tag) @ bs = tagged enc tag ys" using a(5) wrote_emit unfolding wr [OF a(3,4)] by blast
  then have b: "cis_buffer s = enc v @ tagged enc tag ws @ r" using a(6) v by simp
  have l: "int (length xs) < total_size f" "run_ends tag (s\<lparr>cis_buffer := r\<rparr>) ws (total_size f - int (length xs) - 1)"
    using a(7) unfolding run_ends_def v by simp_all
  obtain h where h: "AddAlreadyReserved f v = Inr h" "holds h (xs @ [v])" "total_size h = total_size f"
    by (rule AddAlreadyReserved_ok [OF a(2) l(1)])
  have ad: "Add f v = Inr h" using l(1) holds_size(2) [OF a(2)] h(1) by (simp add: Add_eq)
  have c: "Capacity h - rf_size h = total_size f - int (length xs) - 1"
    using h(3) holds_size(1) [OF h(2)] by (simp add: Capacity_def)
  have "in_i32 (Capacity h - rf_size h)"
    unfolding c in_i32_def using holds_bounds [OF a(2)] l(1) by linarith
  then have "ReadRepeatedFixedSizePrimitive R rd rd_array (int sz) (int (UInt32Size tag)) tag s v0 f =
      ReadRepeatedPrimitive rd tag s v0 f"
    using fast_path [OF tag a(1) b ad] l(2) unfolding c by blast
  with ReadRepeatedPrimitive_holds [OF tag a(1) b a(2) l]
  show "\<exists>f'. ReadRepeatedFixedSizePrimitive R rd rd_array (int sz) (int (UInt32Size tag)) tag s v0 f =
      Inr (s\<lparr>cis_buffer := r\<rparr>, f', True) \<and> holds f' (xs @ ys)"
    unfolding v by simp
qed

end

lemma MakeTag_small:
  assumes "field_number < 0x800"
  shows "MakeTag field_number ty < 0x4000"
proof -
  have "unat field_number < 2048" using assms by (simp add: word_less_nat_alt)
  then have "unat field_number div 2 ^ 11 = 0" by simp
  then have f: "drop_bit 11 field_number = 0"
    unfolding unat_drop_bit [symmetric] by (simp only: unsigned_eq_0_iff)
  have "drop_bit 14 (push_bit 3 field_number) = 0"
  proof (rule bit_word_eqI)
    fix n :: nat assume "n < LENGTH(32)"
    have "\<not> bit field_number (11 + n)" using arg_cong [OF f, of "\<lambda>w. bit w n"] by (simp add: bit_drop_bit_eq)
    then show "bit (drop_bit 14 (push_bit 3 field_number)) n = bit (0 :: 32 word) n"
      by (simp add: bit_drop_bit_eq bit_push_bit_iff)
  qed
  moreover have "drop_bit 14 (WireType_value ty :: 32 word) = 0" by (cases ty) (simp_all add: drop_bit_eq_div)
  ultimately have "drop_bit 14 (MakeTag field_number ty) = 0" by (simp add: MakeTag_def)
  then have "unat (MakeTag field_number ty) div 2 ^ 14 = 0" using unat_drop_bit [of 14 "MakeTag field_number ty"] by simp
  then have "unat (MakeTag field_number ty) < 16384" by (simp add: div_eq_0_iff)
  then show ?thesis by (simp add: word_less_nat_alt)
qed

lemma Repeated_emit:
  assumes "holds g32 ys" "ys \<noteq> []" "holds g64 zs" "zs \<noteq> []" "holds gb bs" "bs \<noteq> []"
  shows "WriteRepeatedInt32ToArray fld g32 m p = emit (tagged (\<lambda>v. varint (unat (scast v :: 64 word))) (MakeTag fld WIRETYPE_VARINT) ys) m p"
    and "WriteRepeatedInt64ToArray fld g64 m p = emit (tagged (\<lambda>v. varint (unat v)) (MakeTag fld WIRETYPE_VARINT) zs) m p"
    and "WriteRepeatedUInt32ToArray fld g32 m p = emit (tagged (\<lambda>v. varint (unat v)) (MakeTag fld WIRETYPE_VARINT) ys) m p"
    and "WriteRepeatedUInt64ToArray fld g64 m p = emit (tagged (\<lambda>v. varint (unat v)) (MakeTag fld WIRETYPE_VARINT) zs) m p"
    and "WriteRepeatedSInt32ToArray fld g32 m p = emit (tagged (\<lambda>v. varint (unat (ZigZagEncode32 v))) (MakeTag fld WIRETYPE_VARINT) ys) m p"
    and "WriteRepeatedSInt64ToArray fld g64 m p = emit (tagged (\<lambda>v. varint (unat (ZigZagEncode64 v))) (MakeTag fld WIRETYPE_VARINT) zs) m p"
    and "WriteRepeatedBoolToArray fld gb m p = emit (tagged (\<lambda>v. varint (of_bool v)) (MakeTag fld WIRETYPE_VARINT) bs) m p"
    and "WriteRepeatedEnumToArray fld g32 m p = emit (tagged (\<lambda>v. varint (unat (scast v :: 64 word))) (MakeTag fld WIRETYPE_VARINT) ys) m p"
    and "WriteRepeatedFixed32ToArray fld g32 m p = emit (tagged le32 (MakeTag fld WIRETYPE_FIXED32) ys) m p"
    and "WriteRepeatedFixed64ToArray fld g64 m p = emit (tagged le64 (MakeTag fld WIRETYPE_FIXED64) zs) m p"
    and "WriteRepeatedSFixed32ToArray fld g32 m p = emit (tagged le32 (MakeTag fld WIRETYPE_FIXED32) ys) m p"
    and "WriteRepeatedSFixed64ToArray fld g64 m p = emit (tagged le64 (MakeTag fld WIRETYPE_FIXED64) zs) m p"
  unfolding repeated_defs
  by (rule WritePrimitive_emit [OF assms(1,2) Tagged_emit(1)] WritePrimitive_emit [OF assms(3,4) Tagged_emit(2)]
      WritePrimitive_emit [OF assms(1,2) Tagged_emit(3)] WritePrimitive_emit [OF assms(3,4) Tagged_emit(4)]
      WritePrimitive_emit [OF assms(1,2) Tagged_emit(5)] WritePrimitive_emit [OF assms(3,4) Tagged_emit(6)]
      WritePrimitive_emit [OF assms(5,6) Tagged_emit(7)] WritePrimitive_emit [OF assms(1,2) Tagged_emit(8)]
      WritePrimitive_emit [OF assms(1,2) Tagged_emit(9)] WritePrimitive_emit [OF assms(3,4) Tagged_emit(10)]
      WritePrimitive_emit [OF assms(1,2) Tagged_emit(11)] WritePrimitive_emit [OF assms(3,4) Tagged_emit(12)])+





end
