(* ===== verification/RepeatedPtr.thy ===== *)
theory RepeatedPtr
  imports RepeatedField MessageFields
begin

text \<open>
  \<open>RepeatedPtrField\<close> of \<open>repeated_field.h\<close> with its base class: a growing array of pointers to objects it owns, which keeps objects
  that were removed, cleared, behind the others for reuse.  The objects live in a store of addresses; an
  object knows the arena it was made on.  The element type enters through its \<open>TypeHandler\<close>, and the three methods of
  the base class that the compiled library holds are the argument \<open>L\<close> (locale \<open>pointer_array\<close>).  As in a release build the checks
  \<open>GOOGLE_DCHECK\<close> are absent.  Methods of \<open>RepeatedPtrField\<close> that only forward to the base class are not repeated.
\<close>

section \<open>Objects\<close>

record 'v object =
  obj_value :: 'v
  obj_arena :: "nat option"

record 'v store =
  objs :: "nat \<rightharpoonup> 'v object"
  next_obj :: nat
  adopted :: "(nat \<times> nat) list"

definition new_object :: "'v \<Rightarrow> nat option \<Rightarrow> 'v store \<Rightarrow> 'v store \<times> nat" where
  "new_object v a st =
     (st\<lparr>objs := (objs st)(next_obj st \<mapsto> \<lparr>obj_value = v, obj_arena = a\<rparr>), next_obj := Suc (next_obj st)\<rparr>, next_obj st)"

definition delete_object :: "nat \<Rightarrow> 'v store \<Rightarrow> 'v store res" where
  "delete_object p st =
     bind_res (heap_get (objs st) p) (\<lambda>ob.
     if obj_arena ob = None then Inr (st\<lparr>objs := (objs st)(p := None)\<rparr>) else Inl Use_after_free)"

definition load_object :: "nat \<Rightarrow> 'v store \<Rightarrow> 'v res" where
  "load_object p st = bind_res (heap_get (objs st) p) (\<lambda>ob. Inr (obj_value ob))"

definition store_object :: "nat \<Rightarrow> 'v \<Rightarrow> 'v store \<Rightarrow> 'v store res" where
  "store_object p v st =
     bind_res (heap_get (objs st) p) (\<lambda>ob. Inr (st\<lparr>objs := (objs st)(p \<mapsto> ob\<lparr>obj_value := v\<rparr>)\<rparr>))"

text \<open>
  The static members of a type handler: the value of a new object, \<open>Clear\<close>, \<open>Merge\<close> (source first), the
  arena an object reports, and whether the type implements merging.
\<close>

record 'v TypeHandler =
  th_new :: 'v
  th_Clear :: "'v \<Rightarrow> 'v"
  th_Merge :: "'v \<Rightarrow> 'v \<Rightarrow> 'v"
  th_GetArena :: "'v object \<Rightarrow> nat option"
  th_GetMaybeArenaPointer :: "'v object \<Rightarrow> nat option"
  th_SpaceUsedLong :: "'v \<Rightarrow> nat"
  th_mergeable :: bool

definition GenericTypeHandler :: "'v \<Rightarrow> ('v \<Rightarrow> 'v) \<Rightarrow> ('v \<Rightarrow> 'v \<Rightarrow> 'v) \<Rightarrow> ('v \<Rightarrow> nat) \<Rightarrow> 'v TypeHandler" where
  "GenericTypeHandler v clear merge_from space =
     \<lparr>th_new = v, th_Clear = clear, th_Merge = (\<lambda>from to. merge_from to from), th_GetArena = obj_arena,
      th_GetMaybeArenaPointer = obj_arena, th_SpaceUsedLong = space, th_mergeable = True\<rparr>"

definition StringTypeHandler :: "nat \<Rightarrow> (byte list \<Rightarrow> nat) \<Rightarrow> byte list TypeHandler" where
  "StringTypeHandler sizeof_value space =
     \<lparr>th_new = [], th_Clear = (\<lambda>v. []), th_Merge = (\<lambda>from to. from), th_GetArena = (\<lambda>ob. None),
      th_GetMaybeArenaPointer = (\<lambda>ob. None), th_SpaceUsedLong = (\<lambda>v. sizeof_value + space v), th_mergeable = True\<rparr>"

definition NewFromPrototype :: "'v TypeHandler \<Rightarrow> nat option \<Rightarrow> nat option \<Rightarrow> 'v store \<Rightarrow> 'v store \<times> nat" where
  "NewFromPrototype T prototype a st = new_object (th_new T) a st"

definition handler_Delete :: "nat \<Rightarrow> nat option \<Rightarrow> 'v store \<Rightarrow> 'v store res" where
  "handler_Delete p a st = (if a = None then delete_object p st else Inr st)"

definition handler_Clear :: "'v TypeHandler \<Rightarrow> nat \<Rightarrow> 'v store \<Rightarrow> 'v store res" where
  "handler_Clear T p st = bind_res (load_object p st) (\<lambda>v. store_object p (th_Clear T v) st)"

definition handler_Merge :: "'v TypeHandler \<Rightarrow> nat \<Rightarrow> nat \<Rightarrow> 'v store \<Rightarrow> 'v store res" where
  "handler_Merge T from to st =
     bind_res (load_object from st) (\<lambda>v. bind_res (load_object to st) (\<lambda>w. store_object to (th_Merge T v w) st))"

section \<open>Representation\<close>

record Rep =
  allocated_size :: int
  rep_elements :: "nat option list"

record PtrField =
  arena :: "nat option"
  pcurrent_size :: int
  ptotal_size :: int
  prep :: "Rep option"

text \<open>\<open>InternalExtend\<close> returns a pointer into the array, here an index.\<close>

record ptr_library =
  lib_Reserve :: "PtrField \<Rightarrow> int \<Rightarrow> PtrField res"
  lib_InternalExtend :: "PtrField \<Rightarrow> int \<Rightarrow> (PtrField \<times> int) res"
  lib_CloseGap :: "PtrField \<Rightarrow> int \<Rightarrow> int \<Rightarrow> PtrField res"

definition get_slot :: "PtrField \<Rightarrow> int \<Rightarrow> nat res" where
  "get_slot f i = bind_res (deref (prep f)) (\<lambda>r. slot_get (rep_elements r) i)"

definition set_slot :: "PtrField \<Rightarrow> int \<Rightarrow> nat \<Rightarrow> PtrField res" where
  "set_slot f i p =
     bind_res (deref (prep f)) (\<lambda>r.
     bind_res (slot_set (rep_elements r) i (Some p)) (\<lambda>es. Inr (f\<lparr>prep := Some (r\<lparr>rep_elements := es\<rparr>)\<rparr>)))"

definition add_allocated :: "PtrField \<Rightarrow> int \<Rightarrow> PtrField res" where
  "add_allocated f d =
     bind_res (deref (prep f)) (\<lambda>r.
     bind_res (i32 (allocated_size r + d)) (\<lambda>n. Inr (f\<lparr>prep := Some (r\<lparr>allocated_size := n\<rparr>)\<rparr>)))"

definition add_current :: "PtrField \<Rightarrow> int \<Rightarrow> PtrField res" where
  "add_current f d = bind_res (i32 (pcurrent_size f + d)) (\<lambda>n. Inr (f\<lparr>pcurrent_size := n\<rparr>))"

text \<open>\<open>elements[current_size_++] = p\<close>.\<close>

definition push_slot :: "PtrField \<Rightarrow> nat \<Rightarrow> PtrField res" where
  "push_slot f p = bind_res (set_slot f (pcurrent_size f) p) (\<lambda>f. add_current f 1)"

text \<open>The test \<open>rep_ && current_size_ < rep_->allocated_size\<close>, and \<open>!rep_ || rep_->allocated_size == total_size_\<close>.\<close>

definition has_cleared :: "PtrField \<Rightarrow> bool" where
  "has_cleared f \<longleftrightarrow> (case prep f of None \<Rightarrow> False | Some r \<Rightarrow> pcurrent_size f < allocated_size r)"

definition array_full :: "PtrField \<Rightarrow> bool" where
  "array_full f \<longleftrightarrow> (case prep f of None \<Rightarrow> True | Some r \<Rightarrow> allocated_size r = ptotal_size f)"

definition new_PtrField :: PtrField where
  "new_PtrField = \<lparr>arena = None, pcurrent_size = 0, ptotal_size = 0, prep = None\<rparr>"

definition new_PtrField_arena :: "nat option \<Rightarrow> PtrField" where
  "new_PtrField_arena a = \<lparr>arena = a, pcurrent_size = 0, ptotal_size = 0, prep = None\<rparr>"

section \<open>RepeatedPtrFieldBase\<close>

text \<open>The loop of \<open>Destroy\<close>: \<open>n\<close> elements from index \<open>i\<close> on.\<close>

fun delete_elements :: "nat option list \<Rightarrow> int \<Rightarrow> nat \<Rightarrow> 'v store \<Rightarrow> 'v store res" where
  "delete_elements es i 0 st = Inr st"
| "delete_elements es i (Suc n) st =
     bind_res (slot_get es i) (\<lambda>p. bind_res (handler_Delete p None st) (\<lambda>st. delete_elements es (i + 1) n st))"

definition Destroy :: "PtrField \<Rightarrow> 'v store \<Rightarrow> ('v store \<times> PtrField) res" where
  "Destroy f st =
     bind_res
       (case prep f of
          Some r \<Rightarrow> if arena f = None then delete_elements (rep_elements r) 0 (nat (allocated_size r)) st else Inr st
        | None \<Rightarrow> Inr st)
       (\<lambda>st. Inr (st, f\<lparr>prep := None\<rparr>))"

definition InternalSwap_ptr :: "PtrField \<Rightarrow> PtrField \<Rightarrow> PtrField \<times> PtrField" where
  "InternalSwap_ptr f other =
     (f\<lparr>prep := prep other, pcurrent_size := pcurrent_size other, ptotal_size := ptotal_size other\<rparr>,
      other\<lparr>prep := prep f, pcurrent_size := pcurrent_size f, ptotal_size := ptotal_size f\<rparr>)"

definition empty_ptr :: "PtrField \<Rightarrow> bool" where
  "empty_ptr f \<longleftrightarrow> pcurrent_size f = 0"

definition size_ptr :: "PtrField \<Rightarrow> int" where
  "size_ptr f = pcurrent_size f"

definition Get_ptr :: "'v store \<Rightarrow> PtrField \<Rightarrow> int \<Rightarrow> 'v res" where
  "Get_ptr st f index = bind_res (get_slot f index) (\<lambda>p. load_object p st)"

definition Mutable_ptr :: "PtrField \<Rightarrow> int \<Rightarrow> nat res" where
  "Mutable_ptr f index = get_slot f index"

definition Delete_ptr :: "PtrField \<Rightarrow> int \<Rightarrow> 'v store \<Rightarrow> 'v store res" where
  "Delete_ptr f index st = bind_res (get_slot f index) (\<lambda>p. handler_Delete p (arena f) st)"

definition AddFromCleared :: "PtrField \<Rightarrow> (PtrField \<times> nat option) res" where
  "AddFromCleared f =
     (if has_cleared f
      then bind_res (get_slot f (pcurrent_size f)) (\<lambda>p. bind_res (add_current f 1) (\<lambda>f. Inr (f, Some p)))
      else Inr (f, None))"

definition Add_ptr :: "'v TypeHandler \<Rightarrow> ptr_library \<Rightarrow> 'v store \<Rightarrow> PtrField \<Rightarrow> ('v store \<times> PtrField \<times> nat) res" where
  "Add_ptr T L st f =
     (if has_cleared f
      then bind_res (get_slot f (pcurrent_size f)) (\<lambda>p. bind_res (add_current f 1) (\<lambda>f. Inr (st, f, p)))
      else
        bind_res (if array_full f then bind_res (i32 (ptotal_size f + 1)) (lib_Reserve L f) else Inr f) (\<lambda>f.
        bind_res (add_allocated f 1) (\<lambda>f.
        case NewFromPrototype T None (arena f) st of
          (st, p) \<Rightarrow> bind_res (push_slot f p) (\<lambda>f. Inr (st, f, p)))))"

definition Add_move_ptr :: "ptr_library \<Rightarrow> 'v store \<Rightarrow> PtrField \<Rightarrow> 'v \<Rightarrow> ('v store \<times> PtrField) res" where
  "Add_move_ptr L st f v =
     (if has_cleared f
      then bind_res (get_slot f (pcurrent_size f)) (\<lambda>p. bind_res (add_current f 1) (\<lambda>f.
           bind_res (store_object p v st) (\<lambda>st. Inr (st, f))))
      else
        bind_res (if array_full f then bind_res (i32 (ptotal_size f + 1)) (lib_Reserve L f) else Inr f) (\<lambda>f.
        bind_res (add_allocated f 1) (\<lambda>f.
        case new_object v (arena f) st of
          (st, p) \<Rightarrow> bind_res (push_slot f p) (\<lambda>f. Inr (st, f)))))"

definition RemoveLast_ptr :: "'v TypeHandler \<Rightarrow> 'v store \<Rightarrow> PtrField \<Rightarrow> ('v store \<times> PtrField) res" where
  "RemoveLast_ptr T st f =
     bind_res (add_current f (- 1)) (\<lambda>f.
     bind_res (get_slot f (pcurrent_size f)) (\<lambda>p.
     bind_res (handler_Clear T p st) (\<lambda>st. Inr (st, f))))"

text \<open>The do-loop of \<open>Clear\<close>: \<open>n\<close> elements from index \<open>i\<close> on.\<close>

fun clear_elements :: "'v TypeHandler \<Rightarrow> PtrField \<Rightarrow> int \<Rightarrow> nat \<Rightarrow> 'v store \<Rightarrow> 'v store res" where
  "clear_elements T f i 0 st = Inr st"
| "clear_elements T f i (Suc n) st =
     bind_res (get_slot f i) (\<lambda>p. bind_res (handler_Clear T p st) (\<lambda>st. clear_elements T f (i + 1) n st))"

definition Clear_ptr :: "'v TypeHandler \<Rightarrow> 'v store \<Rightarrow> PtrField \<Rightarrow> ('v store \<times> PtrField) res" where
  "Clear_ptr T st f =
     (if 0 < pcurrent_size f
      then bind_res (clear_elements T f 0 (nat (pcurrent_size f)) st) (\<lambda>st. Inr (st, f\<lparr>pcurrent_size := 0\<rparr>))
      else Inr (st, f))"

text \<open>
  The two loops of \<open>MergeFromInnerLoop\<close>, from index \<open>i\<close> on; \<open>base\<close> is where \<open>our_elems\<close> points to, \<open>other_elems\<close> is the
  start of the other array.
\<close>

fun merge_existing :: "'v TypeHandler \<Rightarrow> PtrField \<Rightarrow> int \<Rightarrow> PtrField \<Rightarrow> int \<Rightarrow> nat \<Rightarrow> 'v store \<Rightarrow> 'v store res" where
  "merge_existing T f base other i 0 st = Inr st"
| "merge_existing T f base other i (Suc n) st =
     bind_res (get_slot other i) (\<lambda>p. bind_res (get_slot f (base + i)) (\<lambda>q.
     bind_res (handler_Merge T p q st) (\<lambda>st. merge_existing T f base other (i + 1) n st)))"

fun merge_new :: "'v TypeHandler \<Rightarrow> PtrField \<Rightarrow> int \<Rightarrow> PtrField \<Rightarrow> int \<Rightarrow> nat \<Rightarrow> 'v store \<Rightarrow> ('v store \<times> PtrField) res" where
  "merge_new T f base other i 0 st = Inr (st, f)"
| "merge_new T f base other i (Suc n) st =
     bind_res (get_slot other i) (\<lambda>p.
     case NewFromPrototype T (Some p) (arena f) st of
       (st, q) \<Rightarrow>
         bind_res (handler_Merge T p q st) (\<lambda>st.
         bind_res (set_slot f (base + i) q) (\<lambda>f. merge_new T f base other (i + 1) n st)))"

definition MergeFromInnerLoop :: "'v TypeHandler \<Rightarrow> PtrField \<Rightarrow> int \<Rightarrow> PtrField \<Rightarrow> int \<Rightarrow> int \<Rightarrow> 'v store \<Rightarrow>
    ('v store \<times> PtrField) res" where
  "MergeFromInnerLoop T f our_elems other len already_allocated st =
     bind_res (merge_existing T f our_elems other 0 (nat (min already_allocated len)) st) (\<lambda>st.
     merge_new T f our_elems other already_allocated (nat (len - already_allocated)) st)"

definition MergeFromInternal :: "'v TypeHandler \<Rightarrow> ptr_library \<Rightarrow> 'v store \<Rightarrow> PtrField \<Rightarrow> PtrField \<Rightarrow>
    ('v store \<times> PtrField) res" where
  "MergeFromInternal T L st f other =
     bind_res (deref (prep other)) (\<lambda>_.
     bind_res (lib_InternalExtend L f (pcurrent_size other)) (\<lambda>(f, new_elements).
     bind_res (deref (prep f)) (\<lambda>r.
     bind_res (MergeFromInnerLoop T f new_elements other (pcurrent_size other) (allocated_size r - pcurrent_size f) st) (\<lambda>(st, f).
     bind_res (add_current f (pcurrent_size other)) (\<lambda>f.
     bind_res (deref (prep f)) (\<lambda>r.
     Inr (st, if allocated_size r < pcurrent_size f
              then f\<lparr>prep := Some (r\<lparr>allocated_size := pcurrent_size f\<rparr>)\<rparr> else f)))))))"

definition MergeFrom_ptr :: "'v TypeHandler \<Rightarrow> ptr_library \<Rightarrow> 'v store \<Rightarrow> PtrField \<Rightarrow> PtrField \<Rightarrow> ('v store \<times> PtrField) res" where
  "MergeFrom_ptr T L st f other =
     (if pcurrent_size other = 0 then Inr (st, f) else MergeFromInternal T L st f other)"

definition CopyFrom_ptr :: "'v TypeHandler \<Rightarrow> ptr_library \<Rightarrow> bool \<Rightarrow> 'v store \<Rightarrow> PtrField \<Rightarrow> PtrField \<Rightarrow> ('v store \<times> PtrField) res" where
  "CopyFrom_ptr T L self st f other =
     (if self then Inr (st, f)
      else bind_res (Clear_ptr T st f) (\<lambda>(st, f). MergeFrom_ptr T L st f other))"

definition Capacity_ptr :: "PtrField \<Rightarrow> int" where
  "Capacity_ptr f = ptotal_size f"

definition raw_data :: "PtrField \<Rightarrow> nat option list option" where
  "raw_data f = map_option rep_elements (prep f)"

definition SwapElements_ptr :: "PtrField \<Rightarrow> int \<Rightarrow> int \<Rightarrow> PtrField res" where
  "SwapElements_ptr f index1 index2 =
     bind_res (get_slot f index1) (\<lambda>p. bind_res (get_slot f index2) (\<lambda>q.
     bind_res (set_slot f index1 q) (\<lambda>f. set_slot f index2 p)))"

fun space_of_elements :: "'v TypeHandler \<Rightarrow> PtrField \<Rightarrow> int \<Rightarrow> nat \<Rightarrow> 'v store \<Rightarrow> nat \<Rightarrow> nat res" where
  "space_of_elements T f i 0 st acc = Inr acc"
| "space_of_elements T f i (Suc n) st acc =
     bind_res (get_slot f i) (\<lambda>p. bind_res (load_object p st) (\<lambda>v.
     space_of_elements T f (i + 1) n st (acc + th_SpaceUsedLong T v)))"

definition SpaceUsedExcludingSelfLong_ptr :: "'v TypeHandler \<Rightarrow> nat \<Rightarrow> nat \<Rightarrow> 'v store \<Rightarrow> PtrField \<Rightarrow> nat res" where
  "SpaceUsedExcludingSelfLong_ptr T sizeof_pointer rep_header st f =
     (let allocated_bytes = nat (ptotal_size f) * sizeof_pointer in
      case prep f of
        None \<Rightarrow> Inr allocated_bytes
      | Some r \<Rightarrow>
          bind_res (space_of_elements T f 0 (nat (allocated_size r)) st allocated_bytes) (\<lambda>n. Inr (n + rep_header)))"

section \<open>Ownership\<close>

definition UnsafeArenaAddAllocated :: "ptr_library \<Rightarrow> 'v store \<Rightarrow> PtrField \<Rightarrow> nat \<Rightarrow> ('v store \<times> PtrField) res" where
  "UnsafeArenaAddAllocated L st f p =
     bind_res
       (if prep f = None \<or> pcurrent_size f = ptotal_size f then
          bind_res (i32 (ptotal_size f + 1)) (\<lambda>n.
          bind_res (lib_Reserve L f n) (\<lambda>f. bind_res (add_allocated f 1) (\<lambda>f. Inr (st, f))))
        else if array_full f then
          bind_res (get_slot f (pcurrent_size f)) (\<lambda>q. bind_res (handler_Delete q (arena f) st) (\<lambda>st. Inr (st, f)))
        else if has_cleared f then
          bind_res (deref (prep f)) (\<lambda>r. bind_res (get_slot f (pcurrent_size f)) (\<lambda>q.
          bind_res (set_slot f (allocated_size r) q) (\<lambda>f. bind_res (add_allocated f 1) (\<lambda>f. Inr (st, f)))))
        else bind_res (add_allocated f 1) (\<lambda>f. Inr (st, f)))
       (\<lambda>(st, f). bind_res (push_slot f p) (\<lambda>f. Inr (st, f)))"

text \<open>The fast path that both versions of \<open>AddAllocatedInternal\<close> have.\<close>

definition add_allocated_fast :: "PtrField \<Rightarrow> nat \<Rightarrow> PtrField res" where
  "add_allocated_fast f p =
     bind_res (deref (prep f)) (\<lambda>r.
     bind_res
       (if pcurrent_size f < allocated_size r
        then bind_res (get_slot f (pcurrent_size f)) (\<lambda>q. set_slot f (allocated_size r) q) else Inr f) (\<lambda>f.
     bind_res (set_slot f (pcurrent_size f) p) (\<lambda>f.
     bind_res (add_current f 1) (\<lambda>f. add_allocated f 1))))"

definition has_room :: "PtrField \<Rightarrow> bool" where
  "has_room f \<longleftrightarrow> (case prep f of None \<Rightarrow> False | Some r \<Rightarrow> allocated_size r < ptotal_size f)"

text \<open>\<open>Own\<close> hands the object to the arena, which deletes it when it goes.\<close>

definition AddAllocatedSlowWithCopy :: "'v TypeHandler \<Rightarrow> ptr_library \<Rightarrow> 'v store \<Rightarrow> PtrField \<Rightarrow> nat \<Rightarrow> nat option \<Rightarrow> nat option \<Rightarrow>
    ('v store \<times> PtrField) res" where
  "AddAllocatedSlowWithCopy T L st f p value_arena my_arena =
     bind_res
       (if my_arena \<noteq> None \<and> value_arena = None then Inr (st\<lparr>adopted := adopted st @ [(the my_arena, p)]\<rparr>, p)
        else if my_arena \<noteq> value_arena then
          (case NewFromPrototype T (Some p) my_arena st of
             (st, q) \<Rightarrow>
               bind_res (handler_Merge T p q st) (\<lambda>st. bind_res (handler_Delete p value_arena st) (\<lambda>st. Inr (st, q))))
        else Inr (st, p))
       (\<lambda>(st, p). UnsafeArenaAddAllocated L st f p)"

definition AddAllocatedInternal_merge :: "'v TypeHandler \<Rightarrow> ptr_library \<Rightarrow> 'v store \<Rightarrow> PtrField \<Rightarrow> nat \<Rightarrow> ('v store \<times> PtrField) res" where
  "AddAllocatedInternal_merge T L st f p =
     bind_res (heap_get (objs st) p) (\<lambda>ob.
     if arena f = th_GetMaybeArenaPointer T ob \<and> has_room f
     then bind_res (add_allocated_fast f p) (\<lambda>f. Inr (st, f))
     else AddAllocatedSlowWithCopy T L st f p (th_GetArena T ob) (arena f))"

definition AddAllocatedInternal_plain :: "ptr_library \<Rightarrow> 'v store \<Rightarrow> PtrField \<Rightarrow> nat \<Rightarrow> ('v store \<times> PtrField) res" where
  "AddAllocatedInternal_plain L st f p =
     (if has_room f then bind_res (add_allocated_fast f p) (\<lambda>f. Inr (st, f)) else UnsafeArenaAddAllocated L st f p)"

definition AddAllocated :: "'v TypeHandler \<Rightarrow> ptr_library \<Rightarrow> 'v store \<Rightarrow> PtrField \<Rightarrow> nat \<Rightarrow> ('v store \<times> PtrField) res" where
  "AddAllocated T L st f p =
     (if th_mergeable T then AddAllocatedInternal_merge T L st f p else AddAllocatedInternal_plain L st f p)"

definition UnsafeArenaReleaseLast :: "PtrField \<Rightarrow> (PtrField \<times> nat) res" where
  "UnsafeArenaReleaseLast f =
     bind_res (add_current f (- 1)) (\<lambda>f.
     bind_res (get_slot f (pcurrent_size f)) (\<lambda>result.
     bind_res (add_allocated f (- 1)) (\<lambda>f.
     bind_res (deref (prep f)) (\<lambda>r.
     bind_res
       (if pcurrent_size f < allocated_size r
        then bind_res (get_slot f (allocated_size r)) (\<lambda>q. set_slot f (pcurrent_size f) q) else Inr f) (\<lambda>f.
     Inr (f, result))))))"

definition ReleaseLastInternal_merge :: "'v TypeHandler \<Rightarrow> 'v store \<Rightarrow> PtrField \<Rightarrow> ('v store \<times> PtrField \<times> nat) res" where
  "ReleaseLastInternal_merge T st f =
     bind_res (UnsafeArenaReleaseLast f) (\<lambda>(f, result).
     if arena f = None then Inr (st, f, result)
     else
       case NewFromPrototype T (Some result) None st of
         (st, new_result) \<Rightarrow> bind_res (handler_Merge T result new_result st) (\<lambda>st. Inr (st, f, new_result)))"

definition ReleaseLastInternal_plain :: "'v store \<Rightarrow> PtrField \<Rightarrow> ('v store \<times> PtrField \<times> nat) res" where
  "ReleaseLastInternal_plain st f = bind_res (UnsafeArenaReleaseLast f) (\<lambda>(f, result). Inr (st, f, result))"

definition ReleaseLast :: "'v TypeHandler \<Rightarrow> 'v store \<Rightarrow> PtrField \<Rightarrow> ('v store \<times> PtrField \<times> nat) res" where
  "ReleaseLast T st f = (if th_mergeable T then ReleaseLastInternal_merge T st f else ReleaseLastInternal_plain st f)"

definition ClearedCount :: "PtrField \<Rightarrow> int" where
  "ClearedCount f = (case prep f of None \<Rightarrow> 0 | Some r \<Rightarrow> allocated_size r - pcurrent_size f)"

definition AddCleared :: "ptr_library \<Rightarrow> PtrField \<Rightarrow> nat \<Rightarrow> PtrField res" where
  "AddCleared L f p =
     bind_res (if array_full f then bind_res (i32 (ptotal_size f + 1)) (lib_Reserve L f) else Inr f) (\<lambda>f.
     bind_res (deref (prep f)) (\<lambda>r.
     bind_res (set_slot f (allocated_size r) p) (\<lambda>f. add_allocated f 1)))"

definition ReleaseCleared :: "PtrField \<Rightarrow> (PtrField \<times> nat) res" where
  "ReleaseCleared f =
     bind_res (add_allocated f (- 1)) (\<lambda>f.
     bind_res (deref (prep f)) (\<lambda>r. bind_res (get_slot f (allocated_size r)) (\<lambda>p. Inr (f, p))))"

definition SwapFallback :: "'v TypeHandler \<Rightarrow> ptr_library \<Rightarrow> 'v store \<Rightarrow> PtrField \<Rightarrow> PtrField \<Rightarrow>
    ('v store \<times> PtrField \<times> PtrField) res" where
  "SwapFallback T L st f other =
     bind_res (MergeFrom_ptr T L st (new_PtrField_arena (arena other)) f) (\<lambda>(st, temp).
     bind_res (Clear_ptr T st f) (\<lambda>(st, f).
     bind_res (MergeFrom_ptr T L st f other) (\<lambda>(st, f).
     bind_res (Clear_ptr T st other) (\<lambda>(st, other).
     case InternalSwap_ptr other temp of
       (other, temp) \<Rightarrow> bind_res (Destroy temp st) (\<lambda>(st, _). Inr (st, f, other))))))"

definition Swap_base :: "'v TypeHandler \<Rightarrow> ptr_library \<Rightarrow> 'v store \<Rightarrow> PtrField \<Rightarrow> PtrField \<Rightarrow>
    ('v store \<times> PtrField \<times> PtrField) res" where
  "Swap_base T L st f other =
     (if arena other = arena f then (case InternalSwap_ptr f other of (f, other) \<Rightarrow> Inr (st, f, other))
      else SwapFallback T L st f other)"

section \<open>RepeatedPtrField\<close>

definition copy_PtrField :: "'v TypeHandler \<Rightarrow> ptr_library \<Rightarrow> 'v store \<Rightarrow> PtrField \<Rightarrow> ('v store \<times> PtrField) res" where
  "copy_PtrField T L st other = MergeFrom_ptr T L st new_PtrField other"

fun add_range :: "'v TypeHandler \<Rightarrow> ptr_library \<Rightarrow> 'v store \<Rightarrow> PtrField \<Rightarrow> 'v list \<Rightarrow> ('v store \<times> PtrField) res" where
  "add_range T L st f [] = Inr (st, f)"
| "add_range T L st f (v # vs) =
     bind_res (Add_ptr T L st f) (\<lambda>(st, f, p). bind_res (store_object p v st) (\<lambda>st. add_range T L st f vs))"

definition range_PtrField :: "'v TypeHandler \<Rightarrow> ptr_library \<Rightarrow> bool \<Rightarrow> 'v store \<Rightarrow> 'v list \<Rightarrow> ('v store \<times> PtrField) res" where
  "range_PtrField T L forward st vs =
     (let reserve = CalculateReserve forward vs in
      bind_res (if reserve \<noteq> - 1 then lib_Reserve L new_PtrField reserve else Inr new_PtrField) (\<lambda>f.
      add_range T L st f vs))"

definition PtrField_assign :: "'v TypeHandler \<Rightarrow> ptr_library \<Rightarrow> bool \<Rightarrow> 'v store \<Rightarrow> PtrField \<Rightarrow> PtrField \<Rightarrow> ('v store \<times> PtrField) res" where
  "PtrField_assign T L self st f other = (if \<not> self then CopyFrom_ptr T L self st f other else Inr (st, f))"

definition move_PtrField :: "'v TypeHandler \<Rightarrow> ptr_library \<Rightarrow> 'v store \<Rightarrow> PtrField \<Rightarrow> ('v store \<times> PtrField \<times> PtrField) res" where
  "move_PtrField T L st other =
     (if arena other \<noteq> None
      then bind_res (CopyFrom_ptr T L False st new_PtrField other) (\<lambda>(st, f). Inr (st, f, other))
      else case InternalSwap_ptr new_PtrField other of (f, other) \<Rightarrow> Inr (st, f, other))"

definition PtrField_move_assign :: "'v TypeHandler \<Rightarrow> ptr_library \<Rightarrow> bool \<Rightarrow> 'v store \<Rightarrow> PtrField \<Rightarrow> PtrField \<Rightarrow>
    ('v store \<times> PtrField \<times> PtrField) res" where
  "PtrField_move_assign T L self st f other =
     (if \<not> self then
        if arena f \<noteq> arena other
        then bind_res (CopyFrom_ptr T L False st f other) (\<lambda>(st, f). Inr (st, f, other))
        else case InternalSwap_ptr f other of (f, other) \<Rightarrow> Inr (st, f, other)
      else Inr (st, f, other))"

text \<open>The loops that collect pointers to elements, and heap copies of them; the flag says whether the caller wants them.\<close>

fun take_pointers :: "PtrField \<Rightarrow> int \<Rightarrow> nat \<Rightarrow> nat list res" where
  "take_pointers f i 0 = Inr []"
| "take_pointers f i (Suc n) =
     bind_res (Mutable_ptr f i) (\<lambda>p. bind_res (take_pointers f (i + 1) n) (\<lambda>ps. Inr (p # ps)))"

fun take_copies :: "'v TypeHandler \<Rightarrow> PtrField \<Rightarrow> int \<Rightarrow> nat \<Rightarrow> 'v store \<Rightarrow> ('v store \<times> nat list) res" where
  "take_copies T f i 0 st = Inr (st, [])"
| "take_copies T f i (Suc n) st =
     bind_res (Mutable_ptr f i) (\<lambda>p.
     case NewFromPrototype T (Some p) None st of
       (st, q) \<Rightarrow>
         bind_res (handler_Merge T p q st) (\<lambda>st.
         bind_res (take_copies T f (i + 1) n st) (\<lambda>(st, qs). Inr (st, q # qs))))"

definition UnsafeArenaExtractSubrange :: "ptr_library \<Rightarrow> PtrField \<Rightarrow> int \<Rightarrow> int \<Rightarrow> bool \<Rightarrow> (PtrField \<times> nat list) res" where
  "UnsafeArenaExtractSubrange L f start num wanted =
     (if 0 < num then
        bind_res (if wanted then take_pointers f start (nat num) else Inr []) (\<lambda>ps.
        bind_res (lib_CloseGap L f start num) (\<lambda>f. Inr (f, ps)))
      else Inr (f, []))"

definition ExtractSubrangeInternal_merge :: "'v TypeHandler \<Rightarrow> ptr_library \<Rightarrow> 'v store \<Rightarrow> PtrField \<Rightarrow> int \<Rightarrow> int \<Rightarrow> bool \<Rightarrow>
    ('v store \<times> PtrField \<times> nat list) res" where
  "ExtractSubrangeInternal_merge T L st f start num wanted =
     (if 0 < num then
        bind_res
          (if wanted then
             if arena f \<noteq> None then take_copies T f start (nat num) st
             else bind_res (take_pointers f start (nat num)) (\<lambda>ps. Inr (st, ps))
           else Inr (st, [])) (\<lambda>(st, ps).
        bind_res (lib_CloseGap L f start num) (\<lambda>f. Inr (st, f, ps)))
      else Inr (st, f, []))"

definition ExtractSubrangeInternal_plain :: "ptr_library \<Rightarrow> 'v store \<Rightarrow> PtrField \<Rightarrow> int \<Rightarrow> int \<Rightarrow> bool \<Rightarrow>
    ('v store \<times> PtrField \<times> nat list) res" where
  "ExtractSubrangeInternal_plain L st f start num wanted =
     bind_res (UnsafeArenaExtractSubrange L f start num wanted) (\<lambda>(f, ps). Inr (st, f, ps))"

definition ExtractSubrange_ptr :: "'v TypeHandler \<Rightarrow> ptr_library \<Rightarrow> 'v store \<Rightarrow> PtrField \<Rightarrow> int \<Rightarrow> int \<Rightarrow> bool \<Rightarrow>
    ('v store \<times> PtrField \<times> nat list) res" where
  "ExtractSubrange_ptr T L st f start num wanted =
     (if th_mergeable T then ExtractSubrangeInternal_merge T L st f start num wanted
      else ExtractSubrangeInternal_plain L st f start num wanted)"

fun delete_range :: "PtrField \<Rightarrow> int \<Rightarrow> nat \<Rightarrow> 'v store \<Rightarrow> 'v store res" where
  "delete_range f i 0 st = Inr st"
| "delete_range f i (Suc n) st = bind_res (Delete_ptr f i st) (\<lambda>st. delete_range f (i + 1) n st)"

definition DeleteSubrange :: "'v TypeHandler \<Rightarrow> ptr_library \<Rightarrow> 'v store \<Rightarrow> PtrField \<Rightarrow> int \<Rightarrow> int \<Rightarrow> ('v store \<times> PtrField) res" where
  "DeleteSubrange T L st f start num =
     bind_res (delete_range f start (nat num) st) (\<lambda>st.
     bind_res (ExtractSubrange_ptr T L st f start num False) (\<lambda>(st, f, _). Inr (st, f)))"

text \<open>Iterators are indices into the array.\<close>

definition erase_range_ptr :: "'v TypeHandler \<Rightarrow> ptr_library \<Rightarrow> 'v store \<Rightarrow> PtrField \<Rightarrow> int \<Rightarrow> int \<Rightarrow>
    ('v store \<times> PtrField \<times> int) res" where
  "erase_range_ptr T L st f pos_offset last_offset =
     bind_res (DeleteSubrange T L st f pos_offset (last_offset - pos_offset)) (\<lambda>(st, f). Inr (st, f, pos_offset))"

definition erase_one_ptr :: "'v TypeHandler \<Rightarrow> ptr_library \<Rightarrow> 'v store \<Rightarrow> PtrField \<Rightarrow> int \<Rightarrow> ('v store \<times> PtrField \<times> int) res" where
  "erase_one_ptr T L st f position = erase_range_ptr T L st f position (position + 1)"

definition Swap_ptr :: "'v TypeHandler \<Rightarrow> ptr_library \<Rightarrow> bool \<Rightarrow> 'v store \<Rightarrow> PtrField \<Rightarrow> PtrField \<Rightarrow>
    ('v store \<times> PtrField \<times> PtrField) res" where
  "Swap_ptr T L self st f other = (if self then Inr (st, f, other) else Swap_base T L st f other)"

definition UnsafeArenaSwap_ptr :: "bool \<Rightarrow> PtrField \<Rightarrow> PtrField \<Rightarrow> PtrField \<times> PtrField" where
  "UnsafeArenaSwap_ptr self f other = (if self then (f, other) else InternalSwap_ptr f other)"

end
