(* ===== verification/PtrOwnership.thy ===== *)
theory PtrOwnership
  imports RepeatedPtr
begin

text \<open>
  What the operations of \<open>RepeatedPtrField\<close> do to the objects of the store: the invariant \<open>owns\<close> (the field, the pointers in use and
  behind them the cleared ones, the values), how a store evolves, the two contracts \<open>pointer_array\<close> (the compiled methods) and
  \<open>type_handler\<close>, and for each operation the lemma \<open>_ok\<close> that it returns and what it leaves.
\<close>

section \<open>The objects a field owns\<close>

text \<open>
  A field off every arena is either new or an array: \<open>n\<close> elements in use, \<open>m\<close> allocated, \<open>es\<close> the slots.
  \<open>field_holds f live cleared\<close>: the used slots hold the pointers \<open>live\<close>, the allocated ones behind them \<open>cleared\<close>.
\<close>

definition array_field :: "nat \<Rightarrow> nat \<Rightarrow> nat option list \<Rightarrow> PtrField" where
  "array_field n m es =
     \<lparr>arena = None, pcurrent_size = int n, ptotal_size = int (length es),
      prep = Some \<lparr>allocated_size = int m, rep_elements = es\<rparr>\<rparr>"

definition slots :: "nat list \<Rightarrow> nat option list \<Rightarrow> bool" where
  "slots ps es \<longleftrightarrow> length ps \<le> length es \<and> length es \<le> 2147483647 \<and> take (length ps) es = map Some ps"

definition field_holds :: "PtrField \<Rightarrow> nat list \<Rightarrow> nat list \<Rightarrow> bool" where
  "field_holds f live cleared \<longleftrightarrow>
     f = new_PtrField \<and> live = [] \<and> cleared = [] \<or>
     (\<exists>es. f = array_field (length live) (length (live @ cleared)) es \<and> slots (live @ cleared) es)"

lemma field_holds_new [simp]: "field_holds new_PtrField [] []"
  by (simp add: field_holds_def)

lemma field_holds_array: "slots (live @ cleared) es \<Longrightarrow> n = length live \<Longrightarrow> m = length live + length cleared \<Longrightarrow>
    field_holds (array_field n m es) live cleared"
  by (auto simp: field_holds_def)

lemma field_holds_cases:
  assumes "field_holds f live cleared"
  obtains "f = new_PtrField" "live = []" "cleared = []"
  | es where "f = array_field (length live) (length live + length cleared) es" "slots (live @ cleared) es"
  using assms unfolding field_holds_def by auto

text \<open>A field with something allocated is an array.\<close>

lemma field_holds_room:
  assumes "field_holds f live cleared" "0 < ptotal_size f \<or> live \<noteq> [] \<or> cleared \<noteq> []"
  obtains es where "f = array_field (length live) (length live + length cleared) es" "slots (live @ cleared) es"
  using assms(1) by (cases rule: field_holds_cases) (use assms(2) in \<open>auto simp: new_PtrField_def\<close>)

lemma field_holds_arena: "field_holds f live cleared \<Longrightarrow> arena f = None"
  by (auto simp: field_holds_def array_field_def new_PtrField_def)

lemma field_holds_size: "field_holds f live cleared \<Longrightarrow> pcurrent_size f = int (length live)"
  by (auto simp: field_holds_def array_field_def new_PtrField_def)

lemma field_holds_ClearedCount: "field_holds f live cleared \<Longrightarrow> ClearedCount f = int (length cleared)"
  by (auto simp: field_holds_def array_field_def new_PtrField_def ClearedCount_def)

lemma field_holds_bounds:
  "field_holds f live cleared \<Longrightarrow> int (length live + length cleared) \<le> ptotal_size f \<and> ptotal_size f \<le> 2147483647"
  by (auto simp: field_holds_def array_field_def new_PtrField_def slots_def)

text \<open>Slots.\<close>

lemma slots_get: "slots ps es \<Longrightarrow> i < length ps \<Longrightarrow> slot_get es (int i) = Inr (ps ! i)"
proof -
  assume s: "slots ps es" "i < length ps"
  then have "take (length ps) es ! i = map Some ps ! i" by (simp add: slots_def)
  then show ?thesis using s by (simp add: slots_def slot_get_def)
qed

lemma slots_update: "slots ps es \<Longrightarrow> i < length ps \<Longrightarrow> slots (ps[i := p]) (es[i := Some p])"
  by (simp add: slots_def take_update_swap map_update)

lemma slots_append: "slots ps es \<Longrightarrow> length ps < length es \<Longrightarrow> slots (ps @ [p]) (es[length ps := Some p])"
  by (simp add: slots_def take_Suc_conv_app_nth)

lemma slots_prefix: "slots (ps @ qs) es \<Longrightarrow> slots ps es"
proof -
  assume s: "slots (ps @ qs) es"
  then have "take (length ps) (take (length (ps @ qs)) es) = take (length ps) (map Some (ps @ qs))"
    by (simp add: slots_def)
  then show ?thesis using s by (simp add: slots_def)
qed

text \<open>The elementary steps on an array.\<close>

lemma array_field_simps [simp]:
  "arena (array_field n m es) = None" "pcurrent_size (array_field n m es) = int n"
  "ptotal_size (array_field n m es) = int (length es)"
  "prep (array_field n m es) = Some \<lparr>allocated_size = int m, rep_elements = es\<rparr>"
  "get_slot (array_field n m es) i = slot_get es i"
  "has_cleared (array_field n m es) \<longleftrightarrow> n < m"
  "array_full (array_field n m es) \<longleftrightarrow> m = length es"
  "has_room (array_field n m es) \<longleftrightarrow> m < length es"
  by (simp_all add: array_field_def get_slot_def has_cleared_def array_full_def has_room_def)

lemma new_PtrField_simps [simp]:
  "arena new_PtrField = None" "pcurrent_size new_PtrField = 0" "ptotal_size new_PtrField = 0" "prep new_PtrField = None"
  "\<not> has_cleared new_PtrField" "array_full new_PtrField" "\<not> has_room new_PtrField"
  by (simp_all add: new_PtrField_def has_cleared_def array_full_def has_room_def)

lemma set_slot_array [simp]:
  "i < length es \<Longrightarrow> set_slot (array_field n m es) (int i) p = Inr (array_field n m (es[i := Some p]))"
  by (simp add: set_slot_def array_field_def slot_set_def)

lemma add_current_array [simp]:
  "n < 2147483647 \<Longrightarrow> add_current (array_field n m es) 1 = Inr (array_field (Suc n) m es)"
  "0 < n \<Longrightarrow> n \<le> 2147483647 \<Longrightarrow> add_current (array_field n m es) (- 1) = Inr (array_field (n - 1) m es)"
  by (auto simp: add_current_def array_field_def in_i32_def i32_def of_nat_diff)

lemma add_allocated_array [simp]:
  "m < 2147483647 \<Longrightarrow> add_allocated (array_field n m es) 1 = Inr (array_field n (Suc m) es)"
  "0 < m \<Longrightarrow> m \<le> 2147483647 \<Longrightarrow> add_allocated (array_field n m es) (- 1) = Inr (array_field n (m - 1) es)"
  by (auto simp: add_allocated_def array_field_def in_i32_def i32_def of_nat_diff)

lemma push_slot_array [simp]:
  "n < length es \<Longrightarrow> n < 2147483647 \<Longrightarrow> push_slot (array_field n m es) p = Inr (array_field (Suc n) m (es[n := Some p]))"
  by (simp add: push_slot_def)

text \<open>
  What an object holds, a store of heap objects only, and how a store evolves: the objects \<open>S\<close> are replaced by
  the objects \<open>S'\<close> and nothing else changes.
\<close>

definition value_of :: "('v \<Rightarrow> 'c) \<Rightarrow> 'v store \<Rightarrow> nat \<Rightarrow> 'c option" where
  "value_of cont st p = map_option (\<lambda>ob. cont (obj_value ob)) (objs st p)"

definition heap_ok :: "'v store \<Rightarrow> bool" where
  "heap_ok st \<longleftrightarrow> (\<forall>p ob. objs st p = Some ob \<longrightarrow> p < next_obj st \<and> obj_arena ob = None)"

definition evolves :: "'v store \<Rightarrow> nat set \<Rightarrow> 'v store \<Rightarrow> nat set \<Rightarrow> bool" where
  "evolves st S st' S' \<longleftrightarrow> heap_ok st' \<and> dom (objs st') = (dom (objs st) - S) \<union> S' \<and>
     (dom (objs st) - S) \<inter> S' = {} \<and> (\<forall>p\<in>dom (objs st) - S. objs st' p = objs st p)"

definition owns :: "('v \<Rightarrow> 'c) \<Rightarrow> 'v TypeHandler \<Rightarrow> 'v store \<Rightarrow> PtrField \<Rightarrow> nat list \<Rightarrow> nat list \<Rightarrow> 'c list \<Rightarrow> bool" where
  "owns cont T st f live cleared ys \<longleftrightarrow> field_holds f live cleared \<and> distinct (live @ cleared) \<and>
     map (value_of cont st) live = map Some ys \<and> map (value_of cont st) cleared = map (\<lambda>_. Some (cont (th_new T))) cleared"

lemma evolves_refl: "heap_ok st \<Longrightarrow> S \<subseteq> dom (objs st) \<Longrightarrow> evolves st S st S"
  by (auto simp: evolves_def)

lemma evolves_rest: "evolves st S st' S' \<Longrightarrow> dom (objs st') - S' = dom (objs st) - S"
  unfolding evolves_def by (elim conjE) (simp only: Un_Diff Diff_cancel Un_empty_right Diff_triv)

lemma evolves_trans:
  assumes "evolves st S st1 S1" "evolves st1 S1 st2 S2"
  shows "evolves st S st2 S2"
proof -
  have "\<forall>p\<in>dom (objs st) - S. objs st2 p = objs st p"
  proof
    fix p assume p: "p \<in> dom (objs st) - S"
    then have "objs st1 p = objs st p" using assms(1) unfolding evolves_def by (elim conjE) (rule bspec)
    moreover have "objs st2 p = objs st1 p"
      using assms(2) p unfolding evolves_def evolves_rest [OF assms(1)] by (elim conjE) (rule bspec)
    ultimately show "objs st2 p = objs st p" by simp
  qed
  then show ?thesis
    using assms(2) unfolding evolves_def evolves_rest [OF assms(1)] by simp
qed

lemma evolves_frame: "evolves st S st' S' \<Longrightarrow> D \<subseteq> dom (objs st) - S \<Longrightarrow> evolves st (S \<union> D) st' (S' \<union> D)"
  unfolding evolves_def by (intro conjI ballI) auto

lemma evolves_value: "evolves st S st' S' \<Longrightarrow> p \<in> dom (objs st) \<Longrightarrow> p \<notin> S \<Longrightarrow> value_of cont st' p = value_of cont st p"
  by (simp add: evolves_def value_of_def)

lemma owns_frame:
  assumes "evolves st S st' S'" "owns cont T st f live cleared ys" "set (live @ cleared) \<inter> S = {}"
  shows "owns cont T st' f live cleared ys"
proof -
  have d: "p \<in> dom (objs st)" if "p \<in> set (live @ cleared)" for p
  proof -
    have "set (map (value_of cont st) (live @ cleared)) \<subseteq> range Some"
      using assms(2) by (auto simp: owns_def)
    then show ?thesis using that by (auto simp: value_of_def)
  qed
  have "value_of cont st' p = value_of cont st p" if "p \<in> set (live @ cleared)" for p
    by (rule evolves_value [OF assms(1) d [OF that]]) (use that assms(3) in auto)
  then have "map (value_of cont st') live = map (value_of cont st) live"
    "map (value_of cont st') cleared = map (value_of cont st) cleared" by simp_all
  then show ?thesis using assms(2) unfolding owns_def by (simp only:)
qed

lemma owns_dom: "owns cont T st f live cleared ys \<Longrightarrow> set (live @ cleared) \<subseteq> dom (objs st)"
proof -
  assume "owns cont T st f live cleared ys"
  then have "set (map (value_of cont st) (live @ cleared)) \<subseteq> range Some" by (auto simp: owns_def)
  then show ?thesis by (auto simp: value_of_def)
qed

lemma owns_length: "owns cont T st f live cleared ys \<Longrightarrow> length live = length ys"
  unfolding owns_def by (metis length_map)

lemma owns_new [simp]: "owns cont T st new_PtrField [] [] []"
  by (simp add: owns_def)

lemma owns_nth: "owns cont T st f live cleared ys \<Longrightarrow> i < length ys \<Longrightarrow> value_of cont st (live ! i) = Some (ys ! i)"
  by (metis owns_def owns_length nth_map)

text \<open>The operations on objects.\<close>

lemma heap_ok_obj: "heap_ok st \<Longrightarrow> objs st p = Some ob \<Longrightarrow> obj_arena ob = None \<and> p < next_obj st"
  by (simp add: heap_ok_def)

lemma new_object_ok:
  assumes "heap_ok st"
  obtains st' p where "new_object v None st = (st', p)" "objs st p = None" "evolves st {} st' {p}"
    "value_of cont st' p = Some (cont v)"
proof -
  obtain p where p: "p = next_obj st" by simp
  then have n: "objs st p = None" using assms unfolding heap_ok_def by (cases "objs st p") auto
  let ?st = "st\<lparr>objs := (objs st)(p \<mapsto> \<lparr>obj_value = v, obj_arena = None\<rparr>), next_obj := Suc p\<rparr>"
  have "heap_ok ?st" using assms p by (auto simp: heap_ok_def less_SucI)
  then have "evolves st {} ?st {p}" using n by (auto simp: evolves_def)
  then show ?thesis using that [of ?st p] n p by (simp add: new_object_def value_of_def)
qed

lemma store_object_ok:
  assumes "heap_ok st" "p \<in> dom (objs st)"
  obtains st' where "store_object p v st = Inr st'" "evolves st {p} st' {p}" "value_of cont st' p = Some (cont v)"
proof -
  obtain ob where ob: "objs st p = Some ob" using assms(2) by blast
  let ?st = "st\<lparr>objs := (objs st)(p \<mapsto> ob\<lparr>obj_value := v\<rparr>)\<rparr>"
  have "heap_ok ?st" using assms(1) heap_ok_obj [OF assms(1) ob] by (auto simp: heap_ok_def)
  then have "evolves st {p} ?st {p}" using ob by (auto simp: evolves_def)
  then show ?thesis using that [of ?st] ob by (simp add: store_object_def value_of_def)
qed

lemma delete_object_ok:
  assumes "heap_ok st" "p \<in> dom (objs st)"
  obtains st' where "delete_object p st = Inr st'" "evolves st {p} st' {}"
proof -
  obtain ob where ob: "objs st p = Some ob" using assms(2) by blast
  let ?st = "st\<lparr>objs := (objs st)(p := None)\<rparr>"
  have "heap_ok ?st" using assms(1) by (auto simp: heap_ok_def)
  then have "evolves st {p} ?st {}" by (auto simp: evolves_def)
  then show ?thesis using that [of ?st] ob heap_ok_obj [OF assms(1) ob] by (simp add: delete_object_def)
qed

lemma load_object_ok: "p \<in> dom (objs st) \<Longrightarrow> \<exists>v. load_object p st = Inr v \<and> value_of cont st p = Some (cont v)"
  by (auto simp: load_object_def value_of_def)

lemma values_frame:
  "evolves st S st' S' \<Longrightarrow> set ps \<subseteq> dom (objs st) \<Longrightarrow> set ps \<inter> S = {} \<Longrightarrow>
   map (value_of cont st') ps = map (value_of cont st) ps"
  by (rule map_cong [OF refl]) (rule evolves_value, auto)

lemma evolves_heap_ok: "evolves st S st' S' \<Longrightarrow> heap_ok st'"
  by (simp add: evolves_def)

lemma evolves_dom: "evolves st S st' S' \<Longrightarrow> dom (objs st') = (dom (objs st) - S) \<union> S'"
  by (simp add: evolves_def)

text \<open>A step on some of the objects \<open>S\<close>.\<close>

lemma evolves_within: "evolves st A st' A' \<Longrightarrow> A \<subseteq> S \<Longrightarrow> S \<subseteq> dom (objs st) \<Longrightarrow> evolves st S st' (S - A \<union> A')"
proof -
  assume a: "evolves st A st' A'" "A \<subseteq> S" "S \<subseteq> dom (objs st)"
  have "S - A \<subseteq> dom (objs st) - A" using a(3) by blast
  from evolves_frame [OF a(1) this] have "evolves st (A \<union> (S - A)) st' (A' \<union> (S - A))" .
  moreover have "A \<union> (S - A) = S" "A' \<union> (S - A) = S - A \<union> A'" using a(2) by blast+
  ultimately show ?thesis by simp
qed

section \<open>What the field relies on\<close>

text \<open>
  The three methods of the compiled library: they change the capacity or drop pointers, and keep the rest.
\<close>

locale pointer_array =
  fixes L :: ptr_library
  assumes reserve_law: "field_holds f live cleared \<Longrightarrow> n \<le> 1073741824 \<Longrightarrow>
      \<exists>f'. lib_Reserve L f n = Inr f' \<and> field_holds f' live cleared \<and> n \<le> ptotal_size f'"
    and extend_law: "field_holds f live cleared \<Longrightarrow> 0 < k \<Longrightarrow> int (length live) + k \<le> 1073741824 \<Longrightarrow>
      \<exists>f'. lib_InternalExtend L f k = Inr (f', int (length live)) \<and> field_holds f' live cleared \<and>
        int (length live) + k \<le> ptotal_size f'"
    and close_gap_law: "field_holds f (live @ gap @ rest) cleared \<Longrightarrow>
      \<exists>f'. lib_CloseGap L f (int (length live)) (int (length gap)) = Inr f' \<and> field_holds f' (live @ rest) cleared"
begin

lemma grow_ok:
  assumes "field_holds f live cleared" "length live + length cleared < 1073741824"
  obtains es where "(if array_full f then bind_res (i32 (ptotal_size f + 1)) (lib_Reserve L f) else Inr f) =
      Inr (array_field (length live) (length live + length cleared) es)"
    "slots (live @ cleared) es" "length live + length cleared < length es"
proof (cases "array_full f")
  case True
  have t: "ptotal_size f = int (length live + length cleared)"
    using assms(1) by (cases rule: field_holds_cases) (use True in simp_all)
  then have n: "ptotal_size f + 1 \<le> 1073741824" "in_i32 (ptotal_size f + 1)" using assms(2) by (simp_all add: in_i32_def)
  obtain f' where f': "lib_Reserve L f (ptotal_size f + 1) = Inr f'" "field_holds f' live cleared"
      "ptotal_size f + 1 \<le> ptotal_size f'"
    using reserve_law [OF assms(1) n(1)] by blast
  have "0 < ptotal_size f'" using f'(3) t by simp
  then obtain es where es: "f' = array_field (length live) (length live + length cleared) es" "slots (live @ cleared) es"
    using field_holds_room [OF f'(2)] by blast
  then have "length live + length cleared < length es" using f'(3) t by simp
  then show ?thesis using that es f'(1) True n(2) by simp
next
  case False
  from assms(1) show ?thesis
  proof (cases rule: field_holds_cases)
    case 1
    then show ?thesis using False by simp
  next
    case (2 es)
    then show ?thesis using that [of es] False by (simp add: slots_def)
  qed
qed

lemma CloseGap_ok:
  assumes "field_holds f live cleared" "s + n \<le> length live"
  obtains f' where "lib_CloseGap L f (int s) (int n) = Inr f'" "field_holds f' (take s live @ drop (s + n) live) cleared"
proof -
  have "live = take s live @ take n (drop s live) @ drop (s + n) live"
    by (metis append_take_drop_id drop_drop add.commute)
  then have "field_holds f (take s live @ take n (drop s live) @ drop (s + n) live) cleared" using assms(1) by simp
  from close_gap_law [OF this] that show ?thesis using assms(2) by auto
qed

end

text \<open>A type handler, up to what \<open>cont\<close> reads off an object.\<close>

locale type_handler =
  fixes T :: "'v TypeHandler" and cont :: "'v \<Rightarrow> 'c"
  assumes clear_law: "cont (th_Clear T v) = cont (th_new T)"
    and merge_law: "cont w = cont (th_new T) \<Longrightarrow> cont (th_Merge T v w) = cont v"
    and arena_law: "obj_arena ob = None \<Longrightarrow> th_GetMaybeArenaPointer T ob = None \<and> th_GetArena T ob = None"
begin

lemma handler_Clear_ok:
  assumes "heap_ok st" "p \<in> dom (objs st)"
  obtains st' where "handler_Clear T p st = Inr st'" "evolves st {p} st' {p}"
    "value_of cont st' p = Some (cont (th_new T))"
proof -
  obtain v where v: "load_object p st = Inr v" using load_object_ok [OF assms(2)] by blast
  obtain st' where "store_object p (th_Clear T v) st = Inr st'" "evolves st {p} st' {p}"
      "value_of cont st' p = Some (cont (th_Clear T v))"
    by (rule store_object_ok [OF assms])
  then show ?thesis using that v by (simp add: handler_Clear_def clear_law)
qed

lemma handler_Merge_ok:
  assumes "heap_ok st" "p \<in> dom (objs st)" "value_of cont st q = Some (cont (th_new T))"
  obtains st' where "handler_Merge T p q st = Inr st'" "evolves st {q} st' {q}"
    "value_of cont st' q = value_of cont st p"
proof -
  have q: "q \<in> dom (objs st)" using assms(3) by (auto simp: value_of_def)
  obtain v where v: "load_object p st = Inr v" "value_of cont st p = Some (cont v)"
    using load_object_ok [OF assms(2)] by blast
  obtain w where w: "load_object q st = Inr w" "value_of cont st q = Some (cont w)"
    using load_object_ok [OF q] by blast
  obtain st' where "store_object q (th_Merge T v w) st = Inr st'" "evolves st {q} st' {q}"
      "value_of cont st' q = Some (cont (th_Merge T v w))"
    by (rule store_object_ok [OF assms(1) q])
  moreover have "cont (th_Merge T v w) = cont v" using merge_law w(2) assms(3) by simp
  ultimately show ?thesis using that v w(1) by (simp add: handler_Merge_def)
qed

lemma NewFromPrototype_ok:
  assumes "heap_ok st"
  obtains st' p where "NewFromPrototype T q None st = (st', p)" "objs st p = None" "evolves st {} st' {p}"
    "value_of cont st' p = Some (cont (th_new T))"
  by (rule new_object_ok [OF assms, of "th_new T" cont]) (rule that, simp add: NewFromPrototype_def)

end

locale repeated_ptr = type_handler T cont + pointer_array L
  for T :: "'v TypeHandler" and cont :: "'v \<Rightarrow> 'c" and L :: ptr_library

lemma owns_array:
  assumes "slots (live @ cleared) es" "n = length live" "m = length live + length cleared" "distinct (live @ cleared)"
    "map (value_of cont st) live = map Some ys" "map (value_of cont st) cleared = map (\<lambda>_. Some (cont (th_new T))) cleared"
  shows "owns cont T st (array_field n m es) live cleared ys"
  using assms field_holds_array [OF assms(1-3)] by (simp only: owns_def conj_assoc)

lemma owns_facts:
  assumes "owns cont T st f live cleared ys"
  shows "field_holds f live cleared" "distinct (live @ cleared)" "map (value_of cont st) live = map Some ys"
    "map (value_of cont st) cleared = map (\<lambda>_. Some (cont (th_new T))) cleared"
  using assms by (simp_all only: owns_def)

context repeated_ptr
begin

text \<open>A removed object at the front of \<open>cleared\<close> comes back into use.\<close>

lemma reuse_ok:
  assumes "owns cont T st f live (q # c) ys"
  obtains es where "get_slot f (pcurrent_size f) = Inr q" "has_cleared f"
    "add_current f 1 = Inr (array_field (Suc (length live)) (Suc (length live + length c)) es)"
    "owns cont T st (array_field (Suc (length live)) (Suc (length live + length c)) es) (live @ [q]) c (ys @ [cont (th_new T)])"
proof -
  note o = owns_facts [OF assms]
  obtain es where es: "f = array_field (length live) (length live + length (q # c)) es" "slots (live @ q # c) es"
    by (rule field_holds_room [OF o(1)]) simp_all
  have q: "slot_get es (int (length live)) = Inr q" using slots_get [OF es(2), of "length live"] by simp
  have l: "length live < 2147483647" using es(2) by (simp add: slots_def)
  have "owns cont T st (array_field (Suc (length live)) (Suc (length live + length c)) es) (live @ [q]) c
      (ys @ [cont (th_new T)])"
    by (rule owns_array) (use es(2) o in simp_all)
  then show ?thesis by (intro that [of es]) (use es(1) q l in simp_all)
qed

text \<open>A new object behind the used ones, when there is nothing to reuse.\<close>

lemma push_new_ok:
  assumes "owns cont T st f live [] ys" "length live < 1073741824" "evolves st {} st' {p}" "objs st p = None"
    "value_of cont st' p = Some y"
  obtains es where "bind_res (if array_full f then bind_res (i32 (ptotal_size f + 1)) (lib_Reserve L f) else Inr f)
      (\<lambda>f. add_allocated f 1) = Inr (array_field (length live) (Suc (length live)) es)"
    "push_slot (array_field (length live) (Suc (length live)) es) p =
      Inr (array_field (Suc (length live)) (Suc (length live)) (es[length live := Some p]))"
    "owns cont T st' (array_field (Suc (length live)) (Suc (length live)) (es[length live := Some p])) (live @ [p]) [] (ys @ [y])"
    "evolves st (set live) st' (set (live @ [p]))"
proof -
  note o = owns_facts [OF assms(1)]
  have d: "set live \<subseteq> dom (objs st)" using owns_dom [OF assms(1)] by simp
  obtain es where es: "(if array_full f then bind_res (i32 (ptotal_size f + 1)) (lib_Reserve L f) else Inr f) =
      Inr (array_field (length live) (length live + length []) es)" "slots (live @ []) es"
      "length live + length [] < length es"
    by (rule grow_ok [OF o(1)]) (use assms(2) in auto)
  have l: "length live < 2147483647" using assms(2) by simp
  have v: "map (value_of cont st') live = map Some ys"
    by (rule trans [OF values_frame [OF assms(3) d] o(3)]) simp
  have "p \<notin> set live" using assms(4) d by auto
  moreover have "slots ((live @ [p]) @ []) (es[length live := Some p])" using slots_append [of live es p] es(2,3) by simp
  ultimately have "owns cont T st' (array_field (Suc (length live)) (Suc (length live)) (es[length live := Some p]))
      (live @ [p]) [] (ys @ [y])"
    by (intro owns_array) (use o(2) v assms(5) in simp_all)
  moreover have "evolves st (set live) st' (set (live @ [p]))"
    using evolves_within [OF assms(3) _ d] by simp
  ultimately show ?thesis by (intro that [of es]) (use es l in simp_all)
qed

lemma Add_ptr_ok:
  assumes "heap_ok st" "owns cont T st f live cleared ys" "length live + length cleared < 1073741824"
  obtains st' f' p c where "Add_ptr T L st f = Inr (st', f', p)"
    "owns cont T st' f' (live @ [p]) c (ys @ [cont (th_new T)])"
    "evolves st (set (live @ cleared)) st' (set ((live @ [p]) @ c))" "length c = length cleared - 1"
proof (cases cleared)
  case (Cons q c)
  obtain es where es: "get_slot f (pcurrent_size f) = Inr q" "has_cleared f"
    "add_current f 1 = Inr (array_field (Suc (length live)) (Suc (length live + length c)) es)"
    "owns cont T st (array_field (Suc (length live)) (Suc (length live + length c)) es) (live @ [q]) c (ys @ [cont (th_new T)])"
    by (rule reuse_ok [OF assms(2) [unfolded Cons]])
  have "evolves st (set (live @ cleared)) st (set ((live @ [q]) @ c))"
    using evolves_refl [OF assms(1) owns_dom [OF assms(2)]] Cons by simp
  then show ?thesis by (intro that [OF _ es(4)]) (use es(1-3) Cons in \<open>simp_all add: Add_ptr_def\<close>)
next
  case Nil
  have "\<not> has_cleared f"
    using owns_facts(1) [OF assms(2)] by (cases rule: field_holds_cases) (simp_all add: Nil)
  then have hc: "\<not> has_cleared f" "arena f = None"
    using field_holds_arena [OF owns_facts(1) [OF assms(2)]] by simp_all
  obtain st' p where p: "NewFromPrototype T None None st = (st', p)" "objs st p = None" "evolves st {} st' {p}"
    "value_of cont st' p = Some (cont (th_new T))" by (rule NewFromPrototype_ok [OF assms(1)])
  have l: "length live < 1073741824" using assms(3) by simp
  obtain es where es: "bind_res (if array_full f then bind_res (i32 (ptotal_size f + 1)) (lib_Reserve L f) else Inr f)
      (\<lambda>f. add_allocated f 1) = Inr (array_field (length live) (Suc (length live)) es)"
    "push_slot (array_field (length live) (Suc (length live)) es) p =
      Inr (array_field (Suc (length live)) (Suc (length live)) (es[length live := Some p]))"
    "owns cont T st' (array_field (Suc (length live)) (Suc (length live)) (es[length live := Some p])) (live @ [p]) []
      (ys @ [cont (th_new T)])"
    "evolves st (set live) st' (set (live @ [p]))"
    by (rule push_new_ok [OF assms(2) [unfolded Nil] l p(3,2,4)])
  show ?thesis
    by (rule that [OF _ es(3)]) (use hc p(1) es(1,2,4) Nil in \<open>simp_all add: Add_ptr_def bind_res_assoc [symmetric]\<close>)
qed

end
text \<open>Steps that keep the set of objects.\<close>

lemma evolves_same: "evolves st A st' A \<Longrightarrow> A \<subseteq> S \<Longrightarrow> S \<subseteq> dom (objs st) \<Longrightarrow> evolves st S st' S"
proof -
  assume a: "evolves st A st' A" "A \<subseteq> S" "S \<subseteq> dom (objs st)"
  have "S - A \<union> A = S" using a(2) by blast
  then show ?thesis using evolves_within [OF a] by simp
qed

lemma evolves_same_dom: "evolves st A st' A \<Longrightarrow> A \<subseteq> dom (objs st) \<Longrightarrow> dom (objs st') = dom (objs st)"
  by (drule evolves_dom) blast

lemma values_update:
  assumes "evolves st {ps ! i} st' {ps ! i}" "i < length ps" "distinct ps" "set ps \<subseteq> dom (objs st)"
  shows "map (value_of cont st') ps = (map (value_of cont st) ps)[i := value_of cont st' (ps ! i)]"
proof (rule nth_equalityI)
  fix j assume j: "j < length (map (value_of cont st') ps)"
  show "map (value_of cont st') ps ! j = (map (value_of cont st) ps)[i := value_of cont st' (ps ! i)] ! j"
  proof (cases "i = j")
    case False
    then have "ps ! j \<noteq> ps ! i" using assms(2,3) j by (simp add: nth_eq_iff_index_eq)
    moreover have "ps ! j \<in> dom (objs st)" by (rule subsetD [OF assms(4) nth_mem]) (use j in simp)
    ultimately have "value_of cont st' (ps ! j) = value_of cont st (ps ! j)"
      by (intro evolves_value [OF assms(1)]) simp_all
    then show ?thesis using False j by simp
  qed (use j in simp)
qed simp

lemma owns_update:
  assumes "owns cont T st f live cleared ys" "evolves st {live ! i} st' {live ! i}" "i < length live"
    "value_of cont st' (live ! i) = Some y"
  shows "owns cont T st' f live cleared (ys[i := y])"
proof -
  note o = owns_facts [OF assms(1)]
  have d: "set live \<subseteq> dom (objs st)" "set cleared \<subseteq> dom (objs st)" using owns_dom [OF assms(1)] by simp_all
  have "map (value_of cont st') live = map Some (ys[i := y])"
    using values_update [OF assms(2,3) _ d(1), of cont] o(2,3) assms(4) by (simp add: map_update)
  moreover have "set cleared \<inter> {live ! i} = {}" using o(2) nth_mem [OF assms(3)] by auto
  then have "map (value_of cont st') cleared = map (\<lambda>_. Some (cont (th_new T))) cleared"
    by (rule trans [OF values_frame [OF assms(2) d(2)] o(4)])
  ultimately show ?thesis using o(1,2) by (simp only: owns_def)
qed

context repeated_ptr
begin

lemma slot_ok:
  assumes "owns cont T st f live cleared ys" "i < length live + length cleared"
  shows "get_slot f (int i) = Inr ((live @ cleared) ! i)"
proof -
  obtain es where "f = array_field (length live) (length live + length cleared) es" "slots (live @ cleared) es"
    by (rule field_holds_room [OF owns_facts(1) [OF assms(1)]]) (use assms(2) in auto)
  then show ?thesis using slots_get [of "live @ cleared" es i] assms(2) by simp
qed

lemma Mutable_ok:
  assumes "owns cont T st f live cleared ys" "i < length ys"
  shows "Mutable_ptr f (int i) = Inr (live ! i)"
  using slot_ok [OF assms(1), of i] assms(2) owns_length [OF assms(1)] by (simp add: Mutable_ptr_def nth_append)

lemma Get_ptr_ok:
  assumes "owns cont T st f live cleared ys" "i < length ys"
  shows "\<exists>v. Get_ptr st f (int i) = Inr v \<and> cont v = ys ! i"
proof -
  have "live ! i \<in> set (live @ cleared)" using assms(2) owns_length [OF assms(1)] by simp
  then have "live ! i \<in> dom (objs st)" by (rule subsetD [OF owns_dom [OF assms(1)]])
  from load_object_ok [OF this, of cont] show ?thesis
    using Mutable_ok [OF assms] owns_nth [OF assms] by (auto simp: Get_ptr_def Mutable_ptr_def)
qed

text \<open>Assigning through the pointer to a used element.\<close>

lemma store_ok:
  assumes "heap_ok st" "owns cont T st f live cleared ys" "i < length live"
  obtains st' where "store_object (live ! i) v st = Inr st'" "owns cont T st' f live cleared (ys[i := cont v])"
    "evolves st (set (live @ cleared)) st' (set (live @ cleared))"
proof -
  have p: "{live ! i} \<subseteq> set (live @ cleared)" using nth_mem [OF assms(3)] by simp
  then have p: "live ! i \<in> dom (objs st)" "{live ! i} \<subseteq> set (live @ cleared)" using owns_dom [OF assms(2)] by blast+
  obtain st' where st': "store_object (live ! i) v st = Inr st'" "evolves st {live ! i} st' {live ! i}"
      "value_of cont st' (live ! i) = Some (cont v)" by (rule store_object_ok [OF assms(1) p(1)])
  show ?thesis
    by (rule that [OF st'(1) owns_update [OF assms(2) st'(2) assms(3) st'(3)] evolves_same [OF st'(2) p(2) owns_dom [OF assms(2)]]])
qed

lemma Add_store_ok:
  assumes "heap_ok st" "owns cont T st f live cleared ys" "length live + length cleared < 1073741824"
  obtains st1 st' f' p c where "Add_ptr T L st f = Inr (st1, f', p)" "store_object p v st1 = Inr st'"
    "owns cont T st' f' (live @ [p]) c (ys @ [cont v])"
    "evolves st (set (live @ cleared)) st' (set ((live @ [p]) @ c))" "length c = length cleared - 1"
proof -
  obtain st1 f' p c where a: "Add_ptr T L st f = Inr (st1, f', p)"
    "owns cont T st1 f' (live @ [p]) c (ys @ [cont (th_new T)])"
    "evolves st (set (live @ cleared)) st1 (set ((live @ [p]) @ c))" "length c = length cleared - 1"
    by (rule Add_ptr_ok [OF assms])
  have e: "(live @ [p]) ! length live = p" by simp
  obtain st' where b: "store_object ((live @ [p]) ! length live) v st1 = Inr st'"
    "owns cont T st' f' (live @ [p]) c ((ys @ [cont (th_new T)])[length live := cont v])"
    "evolves st1 (set ((live @ [p]) @ c)) st' (set ((live @ [p]) @ c))"
    by (rule store_ok [OF evolves_heap_ok [OF a(3)] a(2), of "length live"]) simp
  show ?thesis
    by (rule that [OF a(1) b(1) [unfolded e] _ evolves_trans [OF a(3) b(3)] a(4)])
      (use b(2) owns_length [OF assms(2)] in simp)
qed

lemma Add_move_ok:
  assumes "heap_ok st" "owns cont T st f live cleared ys" "length live + length cleared < 1073741824"
  obtains st' f' p c where "Add_move_ptr L st f v = Inr (st', f')"
    "owns cont T st' f' (live @ [p]) c (ys @ [cont v])"
    "evolves st (set (live @ cleared)) st' (set ((live @ [p]) @ c))" "length c = length cleared - 1"
proof (cases cleared)
  case (Cons q c)
  obtain es where es: "get_slot f (pcurrent_size f) = Inr q" "has_cleared f"
    "add_current f 1 = Inr (array_field (Suc (length live)) (Suc (length live + length c)) es)"
    "owns cont T st (array_field (Suc (length live)) (Suc (length live + length c)) es) (live @ [q]) c (ys @ [cont (th_new T)])"
    by (rule reuse_ok [OF assms(2) [unfolded Cons]])
  let ?f = "array_field (Suc (length live)) (Suc (length live + length c)) es"
  have e: "(live @ [q]) ! length live = q" by simp
  obtain st' where b: "store_object ((live @ [q]) ! length live) v st = Inr st'"
    "owns cont T st' ?f (live @ [q]) c ((ys @ [cont (th_new T)])[length live := cont v])"
    "evolves st (set ((live @ [q]) @ c)) st' (set ((live @ [q]) @ c))"
    by (rule store_ok [OF assms(1) es(4), of "length live"]) simp
  have "Add_move_ptr L st f v = Inr (st', ?f)" using es(1-3) b(1) [unfolded e] by (simp add: Add_move_ptr_def)
  then show ?thesis by (rule that [of st' ?f q c]) (use b(2,3) owns_length [OF assms(2)] Cons in simp_all)
next
  case Nil
  have "\<not> has_cleared f"
    using owns_facts(1) [OF assms(2)] by (cases rule: field_holds_cases) (simp_all add: Nil)
  then have hc: "\<not> has_cleared f" "arena f = None"
    using field_holds_arena [OF owns_facts(1) [OF assms(2)]] by simp_all
  obtain st' p where p: "new_object v None st = (st', p)" "objs st p = None" "evolves st {} st' {p}"
    "value_of cont st' p = Some (cont v)" by (rule new_object_ok [OF assms(1)])
  have l: "length live < 1073741824" using assms(3) by simp
  obtain es where es: "bind_res (if array_full f then bind_res (i32 (ptotal_size f + 1)) (lib_Reserve L f) else Inr f)
      (\<lambda>f. add_allocated f 1) = Inr (array_field (length live) (Suc (length live)) es)"
    "push_slot (array_field (length live) (Suc (length live)) es) p =
      Inr (array_field (Suc (length live)) (Suc (length live)) (es[length live := Some p]))"
    "owns cont T st' (array_field (Suc (length live)) (Suc (length live)) (es[length live := Some p])) (live @ [p]) []
      (ys @ [cont v])"
    "evolves st (set live) st' (set (live @ [p]))"
    by (rule push_new_ok [OF assms(2) [unfolded Nil] l p(3,2,4)])
  show ?thesis
    by (rule that [OF _ es(3)]) (use hc p(1) es(1,2,4) Nil in \<open>simp_all add: Add_move_ptr_def bind_res_assoc [symmetric]\<close>)
qed

end

text \<open>\<open>reads f i ps\<close>: the slots from index \<open>i\<close> on hold \<open>ps\<close>.\<close>

definition reads :: "PtrField \<Rightarrow> nat \<Rightarrow> nat list \<Rightarrow> bool" where
  "reads f i ps \<longleftrightarrow> (\<forall>j<length ps. get_slot f (int (i + j)) = Inr (ps ! j))"

lemma reads_Cons: "reads f i (p # ps) \<longleftrightarrow> get_slot f (int i) = Inr p \<and> reads f (Suc i) ps"
  by (simp add: reads_def All_less_Suc2 ac_simps)

lemma slots_reads: "slots (xs @ ps @ zs) es \<Longrightarrow> reads (array_field n m es) (length xs) ps"
  unfolding reads_def array_field_simps
proof (intro allI impI)
  fix j assume s: "slots (xs @ ps @ zs) es" and j: "j < length ps"
  show "slot_get es (int (length xs + j)) = Inr (ps ! j)"
    using slots_get [OF s, of "length xs + j"] j by (simp add: nth_append)
qed

lemma field_reads:
  assumes "field_holds f live cleared" "live @ cleared = xs @ ps @ zs"
  shows "reads f (length xs) ps"
  using assms(1)
proof (cases rule: field_holds_cases)
  case 1
  then show ?thesis using assms(2) by (simp add: reads_def)
next
  case (2 es)
  then show ?thesis using slots_reads [of xs ps zs es] assms(2) by simp
qed

lemma take_pointers_ok: "reads f i ps \<Longrightarrow> take_pointers f (int i) (length ps) = Inr ps"
proof (induction ps arbitrary: i)
  case (Cons p ps)
  then show ?case using Cons.IH [of "Suc i"] by (simp add: reads_Cons Mutable_ptr_def add.commute)
qed simp

lemma handler_Delete_ok:
  assumes "heap_ok st" "p \<in> dom (objs st)"
  obtains st' where "handler_Delete p None st = Inr st'" "evolves st {p} st' {}"
  using delete_object_ok [OF assms] by (auto simp: handler_Delete_def)

text \<open>Objects that are deleted one by one.\<close>

lemma evolves_delete_trans:
  assumes "evolves st {p} st1 {}" "evolves st1 (set ps) st2 {}" "p \<notin> set ps"
  shows "evolves st (set (p # ps)) st2 {}"
proof -
  have r: "dom (objs st1) = dom (objs st) - {p}" using evolves_dom [OF assms(1)] by simp
  have "objs st2 q = objs st q" if q: "q \<in> dom (objs st)" "q \<noteq> p" "q \<notin> set ps" for q
  proof -
    have "objs st1 q = objs st q" using assms(1) q(1,2) by (simp add: evolves_def)
    moreover have "objs st2 q = objs st1 q" using assms(2) q r by (simp add: evolves_def)
    ultimately show ?thesis by simp
  qed
  moreover have "dom (objs st2) = dom (objs st) - insert p (set ps)" using evolves_dom [OF assms(2)] r by auto
  ultimately show ?thesis using evolves_heap_ok [OF assms(2)] by (auto simp: evolves_def)
qed

lemma delete_range_ok:
  "heap_ok st \<Longrightarrow> reads f i ps \<Longrightarrow> arena f = None \<Longrightarrow> distinct ps \<Longrightarrow> set ps \<subseteq> dom (objs st) \<Longrightarrow>
   \<exists>st'. delete_range f (int i) (length ps) st = Inr st' \<and> evolves st (set ps) st' {}"
proof (induction ps arbitrary: i st)
  case Nil
  then show ?case using evolves_refl [of st "{}"] by simp
next
  case (Cons p ps)
  obtain st1 where st1: "handler_Delete p None st = Inr st1" "evolves st {p} st1 {}"
    by (rule handler_Delete_ok [OF Cons.prems(1), of p]) (use Cons.prems(5) in auto)
  have "set ps \<subseteq> dom (objs st1)" using evolves_dom [OF st1(2)] Cons.prems(4,5) by auto
  then obtain st2 where st2: "delete_range f (int (Suc i)) (length ps) st1 = Inr st2" "evolves st1 (set ps) st2 {}"
    using Cons.IH [OF evolves_heap_ok [OF st1(2)], of "Suc i"] Cons.prems(2-4) unfolding reads_Cons by auto
  have "p \<notin> set ps" using Cons.prems(4) by simp
  from evolves_delete_trans [OF st1(2) st2(2) this] show ?case
    using st1(1) st2(1) Cons.prems(2,3) by (simp add: reads_Cons Delete_ptr_def add.commute)
qed

lemma delete_elements_ok:
  assumes "slots (xs @ ps) es" "heap_ok st" "distinct ps" "set ps \<subseteq> dom (objs st)"
  shows "\<exists>st'. delete_elements es (int (length xs)) (length ps) st = Inr st' \<and> evolves st (set ps) st' {}"
proof -
  let ?f = "array_field 0 0 es"
  have eq: "delete_elements es i n = (delete_range ?f i n :: 'a store \<Rightarrow> _)" for i n
    by (induction n arbitrary: i) (rule ext, simp add: Delete_ptr_def bind_res_assoc)+
  have "reads ?f (length xs) ps" using slots_reads [of xs ps "[]" es] assms(1) by simp
  from delete_range_ok [OF assms(2) this _ assms(3,4)] show ?thesis unfolding eq by simp
qed

lemma Destroy_ok:
  assumes "heap_ok st" "owns cont T st f live cleared ys"
  obtains st' f' where "Destroy f st = Inr (st', f')" "prep f' = None" "evolves st (set (live @ cleared)) st' {}"
  using owns_facts(1) [OF assms(2)]
proof (cases rule: field_holds_cases)
  case 1
  then show ?thesis using that [of st "f\<lparr>prep := None\<rparr>"] evolves_refl [OF assms(1), of "{}"] by (simp add: Destroy_def)
next
  case (2 es)
  obtain st' where "delete_elements es (int (length [])) (length (live @ cleared)) st = Inr st'"
      "evolves st (set (live @ cleared)) st' {}"
    using delete_elements_ok [of "[]" "live @ cleared" es st] 2(2) assms(1) owns_facts(2) [OF assms(2)] owns_dom [OF assms(2)]
    by auto
  moreover have "nat (int (length live + length cleared)) = length (live @ cleared)" by simp
  ultimately show ?thesis
    by (intro that [of st' "f\<lparr>prep := None\<rparr>"]) (simp_all add: Destroy_def 2(1) del: length_append of_nat_add)
qed

context type_handler
begin

lemma clear_elements_ok:
  "heap_ok st \<Longrightarrow> reads f i ps \<Longrightarrow> distinct ps \<Longrightarrow> set ps \<subseteq> dom (objs st) \<Longrightarrow>
   \<exists>st'. clear_elements T f (int i) (length ps) st = Inr st' \<and> evolves st (set ps) st' (set ps) \<and>
     map (value_of cont st') ps = map (\<lambda>_. Some (cont (th_new T))) ps"
proof (induction ps arbitrary: i st)
  case Nil
  then show ?case using evolves_refl [of st "{}"] by simp
next
  case (Cons p ps)
  obtain st1 where st1: "handler_Clear T p st = Inr st1" "evolves st {p} st1 {p}"
      "value_of cont st1 p = Some (cont (th_new T))"
    by (rule handler_Clear_ok [OF Cons.prems(1), of p]) (use Cons.prems(4) in auto)
  have d: "dom (objs st1) = dom (objs st)" by (rule evolves_same_dom [OF st1(2)]) (use Cons.prems(4) in simp)
  have "set ps \<subseteq> dom (objs st1)" using Cons.prems(4) unfolding d by simp
  then obtain st2 where st2: "clear_elements T f (int (Suc i)) (length ps) st1 = Inr st2" "evolves st1 (set ps) st2 (set ps)"
      "map (value_of cont st2) ps = map (\<lambda>_. Some (cont (th_new T))) ps"
    using Cons.IH [OF evolves_heap_ok [OF st1(2)], of "Suc i"] Cons.prems(2,3) unfolding reads_Cons by auto
  have "p \<in> dom (objs st1)" "p \<notin> set ps" using Cons.prems(3,4) unfolding d by simp_all
  then have v: "value_of cont st2 p = Some (cont (th_new T))" using evolves_value [OF st2(2), of p cont] st1(3) by simp
  have "evolves st (set (p # ps)) st2 (set (p # ps))"
    by (rule evolves_trans [OF evolves_same [OF st1(2) _ Cons.prems(4)] evolves_same [OF st2(2)]])
      (use Cons.prems(4) d in auto)
  then show ?case using st1(1) st2(1,3) v Cons.prems(2) by (simp add: reads_Cons add.commute)
qed

end

context repeated_ptr
begin

lemma RemoveLast_ptr_ok:
  assumes "heap_ok st" "owns cont T st f (live @ [p]) cleared (ys @ [y])"
  obtains st' f' where "RemoveLast_ptr T st f = Inr (st', f')" "owns cont T st' f' live (p # cleared) ys"
    "evolves st (set ((live @ [p]) @ cleared)) st' (set (live @ p # cleared))"
proof -
  note o = owns_facts [OF assms(2)]
  obtain es where es: "f = array_field (Suc (length live)) (Suc (length live) + length cleared) es"
      "slots (live @ p # cleared) es"
    by (rule field_holds_room [OF o(1)]) simp_all
  let ?f = "array_field (length live) (length live + length (p # cleared)) es"
  have d: "set ((live @ [p]) @ cleared) \<subseteq> dom (objs st)" by (rule owns_dom [OF assms(2)])
  have p: "slot_get es (int (length live)) = Inr p" using slots_get [OF es(2), of "length live"] by simp
  have l: "Suc (length live) \<le> 2147483647" using es(2) by (simp add: slots_def)
  have pd: "p \<in> dom (objs st)" using d by simp
  obtain st' where st': "handler_Clear T p st = Inr st'" "evolves st {p} st' {p}"
      "value_of cont st' p = Some (cont (th_new T))" by (rule handler_Clear_ok [OF assms(1) pd])
  have ac: "add_current f (- 1) = Inr ?f" using add_current_array(2) [of "Suc (length live)"] l by (simp add: es(1))
  have v: "map (value_of cont st') live = map Some ys"
    by (rule trans [OF values_frame [OF st'(2)]]) (use o(2,3) d in auto)
  have w: "map (value_of cont st') cleared = map (\<lambda>_. Some (cont (th_new T))) cleared"
    by (rule trans [OF values_frame [OF st'(2)] o(4)]) (use o(2) d in auto)
  have "owns cont T st' ?f live (p # cleared) ys"
    by (rule owns_array [OF es(2)]) (use v w st'(3) o(2) in simp_all)
  moreover have "evolves st (set ((live @ [p]) @ cleared)) st' (set (live @ p # cleared))"
    using evolves_same [OF st'(2) _ d] by simp
  moreover have "RemoveLast_ptr T st f = Inr (st', ?f)"
    unfolding RemoveLast_ptr_def ac bind_res_simps array_field_simps p st'(1) ..
  ultimately show ?thesis using that by blast
qed

lemma Clear_ptr_ok:
  assumes "heap_ok st" "owns cont T st f live cleared ys"
  obtains st' f' where "Clear_ptr T st f = Inr (st', f')" "owns cont T st' f' [] (live @ cleared) []"
    "evolves st (set (live @ cleared)) st' (set (live @ cleared))"
proof (cases "live = []")
  case True
  then have "pcurrent_size f = 0" using field_holds_size [OF owns_facts(1) [OF assms(2)]] by simp
  then show ?thesis
    using that [of st f] True assms(2) evolves_refl [OF assms(1) owns_dom [OF assms(2)]] owns_length [OF assms(2)]
    by (simp add: Clear_ptr_def)
next
  case False
  note o = owns_facts [OF assms(2)]
  have d: "set (live @ cleared) \<subseteq> dom (objs st)" by (rule owns_dom [OF assms(2)])
  obtain es where es: "f = array_field (length live) (length live + length cleared) es" "slots (live @ cleared) es"
    by (rule field_holds_room [OF o(1)]) (use False in simp_all)
  let ?f = "array_field 0 (length live + length cleared) es"
  have r: "reads f 0 live" using field_reads [OF o(1), of "[]" live cleared] by simp
  obtain st' where st': "clear_elements T f (int 0) (length live) st = Inr st'" "evolves st (set live) st' (set live)"
      "map (value_of cont st') live = map (\<lambda>_. Some (cont (th_new T))) live"
    using clear_elements_ok [OF assms(1) r] o(2) d by auto
  have w: "map (value_of cont st') cleared = map (\<lambda>_. Some (cont (th_new T))) cleared"
    by (rule trans [OF values_frame [OF st'(2)] o(4)]) (use o(2) d in auto)
  have f: "f\<lparr>pcurrent_size := 0\<rparr> = ?f" by (simp add: es(1) array_field_def)
  have "owns cont T st' ?f [] (live @ cleared) []"
    by (rule owns_array) (use es(2) st'(3) w o(2) in simp_all)
  moreover have "evolves st (set (live @ cleared)) st' (set (live @ cleared))"
    by (rule evolves_same [OF st'(2) _ d]) simp
  moreover have "Clear_ptr T st f = Inr (st', ?f)"
    using st'(1) False f field_holds_size [OF o(1)] by (simp add: Clear_ptr_def)
  ultimately show ?thesis using that by blast
qed

lemma owns_default:
  "owns cont T st f live cleared ys \<Longrightarrow> p \<in> set cleared \<Longrightarrow> value_of cont st p = Some (cont (th_new T))"
  using owns_facts(4) [of cont T st f live cleared ys] by (simp only: map_eq_conv)

text \<open>The same values under another arrangement of the pointers.\<close>

lemma owns_rearrange:
  assumes "owns cont T st f live cleared ys" "field_holds f' live' cleared'" "distinct (live' @ cleared')"
    "map (value_of cont st) live' = map Some ys'" "set cleared' \<subseteq> set cleared"
  shows "owns cont T st f' live' cleared' ys'"
proof -
  have "value_of cont st q = Some (cont (th_new T))" if "q \<in> set cleared'" for q
    using owns_default [OF assms(1)] assms(5) that by blast
  then have "map (value_of cont st) cleared' = map (\<lambda>_. Some (cont (th_new T))) cleared'" by simp
  then show ?thesis using assms(2-4) by (simp only: owns_def)
qed

text \<open>Taking in an object of the caller.\<close>

lemma add_allocated_fast_ok:
  assumes "field_holds f live cleared" "has_room f"
  obtains f' where "add_allocated_fast f p = Inr f'" "field_holds f' (live @ [p]) (rotate1 cleared)"
  using assms(1)
proof (cases rule: field_holds_cases)
  case 1
  then show ?thesis using assms(2) by simp
next
  case (2 es)
  then have b: "length live + length cleared < length es" "length es \<le> 2147483647"
    using assms(2) by (simp_all add: slots_def)
  let ?n = "length live" and ?m = "length live + length cleared"
  show ?thesis
  proof (cases cleared)
    case Nil
    have "slots ((live @ [p]) @ []) (es[?n := Some p])" using slots_append [of live es p] 2(2) b Nil by simp
    then have "field_holds (array_field (Suc ?n) (Suc ?m) (es[?n := Some p])) (live @ [p]) []"
      by (rule field_holds_array) (use Nil in simp_all)
    then show ?thesis
      using that [of "array_field (Suc ?n) (Suc ?m) (es[?n := Some p])"] b Nil by (simp add: add_allocated_fast_def 2(1))
  next
    case (Cons q c)
    have q: "slot_get es (int ?n) = Inr q" using slots_get [OF 2(2), of ?n] Cons by simp
    have "slots ((live @ cleared) @ [q]) (es[?m := Some q])" using slots_append [OF 2(2), of q] b by simp
    then have "slots (((live @ cleared) @ [q])[?n := p]) (es[?m := Some q, ?n := Some p])"
      by (rule slots_update) simp
    then have s: "slots ((live @ [p]) @ rotate1 cleared) (es[?m := Some q, ?n := Some p])"
      by (simp add: Cons list_update_append)
    let ?f = "array_field (Suc ?n) (Suc ?m) (es[?m := Some q, ?n := Some p])"
    have "field_holds ?f (live @ [p]) (rotate1 cleared)"
      by (rule field_holds_array [OF s]) simp_all
    moreover have "set_slot f (int ?m) q = Inr (array_field ?n ?m (es[?m := Some q]))"
      using b unfolding 2(1) by (intro set_slot_array) simp
    then have "add_allocated_fast f p = Inr ?f"
      using q b Cons by (simp add: add_allocated_fast_def 2(1) del: of_nat_add)
    ultimately show ?thesis using that by blast
  qed
qed

end

lemma slots_length: "slots ps es \<Longrightarrow> length ps \<le> length es"
  by (simp add: slots_def)

context repeated_ptr
begin

lemma UnsafeArenaAddAllocated_ok:
  assumes "heap_ok st" "field_holds f live cleared" "\<not> has_room f" "length live + length cleared < 1073741824"
    "set cleared \<subseteq> dom (objs st)"
  obtains st' f' where "UnsafeArenaAddAllocated L st f p = Inr (st', f')" "field_holds f' (live @ [p]) (tl cleared)"
    "evolves st (set (take 1 cleared)) st' {}"
proof (cases cleared)
  case Nil
  have full: "prep f = None \<or> pcurrent_size f = ptotal_size f"
    using assms(2) by (cases rule: field_holds_cases) (use assms(3) Nil in \<open>auto dest: slots_length\<close>)
  have t: "ptotal_size f = int (length live)"
    using assms(2) by (cases rule: field_holds_cases) (use full Nil in simp_all)
  then have n: "ptotal_size f + 1 \<le> 1073741824" "in_i32 (ptotal_size f + 1)" using assms(4) by (simp_all add: in_i32_def)
  obtain g where g: "lib_Reserve L f (ptotal_size f + 1) = Inr g" "field_holds g live []" "ptotal_size f + 1 \<le> ptotal_size g"
    using reserve_law [OF assms(2) n(1)] Nil by blast
  obtain es where es: "g = array_field (length live) (length live + length []) es" "slots (live @ []) es"
    by (rule field_holds_room [OF g(2)]) (use g(3) t in simp_all)
  have l: "length live < length es" "length live < 2147483647" using es(1) g(3) t assms(4) by simp_all
  let ?f = "array_field (Suc (length live)) (Suc (length live)) (es[length live := Some p])"
  have "slots ((live @ [p]) @ []) (es[length live := Some p])" using slots_append [of live es p] es(2) l by simp
  then have "field_holds ?f (live @ [p]) (tl cleared)"
    unfolding Nil list.sel by (rule field_holds_array) simp_all
  moreover have "evolves st (set (take 1 cleared)) st {}" using evolves_refl [OF assms(1), of "{}"] Nil by simp
  moreover have "UnsafeArenaAddAllocated L st f p = Inr (st, ?f)"
    using full n(2) g(1) l by (simp add: UnsafeArenaAddAllocated_def es(1))
  ultimately show ?thesis using that by blast
next
  case (Cons q c)
  obtain es where es: "f = array_field (length live) (length live + length cleared) es" "slots (live @ cleared) es"
    by (rule field_holds_room [OF assms(2)]) (use Cons in simp_all)
  have full: "length live + length cleared = length es" using slots_length [OF es(2)] assms(3) by (simp add: es(1))
  have q: "slot_get es (int (length live)) = Inr q" using slots_get [OF es(2), of "length live"] Cons by simp
  obtain st' where st': "handler_Delete q None st = Inr st'" "evolves st {q} st' {}"
    by (rule handler_Delete_ok [OF assms(1), of q]) (use assms(5) Cons in auto)
  let ?f = "array_field (Suc (length live)) (length live + length cleared) (es[length live := Some p])"
  have "slots ((live @ cleared)[length live := p]) (es[length live := Some p])"
    by (rule slots_update [OF es(2)]) (simp add: Cons)
  then have "slots ((live @ [p]) @ tl cleared) (es[length live := Some p])" by (simp add: Cons)
  then have "field_holds ?f (live @ [p]) (tl cleared)" by (rule field_holds_array) (simp_all add: Cons)
  moreover have "evolves st (set (take 1 cleared)) st' {}" using st'(2) Cons by simp
  moreover have "length live < length es" "length live < 2147483647" "int (length live) \<noteq> int (length es)"
    using full assms(4) Cons by simp_all
  then have "UnsafeArenaAddAllocated L st f p = Inr (st', ?f)"
    using q st'(1) full by (simp add: UnsafeArenaAddAllocated_def es(1))
  ultimately show ?thesis using that by blast
qed

lemma AddAllocated_eq:
  assumes "heap_ok st" "arena f = None" "p \<in> dom (objs st)"
  shows "AddAllocated T L st f p =
    (if has_room f then bind_res (add_allocated_fast f p) (\<lambda>f. Inr (st, f)) else UnsafeArenaAddAllocated L st f p)"
proof -
  obtain ob where ob: "objs st p = Some ob" using assms(3) by blast
  then have "th_GetMaybeArenaPointer T ob = None" "th_GetArena T ob = None"
    using arena_law heap_ok_obj [OF assms(1) ob] by blast+
  then show ?thesis using ob assms(2)
    by (simp add: AddAllocated_def AddAllocatedInternal_merge_def AddAllocatedInternal_plain_def AddAllocatedSlowWithCopy_def)
qed

lemma AddAllocated_ok:
  assumes "heap_ok st" "owns cont T st f live cleared ys" "length live + length cleared < 1073741824"
    "value_of cont st p = Some y" "p \<notin> set (live @ cleared)"
  obtains st' f' c where "AddAllocated T L st f p = Inr (st', f')" "owns cont T st' f' (live @ [p]) c (ys @ [y])"
    "evolves st (insert p (set (live @ cleared))) st' (set ((live @ [p]) @ c))" "length c \<le> length cleared"
proof -
  note o = owns_facts [OF assms(2)]
  have pd: "p \<in> dom (objs st)" using assms(4) by (auto simp: value_of_def)
  have d: "insert p (set (live @ cleared)) \<subseteq> dom (objs st)" using pd owns_dom [OF assms(2)] by simp
  note eq = AddAllocated_eq [OF assms(1) field_holds_arena [OF o(1)] pd]
  show ?thesis
  proof (cases "has_room f")
    case True
    obtain f' where f': "add_allocated_fast f p = Inr f'" "field_holds f' (live @ [p]) (rotate1 cleared)"
      by (rule add_allocated_fast_ok [OF o(1) True])
    have "owns cont T st f' (live @ [p]) (rotate1 cleared) (ys @ [y])"
      by (rule owns_rearrange [OF assms(2) f'(2)]) (use o(2,3) assms(4,5) in auto)
    moreover have "set ((live @ [p]) @ rotate1 cleared) = insert p (set (live @ cleared))" by auto
    ultimately show ?thesis
      using that [of st f' "rotate1 cleared"] eq True f'(1) evolves_refl [OF assms(1) d] by simp
  next
    case False
    obtain st' f' where f': "UnsafeArenaAddAllocated L st f p = Inr (st', f')" "field_holds f' (live @ [p]) (tl cleared)"
      "evolves st (set (take 1 cleared)) st' {}"
      by (rule UnsafeArenaAddAllocated_ok [OF assms(1) o(1) False assms(3)]) (use d in auto)
    have split: "cleared = take 1 cleared @ tl cleared" by (cases cleared) simp_all
    then have s: "set cleared = set (take 1 cleared) \<union> set (tl cleared)" "distinct (take 1 cleared @ tl cleared)"
      using o(2) by (metis set_append) (metis split distinct_append o(2))
    have n: "set (take 1 cleared) \<inter> set (tl cleared) = {}" "p \<notin> set (take 1 cleared)" "set (take 1 cleared) \<inter> set live = {}"
      using s assms(5) o(2) by auto
    have "distinct ((live @ [p]) @ tl cleared)" using o(2) assms(5) s by auto
    moreover have "map (value_of cont st') (live @ [p]) = map Some (ys @ [y])"
      by (rule trans [OF values_frame [OF f'(3)]]) (use o(3) assms(4) d n in auto)
    moreover have "map (value_of cont st') (tl cleared) = map (value_of cont st) (tl cleared)"
      by (rule values_frame [OF f'(3)]) (use d s n in auto)
    moreover have "map (value_of cont st) (tl cleared) = map (\<lambda>_. Some (cont (th_new T))) (tl cleared)"
      using owns_default [OF assms(2)] s(1) by simp
    ultimately have "owns cont T st' f' (live @ [p]) (tl cleared) (ys @ [y])"
      using f'(2) by (simp only: owns_def)
    moreover have "set (take 1 cleared) \<subseteq> insert p (set (live @ cleared))" using s(1) by auto
    note evolves_within [OF f'(3) this d]
    moreover have "insert p (set (live @ cleared)) - set (take 1 cleared) \<union> {} = set ((live @ [p]) @ tl cleared)"
      using n s(1) by auto
    ultimately show ?thesis using that [of st' f' "tl cleared"] eq False f'(1) by simp
  qed
qed

text \<open>Giving the last object to the caller.\<close>

lemma UnsafeArenaReleaseLast_ok:
  assumes "field_holds f (live @ [p]) cleared"
  obtains f' c where "UnsafeArenaReleaseLast f = Inr (f', p)" "field_holds f' live c"
    "length c = length cleared" "set c = set cleared" "distinct c = distinct cleared"
proof -
  let ?n = "length live" and ?m = "length live + length cleared"
  obtain es where es: "f = array_field (Suc ?n) (Suc ?m) es" "slots (live @ p # cleared) es"
    by (rule field_holds_room [OF assms]) simp_all
  have b: "Suc ?m \<le> length es" "length es \<le> 2147483647" using es(2) by (simp_all add: slots_def)
  have p: "slot_get es (int ?n) = Inr p" using slots_get [OF es(2), of ?n] by simp
  have ac: "add_current f (- 1) = Inr (array_field ?n (Suc ?m) es)"
    "add_allocated (array_field ?n (Suc ?m) es) (- 1) = Inr (array_field ?n ?m es)"
    using add_current_array(2) [of "Suc ?n" "Suc ?m" es] add_allocated_array(2) [of "Suc ?m" ?n es] b by (simp_all add: es(1))
  show ?thesis
  proof (cases cleared rule: rev_cases)
    case Nil
    have "slots (live @ []) es" using slots_prefix [of live "[p]" es] es(2) Nil by simp
    then have "field_holds (array_field ?n ?m es) live []" by (rule field_holds_array) (simp_all add: Nil)
    moreover have "UnsafeArenaReleaseLast f = Inr (array_field ?n ?m es, p)"
      unfolding UnsafeArenaReleaseLast_def ac bind_res_simps array_field_simps p by (simp add: Nil)
    ultimately show ?thesis using that [of "array_field ?n ?m es" "[]"] Nil by simp
  next
    case (snoc c q)
    have q: "slot_get es (int ?m) = Inr q" using slots_get [OF es(2), of ?m] snoc by (simp add: nth_append)
    have "slots ((live @ p # c @ [q])[?n := q]) (es[?n := Some q])"
      by (rule slots_update) (use es(2) snoc in simp_all)
    then have "slots ((live @ q # c) @ [q]) (es[?n := Some q])" by simp
    then have "slots (live @ q # c) (es[?n := Some q])" by (rule slots_prefix)
    then have "field_holds (array_field ?n ?m (es[?n := Some q])) live (q # c)"
      by (rule field_holds_array) (simp_all add: snoc)
    moreover have ss: "set_slot (array_field ?n ?m es) (int ?n) q = Inr (array_field ?n ?m (es[?n := Some q]))"
      using b by (intro set_slot_array) simp
    have "UnsafeArenaReleaseLast f = Inr (array_field ?n ?m (es[?n := Some q]), p)"
      unfolding UnsafeArenaReleaseLast_def ac bind_res_simps array_field_simps p deref_simps Rep.select_convs q ss
      by (simp add: snoc)
    ultimately show ?thesis using that [of "array_field ?n ?m (es[?n := Some q])" "q # c"] snoc by auto
  qed
qed

lemma ReleaseLast_ok:
  assumes "heap_ok st" "owns cont T st f (live @ [p]) cleared (ys @ [y])"
  obtains f' c where "ReleaseLast T st f = Inr (st, f', p)" "owns cont T st f' live c ys"
    "length c = length cleared" "set c = set cleared"
proof -
  note o = owns_facts [OF assms(2)]
  obtain f' c where f': "UnsafeArenaReleaseLast f = Inr (f', p)" "field_holds f' live c"
    "length c = length cleared" "set c = set cleared" "distinct c = distinct cleared"
    by (rule UnsafeArenaReleaseLast_ok [OF o(1)])
  have "owns cont T st f' live c ys"
    by (rule owns_rearrange [OF assms(2) f'(2)]) (use o(2,3) f'(4,5) in auto)
  moreover have "ReleaseLast T st f = Inr (st, f', p)"
    using f'(1) field_holds_arena [OF f'(2)]
    by (simp add: ReleaseLast_def ReleaseLastInternal_merge_def ReleaseLastInternal_plain_def)
  ultimately show ?thesis using that f'(3,4) by blast
qed

end

context repeated_ptr
begin

lemma AddCleared_ok:
  assumes "owns cont T st f live cleared ys" "length live + length cleared < 1073741824"
    "value_of cont st p = Some (cont (th_new T))" "p \<notin> set (live @ cleared)"
  obtains f' where "AddCleared L f p = Inr f'" "owns cont T st f' live (cleared @ [p]) ys"
proof -
  note o = owns_facts [OF assms(1)]
  obtain es where es: "(if array_full f then bind_res (i32 (ptotal_size f + 1)) (lib_Reserve L f) else Inr f) =
      Inr (array_field (length live) (length live + length cleared) es)" "slots (live @ cleared) es"
      "length live + length cleared < length es"
    by (rule grow_ok [OF o(1) assms(2)])
  let ?m = "length live + length cleared"
  let ?f = "array_field (length live) (Suc ?m) (es[?m := Some p])"
  have "slots (live @ cleared @ [p]) (es[?m := Some p])"
    using slots_append [OF es(2), of p] es(3) by simp
  then have "owns cont T st ?f live (cleared @ [p]) ys"
    by (rule owns_array) (use o assms(3,4) in simp_all)
  moreover have "set_slot (array_field (length live) ?m es) (int ?m) p = Inr (array_field (length live) ?m (es[?m := Some p]))"
    using es(3) by (rule set_slot_array)
  then have "AddCleared L f p = Inr ?f"
    using assms(2) unfolding AddCleared_def es(1) by (simp del: of_nat_add)
  ultimately show ?thesis using that by blast
qed

lemma ReleaseCleared_ok:
  assumes "owns cont T st f live (cleared @ [p]) ys"
  obtains f' where "ReleaseCleared f = Inr (f', p)" "owns cont T st f' live cleared ys"
proof -
  note o = owns_facts [OF assms]
  let ?m = "length live + length cleared"
  obtain es where es: "f = array_field (length live) (Suc ?m) es" "slots (live @ cleared @ [p]) es"
    by (rule field_holds_room [OF o(1)]) simp_all
  have l: "Suc ?m \<le> 2147483647" using es(2) by (simp add: slots_def)
  have p: "slot_get es (int ?m) = Inr p" using slots_get [OF es(2), of ?m] by (simp add: nth_append)
  have aa: "add_allocated f (- 1) = Inr (array_field (length live) ?m es)"
    using add_allocated_array(2) [of "Suc ?m"] l by (simp add: es(1))
  have "slots (live @ cleared) es" using slots_prefix [of "live @ cleared" "[p]" es] es(2) by simp
  then have "owns cont T st (array_field (length live) ?m es) live cleared ys"
    by (rule owns_array) (use o in simp_all)
  moreover have "ReleaseCleared f = Inr (array_field (length live) ?m es, p)"
    unfolding ReleaseCleared_def aa bind_res_simps array_field_simps deref_simps Rep.select_convs p ..
  ultimately show ?thesis using that by blast
qed

lemma SwapElements_ptr_ok:
  assumes "owns cont T st f live cleared ys" "i < length ys" "j < length ys"
  obtains f' where "SwapElements_ptr f (int i) (int j) = Inr f'"
    "owns cont T st f' (live[i := live ! j, j := live ! i]) cleared (ys[i := ys ! j, j := ys ! i])"
proof -
  note o = owns_facts [OF assms(1)]
  have l: "length live = length ys" by (rule owns_length [OF assms(1)])
  obtain es where es: "f = array_field (length live) (length live + length cleared) es" "slots (live @ cleared) es"
    by (rule field_holds_room [OF o(1)]) (use assms(2) l in auto)
  have g: "get_slot f (int i) = Inr (live ! i)" "get_slot f (int j) = Inr (live ! j)"
    using slot_ok [OF assms(1), of i] slot_ok [OF assms(1), of j] assms(2,3) l by (simp_all add: nth_append)
  let ?es = "es[i := Some (live ! j), j := Some (live ! i)]"
  let ?live = "live[i := live ! j, j := live ! i]"
  have "slots ((live @ cleared)[i := live ! j, j := live ! i]) ?es"
    by (intro slots_update es(2)) (use assms(2,3) l in simp_all)
  then have s: "slots (?live @ cleared) ?es" using assms(2,3) l by (simp add: list_update_append)
  have "map (value_of cont st) ?live = map Some (ys[i := ys ! j, j := ys ! i])"
    using o(3) owns_nth [OF assms(1)] assms(2,3) by (simp add: map_update)
  then have "owns cont T st (array_field (length live) (length live + length cleared) ?es) ?live cleared (ys[i := ys ! j, j := ys ! i])"
    by (intro owns_array [OF s]) (use o(2,4) assms(2,3) l in simp_all)
  moreover have "i < length es" "j < length es" using slots_length [OF es(2)] assms(2,3) l by simp_all
  then have "SwapElements_ptr f (int i) (int j) = Inr (array_field (length live) (length live + length cleared) ?es)"
    unfolding SwapElements_ptr_def g bind_res_simps by (simp add: es(1))
  ultimately show ?thesis using that by blast
qed

text \<open>Cutting a range out: the pointers go to the caller, or nowhere.\<close>

lemma cut_ok:
  assumes "owns cont T st f live cleared ys" "s + n \<le> length ys"
  obtains f' where "ExtractSubrange_ptr T L st f (int s) (int n) wanted =
      Inr (st, f', if wanted then take n (drop s live) else [])"
    "field_holds f' (take s live @ drop (s + n) live) cleared"
proof (cases "n = 0")
  case True
  then show ?thesis using that [of f] owns_facts(1) [OF assms(1)]
    by (simp add: ExtractSubrange_ptr_def ExtractSubrangeInternal_merge_def ExtractSubrangeInternal_plain_def
        UnsafeArenaExtractSubrange_def)
next
  case False
  note o = owns_facts [OF assms(1)]
  have l: "s + n \<le> length live" using assms(2) owns_length [OF assms(1)] by simp
  obtain f' where f': "lib_CloseGap L f (int s) (int n) = Inr f'" "field_holds f' (take s live @ drop (s + n) live) cleared"
    by (rule CloseGap_ok [OF o(1) l])
  have "live @ cleared = take s live @ take n (drop s live) @ drop (s + n) live @ cleared"
    by (metis append_take_drop_id append.assoc drop_drop add.commute)
  from field_reads [OF o(1) this] have "reads f s (take n (drop s live))" using l by simp
  from take_pointers_ok [OF this] have tp: "take_pointers f (int s) n = Inr (take n (drop s live))" using l by simp
  show ?thesis
    by (rule that [OF _ f'(2)])
      (use tp f'(1) False field_holds_arena [OF o(1)] in \<open>simp add: ExtractSubrange_ptr_def
        ExtractSubrangeInternal_merge_def ExtractSubrangeInternal_plain_def UnsafeArenaExtractSubrange_def\<close>)
qed

lemma cut_values:
  assumes "owns cont T st f live cleared ys" "s + n \<le> length ys"
  shows "map (value_of cont st) (take s live @ drop (s + n) live) = map Some (take s ys @ drop (s + n) ys)"
    "map (value_of cont st) (take n (drop s live)) = map Some (take n (drop s ys))"
    "distinct ((take s live @ drop (s + n) live) @ cleared)" "distinct (take n (drop s live))"
    "set (take n (drop s live)) \<inter> set ((take s live @ drop (s + n) live) @ cleared) = {}"
    "set (live @ cleared) = set ((take s live @ drop (s + n) live) @ cleared) \<union> set (take n (drop s live))"
proof -
  note o = owns_facts [OF assms(1)]
  define a where "a = take s live"
  define b where "b = take n (drop s live)"
  define c where "c = drop (s + n) live"
  have live: "live = a @ b @ c"
    unfolding a_def b_def c_def by (metis append_take_drop_id drop_drop add.commute)
  show "map (value_of cont st) (take s live @ drop (s + n) live) = map Some (take s ys @ drop (s + n) ys)"
    using o(3) by (simp add: take_map [symmetric] drop_map [symmetric])
  show "map (value_of cont st) (take n (drop s live)) = map Some (take n (drop s ys))"
    using o(3) by (simp add: take_map [symmetric] drop_map [symmetric])
  have "distinct ((a @ b @ c) @ cleared)" using o(2) live by simp
  then show "distinct ((take s live @ drop (s + n) live) @ cleared)" "distinct (take n (drop s live))"
    "set (take n (drop s live)) \<inter> set ((take s live @ drop (s + n) live) @ cleared) = {}"
    unfolding a_def [symmetric] b_def [symmetric] c_def [symmetric] by auto
  show "set (live @ cleared) = set ((take s live @ drop (s + n) live) @ cleared) \<union> set (take n (drop s live))"
    unfolding a_def [symmetric] b_def [symmetric] c_def [symmetric] unfolding live by auto
qed

lemma Extract_ok:
  assumes "heap_ok st" "owns cont T st f live cleared ys" "s + n \<le> length ys"
  obtains f' where "ExtractSubrange_ptr T L st f (int s) (int n) True = Inr (st, f', take n (drop s live))"
    "owns cont T st f' (take s live @ drop (s + n) live) cleared (take s ys @ drop (s + n) ys)"
proof -
  note o = owns_facts [OF assms(2)] and c = cut_values [OF assms(2,3)]
  obtain f' where f': "ExtractSubrange_ptr T L st f (int s) (int n) True =
      Inr (st, f', if True then take n (drop s live) else [])"
    "field_holds f' (take s live @ drop (s + n) live) cleared"
    by (rule cut_ok [OF assms(2,3)])
  have "owns cont T st f' (take s live @ drop (s + n) live) cleared (take s ys @ drop (s + n) ys)"
    by (rule owns_rearrange [OF assms(2) f'(2) c(3,1)]) simp
  then show ?thesis using that f'(1) by simp
qed

lemma DeleteSubrange_ok:
  assumes "heap_ok st" "owns cont T st f live cleared ys" "s + n \<le> length ys"
  obtains st' f' where "DeleteSubrange T L st f (int s) (int n) = Inr (st', f')"
    "owns cont T st' f' (take s live @ drop (s + n) live) cleared (take s ys @ drop (s + n) ys)"
    "evolves st (set (live @ cleared)) st' (set ((take s live @ drop (s + n) live) @ cleared))"
proof -
  note o = owns_facts [OF assms(2)] and c = cut_values [OF assms(2,3)]
  let ?out = "take n (drop s live)" and ?rest = "take s live @ drop (s + n) live"
  have l: "s + n \<le> length live" using assms(3) owns_length [OF assms(2)] by simp
  have d: "set (live @ cleared) \<subseteq> dom (objs st)" by (rule owns_dom [OF assms(2)])
  have "live @ cleared = take s live @ ?out @ drop (s + n) live @ cleared"
    by (metis append_take_drop_id append.assoc drop_drop add.commute)
  from field_reads [OF o(1) this] have r: "reads f s ?out" using l by simp
  have out: "set ?out \<subseteq> dom (objs st)" using d unfolding c(6) by blast
  obtain st' where st': "delete_range f (int s) (length ?out) st = Inr st'" "evolves st (set ?out) st' {}"
    using delete_range_ok [OF assms(1) r field_holds_arena [OF o(1)] c(4) out] by blast
  have keep: "set (?rest @ cleared) \<inter> set ?out = {}" using c(5) by blast
  obtain f' where f': "ExtractSubrange_ptr T L st f (int s) (int n) False = Inr (st, f', if False then ?out else [])"
    "field_holds f' ?rest cleared" by (rule cut_ok [OF assms(2,3)])
  have any: "ExtractSubrange_ptr T L st' f (int s) (int n) False = Inr (st', f', [])"
    using f'(1) by (auto simp: ExtractSubrange_ptr_def ExtractSubrangeInternal_merge_def
        ExtractSubrangeInternal_plain_def res_simps split: if_splits)
  have "owns cont T st f' ?rest cleared (take s ys @ drop (s + n) ys)"
    by (rule owns_rearrange [OF assms(2) f'(2) c(3,1)]) simp
  from owns_frame [OF st'(2) this keep] have "owns cont T st' f' ?rest cleared (take s ys @ drop (s + n) ys)" .
  moreover have "set ?out \<subseteq> set (live @ cleared)" "set (live @ cleared) - set ?out \<union> {} = set (?rest @ cleared)"
    using c(5,6) by blast+
  then have "evolves st (set (live @ cleared)) st' (set (?rest @ cleared))"
    using evolves_within [OF st'(2) _ d] by simp
  moreover have "DeleteSubrange T L st f (int s) (int n) = Inr (st', f')"
    using st'(1) any l by (simp add: DeleteSubrange_def)
  ultimately show ?thesis using that by blast
qed

end

section \<open>Merging\<close>

context type_handler
begin

text \<open>The first loop: objects kept for reuse take the values of the other field.\<close>

lemma merge_existing_ok:
  "heap_ok st \<Longrightarrow> reads f (base + i) qs \<Longrightarrow> reads other i ps \<Longrightarrow> length qs = length ps \<Longrightarrow> distinct qs \<Longrightarrow>
   set qs \<inter> set ps = {} \<Longrightarrow> set ps \<union> set qs \<subseteq> dom (objs st) \<Longrightarrow>
   map (value_of cont st) qs = map (\<lambda>_. Some (cont (th_new T))) qs \<Longrightarrow>
   \<exists>st'. merge_existing T f (int base) other (int i) (length qs) st = Inr st' \<and> evolves st (set qs) st' (set qs) \<and>
     map (value_of cont st') qs = map (value_of cont st) ps"
proof (induction qs arbitrary: i ps st)
  case Nil
  then show ?case using evolves_refl [of st "{}"] by simp
next
  case (Cons q qs)
  obtain p ps' where ps: "ps = p # ps'" using Cons.prems(4) by (cases ps) simp_all
  have q: "value_of cont st q = Some (cont (th_new T))" using Cons.prems(8) by simp
  have pd: "p \<in> dom (objs st)" "q \<in> dom (objs st)" using Cons.prems(7) ps by simp_all
  obtain st1 where st1: "handler_Merge T p q st = Inr st1" "evolves st {q} st1 {q}"
      "value_of cont st1 q = value_of cont st p"
    by (rule handler_Merge_ok [OF Cons.prems(1) pd(1) q])
  have d: "dom (objs st1) = dom (objs st)" by (rule evolves_same_dom [OF st1(2)]) (use pd in simp)
  have n: "q \<notin> set qs" "q \<notin> set ps'" "set qs \<inter> set ps' = {}" using Cons.prems(5,6) ps by auto
  have v: "map (value_of cont st1) qs = map (value_of cont st) qs"
    "map (value_of cont st1) ps' = map (value_of cont st) ps'"
    by (rule values_frame [OF st1(2)]; use Cons.prems(7) ps n in auto)+
  have "set ps' \<union> set qs \<subseteq> dom (objs st1)" using Cons.prems(7) ps unfolding d by auto
  moreover have "map (value_of cont st1) qs = map (\<lambda>_. Some (cont (th_new T))) qs"
    unfolding v(1) using Cons.prems(8) by simp
  moreover have "reads f (base + Suc i) qs" "reads other (Suc i) ps'" "length qs = length ps'" "distinct qs"
    using Cons.prems(2-5) ps by (simp_all add: reads_Cons)
  ultimately obtain st2 where st2: "merge_existing T f (int base) other (int (Suc i)) (length qs) st1 = Inr st2"
      "evolves st1 (set qs) st2 (set qs)" "map (value_of cont st2) qs = map (value_of cont st1) ps'"
    using Cons.IH [OF evolves_heap_ok [OF st1(2)], of "Suc i" ps'] n(3) by blast
  have "value_of cont st2 q = value_of cont st p"
    using evolves_value [OF st2(2), of q cont] pd(2) n(1) st1(3) unfolding d by simp
  moreover have sub: "set (q # qs) \<subseteq> dom (objs st)" using Cons.prems(7) by simp
  have "evolves st (set (q # qs)) st2 (set (q # qs))"
    by (rule evolves_trans [OF evolves_same [OF st1(2) _ sub] evolves_same [OF st2(2)]]) (use sub d in auto)
  moreover have "get_slot other (int i) = Inr p" "get_slot f (int base + int i) = Inr q"
    using Cons.prems(2,3) ps by (simp_all add: reads_Cons)
  ultimately show ?case using st1(1) st2(1,3) v(2) ps by (simp add: add.commute)
qed

text \<open>The second loop: new objects go behind the others.\<close>

lemma merge_new_ok:
  "heap_ok st \<Longrightarrow> slots qs es \<Longrightarrow> length qs = base + i \<Longrightarrow> reads other i ps \<Longrightarrow> set ps \<union> set qs \<subseteq> dom (objs st) \<Longrightarrow>
   length qs + length ps \<le> length es \<Longrightarrow>
   \<exists>st' es' ns. merge_new T (array_field n m es) (int base) other (int i) (length ps) st = Inr (st', array_field n m es') \<and>
     slots (qs @ ns) es' \<and> length es' = length es \<and> distinct ns \<and> length ns = length ps \<and> evolves st {} st' (set ns) \<and>
     map (value_of cont st') ns = map (value_of cont st) ps"
proof (induction ps arbitrary: i qs es st)
  case Nil
  then show ?case using evolves_refl [of st "{}"] by (intro exI [of _ st] exI [of _ es] exI [of _ "[]"]) simp
next
  case (Cons p ps)
  obtain st1 q where st1: "NewFromPrototype T (Some p) None st = (st1, q)" "objs st q = None" "evolves st {} st1 {q}"
      "value_of cont st1 q = Some (cont (th_new T))"
    by (rule NewFromPrototype_ok [OF Cons.prems(1)])
  have d1: "dom (objs st1) = insert q (dom (objs st))" using evolves_dom [OF st1(3)] by simp
  have pd: "p \<in> dom (objs st1)" "p \<noteq> q" using Cons.prems(5) st1(2) d1 by auto
  obtain st2 where st2: "handler_Merge T p q st1 = Inr st2" "evolves st1 {q} st2 {q}"
      "value_of cont st2 q = value_of cont st1 p"
    by (rule handler_Merge_ok [OF evolves_heap_ok [OF st1(3)] pd(1) st1(4)])
  have e2: "evolves st {} st2 {q}" by (rule evolves_trans [OF st1(3) st2(2)])
  have d2: "dom (objs st2) = insert q (dom (objs st))" using evolves_dom [OF e2] by simp
  have pv: "value_of cont st2 q = value_of cont st p"
    using st2(3) evolves_value [OF st1(3), of p cont] Cons.prems(5) by simp
  let ?es = "es[length qs := Some q]"
  have s: "slots (qs @ [q]) ?es" using slots_append [OF Cons.prems(2), of q] Cons.prems(6) by simp
  have "set ps \<union> set (qs @ [q]) \<subseteq> dom (objs st2)" using Cons.prems(5) unfolding d2 by auto
  moreover have "reads other (Suc i) ps" using Cons.prems(4) by (simp add: reads_Cons)
  ultimately obtain st3 es' ns where st3: "merge_new T (array_field n m ?es) (int base) other (int (Suc i)) (length ps) st2 =
      Inr (st3, array_field n m es')"
    "slots ((qs @ [q]) @ ns) es'" "length es' = length ?es" "distinct ns" "length ns = length ps" "evolves st2 {} st3 (set ns)"
    "map (value_of cont st3) ns = map (value_of cont st2) ps"
    using Cons.IH [OF evolves_heap_ok [OF e2] s, of "Suc i"] Cons.prems(3,6) by auto
  have dis: "dom (objs st2) \<inter> set ns = {}" using st3(6) by (simp add: evolves_def)
  then have q: "q \<notin> set ns" unfolding d2 by auto
  have "value_of cont st3 q = value_of cont st p"
    using evolves_value [OF st3(6), of q cont] d2 pv by simp
  moreover have "map (value_of cont st2) ps = map (value_of cont st) ps"
    by (rule values_frame [OF e2]) (use Cons.prems(5) in auto)
  moreover have "evolves st {} st3 (set (q # ns))"
  proof -
    have "evolves st2 {q} st3 ({q} \<union> set ns)"
      using evolves_within [OF st3(6), of "{q}"] d2 by simp
    from evolves_trans [OF e2 this] show ?thesis by simp
  qed
  moreover have "set_slot (array_field n m es) (int (base + i)) q = Inr (array_field n m ?es)"
    using Cons.prems(3,6) set_slot_array [of "length qs" es n m q] by simp
  then have "merge_new T (array_field n m es) (int base) other (int i) (length (p # ps)) st = Inr (st3, array_field n m es')"
    using st1(1) st2(1) st3(1) Cons.prems(4) by (simp add: reads_Cons add.commute)
  ultimately show ?case using st3(2-5,7) q
    by (intro exI [of _ st3] exI [of _ es'] exI [of _ "q # ns"]) simp
qed

end

lemma add_current_int: "n + k \<le> 2147483647 \<Longrightarrow> add_current (array_field n m es) (int k) = Inr (array_field (n + k) m es)"
  by (simp add: add_current_def array_field_def in_i32_def)

context repeated_ptr
begin

lemma owns_reads_all: "owns cont T st g live cleared zs \<Longrightarrow> live = xs @ ps \<Longrightarrow> reads g (length xs) ps"
  using field_reads [OF owns_facts(1) [of cont T st g live cleared zs], of xs ps cleared] by simp

text \<open>The two loops together.\<close>

lemma MergeFromInnerLoop_ok:
  assumes "heap_ok st" "slots (live @ cleared) es" "distinct (live @ cleared)" "set (live @ cleared) \<subseteq> dom (objs st)"
    "map (value_of cont st) cleared = map (\<lambda>_. Some (cont (th_new T))) cleared"
    "owns cont T st g glive gcleared zs" "set (live @ cleared) \<inter> set glive = {}"
    "length live + length zs \<le> length es"
  obtains st' es' ns where
    "MergeFromInnerLoop T (array_field (length live) (length live + length cleared) es) (int (length live)) g (int (length zs))
       (int (length cleared)) st = Inr (st', array_field (length live) (length live + length cleared) es')"
    "slots ((live @ cleared) @ ns) es'" "distinct ns" "length ns = length zs - length cleared"
    "dom (objs st) \<inter> set ns = {}" "evolves st (set (live @ cleared)) st' (set (live @ cleared) \<union> set ns)"
    "map (value_of cont st') (take (length zs) cleared @ ns) = map Some zs"
    "map (value_of cont st') live = map (value_of cont st) live"
    "map (value_of cont st') (drop (length zs) cleared) = map (value_of cont st) (drop (length zs) cleared)"
proof -
  define k where "k = length cleared"
  define n where "n = length zs"
  let ?f = "array_field (length live) (length live + length cleared) es"
  let ?a = "take n cleared" and ?c = "drop n cleared" and ?ps = "take k glive" and ?qs = "drop k glive"
  have lg: "length glive = n" using owns_length [OF assms(6)] by (simp add: n_def)
  have gd: "set glive \<subseteq> dom (objs st)" using owns_dom [OF assms(6)] by simp
  have sub: "set ?a \<subseteq> set cleared" "set ?ps \<subseteq> set glive" "set ?qs \<subseteq> set glive"
    by (simp_all add: set_take_subset set_drop_subset)
  have fh: "field_holds ?f live cleared" by (rule field_holds_array [OF assms(2)]) simp_all
  have r1: "reads ?f (length live + 0) ?a" using field_reads [OF fh, of live ?a ?c] by simp
  have r2: "reads g 0 ?ps"
    using field_reads [OF owns_facts(1) [OF assms(6)], of "[]" ?ps "?qs @ gcleared"] by (simp add: append.assoc [symmetric])
  have la: "length ?a = length ?ps" using lg by (simp add: k_def min.commute)
  have da: "distinct ?a" using assms(3) by simp
  have dis: "set ?a \<inter> set ?ps = {}" using sub assms(7) by auto
  have ind: "set ?ps \<union> set ?a \<subseteq> dom (objs st)" using sub gd assms(4) by auto
  have va: "map (value_of cont st) ?a = map (\<lambda>_. Some (cont (th_new T))) ?a"
    using arg_cong [OF assms(5), of "take n"] by (simp only: take_map)
  obtain st1 where st1: "merge_existing T ?f (int (length live)) g (int 0) (length ?a) st = Inr st1"
      "evolves st (set ?a) st1 (set ?a)" "map (value_of cont st1) ?a = map (value_of cont st) ?ps"
    using merge_existing_ok [OF assms(1) r1 r2 la da dis ind va] by blast
  have d1: "dom (objs st1) = dom (objs st)" by (rule evolves_same_dom [OF st1(2)]) (use ind in simp)
  have r3: "reads g k ?qs"
  proof (cases "k \<le> n")
    case True
    then have "length ?ps = k" using lg by simp
    then show ?thesis using owns_reads_all [OF assms(6), of ?ps ?qs] by simp
  qed (use lg in \<open>simp add: reads_def\<close>)
  have len: "length (live @ cleared) + length ?qs \<le> length es"
    using slots_length [OF assms(2)] assms(8) lg by (simp add: k_def n_def)
  have ind2: "set ?qs \<union> set (live @ cleared) \<subseteq> dom (objs st1)" using sub gd assms(4) unfolding d1 by auto
  have lk: "length (live @ cleared) = length live + k" by (simp add: k_def)
  obtain st2 es' ns where st2: "merge_new T ?f (int (length live)) g (int k) (length ?qs) st1 =
      Inr (st2, array_field (length live) (length live + length cleared) es')"
    "slots ((live @ cleared) @ ns) es'" "distinct ns" "length ns = length ?qs" "evolves st1 {} st2 (set ns)"
    "map (value_of cont st2) ns = map (value_of cont st1) ?qs"
    using merge_new_ok [OF evolves_heap_ok [OF st1(2)] assms(2) lk r3 ind2 len,
        of "length live" "length live + length cleared"] by blast
  have fresh: "dom (objs st) \<inter> set ns = {}" using st2(5) unfolding d1 [symmetric] by (simp add: evolves_def)
  have frame1: "map (value_of cont st1) xs = map (value_of cont st) xs"
    if "set xs \<subseteq> dom (objs st)" "set xs \<inter> set ?a = {}" for xs
    by (rule values_frame [OF st1(2) that])
  have frame2: "map (value_of cont st2) xs = map (value_of cont st1) xs" if "set xs \<subseteq> dom (objs st)" for xs
    by (rule values_frame [OF st2(5)]) (use that d1 in auto)
  have "map (value_of cont st2) ?a = map (value_of cont st) ?ps"
    using frame2 [of ?a] st1(3) ind by simp
  moreover have "map (value_of cont st1) ?qs = map (value_of cont st) ?qs"
    by (rule frame1) (use sub gd assms(7) in auto)
  ultimately have "map (value_of cont st2) (?a @ ns) = map (value_of cont st) (?ps @ ?qs)"
    using st2(6) by (simp only: map_append)
  then have vals: "map (value_of cont st2) (?a @ ns) = map Some zs"
    unfolding append_take_drop_id owns_facts(3) [OF assms(6)] .
  have vl: "map (value_of cont st2) live = map (value_of cont st) live"
    by (rule trans [OF frame2 frame1]) (use assms(3,4) sub in auto)
  have "set ?a \<inter> set ?c = {}" using assms(3) distinct_append [of ?a ?c] by simp
  then have vc: "map (value_of cont st2) ?c = map (value_of cont st) ?c"
    by (intro trans [OF frame2 frame1]) (use assms(4) set_drop_subset [of n cleared] in auto)
  have "evolves st (set (live @ cleared)) st1 (set (live @ cleared))"
    by (rule evolves_same [OF st1(2) _ assms(4)]) (use sub in auto)
  moreover have "evolves st1 (set (live @ cleared)) st2 (set (live @ cleared) \<union> set ns)"
    using evolves_within [OF st2(5), of "set (live @ cleared)"] assms(4) d1 by simp
  ultimately have ev: "evolves st (set (live @ cleared)) st2 (set (live @ cleared) \<union> set ns)"
    by (rule evolves_trans)
  have lq: "nat (min (int k) (int n)) = length ?a" "nat (int n - int k) = length ?qs"
  proof -
    have "nat (min (int k) (int n)) = min k n" "nat (int n - int k) = n - k" by (simp_all add: min_def)
    then show "nat (min (int k) (int n)) = length ?a" "nat (int n - int k) = length ?qs"
      using lg by (simp_all add: k_def)
  qed
  have "MergeFromInnerLoop T ?f (int (length live)) g (int (length zs)) (int (length cleared)) st =
      Inr (st2, array_field (length live) (length live + length cleared) es')"
    unfolding MergeFromInnerLoop_def n_def [symmetric] k_def [symmetric] lq
    using st1(1) st2(1) by (simp add: k_def)
  then show ?thesis
    by (rule that [OF _ st2(2,3) _ fresh ev]) (use st2(4) lg vals vl vc in \<open>simp_all add: n_def k_def\<close>)
qed

end

context repeated_ptr
begin

lemma MergeFrom_ptr_ok:
  assumes "heap_ok st" "owns cont T st f live cleared ys" "owns cont T st g glive gcleared zs"
    "set (live @ cleared) \<inter> set glive = {}" "length ys + length zs \<le> 1073741824"
  obtains st' f' l c where "MergeFrom_ptr T L st f g = Inr (st', f')" "owns cont T st' f' l c (ys @ zs)"
    "evolves st (set (live @ cleared)) st' (set (l @ c))"
    "length l + length c \<le> length live + length cleared + length zs"
proof (cases "zs = []")
  case True
  then have "pcurrent_size g = 0" using field_holds_size [OF owns_facts(1) [OF assms(3)]] owns_length [OF assms(3)] by simp
  then show ?thesis
    using that [of st f live cleared] True assms(2) evolves_refl [OF assms(1) owns_dom [OF assms(2)]]
    by (simp add: MergeFrom_ptr_def)
next
  case False
  note o = owns_facts [OF assms(2)]
  let ?n = "length zs"
  have ll: "length live = length ys" "length glive = ?n" using owns_length [OF assms(2)] owns_length [OF assms(3)] by simp_all
  have cg: "pcurrent_size g = int ?n" using field_holds_size [OF owns_facts(1) [OF assms(3)]] ll by simp
  obtain ds where g: "g = array_field (length glive) (length glive + length gcleared) ds"
    by (rule field_holds_room [OF owns_facts(1) [OF assms(3)]]) (use False ll in auto)
  have pos: "0 < int ?n" "int (length live) + int ?n \<le> 1073741824" using False assms(5) ll by simp_all
  obtain f1 where f1: "lib_InternalExtend L f (int ?n) = Inr (f1, int (length live))" "field_holds f1 live cleared"
      "int (length live) + int ?n \<le> ptotal_size f1"
    using extend_law [OF o(1) pos] by blast
  have t: "0 < ptotal_size f1" using f1(3) pos(1) by linarith
  obtain es where es: "f1 = array_field (length live) (length live + length cleared) es" "slots (live @ cleared) es"
    by (rule field_holds_room [OF f1(2) disjI1 [OF t]])
  have room: "length live + ?n \<le> length es" using f1(3) by (simp add: es(1))
  obtain st' es' ns where m:
    "MergeFromInnerLoop T (array_field (length live) (length live + length cleared) es) (int (length live)) g (int ?n)
       (int (length cleared)) st = Inr (st', array_field (length live) (length live + length cleared) es')"
    "slots ((live @ cleared) @ ns) es'" "distinct ns" "length ns = ?n - length cleared"
    "dom (objs st) \<inter> set ns = {}" "evolves st (set (live @ cleared)) st' (set (live @ cleared) \<union> set ns)"
    "map (value_of cont st') (take ?n cleared @ ns) = map Some zs"
    "map (value_of cont st') live = map (value_of cont st) live"
    "map (value_of cont st') (drop ?n cleared) = map (value_of cont st) (drop ?n cleared)"
    by (rule MergeFromInnerLoop_ok [OF assms(1) es(2) o(2) owns_dom [OF assms(2)] o(4) assms(3,4) room])
  define l where "l = live @ take ?n cleared @ ns"
  define c where "c = drop ?n cleared"
  have lc: "l @ c = (live @ cleared) @ ns"
  proof (cases "?n \<le> length cleared")
    case True
    then have "ns = []" using m(4) by simp
    then show ?thesis by (simp add: l_def c_def)
  qed (simp add: l_def c_def)
  have len: "length l = length live + ?n" "length l + length c = length live + max (length cleared) ?n"
    using m(4) by (simp_all add: l_def c_def min_def max_def)
  have set: "set (l @ c) = set (live @ cleared) \<union> set ns" unfolding lc by (simp only: set_append)
  have dist: "distinct (l @ c)" unfolding lc using o(2) m(3,5) owns_dom [OF assms(2)] by (simp only: distinct_append) blast
  have vc: "map (value_of cont st') c = map (\<lambda>_. Some (cont (th_new T))) c"
    unfolding c_def m(9) using arg_cong [OF o(4), of "drop ?n"] by (simp only: drop_map)
  have vl: "map (value_of cont st') l = map Some (ys @ zs)"
    unfolding l_def map_append [of _ live] m(7,8) o(3) by simp
  let ?f = "array_field (length l) (length l + length c) es'"
  have "owns cont T st' ?f l c (ys @ zs)"
    by (rule owns_array [OF _ refl refl dist vl vc]) (use m(2) lc in simp)
  moreover have "evolves st (set (live @ cleared)) st' (set (l @ c))" using m(6) unfolding set .
  moreover have "MergeFrom_ptr T L st f g = Inr (st', ?f)"
  proof -
    have b: "length live + ?n \<le> 2147483647" using assms(5) ll by simp
    have k: "int (length live + length cleared) - int (length live) = int (length cleared)" by simp
    have "MergeFromInternal T L st f g = Inr (st', ?f)"
      unfolding MergeFromInternal_def g [THEN arg_cong, of prep] array_field_simps deref_simps bind_res_simps cg f1(1)
        prod.case es(1) Rep.select_convs k m(1) add_current_int [OF b]
      by (auto simp: len c_def array_field_def max_def)
    then show ?thesis using False cg by (simp add: MergeFrom_ptr_def)
  qed
  ultimately show ?thesis by (intro that [of st' ?f l c]) (simp_all add: len c_def)
qed

end

context repeated_ptr
begin

lemma CopyFrom_ptr_ok:
  assumes "heap_ok st" "owns cont T st f live cleared ys" "owns cont T st g glive gcleared zs"
    "set (live @ cleared) \<inter> set (glive @ gcleared) = {}" "length zs \<le> 1073741824"
  obtains st' f' l c where "CopyFrom_ptr T L False st f g = Inr (st', f')" "owns cont T st' f' l c zs"
    "evolves st (set (live @ cleared)) st' (set (l @ c))"
    "length l + length c \<le> length live + length cleared + length zs"
proof -
  obtain st1 f1 where c: "Clear_ptr T st f = Inr (st1, f1)" "owns cont T st1 f1 [] (live @ cleared) []"
    "evolves st (set (live @ cleared)) st1 (set (live @ cleared))" by (rule Clear_ptr_ok [OF assms(1,2)])
  have g: "owns cont T st1 g glive gcleared zs" by (rule owns_frame [OF c(3) assms(3)]) (use assms(4) in auto)
  obtain st' f' l c' where m: "MergeFrom_ptr T L st1 f1 g = Inr (st', f')" "owns cont T st' f' l c' ([] @ zs)"
    "evolves st1 (set ([] @ live @ cleared)) st' (set (l @ c'))"
    "length l + length c' \<le> length [] + length (live @ cleared) + length zs"
    by (rule MergeFrom_ptr_ok [OF evolves_heap_ok [OF c(3)] c(2) g]) (use assms(4,5) in auto)
  have "evolves st (set (live @ cleared)) st' (set (l @ c'))"
    by (rule evolves_trans [OF c(3)]) (use m(3) in simp)
  then show ?thesis by (intro that [of st' f' l c']) (use c(1) m in \<open>simp_all add: CopyFrom_ptr_def\<close>)
qed

lemma add_range_ok:
  assumes "heap_ok st" "owns cont T st f live cleared ys" "length live + length cleared + length vs \<le> 1073741824"
  shows "\<exists>st' f' l c. add_range T L st f vs = Inr (st', f') \<and> owns cont T st' f' l c (ys @ map cont vs) \<and>
    evolves st (set (live @ cleared)) st' (set (l @ c)) \<and> length l + length c \<le> length live + length cleared + length vs"
  using assms
proof (induction vs arbitrary: st f live cleared ys)
  case Nil
  then show ?case using evolves_refl [OF Nil.prems(1) owns_dom [OF Nil.prems(2)]]
    by (intro exI [of _ st] exI [of _ f] exI [of _ live] exI [of _ cleared]) simp
next
  case (Cons v vs)
  have l: "length live + length cleared < 1073741824" using Cons.prems(3) by simp
  obtain st1 st2 f1 p c where a: "Add_ptr T L st f = Inr (st1, f1, p)" "store_object p v st1 = Inr st2"
    "owns cont T st2 f1 (live @ [p]) c (ys @ [cont v])"
    "evolves st (set (live @ cleared)) st2 (set ((live @ [p]) @ c))" "length c = length cleared - 1"
    by (rule Add_store_ok [OF Cons.prems(1,2) l])
  have "length (live @ [p]) + length c + length vs \<le> 1073741824" using a(5) Cons.prems(3) by simp
  from Cons.IH [OF evolves_heap_ok [OF a(4)] a(3) this]
  obtain st' f' l c' where r: "add_range T L st2 f1 vs = Inr (st', f')" "owns cont T st' f' l c' ((ys @ [cont v]) @ map cont vs)"
    "evolves st2 (set ((live @ [p]) @ c)) st' (set (l @ c'))"
    "length l + length c' \<le> length (live @ [p]) + length c + length vs"
    by (elim exE conjE)
  show ?case
    by (intro exI [of _ st'] exI [of _ f'] exI [of _ l] exI [of _ c'] conjI)
      (use a(1,2,5) r evolves_trans [OF a(4) r(3)] in simp_all)
qed

lemma Reserve_ptr_ok:
  assumes "owns cont T st f live cleared ys" "n \<le> 1073741824"
  obtains f' where "lib_Reserve L f n = Inr f'" "owns cont T st f' live cleared ys"
  using reserve_law [OF owns_facts(1) [OF assms(1)] assms(2)] owns_facts [OF assms(1)] unfolding owns_def by blast

lemma range_ok:
  assumes "heap_ok st" "length vs \<le> 1073741824"
  obtains st' f l c where "range_PtrField T L forward st vs = Inr (st', f)" "owns cont T st' f l c (map cont vs)"
    "evolves st {} st' (set (l @ c))" "length l + length c \<le> length vs"
proof -
  let ?n = "CalculateReserve forward vs"
  obtain f1 where f1: "(if ?n \<noteq> - 1 then lib_Reserve L new_PtrField ?n else Inr new_PtrField) = Inr f1"
    "owns cont T st f1 [] [] []"
  proof (cases "?n \<noteq> - 1")
    case True
    have "?n \<le> 1073741824" using assms(2) by (simp add: CalculateReserve_def)
    then obtain f1 where "lib_Reserve L new_PtrField ?n = Inr f1" "owns cont T st f1 [] [] []"
      by (rule Reserve_ptr_ok [OF owns_new])
    then show ?thesis using that True by simp
  next
    case False
    then show ?thesis using that [of new_PtrField] by simp
  qed
  note r = add_range_ok [OF assms(1) f1(2), unfolded list.size add_0 append_Nil list.set, OF assms(2)]
  then obtain st' f l c where
    "add_range T L st f1 vs = Inr (st', f)" "owns cont T st' f l c (map cont vs)"
    "evolves st {} st' (set (l @ c))" "length l + length c \<le> length vs"
    by (elim exE conjE)
  then show ?thesis by (intro that [of st' f l c]) (use f1(1) in \<open>simp_all add: range_PtrField_def Let_def\<close>)
qed

end

end
