(* ===== verification/PtrClient.thy ===== *)
theory PtrClient
  imports PtrOwnership ProtoMessages
begin

text \<open>
  A field of strings or of messages in use: the instances of the contracts, a client that performs any operations and keeps the objects
  it is given, its specification on lists, and the refinement, with the ownership of every object at the end.
\<close>

section \<open>Instances\<close>

text \<open>An array that follows the contract.\<close>

definition sim_grow :: "PtrField \<Rightarrow> int \<Rightarrow> PtrField" where
  "sim_grow f n =
     (if n \<le> ptotal_size f then f
      else case prep f of
        None \<Rightarrow> f\<lparr>ptotal_size := n, prep := Some \<lparr>allocated_size = 0, rep_elements = replicate (nat n) None\<rparr>\<rparr>
      | Some r \<Rightarrow> f\<lparr>ptotal_size := n,
          prep := Some (r\<lparr>rep_elements := rep_elements r @ replicate (nat (n - ptotal_size f)) None\<rparr>)\<rparr>)"

definition sim_array :: ptr_library where
  "sim_array =
     \<lparr>lib_Reserve = (\<lambda>f n. Inr (sim_grow f n)),
      lib_InternalExtend = (\<lambda>f n. Inr (sim_grow f (pcurrent_size f + n), pcurrent_size f)),
      lib_CloseGap = (\<lambda>f start num.
        case prep f of
          None \<Rightarrow> Inr f
        | Some r \<Rightarrow> Inr (f\<lparr>pcurrent_size := pcurrent_size f - num,
            prep := Some \<lparr>allocated_size = allocated_size r - num,
              rep_elements = take (nat start) (rep_elements r) @ drop (nat (start + num)) (rep_elements r) @
                replicate (nat num) None\<rparr>\<rparr>))\<rparr>"

lemma slots_grow: "slots ps es \<Longrightarrow> length es + n \<le> 2147483647 \<Longrightarrow> slots ps (es @ replicate n None)"
  by (simp add: slots_def)

lemma sim_grow_ok:
  assumes "field_holds f live cleared" "n \<le> 1073741824"
  shows "field_holds (sim_grow f n) live cleared \<and> n \<le> ptotal_size (sim_grow f n)"
proof (cases "n \<le> ptotal_size f")
  case True
  then show ?thesis using assms(1) by (simp add: sim_grow_def)
next
  case False
  from assms(1) show ?thesis
  proof (cases rule: field_holds_cases)
    case 1
    have "sim_grow f n = array_field 0 0 (replicate (nat n) None)"
      using False by (simp add: sim_grow_def 1(1) array_field_def new_PtrField_def)
    moreover have "slots ([] @ []) (replicate (nat n) None)" using assms(2) by (simp add: slots_def)
    then have "field_holds (array_field 0 0 (replicate (nat n) None)) [] []" by (rule field_holds_array) simp_all
    ultimately show ?thesis using 1 False by simp
  next
    case (2 es)
    let ?es = "es @ replicate (nat (n - int (length es))) None"
    have l: "int (length ?es) = n" using False by (simp add: 2(1))
    have "sim_grow f n = array_field (length live) (length live + length cleared) ?es"
      using False l by (simp add: sim_grow_def 2(1) array_field_def)
    moreover have "slots (live @ cleared) ?es" by (rule slots_grow [OF 2(2)]) (use False assms(2) in \<open>simp add: 2(1)\<close>)
    then have "field_holds (array_field (length live) (length live + length cleared) ?es) live cleared"
      by (rule field_holds_array) simp_all
    ultimately show ?thesis using l by simp
  qed
qed

lemma slots_cut:
  assumes "slots (xs @ ps @ zs) es"
  shows "slots (xs @ zs) (take (length xs) es @ drop (length xs + length ps) es @ replicate (length ps) None)"
proof -
  let ?a = "length xs" and ?b = "length ps" and ?c = "length zs"
  have t: "take (?a + ?b + ?c) es = map Some (xs @ ps @ zs)" "?a + ?b + ?c \<le> length es" "length es \<le> 2147483647"
    using assms by (simp_all add: slots_def add.assoc)
  have x: "take ?a es = map Some xs"
    using arg_cong [OF t(1), of "take ?a"] by simp
  have "take ?c (drop (?a + ?b) es) = drop (?a + ?b) (take (?a + ?b + ?c) es)" by (simp add: drop_take)
  then have z: "take ?c (drop (?a + ?b) es) = map Some zs" unfolding t(1) by simp
  show ?thesis using t(2,3) x z by (simp add: slots_def)
qed

lemma sim_close_gap:
  assumes "field_holds f (live @ gap @ rest) cleared"
  shows "\<exists>f'. lib_CloseGap sim_array f (int (length live)) (int (length gap)) = Inr f' \<and> field_holds f' (live @ rest) cleared"
  using assms
proof (cases rule: field_holds_cases)
  case 1
  then show ?thesis by (simp add: sim_array_def)
next
  case (2 es)
  let ?s = "length live" and ?n = "length gap"
  let ?es = "take ?s es @ drop (?s + ?n) es @ replicate ?n None"
  have s: "slots (live @ gap @ rest @ cleared) es" using 2(2) by simp
  then have "slots ((live @ rest) @ cleared) ?es" using slots_cut [of live gap "rest @ cleared" es] by simp
  then have "field_holds (array_field (length (live @ rest)) (length (live @ rest) + length cleared) ?es) (live @ rest) cleared"
    by (rule field_holds_array) simp_all
  moreover have "length ?es = length es" using slots_length [OF s] by simp
  then have "lib_CloseGap sim_array f (int ?s) (int ?n) =
      Inr (array_field (length (live @ rest)) (length (live @ rest) + length cleared) ?es)"
    by (simp add: sim_array_def 2(1) nat_add_distrib array_field_def)
  ultimately show ?thesis by blast
qed

interpretation sim_array: pointer_array sim_array
proof unfold_locales
  show "\<exists>f'. lib_Reserve sim_array f n = Inr f' \<and> field_holds f' live cleared \<and> n \<le> ptotal_size f'"
    if "field_holds f live cleared" "n \<le> 1073741824" for f live cleared n
    using sim_grow_ok [OF that] by (simp add: sim_array_def)
  show "\<exists>f'. lib_InternalExtend sim_array f k = Inr (f', int (length live)) \<and> field_holds f' live cleared \<and>
      int (length live) + k \<le> ptotal_size f'"
    if "field_holds f live cleared" "0 < k" "int (length live) + k \<le> 1073741824" for f live cleared k
    using sim_grow_ok [OF that(1,3)] field_holds_size [OF that(1)] by (simp add: sim_array_def)
qed (rule sim_close_gap)

text \<open>Strings, and messages of any generated class.\<close>

interpretation string_handler: type_handler "StringTypeHandler n space" "\<lambda>v. v" for n space
  by unfold_locales (simp_all add: StringTypeHandler_def)

context proto_message
begin

lemma message_handler: "type_handler (GenericTypeHandler fresh clear merge_from space) content"
  by unfold_locales (simp_all add: GenericTypeHandler_def clear_law merge_law merged_fresh)

end

context pointer_array
begin

lemma strings_field: "repeated_ptr (StringTypeHandler n space) (\<lambda>v. v) L"
  by (intro repeated_ptr.intro string_handler.type_handler_axioms) unfold_locales

end

interpretation sim_strings: repeated_ptr "StringTypeHandler n space" "\<lambda>v. v" sim_array for n space
  by unfold_locales

section \<open>A client of a field\<close>

text \<open>
  A client that uses one field and keeps the objects the field gives it.  To merge or copy it fills another field and destroys that
  afterwards; an object it gets back cleared it deletes.
\<close>

datatype 'v ptr_op =
    Ptr_Add 'v
  | Ptr_Add_move 'v
  | Ptr_Set nat 'v
  | Ptr_RemoveLast
  | Ptr_Clear
  | Ptr_AddAllocated 'v
  | Ptr_ReleaseLast
  | Ptr_AddCleared
  | Ptr_ReleaseCleared
  | Ptr_Reserve nat
  | Ptr_SwapElements nat nat
  | Ptr_ExtractSubrange nat nat
  | Ptr_DeleteSubrange nat nat
  | Ptr_MergeFrom "'v list"
  | Ptr_CopyFrom "'v list"

fun run_op :: "'v TypeHandler \<Rightarrow> ptr_library \<Rightarrow> 'v ptr_op \<Rightarrow> 'v store \<times> PtrField \<times> nat list \<Rightarrow>
    ('v store \<times> PtrField \<times> nat list) res" where
  "run_op T L (Ptr_Add v) (st, f, outs) =
     bind_res (Add_ptr T L st f) (\<lambda>(st, f, p). bind_res (store_object p v st) (\<lambda>st. Inr (st, f, outs)))"
| "run_op T L (Ptr_Add_move v) (st, f, outs) = bind_res (Add_move_ptr L st f v) (\<lambda>(st, f). Inr (st, f, outs))"
| "run_op T L (Ptr_Set i v) (st, f, outs) =
     bind_res (Mutable_ptr f (int i)) (\<lambda>p. bind_res (store_object p v st) (\<lambda>st. Inr (st, f, outs)))"
| "run_op T L Ptr_RemoveLast (st, f, outs) = bind_res (RemoveLast_ptr T st f) (\<lambda>(st, f). Inr (st, f, outs))"
| "run_op T L Ptr_Clear (st, f, outs) = bind_res (Clear_ptr T st f) (\<lambda>(st, f). Inr (st, f, outs))"
| "run_op T L (Ptr_AddAllocated v) (st, f, outs) =
     (case new_object v None st of (st, p) \<Rightarrow> bind_res (AddAllocated T L st f p) (\<lambda>(st, f). Inr (st, f, outs)))"
| "run_op T L Ptr_ReleaseLast (st, f, outs) = bind_res (ReleaseLast T st f) (\<lambda>(st, f, p). Inr (st, f, outs @ [p]))"
| "run_op T L Ptr_AddCleared (st, f, outs) =
     (case new_object (th_new T) None st of (st, p) \<Rightarrow> bind_res (AddCleared L f p) (\<lambda>f. Inr (st, f, outs)))"
| "run_op T L Ptr_ReleaseCleared (st, f, outs) =
     (if 0 < ClearedCount f
      then bind_res (ReleaseCleared f) (\<lambda>(f, p). bind_res (delete_object p st) (\<lambda>st. Inr (st, f, outs)))
      else Inr (st, f, outs))"
| "run_op T L (Ptr_Reserve n) (st, f, outs) = bind_res (lib_Reserve L f (int n)) (\<lambda>f. Inr (st, f, outs))"
| "run_op T L (Ptr_SwapElements i j) (st, f, outs) =
     bind_res (SwapElements_ptr f (int i) (int j)) (\<lambda>f. Inr (st, f, outs))"
| "run_op T L (Ptr_ExtractSubrange s n) (st, f, outs) =
     bind_res (ExtractSubrange_ptr T L st f (int s) (int n) True) (\<lambda>(st, f, ps). Inr (st, f, outs @ ps))"
| "run_op T L (Ptr_DeleteSubrange s n) (st, f, outs) =
     bind_res (DeleteSubrange T L st f (int s) (int n)) (\<lambda>(st, f). Inr (st, f, outs))"
| "run_op T L (Ptr_MergeFrom vs) (st, f, outs) =
     bind_res (range_PtrField T L True st vs) (\<lambda>(st, g). bind_res (MergeFrom_ptr T L st f g) (\<lambda>(st, f).
     bind_res (Destroy g st) (\<lambda>(st, _). Inr (st, f, outs))))"
| "run_op T L (Ptr_CopyFrom vs) (st, f, outs) =
     bind_res (range_PtrField T L True st vs) (\<lambda>(st, g). bind_res (CopyFrom_ptr T L False st f g) (\<lambda>(st, f).
     bind_res (Destroy g st) (\<lambda>(st, _). Inr (st, f, outs))))"

fun run_ops :: "'v TypeHandler \<Rightarrow> ptr_library \<Rightarrow> 'v ptr_op list \<Rightarrow> 'v store \<times> PtrField \<times> nat list \<Rightarrow>
    ('v store \<times> PtrField \<times> nat list) res" where
  "run_ops T L [] s = Inr s"
| "run_ops T L (x # xs) s = bind_res (run_op T L x s) (run_ops T L xs)"

definition empty_store :: "'v store" where
  "empty_store = \<lparr>objs = Map.empty, next_obj = 0, adopted = []\<rparr>"

text \<open>The same on lists: the values in the field and those the client was given; what the client has to respect.\<close>

fun spec_op :: "('v \<Rightarrow> 'c) \<Rightarrow> 'v ptr_op \<Rightarrow> 'c list \<times> 'c list \<Rightarrow> 'c list \<times> 'c list" where
  "spec_op cont (Ptr_Add v) (ys, zs) = (ys @ [cont v], zs)"
| "spec_op cont (Ptr_Add_move v) (ys, zs) = (ys @ [cont v], zs)"
| "spec_op cont (Ptr_Set i v) (ys, zs) = (ys[i := cont v], zs)"
| "spec_op cont Ptr_RemoveLast (ys, zs) = (butlast ys, zs)"
| "spec_op cont Ptr_Clear (ys, zs) = ([], zs)"
| "spec_op cont (Ptr_AddAllocated v) (ys, zs) = (ys @ [cont v], zs)"
| "spec_op cont Ptr_ReleaseLast (ys, zs) = (butlast ys, zs @ [last ys])"
| "spec_op cont Ptr_AddCleared (ys, zs) = (ys, zs)"
| "spec_op cont Ptr_ReleaseCleared (ys, zs) = (ys, zs)"
| "spec_op cont (Ptr_Reserve n) (ys, zs) = (ys, zs)"
| "spec_op cont (Ptr_SwapElements i j) (ys, zs) = (ys[i := ys ! j, j := ys ! i], zs)"
| "spec_op cont (Ptr_ExtractSubrange s n) (ys, zs) = (take s ys @ drop (s + n) ys, zs @ take n (drop s ys))"
| "spec_op cont (Ptr_DeleteSubrange s n) (ys, zs) = (take s ys @ drop (s + n) ys, zs)"
| "spec_op cont (Ptr_MergeFrom vs) (ys, zs) = (ys @ map cont vs, zs)"
| "spec_op cont (Ptr_CopyFrom vs) (ys, zs) = (map cont vs, zs)"

fun valid_op :: "'v ptr_op \<Rightarrow> nat \<Rightarrow> bool" where
  "valid_op (Ptr_Set i v) n \<longleftrightarrow> i < n"
| "valid_op Ptr_RemoveLast n \<longleftrightarrow> 0 < n"
| "valid_op Ptr_ReleaseLast n \<longleftrightarrow> 0 < n"
| "valid_op (Ptr_Reserve k) n \<longleftrightarrow> k \<le> 1073741824"
| "valid_op (Ptr_SwapElements i j) n \<longleftrightarrow> i < n \<and> j < n"
| "valid_op (Ptr_ExtractSubrange s k) n \<longleftrightarrow> s + k \<le> n"
| "valid_op (Ptr_DeleteSubrange s k) n \<longleftrightarrow> s + k \<le> n"
| "valid_op _ n \<longleftrightarrow> True"

fun valid_ops :: "('v \<Rightarrow> 'c) \<Rightarrow> 'v ptr_op list \<Rightarrow> 'c list \<times> 'c list \<Rightarrow> bool" where
  "valid_ops cont [] s \<longleftrightarrow> True"
| "valid_ops cont (x # xs) s \<longleftrightarrow> valid_op x (length (fst s)) \<and> valid_ops cont xs (spec_op cont x s)"

fun op_growth :: "'v ptr_op \<Rightarrow> nat" where
  "op_growth (Ptr_Add v) = 1"
| "op_growth (Ptr_Add_move v) = 1"
| "op_growth (Ptr_AddAllocated v) = 1"
| "op_growth Ptr_AddCleared = 1"
| "op_growth (Ptr_MergeFrom vs) = length vs"
| "op_growth (Ptr_CopyFrom vs) = length vs"
| "op_growth _ = 0"

text \<open>
  All objects of the store are owned: by the field, in use or cleared, or by the client.
\<close>

definition world_at :: "('v \<Rightarrow> 'c) \<Rightarrow> 'v TypeHandler \<Rightarrow> nat \<Rightarrow> nat list \<Rightarrow> nat list \<Rightarrow> 'v store \<Rightarrow> PtrField \<Rightarrow> nat list \<Rightarrow>
    'c list \<Rightarrow> 'c list \<Rightarrow> bool" where
  "world_at cont T k live cleared st f outs ys zs \<longleftrightarrow>
     heap_ok st \<and> owns cont T st f live cleared ys \<and> dom (objs st) = set (live @ cleared) \<union> set outs \<and>
     set (live @ cleared) \<inter> set outs = {} \<and> distinct outs \<and> map (value_of cont st) outs = map Some zs \<and>
     length live + length cleared \<le> k"

definition world :: "('v \<Rightarrow> 'c) \<Rightarrow> 'v TypeHandler \<Rightarrow> nat \<Rightarrow> 'v store \<times> PtrField \<times> nat list \<Rightarrow> 'c list \<times> 'c list \<Rightarrow> bool" where
  "world cont T k = (\<lambda>(st, f, outs) (ys, zs). \<exists>live cleared. world_at cont T k live cleared st f outs ys zs)"

lemma world_atD:
  assumes "world_at cont T k live cleared st f outs ys zs"
  shows "heap_ok st" "owns cont T st f live cleared ys" "dom (objs st) = set (live @ cleared) \<union> set outs"
    "set (live @ cleared) \<inter> set outs = {}" "distinct outs" "map (value_of cont st) outs = map Some zs"
    "length live + length cleared \<le> k"
  using assms by (simp_all only: world_at_def)

text \<open>An operation turns the objects of the field into those of the new field and those it hands out.\<close>

lemma world_handed:
  assumes "world_at cont T k live cleared st f outs ys zs"
    and "evolves st (set (live @ cleared)) st' (set (l @ c) \<union> set ps)" "owns cont T st' f' l c ys'"
    "set (l @ c) \<inter> set ps = {}" "distinct ps" "map (value_of cont st') ps = map Some ws" "length l + length c \<le> k'"
  shows "world cont T k' (st', f', outs @ ps) (ys', zs @ ws)"
proof -
  note w = world_atD [OF assms(1)]
  have rest: "dom (objs st) - set (live @ cleared) = set outs" using w(3,4) by blast
  have d: "dom (objs st') = set outs \<union> (set (l @ c) \<union> set ps)" "set outs \<inter> (set (l @ c) \<union> set ps) = {}"
    using assms(2) unfolding evolves_def rest by blast+
  have "map (value_of cont st') outs = map (value_of cont st) outs"
    by (rule values_frame [OF assms(2)]) (use w(3,4) in auto)
  then have "map (value_of cont st') (outs @ ps) = map Some (zs @ ws)" using w(6) assms(6) by simp
  moreover have "dom (objs st') = set (l @ c) \<union> set (outs @ ps)" unfolding d by auto
  moreover have "set (l @ c) \<inter> set (outs @ ps) = {}" "distinct (outs @ ps)" using d(2) w(5) assms(4,5) by auto
  ultimately show ?thesis
    unfolding world_def world_at_def prod.case using evolves_heap_ok [OF assms(2)] assms(3,7) by blast
qed

lemma world_keep:
  assumes "world_at cont T k live cleared st f outs ys zs"
    and "evolves st (set (live @ cleared)) st' (set (l @ c))" "owns cont T st' f' l c ys'" "length l + length c \<le> k'"
  shows "world cont T k' (st', f', outs) (ys', zs)"
  using world_handed [OF assms(1) _ assms(3), of "[]" "[]" k'] assms(2,4) by simp

lemma world_same:
  assumes "world_at cont T k live cleared st f outs ys zs"
    and "owns cont T st f' l c ys'" "set (l @ c) = set (live @ cleared)" "length l + length c \<le> k'"
  shows "world cont T k' (st, f', outs) (ys', zs)"
  by (rule world_keep [OF assms(1) _ assms(2,4)])
    (use evolves_refl [OF world_atD(1) [OF assms(1)] owns_dom [OF world_atD(2) [OF assms(1)]]] assms(3) in simp)

lemma last_split: "owns cont T st f live cleared ys \<Longrightarrow> ys \<noteq> [] \<Longrightarrow> \<exists>l p y. live = l @ [p] \<and> ys = butlast ys @ [y] \<and> y = last ys"
  using owns_length [of cont T st f live cleared ys] by (cases live rule: rev_cases; cases ys rule: rev_cases) auto

context repeated_ptr
begin

lemma op_Add:
  assumes "world_at cont T k live cleared st f outs ys zs" "Suc k \<le> 1073741824"
  shows "\<exists>s'. run_op T L (Ptr_Add v) (st, f, outs) = Inr s' \<and> world cont T (Suc k) s' (ys @ [cont v], zs)"
proof -
  note w = world_atD [OF assms(1)]
  have l: "length live + length cleared < 1073741824" using w(7) assms(2) by simp
  obtain st1 st' f' p c where a: "Add_ptr T L st f = Inr (st1, f', p)" "store_object p v st1 = Inr st'"
    "owns cont T st' f' (live @ [p]) c (ys @ [cont v])"
    "evolves st (set (live @ cleared)) st' (set ((live @ [p]) @ c))" "length c = length cleared - 1"
    by (rule Add_store_ok [OF w(1,2) l])
  have "world cont T (Suc k) (st', f', outs) (ys @ [cont v], zs)"
    by (rule world_keep [OF assms(1) a(4,3)]) (use a(5) w(7) in simp)
  then show ?thesis using a(1,2) by simp
qed

lemma op_Add_move:
  assumes "world_at cont T k live cleared st f outs ys zs" "Suc k \<le> 1073741824"
  shows "\<exists>s'. run_op T L (Ptr_Add_move v) (st, f, outs) = Inr s' \<and> world cont T (Suc k) s' (ys @ [cont v], zs)"
proof -
  note w = world_atD [OF assms(1)]
  have l: "length live + length cleared < 1073741824" using w(7) assms(2) by simp
  obtain st' f' p c where a: "Add_move_ptr L st f v = Inr (st', f')"
    "owns cont T st' f' (live @ [p]) c (ys @ [cont v])"
    "evolves st (set (live @ cleared)) st' (set ((live @ [p]) @ c))" "length c = length cleared - 1"
    by (rule Add_move_ok [OF w(1,2) l])
  have "world cont T (Suc k) (st', f', outs) (ys @ [cont v], zs)"
    by (rule world_keep [OF assms(1) a(3,2)]) (use a(4) w(7) in simp)
  then show ?thesis using a(1) by simp
qed

lemma op_Set:
  assumes "world_at cont T k live cleared st f outs ys zs" "i < length ys"
  shows "\<exists>s'. run_op T L (Ptr_Set i v) (st, f, outs) = Inr s' \<and> world cont T k s' (ys[i := cont v], zs)"
proof -
  note w = world_atD [OF assms(1)]
  have i: "i < length live" using assms(2) owns_length [OF w(2)] by simp
  obtain st' where a: "store_object (live ! i) v st = Inr st'" "owns cont T st' f live cleared (ys[i := cont v])"
    "evolves st (set (live @ cleared)) st' (set (live @ cleared))" by (rule store_ok [OF w(1,2) i])
  have "world cont T k (st', f, outs) (ys[i := cont v], zs)" by (rule world_keep [OF assms(1) a(3,2) w(7)])
  then show ?thesis using a(1) Mutable_ok [OF w(2) assms(2)] by simp
qed

lemma op_RemoveLast:
  assumes "world_at cont T k live cleared st f outs ys zs" "ys \<noteq> []"
  shows "\<exists>s'. run_op T L Ptr_RemoveLast (st, f, outs) = Inr s' \<and> world cont T k s' (butlast ys, zs)"
proof -
  note w = world_atD [OF assms(1)]
  obtain l p y where s: "live = l @ [p]" "ys = butlast ys @ [y]" using last_split [OF w(2) assms(2)] by blast
  have o: "owns cont T st f (l @ [p]) cleared (butlast ys @ [y])" using w(2) s by simp
  obtain st' f' where a: "RemoveLast_ptr T st f = Inr (st', f')" "owns cont T st' f' l (p # cleared) (butlast ys)"
    "evolves st (set ((l @ [p]) @ cleared)) st' (set (l @ p # cleared))" by (rule RemoveLast_ptr_ok [OF w(1) o])
  have "world cont T k (st', f', outs) (butlast ys, zs)"
    by (rule world_keep [OF assms(1) a(3) [folded s(1)] a(2)]) (use w(7) s(1) in simp)
  then show ?thesis using a(1) by simp
qed

lemma op_Clear:
  assumes "world_at cont T k live cleared st f outs ys zs"
  shows "\<exists>s'. run_op T L Ptr_Clear (st, f, outs) = Inr s' \<and> world cont T k s' ([], zs)"
proof -
  note w = world_atD [OF assms]
  obtain st' f' where a: "Clear_ptr T st f = Inr (st', f')" "owns cont T st' f' [] (live @ cleared) []"
    "evolves st (set (live @ cleared)) st' (set (live @ cleared))" by (rule Clear_ptr_ok [OF w(1,2)])
  have "world cont T k (st', f', outs) ([], zs)"
    by (rule world_keep [OF assms, of st' "[]" "live @ cleared" f' "[]" k]) (use a(2,3) w(7) in simp_all)
  then show ?thesis using a(1) by simp
qed

text \<open>A new object of the client, on its way into the field.\<close>

lemma client_object:
  assumes "world_at cont T k live cleared st f outs ys zs"
  obtains st1 p where "new_object v None st = (st1, p)" "heap_ok st1" "owns cont T st1 f live cleared ys"
    "value_of cont st1 p = Some (cont v)" "p \<notin> set (live @ cleared)"
    "evolves st (set (live @ cleared)) st1 (insert p (set (live @ cleared)))"
proof -
  note w = world_atD [OF assms]
  obtain st1 p where p: "new_object v None st = (st1, p)" "objs st p = None" "evolves st {} st1 {p}"
    "value_of cont st1 p = Some (cont v)" by (rule new_object_ok [OF w(1)])
  have "p \<notin> set (live @ cleared)" using owns_dom [OF w(2)] p(2) by auto
  moreover have "owns cont T st1 f live cleared ys" by (rule owns_frame [OF p(3) w(2)]) simp
  moreover have "evolves st (set (live @ cleared)) st1 (insert p (set (live @ cleared)))"
    using evolves_within [OF p(3) _ owns_dom [OF w(2)]] by simp
  ultimately show ?thesis by (intro that [of st1 p]) (use p evolves_heap_ok [OF p(3)] in simp_all)
qed

lemma op_AddAllocated:
  assumes "world_at cont T k live cleared st f outs ys zs" "Suc k \<le> 1073741824"
  shows "\<exists>s'. run_op T L (Ptr_AddAllocated v) (st, f, outs) = Inr s' \<and> world cont T (Suc k) s' (ys @ [cont v], zs)"
proof -
  note w = world_atD [OF assms(1)]
  obtain st1 p where p: "new_object v None st = (st1, p)" "heap_ok st1" "owns cont T st1 f live cleared ys"
    "value_of cont st1 p = Some (cont v)" "p \<notin> set (live @ cleared)"
    "evolves st (set (live @ cleared)) st1 (insert p (set (live @ cleared)))" by (rule client_object [OF assms(1)])
  have l: "length live + length cleared < 1073741824" using w(7) assms(2) by simp
  obtain st' f' c where a: "AddAllocated T L st1 f p = Inr (st', f')" "owns cont T st' f' (live @ [p]) c (ys @ [cont v])"
    "evolves st1 (insert p (set (live @ cleared))) st' (set ((live @ [p]) @ c))" "length c \<le> length cleared"
    by (rule AddAllocated_ok [OF p(2,3) l p(4,5)])
  have "world cont T (Suc k) (st', f', outs) (ys @ [cont v], zs)"
    by (rule world_keep [OF assms(1) evolves_trans [OF p(6) a(3)] a(2)]) (use a(4) w(7) in simp)
  then show ?thesis using p(1) a(1) by simp
qed

lemma op_ReleaseLast:
  assumes "world_at cont T k live cleared st f outs ys zs" "ys \<noteq> []"
  shows "\<exists>s'. run_op T L Ptr_ReleaseLast (st, f, outs) = Inr s' \<and> world cont T k s' (butlast ys, zs @ [last ys])"
proof -
  note w = world_atD [OF assms(1)]
  obtain l p y where s: "live = l @ [p]" "ys = butlast ys @ [y]" "y = last ys" using last_split [OF w(2) assms(2)] by blast
  have o: "owns cont T st f (l @ [p]) cleared (butlast ys @ [y])" using w(2) s by simp
  obtain f' c where a: "ReleaseLast T st f = Inr (st, f', p)" "owns cont T st f' l c (butlast ys)"
    "length c = length cleared" "set c = set cleared" by (rule ReleaseLast_ok [OF w(1) o])
  have e: "evolves st (set (live @ cleared)) st (set (l @ c) \<union> set [p])"
    using evolves_refl [OF w(1) owns_dom [OF w(2)]] a(4) s(1) by simp
  have d: "set (l @ c) \<inter> set [p] = {}" using owns_facts(2) [OF o] a(4) by auto
  have v: "map (value_of cont st) [p] = map Some [last ys]" using owns_facts(3) [OF o] s(3) by simp
  have "world cont T k (st, f', outs @ [p]) (butlast ys, zs @ [last ys])"
    by (rule world_handed [OF assms(1) e a(2) d _ v]) (use a(3) w(7) s(1) in simp_all)
  then show ?thesis using a(1) by simp
qed

lemma op_AddCleared:
  assumes "world_at cont T k live cleared st f outs ys zs" "Suc k \<le> 1073741824"
  shows "\<exists>s'. run_op T L Ptr_AddCleared (st, f, outs) = Inr s' \<and> world cont T (Suc k) s' (ys, zs)"
proof -
  note w = world_atD [OF assms(1)]
  obtain st1 p where p: "new_object (th_new T) None st = (st1, p)" "heap_ok st1" "owns cont T st1 f live cleared ys"
    "value_of cont st1 p = Some (cont (th_new T))" "p \<notin> set (live @ cleared)"
    "evolves st (set (live @ cleared)) st1 (insert p (set (live @ cleared)))" by (rule client_object [OF assms(1)])
  have l: "length live + length cleared < 1073741824" using w(7) assms(2) by simp
  obtain f' where a: "AddCleared L f p = Inr f'" "owns cont T st1 f' live (cleared @ [p]) ys"
    by (rule AddCleared_ok [OF p(3) l p(4,5)])
  have "world cont T (Suc k) (st1, f', outs) (ys, zs)"
    by (rule world_keep [OF assms(1) _ a(2)]) (use p(6) w(7) in simp_all)
  then show ?thesis using p(1) a(1) by simp
qed

lemma op_ReleaseCleared:
  assumes "world_at cont T k live cleared st f outs ys zs"
  shows "\<exists>s'. run_op T L Ptr_ReleaseCleared (st, f, outs) = Inr s' \<and> world cont T k s' (ys, zs)"
proof (cases cleared rule: rev_cases)
  case Nil
  then have "ClearedCount f = 0"
    using field_holds_ClearedCount [OF owns_facts(1) [OF world_atD(2) [OF assms]]] by simp
  then show ?thesis using assms by (auto simp: world_def)
next
  case (snoc c p)
  note w = world_atD [OF assms]
  have n: "0 < ClearedCount f" using field_holds_ClearedCount [OF owns_facts(1) [OF w(2)]] snoc by simp
  obtain f' where a: "ReleaseCleared f = Inr (f', p)" "owns cont T st f' live c ys"
    by (rule ReleaseCleared_ok [OF w(2) [unfolded snoc]])
  have pd: "p \<in> dom (objs st)" using owns_dom [OF w(2)] snoc by simp
  obtain st' where d: "delete_object p st = Inr st'" "evolves st {p} st' {}" by (rule delete_object_ok [OF w(1) pd])
  have n': "p \<notin> set (live @ c)" using owns_facts(2) [OF w(2)] snoc by simp
  have o: "owns cont T st' f' live c ys" by (rule owns_frame [OF d(2) a(2)]) (use n' in simp)
  have "set (live @ cleared) - {p} \<union> {} = set (live @ c)" using n' snoc by auto
  then have e: "evolves st (set (live @ cleared)) st' (set (live @ c))"
    using evolves_within [OF d(2) _ owns_dom [OF w(2)]] snoc by simp
  have "world cont T k (st', f', outs) (ys, zs)"
    by (rule world_keep [OF assms e o]) (use w(7) snoc in simp)
  then show ?thesis using n a(1) d(1) by simp
qed

lemma op_Reserve:
  assumes "world_at cont T k live cleared st f outs ys zs" "n \<le> 1073741824"
  shows "\<exists>s'. run_op T L (Ptr_Reserve n) (st, f, outs) = Inr s' \<and> world cont T k s' (ys, zs)"
proof -
  note w = world_atD [OF assms(1)]
  obtain f' where a: "lib_Reserve L f (int n) = Inr f'" "owns cont T st f' live cleared ys"
    by (rule Reserve_ptr_ok [OF w(2), of "int n"]) (use assms(2) in auto)
  then show ?thesis using world_same [OF assms(1) a(2) refl w(7)] by simp
qed

lemma op_SwapElements:
  assumes "world_at cont T k live cleared st f outs ys zs" "i < length ys" "j < length ys"
  shows "\<exists>s'. run_op T L (Ptr_SwapElements i j) (st, f, outs) = Inr s' \<and>
    world cont T k s' (ys[i := ys ! j, j := ys ! i], zs)"
proof -
  note w = world_atD [OF assms(1)]
  obtain f' where a: "SwapElements_ptr f (int i) (int j) = Inr f'"
    "owns cont T st f' (live[i := live ! j, j := live ! i]) cleared (ys[i := ys ! j, j := ys ! i])"
    by (rule SwapElements_ptr_ok [OF w(2) assms(2,3)])
  have "set (live[i := live ! j, j := live ! i] @ cleared) = set (live @ cleared)"
    using assms(2,3) owns_length [OF w(2)] by simp
  then show ?thesis using a(1) world_same [OF assms(1) a(2)] w(7) by simp
qed

lemma op_ExtractSubrange:
  assumes "world_at cont T k live cleared st f outs ys zs" "s + n \<le> length ys"
  shows "\<exists>s'. run_op T L (Ptr_ExtractSubrange s n) (st, f, outs) = Inr s' \<and>
    world cont T k s' (take s ys @ drop (s + n) ys, zs @ take n (drop s ys))"
proof -
  note w = world_atD [OF assms(1)]
  note c = cut_values [OF w(2) assms(2)]
  obtain f' where a: "ExtractSubrange_ptr T L st f (int s) (int n) True = Inr (st, f', take n (drop s live))"
    "owns cont T st f' (take s live @ drop (s + n) live) cleared (take s ys @ drop (s + n) ys)"
    by (rule Extract_ok [OF w(1,2) assms(2)])
  have e: "evolves st (set (live @ cleared)) st (set ((take s live @ drop (s + n) live) @ cleared) \<union> set (take n (drop s live)))"
    unfolding c(6) [symmetric] by (rule evolves_refl [OF w(1) owns_dom [OF w(2)]])
  have "world cont T k (st, f', outs @ take n (drop s live)) (take s ys @ drop (s + n) ys, zs @ take n (drop s ys))"
    by (rule world_handed [OF assms(1) e a(2) _ c(4,2)]) (use c(5) w(7) in auto)
  then show ?thesis using a(1) by simp
qed

lemma op_DeleteSubrange:
  assumes "world_at cont T k live cleared st f outs ys zs" "s + n \<le> length ys"
  shows "\<exists>s'. run_op T L (Ptr_DeleteSubrange s n) (st, f, outs) = Inr s' \<and>
    world cont T k s' (take s ys @ drop (s + n) ys, zs)"
proof -
  note w = world_atD [OF assms(1)]
  obtain st' f' where a: "DeleteSubrange T L st f (int s) (int n) = Inr (st', f')"
    "owns cont T st' f' (take s live @ drop (s + n) live) cleared (take s ys @ drop (s + n) ys)"
    "evolves st (set (live @ cleared)) st' (set ((take s live @ drop (s + n) live) @ cleared))"
    by (rule DeleteSubrange_ok [OF w(1,2) assms(2)])
  have "world cont T k (st', f', outs) (take s ys @ drop (s + n) ys, zs)"
    by (rule world_keep [OF assms(1) a(3,2)]) (use w(7) in simp)
  then show ?thesis using a(1) by simp
qed

end

lemma evolves_new: "evolves st {} st' S \<Longrightarrow> A \<subseteq> dom (objs st) \<Longrightarrow> A \<inter> S = {}"
  unfolding evolves_def by blast

text \<open>The other field of a merge: it is filled before and destroyed afterwards.\<close>

lemma other_field:
  assumes "set (live @ cleared) \<subseteq> dom (objs st)" and "evolves st {} st1 (set (gl @ gc))"
    and "evolves st1 (set (live @ cleared)) st2 (set (l @ c))" and "owns cont T st2 f l c ys" and "owns cont T st1 g gl gc zs"
  obtains st3 g' where "Destroy g st2 = Inr (st3, g')" "owns cont T st3 f l c ys"
    "evolves st (set (live @ cleared)) st3 (set (l @ c))"
proof -
  let ?A = "set (live @ cleared)" and ?B = "set (l @ c)" and ?G = "set (gl @ gc)"
  have new: "dom (objs st) \<inter> ?G = {}" by (rule evolves_new [OF assms(2)]) simp
  have d1: "dom (objs st1) = dom (objs st) \<union> ?G" using evolves_dom [OF assms(2)] by simp
  have AG: "?A \<inter> ?G = {}" using new assms(1) by blast
  have G1: "?G \<subseteq> dom (objs st1) - ?A" using AG unfolding d1 by blast
  have BG: "?B \<inter> ?G = {}" using assms(3) G1 unfolding evolves_def by blast
  have g: "owns cont T st2 g gl gc zs" by (rule owns_frame [OF assms(3,5)]) (use AG in blast)
  obtain st3 g' where d: "Destroy g st2 = Inr (st3, g')" "evolves st2 ?G st3 {}"
    by (rule Destroy_ok [OF evolves_heap_ok [OF assms(3)] g])
  have "owns cont T st3 f l c ys" by (rule owns_frame [OF d(2) assms(4) BG])
  moreover have "evolves st ?A st1 (?A \<union> ?G)" using evolves_within [OF assms(2) _ assms(1)] by simp
  moreover have "evolves st1 (?A \<union> ?G) st2 (?B \<union> ?G)" by (rule evolves_frame [OF assms(3) G1])
  moreover have "evolves st2 (?B \<union> ?G) st3 ?B"
  proof -
    have "?B \<union> ?G \<subseteq> dom (objs st2)" using owns_dom [OF assms(4)] owns_dom [OF g] by (rule Un_least)
    moreover have "?B \<union> ?G - ?G \<union> {} = ?B" using BG by blast
    ultimately show ?thesis using evolves_within [OF d(2), of "?B \<union> ?G"] by simp
  qed
  ultimately show ?thesis using that [OF d(1)] evolves_trans by blast
qed

context repeated_ptr
begin

lemma op_MergeFrom:
  assumes "world_at cont T k live cleared st f outs ys zs" "k + length vs \<le> 1073741824"
  shows "\<exists>s'. run_op T L (Ptr_MergeFrom vs) (st, f, outs) = Inr s' \<and> world cont T (k + length vs) s' (ys @ map cont vs, zs)"
proof -
  note w = world_atD [OF assms(1)]
  have v: "length vs \<le> 1073741824" using assms(2) by simp
  obtain st1 g gl gc where r: "range_PtrField T L True st vs = Inr (st1, g)" "owns cont T st1 g gl gc (map cont vs)"
    "evolves st {} st1 (set (gl @ gc))" by (rule range_ok [OF w(1) v])
  have f1: "owns cont T st1 f live cleared ys" by (rule owns_frame [OF r(3) w(2)]) simp
  have n: "set (live @ cleared) \<inter> set gl = {}" using evolves_new [OF r(3) owns_dom [OF w(2)]] by auto
  have le: "length ys + length (map cont vs) \<le> 1073741824" using w(7) assms(2) owns_length [OF w(2)] by simp
  obtain st2 f' l c where m: "MergeFrom_ptr T L st1 f g = Inr (st2, f')" "owns cont T st2 f' l c (ys @ map cont vs)"
    "evolves st1 (set (live @ cleared)) st2 (set (l @ c))"
    "length l + length c \<le> length live + length cleared + length (map cont vs)"
    by (rule MergeFrom_ptr_ok [OF evolves_heap_ok [OF r(3)] f1 r(2) n le])
  obtain st3 g' where d: "Destroy g st2 = Inr (st3, g')" "owns cont T st3 f' l c (ys @ map cont vs)"
    "evolves st (set (live @ cleared)) st3 (set (l @ c))"
    by (rule other_field [OF owns_dom [OF w(2)] r(3) m(3,2) r(2)])
  have "world cont T (k + length vs) (st3, f', outs) (ys @ map cont vs, zs)"
    by (rule world_keep [OF assms(1) d(3,2)]) (use m(4) w(7) in simp)
  then show ?thesis using r(1) m(1) d(1) by simp
qed

lemma op_CopyFrom:
  assumes "world_at cont T k live cleared st f outs ys zs" "k + length vs \<le> 1073741824"
  shows "\<exists>s'. run_op T L (Ptr_CopyFrom vs) (st, f, outs) = Inr s' \<and> world cont T (k + length vs) s' (map cont vs, zs)"
proof -
  note w = world_atD [OF assms(1)]
  have v: "length vs \<le> 1073741824" "length (map cont vs) \<le> 1073741824" using assms(2) by simp_all
  obtain st1 g gl gc where r: "range_PtrField T L True st vs = Inr (st1, g)" "owns cont T st1 g gl gc (map cont vs)"
    "evolves st {} st1 (set (gl @ gc))" by (rule range_ok [OF w(1) v(1)])
  have f1: "owns cont T st1 f live cleared ys" by (rule owns_frame [OF r(3) w(2)]) simp
  have n: "set (live @ cleared) \<inter> set (gl @ gc) = {}" by (rule evolves_new [OF r(3) owns_dom [OF w(2)]])
  obtain st2 f' l c where m: "CopyFrom_ptr T L False st1 f g = Inr (st2, f')" "owns cont T st2 f' l c (map cont vs)"
    "evolves st1 (set (live @ cleared)) st2 (set (l @ c))"
    "length l + length c \<le> length live + length cleared + length (map cont vs)"
    by (rule CopyFrom_ptr_ok [OF evolves_heap_ok [OF r(3)] f1 r(2) n v(2)])
  obtain st3 g' where d: "Destroy g st2 = Inr (st3, g')" "owns cont T st3 f' l c (map cont vs)"
    "evolves st (set (live @ cleared)) st3 (set (l @ c))"
    by (rule other_field [OF owns_dom [OF w(2)] r(3) m(3,2) r(2)])
  have "world cont T (k + length vs) (st3, f', outs) (map cont vs, zs)"
    by (rule world_keep [OF assms(1) d(3,2)]) (use m(4) w(7) in simp)
  then show ?thesis using r(1) m(1) d(1) by simp
qed

lemmas op_oks = op_Add op_Add_move op_Set op_RemoveLast op_Clear op_AddAllocated op_ReleaseLast op_AddCleared
  op_ReleaseCleared op_Reserve op_SwapElements op_ExtractSubrange op_DeleteSubrange op_MergeFrom op_CopyFrom

lemma run_op_ok:
  assumes "world cont T k (st, f, outs) (ys, zs)" "valid_op x (length ys)" "k + op_growth x \<le> 1073741824"
  shows "\<exists>s'. run_op T L x (st, f, outs) = Inr s' \<and> world cont T (k + op_growth x) s' (spec_op cont x (ys, zs))"
proof -
  obtain live cleared where w: "world_at cont T k live cleared st f outs ys zs"
    using assms(1) by (auto simp: world_def)
  show ?thesis using assms(2,3) by (cases x) (use op_oks [OF w] in simp_all)
qed

lemma run_ops_ok:
  "world cont T k s a \<Longrightarrow> valid_ops cont xs a \<Longrightarrow> k + sum_list (map op_growth xs) \<le> 1073741824 \<Longrightarrow>
   \<exists>s'. run_ops T L xs s = Inr s' \<and> world cont T (k + sum_list (map op_growth xs)) s' (foldl (\<lambda>a x. spec_op cont x a) a xs)"
proof (induction xs arbitrary: k s a)
  case (Cons x xs)
  obtain st f outs where s: "s = (st, f, outs)" by (cases s)
  obtain ys zs where a: "a = (ys, zs)" by (cases a)
  have "k + op_growth x \<le> 1073741824" using Cons.prems(3) by simp
  from run_op_ok [OF Cons.prems(1) [unfolded s a] _ this] Cons.prems(2) obtain s1 where
    s1: "run_op T L x s = Inr s1" "world cont T (k + op_growth x) s1 (spec_op cont x a)" unfolding s a by auto
  from Cons.IH [OF s1(2)] Cons.prems(2,3) s1(1) show ?case by (simp add: add.assoc)
qed auto

text \<open>
  A session with a field: it computes the lists, and when the field is destroyed exactly the objects the client holds remain.
\<close>

lemma session_ok:
  assumes "valid_ops cont xs ([], [])" "sum_list (map op_growth xs) \<le> 1073741824"
    "foldl (\<lambda>a x. spec_op cont x a) ([], []) xs = (ys, zs)"
  obtains st f outs st' f' where "run_ops T L xs (empty_store, new_PtrField, []) = Inr (st, f, outs)"
    "size_ptr f = int (length ys)" "\<forall>i<length ys. \<exists>v. Get_ptr st f (int i) = Inr v \<and> cont v = ys ! i"
    "Destroy f st = Inr (st', f')" "dom (objs st') = set outs" "distinct outs" "map (value_of cont st') outs = map Some zs"
proof -
  have "world_at cont T 0 [] [] empty_store new_PtrField [] [] []"
    by (simp add: world_at_def heap_ok_def empty_store_def)
  then have "world cont T 0 (empty_store, new_PtrField, []) ([], [])" by (auto simp: world_def)
  from run_ops_ok [OF this assms(1)] assms(2) obtain s' where
    s': "run_ops T L xs (empty_store, new_PtrField, []) = Inr s'"
    "world cont T (0 + sum_list (map op_growth xs)) s' (foldl (\<lambda>a x. spec_op cont x a) ([], []) xs)" by auto
  obtain st f outs where s: "s' = (st, f, outs)" by (cases s')
  obtain live cleared where w: "world_at cont T (0 + sum_list (map op_growth xs)) live cleared st f outs ys zs"
    using s'(2) unfolding s assms(3) by (auto simp: world_def)
  note w = world_atD [OF w]
  obtain st' f' where d: "Destroy f st = Inr (st', f')" "prep f' = None" "evolves st (set (live @ cleared)) st' {}"
    by (rule Destroy_ok [OF w(1,2)])
  have "map (value_of cont st') outs = map (value_of cont st) outs"
    by (rule values_frame [OF d(3)]) (use w(3,4) in auto)
  moreover have "dom (objs st') = set outs" using evolves_dom [OF d(3)] w(3,4) by blast
  moreover have "size_ptr f = int (length ys)"
    using field_holds_size [OF owns_facts(1) [OF w(2)]] owns_length [OF w(2)] by (simp add: size_ptr_def)
  ultimately show ?thesis
    by (intro that [OF s'(1) [unfolded s] _ _ d(1)]) (use w(5,6) Get_ptr_ok [OF w(2)] in simp_all)
qed

end

section \<open>Properties\<close>

lemma InternalSwap_ptr_eq: "arena f = arena g \<Longrightarrow> InternalSwap_ptr f g = (g, f)"
  by (cases f; cases g) (simp add: InternalSwap_ptr_def)

lemma Swap_ptr_ok: "arena f = arena g \<Longrightarrow> Swap_ptr T L False st f g = Inr (st, g, f)"
  by (simp add: Swap_ptr_def Swap_base_def InternalSwap_ptr_eq)

lemma move_ptr_ok:
  "arena g = None \<Longrightarrow> move_PtrField T L st g = Inr (st, g, new_PtrField)"
  "arena f = arena g \<Longrightarrow> PtrField_move_assign T L False st f g = Inr (st, g, f)"
  by (simp_all add: move_PtrField_def PtrField_move_assign_def InternalSwap_ptr_eq)

definition spec_ops :: "('v \<Rightarrow> 'c) \<Rightarrow> 'v ptr_op list \<Rightarrow> 'c list \<times> 'c list" where
  "spec_ops cont xs = foldl (\<lambda>a x. spec_op cont x a) ([], []) xs"

text \<open>A client of at most \<open>2^30\<close> new elements that respects the sizes.\<close>

definition good_client :: "('v \<Rightarrow> 'c) \<Rightarrow> 'v ptr_op list \<Rightarrow> bool" where
  "good_client cont xs \<longleftrightarrow> valid_ops cont xs ([], []) \<and> sum_list (map op_growth xs) \<le> 1073741824"

context protobuf_runtime
begin

lemma login_field:
  assumes "pointer_array L"
  shows "repeated_ptr (GenericTypeHandler new_stLogin_C (stLogin_C_Clear R) (stLogin_C_MergeFrom R) space)
    (stLogin_C_content R) L"
  by (intro repeated_ptr.intro lg_c.message_handler assms)

end

text \<open>What the pointers of the client hold, read through them.\<close>

lemma loads_of_values:
  "map (value_of cont st) ps = map Some zs \<Longrightarrow> map (\<lambda>p. map_sum (\<lambda>e. e) cont (load_object p st)) ps = map Inr zs"
proof (induction ps arbitrary: zs)
  case (Cons p ps)
  then obtain z zs' where z: "zs = z # zs'" "value_of cont st p = Some z" "map (value_of cont st) ps = map Some zs'"
    by (cases zs) auto
  then have "map_sum (\<lambda>e. e) cont (load_object p st) = Inr z" by (auto simp: value_of_def load_object_def)
  then show ?case using Cons.IH [OF z(3)] z(1) by simp
qed simp

text \<open>
  C24: \<open>RepeatedPtrField<std::string>\<close> refines lists and owns its objects.  Take any client that adds, assigns, removes, clears, merges,
  copies, swaps, cuts out and deletes elements within the size, gives objects to the field and takes objects from it, in any
  order.  Nothing faults; in the end the field reads as the list of the abstract operations, whatever was reused in between; and
  destroying it leaves exactly the objects the client was given, each of them once and with its value: nothing leaks, nothing is
  deleted twice, nothing the client holds is deleted.
\<close>

theorem repeated_ptr_refines:
  assumes "pointer_array L" and "good_client (\<lambda>v. v) xs" and "spec_ops (\<lambda>v. v) xs = (ys, zs)"
  shows "\<exists>st f outs st' f'. run_ops (StringTypeHandler n space) L xs (empty_store, new_PtrField, []) = Inr (st, f, outs) \<and>
    size_ptr f = int (length ys) \<and> (\<forall>i<length ys. Get_ptr st f (int i) = Inr (ys ! i)) \<and>
    Destroy f st = Inr (st', f') \<and> dom (objs st') = set outs \<and> distinct outs \<and>
    map (\<lambda>p. load_object p st') outs = map Inr zs"
proof -
  obtain st f outs st' f' where s: "run_ops (StringTypeHandler n space) L xs (empty_store, new_PtrField, []) = Inr (st, f, outs)"
    "size_ptr f = int (length ys)" "\<forall>i<length ys. \<exists>v. Get_ptr st f (int i) = Inr v \<and> v = ys ! i"
    "Destroy f st = Inr (st', f')" "dom (objs st') = set outs" "distinct outs" "map (value_of (\<lambda>v. v) st') outs = map Some zs"
    by (rule repeated_ptr.session_ok [OF pointer_array.strings_field [OF assms(1)], of xs ys zs n space])
      (use assms(2,3) in \<open>auto simp: good_client_def spec_ops_def\<close>)
  have "map_sum (\<lambda>e. e) (\<lambda>v. v) = (\<lambda>r :: byte list res. r)" by (rule ext) (simp add: map_sum_def split: sum.split)
  then have "map (\<lambda>p. load_object p st') outs = map Inr zs" using loads_of_values [OF s(7)] by simp
  then show ?thesis using s(1-6) by blast
qed

theorem repeated_ptr_refines_witness:
  "\<exists>st f outs st' f'. run_ops (StringTypeHandler 32 length) sim_array
       [Ptr_Add [1], Ptr_Add_move [2], Ptr_RemoveLast, Ptr_AddAllocated [3], Ptr_MergeFrom [[4], [5, 6]], Ptr_ReleaseLast,
        Ptr_ExtractSubrange 0 1, Ptr_AddCleared, Ptr_Add [7], Ptr_Reserve 20, Ptr_SwapElements 0 1, Ptr_DeleteSubrange 0 1]
       (empty_store, new_PtrField, []) = Inr (st, f, outs) \<and>
     size_ptr f = 2 \<and> Get_ptr st f 0 = Inr [3] \<and> Get_ptr st f 1 = Inr [7] \<and>
     Destroy f st = Inr (st', f') \<and> dom (objs st') = set outs \<and> map (\<lambda>p. load_object p st') outs = [Inr [5, 6], Inr [1]]"
  (is "\<exists>st f outs st' f'. run_ops ?T sim_array ?xs _ = Inr (st, f, outs) \<and> _")
proof -
  have g: "good_client (\<lambda>v. v) ?xs" by (simp add: good_client_def)
  have s: "spec_ops (\<lambda>v. v) ?xs = ([[3], [7]], [[5, 6], [1]])" by (simp add: spec_ops_def)
  from repeated_ptr_refines [OF sim_array.pointer_array_axioms g s, of 32 length]
  obtain st f outs st' f' where r: "run_ops ?T sim_array ?xs (empty_store, new_PtrField, []) = Inr (st, f, outs)"
    "size_ptr f = int (length [[3], [7 :: byte]])" "\<forall>i<length [[3], [7 :: byte]]. Get_ptr st f (int i) = Inr ([[3], [7]] ! i)"
    "Destroy f st = Inr (st', f')" "dom (objs st') = set outs"
    "map (\<lambda>p. load_object p st') outs = map Inr [[5, 6], [1]]"
    by (elim exE conjE) (rule that)
  have "Get_ptr st f 0 = Inr [3]" "Get_ptr st f 1 = Inr [7]" using r(3) [rule_format, of 0] r(3) [rule_format, of 1] by simp_all
  moreover have "size_ptr f = 2" using r(2) by simp
  moreover have "map (\<lambda>p. load_object p st') outs = [Inr [5, 6], Inr [1]]" unfolding r(6) by simp
  ultimately show ?thesis using r(1,4,5)
    by - (rule exI [of _ st], rule exI [of _ f], rule exI [of _ outs], rule exI [of _ st'], rule exI [of _ f'], intro conjI)
qed

text \<open>
  C25: \<open>RepeatedPtrField\<close> of login requests: the same for objects that are copied by \<open>MergeFrom\<close> and reset by \<open>Clear\<close> of the generated
  class, with the content of a message (its strings and unknown fields) as the value.  Merging fields of messages reuses cleared
  messages, and their content is that of the messages merged.
\<close>

theorem repeated_messages_refine:
  assumes "protobuf_runtime R written" and "pointer_array L" and "good_client (stLogin_C_content R) xs"
    and "spec_ops (stLogin_C_content R) xs = (ys, zs)"
  shows "\<exists>st f outs st' f'. run_ops (GenericTypeHandler new_stLogin_C (stLogin_C_Clear R) (stLogin_C_MergeFrom R) space) L xs
      (empty_store, new_PtrField, []) = Inr (st, f, outs) \<and>
    size_ptr f = int (length ys) \<and> (\<forall>i<length ys. \<exists>m. Get_ptr st f (int i) = Inr m \<and> stLogin_C_content R m = ys ! i) \<and>
    Destroy f st = Inr (st', f') \<and> dom (objs st') = set outs \<and> distinct outs \<and>
    map (\<lambda>p. map_sum (\<lambda>e. e) (stLogin_C_content R) (load_object p st')) outs = map Inr zs"
proof -
  obtain st f outs st' f' where s: "run_ops (GenericTypeHandler new_stLogin_C (stLogin_C_Clear R) (stLogin_C_MergeFrom R) space) L xs
      (empty_store, new_PtrField, []) = Inr (st, f, outs)"
    "size_ptr f = int (length ys)" "\<forall>i<length ys. \<exists>m. Get_ptr st f (int i) = Inr m \<and> stLogin_C_content R m = ys ! i"
    "Destroy f st = Inr (st', f')" "dom (objs st') = set outs" "distinct outs"
    "map (value_of (stLogin_C_content R) st') outs = map Some zs"
    by (rule repeated_ptr.session_ok [OF protobuf_runtime.login_field [OF assms(1,2)], of xs ys zs space])
      (use assms(3,4) in \<open>auto simp: good_client_def spec_ops_def\<close>)
  show ?thesis using s(1-6) loads_of_values [OF s(7)] by blast
qed

theorem repeated_messages_refine_witness:
  "\<exists>st f outs st' f'. run_ops (GenericTypeHandler new_stLogin_C (stLogin_C_Clear sim_rt) (stLogin_C_MergeFrom sim_rt) (\<lambda>m. 0)) sim_array
       [Ptr_Add sample_lc, Ptr_Clear, Ptr_MergeFrom [sample_lc, sample_lc], Ptr_ReleaseLast]
       (empty_store, new_PtrField, []) = Inr (st, f, outs) \<and>
     size_ptr f = 1 \<and> Destroy f st = Inr (st', f') \<and> dom (objs st') = set outs \<and>
     map (\<lambda>p. map_sum (\<lambda>e. e) (stLogin_C_content sim_rt) (load_object p st')) outs = [Inr ([97, 98], [99], [])]"
  (is "\<exists>st f outs st' f'. run_ops ?T sim_array ?xs _ = Inr (st, f, outs) \<and> _")
proof -
  have c: "stLogin_C_content sim_rt sample_lc = ([97, 98], [99], [])" by code_simp
  have g: "good_client (stLogin_C_content sim_rt) ?xs" by (simp add: good_client_def)
  have s: "spec_ops (stLogin_C_content sim_rt) ?xs = ([([97, 98], [99], [])], [([97, 98], [99], [])])"
    by (simp add: spec_ops_def c)
  from repeated_messages_refine [OF sim_rt_ok sim_array.pointer_array_axioms g s, of "\<lambda>m. 0"] show ?thesis by auto
qed

end
