(* ===== verification/Tools.thy ===== *)
theory Tools
  imports LogManager
begin

text \<open>
  Small parts of the program that its server does not need: the memory dump, the clock and the singleton macros of
  \<open>oryx/common.h\<close>, \<open>oryx/SignalTool.h\<close>, and the file experiment \<open>clientTest/threadtest.cpp\<close>, in which several threads
  append lines to one hourly file.  Standard output is the text a function returns.
\<close>

section \<open>common.h\<close>

text \<open>\<open>%8d\<close>, which fills with blanks.\<close>

definition printf_8d :: "int \<Rightarrow> string" where
  "printf_8d n = (let ds = printf_0d 0 n in replicate (8 - length ds) (CHR '' '') @ ds)"

fun dump_from :: "mem \<Rightarrow> int \<Rightarrow> int \<Rightarrow> nat \<Rightarrow> string res" where
  "dump_from m i len 0 = Inr []"
| "dump_from m i len (Suc n) =
     bind_res (mem_load m i 1) (\<lambda>cs.
     case cs of
       [Some b] \<Rightarrow>
         bind_res (dump_from m (i + 1) len n) (\<lambda>u.
         Inr ((if i mod 8 = 0 then [CHR 0x0A] else []) @ printf_8d (sint b) @ u))
     | _ \<Rightarrow> Inl Uninit_read)"

definition printMemery :: "mem option \<Rightarrow> int \<Rightarrow> string res" where
  "printMemery data len =
     (let head = ''printMemery len:'' @ printf_0d 0 len @ [CHR 0x0A] in
      case data of
        None \<Rightarrow> Inr head
      | Some m \<Rightarrow>
          if len \<le> 0 then Inr head
          else bind_res (dump_from m 0 len (nat len)) (\<lambda>u. Inr (head @ u @ [CHR 0x0A])))"

definition GetCourrentTime :: "('o, 'q) env \<Rightarrow> 'o \<Rightarrow> 'o \<times> int" where
  "GetCourrentTime E s = os_time E s"

text \<open>\<open>SINGLETON_DECLEAR\<close>: the static pointer is an argument, \<open>new\<close> the object that the constructor makes.\<close>

definition singleton_getInstance :: "'a \<Rightarrow> 'a option \<Rightarrow> 'a option \<times> 'a" where
  "singleton_getInstance new m_singleton =
     (case m_singleton of None \<Rightarrow> (Some new, new) | Some x \<Rightarrow> (m_singleton, x))"

definition singleton_initManager :: "'a \<Rightarrow> 'a option \<Rightarrow> 'a option \<times> 'a" where
  "singleton_initManager obj m_singleton =
     (case m_singleton of None \<Rightarrow> (Some obj, obj) | Some x \<Rightarrow> (m_singleton, x))"

section \<open>SignalTool\<close>

definition SignalIgnore :: "('o, 'q) env \<Rightarrow> 'o \<Rightarrow> int \<Rightarrow> 'o" where
  "SignalIgnore E s iSignalValue = os_sigaction_ignore E s iSignalValue"

text \<open>\<open>signal\<close> is not used by the server and is an argument.\<close>

definition SetSignalHandler :: "('o \<Rightarrow> int \<Rightarrow> 'h \<Rightarrow> 'o) \<Rightarrow> 'o \<Rightarrow> int \<Rightarrow> 'h \<Rightarrow> 'o" where
  "SetSignalHandler signal s iSignalValue pfHandler = signal s iSignalValue pfHandler"

section \<open>threadtest.cpp\<close>

definition try_line :: "int \<Rightarrow> int \<Rightarrow> string" where
  "try_line threadid tryt = ''thread '' @ printf_0d 0 threadid @ '' try '' @ printf_0d 0 tryt @ '' '' @ [CHR 0x0A]"

definition writefd :: "('o, 'q) env \<Rightarrow> 'o \<Rightarrow> int \<Rightarrow> int \<Rightarrow> 'o res" where
  "writefd E s threadid tryt =
     (case os_time E s of
        (s, timeNow) \<Rightarrow>
          bind_res (log_file_name ''game'' (os_localtime E timeNow)) (\<lambda>n.
          case os_fopen E s n of
            (s, None) \<Rightarrow> Inr s
          | (s, Some fp) \<Rightarrow> Inr (os_fclose E (os_fputs E s fp (try_line threadid tryt)) fp)))"

text \<open>The loop \<open>while (a_try++ < 100)\<close> with \<open>n\<close> rounds left.\<close>

fun try_loop :: "('o, 'q) env \<Rightarrow> int \<Rightarrow> int \<Rightarrow> nat \<Rightarrow> 'o \<Rightarrow> 'o res" where
  "try_loop E param a_try 0 s = Inr s"
| "try_loop E param a_try (Suc n) s = bind_res (writefd E s param (a_try + 1)) (try_loop E param (a_try + 1) n)"

definition filetest :: "('o, 'q) env \<Rightarrow> int \<Rightarrow> 'o \<Rightarrow> 'o res" where
  "filetest E param s = try_loop E param 0 100 s"

text \<open>
  \<open>main1\<close> starts five threads.  A schedule lists which of them makes its next call; \<open>tries i\<close> counts the
  calls of thread \<open>i\<close>.
\<close>

fun run_threads :: "('o, 'q) env \<Rightarrow> (int \<Rightarrow> int) \<Rightarrow> int list \<Rightarrow> 'o \<Rightarrow> 'o res" where
  "run_threads E tries [] s = Inr s"
| "run_threads E tries (i # sched) s =
     bind_res (writefd E s i (tries i + 1)) (run_threads E (tries(i := tries i + 1)) sched)"

text \<open>The lines a schedule writes.\<close>

fun sched_lines :: "(int \<Rightarrow> int) \<Rightarrow> int list \<Rightarrow> string list" where
  "sched_lines tries [] = []"
| "sched_lines tries (i # sched) = try_line i (tries i + 1) # sched_lines (tries(i := tries i + 1)) sched"

section \<open>Lemmas\<close>

lemma singleton_once:
  "singleton_getInstance new (fst (singleton_initManager obj None)) = (Some obj, obj)"
  "snd (singleton_initManager obj' (fst (singleton_initManager obj None))) = obj"
  by (simp_all add: singleton_getInstance_def singleton_initManager_def)

text \<open>The dump reads exactly the first \<open>len\<close> bytes.\<close>

lemma dump_from_ok:
  "map Some bs = take n (drop i m) \<Longrightarrow> length bs = n \<Longrightarrow>
   dump_from m (int i) len n =
     Inr (concat (map (\<lambda>(j, b). (if j mod 8 = 0 then [CHR 0x0A] else []) @ printf_8d (sint b)) (zip [i..<i + n] bs)))"
proof (induction n arbitrary: i bs)
  case (Suc n)
  then obtain b bs' where bs: "bs = b # bs'" "length bs' = n" by (cases bs) auto
  have i: "i < length m" using Suc.prems(1) bs by (cases "i < length m") auto
  then have d: "drop i m = m ! i # drop (Suc i) m" by (rule Cons_nth_drop_Suc [symmetric])
  have b: "m ! i = Some b" and r: "map Some bs' = take n (drop (Suc i) m)" using Suc.prems(1) bs d by auto
  have u: "[i..<i + Suc n] = i # [Suc i..<Suc i + n]" using upt_conv_Cons [of i "i + Suc n"] by simp
  have l: "mem_load m (int i) 1 = Inr [Some b]" using i d b by (simp add: mem_load_def)
  have z: "int i mod 8 = 0 \<longleftrightarrow> i mod 8 = 0" by (metis int_ops(3) of_nat_eq_0_iff zmod_int)
  have "dump_from m (int i + 1) len n = dump_from m (int (Suc i)) len n" by (simp add: add.commute)
  then show ?case unfolding u bs(1) using l Suc.IH [OF r bs(2)] z by simp
qed simp

lemma printMemery_ok:
  assumes "length bs = nat len" "take (nat len) m = map Some bs" "0 < len"
  shows "\<exists>u. printMemery (Some m) len = Inr u"
  using dump_from_ok [of bs "nat len" 0 m len] assms by (simp add: printMemery_def Let_def)

context log_files
begin

lemma writefd_appends:
  assumes "\<forall>t. calendar (os_localtime E t)" "\<forall>s n. snd (os_fopen E s n) \<noteq> None"
  shows "\<exists>s' n. writefd E s i t = Inr s' \<and> content s' = (content s)(n := content s n @ try_line i t)"
proof -
  obtain s1 now where t: "os_time E s = (s1, now)" by (cases "os_time E s")
  obtain n where n: "log_file_name ''game'' (os_localtime E now) = Inr n"
    using log_file_name_cases [of "os_localtime E now" "''game''"] assms(1) by simp
  obtain s2 h where o: "os_fopen E s1 n = (s2, Some h)" using assms(2) by (metis not_None_eq prod.collapse)
  have "open_on s2 h n" "content s2 = content s" using file_time [OF t] file_open [OF o] by simp_all
  then show ?thesis
    using t n o file_puts [of s2 h n "try_line i t"]
    by (intro exI [of _ "os_fclose E (os_fputs E s2 h (try_line i t)) h"] exI [of _ n]) (simp add: writefd_def file_close)
qed

lemma run_threads_append:
  assumes "\<forall>t. calendar (os_localtime E t)" "\<forall>s n. snd (os_fopen E s n) \<noteq> None"
  shows "\<exists>s' ns. run_threads E tries sched s = Inr s' \<and> length ns = length sched \<and>
    (\<forall>m. content s' m = content s m @ concat (map snd (filter (\<lambda>p. fst p = m) (zip ns (sched_lines tries sched)))))"
proof (induction sched arbitrary: tries s)
  case Nil
  then show ?case by (intro exI [of _ s] exI [of _ "[]"]) simp
next
  case (Cons i sched)
  obtain s1 n where s1: "writefd E s i (tries i + 1) = Inr s1"
      "content s1 = (content s)(n := content s n @ try_line i (tries i + 1))"
    using writefd_appends [OF assms] by blast
  obtain s' ns where s': "run_threads E (tries(i := tries i + 1)) sched s1 = Inr s'" "length ns = length sched"
      "\<forall>m. content s' m = content s1 m @ concat (map snd (filter (\<lambda>p. fst p = m)
        (zip ns (sched_lines (tries(i := tries i + 1)) sched))))"
    using Cons.IH by blast
  show ?case
    by (intro exI [of _ s'] exI [of _ "n # ns"]) (use s1 s' in simp)
qed

end

lemma length_sched_lines [simp]: "length (sched_lines tries sched) = length sched"
  by (induction sched arbitrary: tries) simp_all

lemma try_loop_eq: "tries i = a \<Longrightarrow> try_loop E i a n s = run_threads E tries (replicate n i) s"
proof (induction n arbitrary: tries a s)
  case (Suc n)
  have "try_loop E i (a + 1) n = (\<lambda>s. run_threads E (tries(i := a + 1)) (replicate n i) s)"
    by (rule ext, rule Suc.IH) simp
  then show ?case using Suc.prems by simp
qed simp

lemma filetest_eq: "filetest E i s = run_threads E (\<lambda>_. 0) (replicate 100 i) s"
  unfolding filetest_def by (rule try_loop_eq) simp

end
